(* ===== verification/Prelude.thy ===== *)
theory Prelude
  imports Main "HOL-Library.Word" "HOL-Library.Monad_Syntax" "HOL-Library.Signed_Division"
begin

text \<open>
  Shared vocabulary of the development: Go's fixed-width integers as \<^typ>\<open>int\<close> with the
  wrap-around written out, the decimal formatting verbs of package \<open>fmt\<close> that the program
  uses, indexing and slicing that fail the way Go panics, and the generic list lemmas the
  components share.  A result of type \<open>'a option\<close> is the value of code that may panic:
  \<open>None\<close> is the panic.
\<close>

named_theorems go_arith \<open>facts that remove wrap-around from in-range integer arithmetic\<close>

named_theorems go_index \<open>facts about indexing and slicing\<close>

subsection \<open>Fixed-width integers\<close>

definition wrap64 :: "int \<Rightarrow> int" where
  "wrap64 x = (x + 2 ^ 63) mod 2 ^ 64 - 2 ^ 63"

definition wrap32 :: "int \<Rightarrow> int" where
  "wrap32 x = (x + 2 ^ 31) mod 2 ^ 32 - 2 ^ 31"

lemma wrap64_id [go_arith]: "- (2 ^ 63) \<le> x \<Longrightarrow> x < 2 ^ 63 \<Longrightarrow> wrap64 x = x"
  by (simp add: wrap64_def)

lemma wrap64_nonneg: "0 \<le> x \<Longrightarrow> x \<le> 9223372036854775807 \<Longrightarrow> wrap64 x = x"
  by (simp add: wrap64_def)

lemma wrap32_id [go_arith]: "- (2 ^ 31) \<le> x \<Longrightarrow> x < 2 ^ 31 \<Longrightarrow> wrap32 x = x"
  by (simp add: wrap32_def)

lemma wrap64_range: "- (2 ^ 63) \<le> wrap64 x \<and> wrap64 x < 2 ^ 63"
proof -
  have "0 \<le> (x + 2 ^ 63) mod 2 ^ 64" and "(x + 2 ^ 63) mod 2 ^ 64 < (2 ^ 64 :: int)"
    by simp_all
  then show ?thesis by (simp add: wrap64_def)
qed

lemma wrap64_mod: "wrap64 x mod 2 ^ 64 = x mod 2 ^ 64"
  unfolding wrap64_def by (metis add_diff_cancel_right' mod_diff_left_eq)

lemma wrap64_cong: "x mod 2 ^ 64 = y mod 2 ^ 64 \<Longrightarrow> wrap64 x = wrap64 y"
  unfolding wrap64_def by (metis mod_add_left_eq)

lemma wrap64_absorb_add: "wrap64 (wrap64 x + y) = wrap64 (x + y)"
  by (rule wrap64_cong) (metis mod_add_left_eq wrap64_mod)

lemma wrap64_absorb_mult: "wrap64 (wrap64 x * y) = wrap64 (x * y)"
  by (rule wrap64_cong) (metis mod_mult_left_eq wrap64_mod)

lemma wrap64_wrap64 [simp]: "wrap64 (wrap64 x) = wrap64 x"
  using wrap64_absorb_add [of x 0] by simp

lemma wrap64_absorb_add2: "wrap64 (x + wrap64 y) = wrap64 (x + y)"
  by (metis add.commute wrap64_absorb_add)

lemma wrap64_absorb_mult2: "wrap64 (x * wrap64 y) = wrap64 (x * y)"
  by (metis mult.commute wrap64_absorb_mult)

lemma wrap64_absorb_mult_add: "wrap64 (wrap64 x * y + z) = wrap64 (x * y + z)"
  by (metis wrap64_absorb_add wrap64_absorb_mult)

lemma wrap64_absorb_mult_add2: "wrap64 (x * wrap64 y + z) = wrap64 (x * y + z)"
  by (metis wrap64_absorb_add wrap64_absorb_mult2)

lemmas wrap64_absorb =
  wrap64_absorb_add wrap64_absorb_add2 wrap64_absorb_mult wrap64_absorb_mult2
  wrap64_absorb_mult_add wrap64_absorb_mult_add2

text \<open>Truncated division and remainder on non-negative operands are \<open>div\<close> and \<open>mod\<close>.\<close>

lemma sdiv_nonneg [go_arith]: "0 \<le> a \<Longrightarrow> 0 < b \<Longrightarrow> a sdiv b = a div (b :: int)"
  by (cases "a = 0") (auto simp: signed_divide_int_def)

lemma smod_nonneg [go_arith]: "0 \<le> a \<Longrightarrow> 0 < b \<Longrightarrow> a smod b = a mod (b :: int)"
  by (cases "a = 0") (auto simp: signed_modulo_int_def sdiv_nonneg minus_div_mult_eq_mod)

lemma int_div_less: "0 < n \<Longrightarrow> a < b * n \<Longrightarrow> a div n < (b :: int)"
proof -
  assume n: "0 < n" "a < b * n"
  have "n * (a div n) + a mod n = a" "0 \<le> a mod n" using n by simp_all
  then have "n * (a div n) < n * b" using n(2) unfolding mult.commute [of b] by linarith
  then show ?thesis using n(1) by (simp only: mult_less_cancel_left_pos)
qed

subsection \<open>State-passing code that may panic\<close>

text \<open>\<open>runs m s Q\<close>: from state \<open>s\<close> the code \<open>m\<close> does not panic, and its result and final
  state satisfy \<open>Q\<close>.\<close>

definition runs :: "('s \<Rightarrow> ('a \<times> 't) option) \<Rightarrow> 's \<Rightarrow> ('a \<Rightarrow> 't \<Rightarrow> bool) \<Rightarrow> bool" where
  "runs m s Q \<longleftrightarrow> (\<exists>x t. m s = Some (x, t) \<and> Q x t)"

lemma runsI: "m s = Some (x, t) \<Longrightarrow> Q x t \<Longrightarrow> runs m s Q"
  by (auto simp: runs_def)

lemma runsE: "runs m s Q \<Longrightarrow> (\<And>x t. m s = Some (x, t) \<Longrightarrow> Q x t \<Longrightarrow> thesis) \<Longrightarrow> thesis"
  by (auto simp: runs_def)

lemma runs_mono: "runs m s P \<Longrightarrow> (\<And>x t. P x t \<Longrightarrow> Q x t) \<Longrightarrow> runs m s Q"
  by (auto simp: runs_def)

lemma runs_bind:
  "runs m s P \<Longrightarrow> (\<And>x t. P x t \<Longrightarrow> runs (k x) t Q) \<Longrightarrow>
   runs (\<lambda>s. m s \<bind> (\<lambda>(x, t). k x t)) s Q"
  by (fastforce simp: runs_def)

text \<open>The same for the outcome of a run, so that a proof walks through a \<open>do\<close> block.\<close>

definition yields :: "('a \<times> 't) option \<Rightarrow> ('a \<Rightarrow> 't \<Rightarrow> bool) \<Rightarrow> bool" where
  "yields r Q \<longleftrightarrow> (\<exists>x t. r = Some (x, t) \<and> Q x t)"

named_theorems steps \<open>one step of a \<open>do\<close> block\<close>

lemma runs_yields: "runs m s Q \<longleftrightarrow> yields (m s) Q"
  by (simp add: runs_def yields_def)

lemma yields_Some [simp]: "yields (Some (x, t)) Q \<longleftrightarrow> Q x t"
  by (simp add: yields_def)

lemma yields_bind:
  "yields r P \<Longrightarrow> (\<And>x t. P x t \<Longrightarrow> yields (k x t) Q) \<Longrightarrow> yields (r \<bind> (\<lambda>(x, t). k x t)) Q"
  by (fastforce simp: yields_def)

lemma yields_mono: "yields r P \<Longrightarrow> (\<And>x t. P x t \<Longrightarrow> Q x t) \<Longrightarrow> yields r Q"
  by (auto simp: yields_def)

lemma yieldsE: "yields r Q \<Longrightarrow> (\<And>x t. r = Some (x, t) \<Longrightarrow> Q x t \<Longrightarrow> thesis) \<Longrightarrow> thesis"
  by (auto simp: yields_def)

subsection \<open>Indexing and slicing\<close>

text \<open>\<open>xs[i]\<close> and \<open>xs[lo:hi]\<close>: out of range is a run-time panic.\<close>

definition go_index :: "'a list \<Rightarrow> int \<Rightarrow> 'a option" where
  "go_index xs i = (if 0 \<le> i \<and> i < int (length xs) then Some (xs ! nat i) else None)"

definition go_slice :: "'a list \<Rightarrow> int \<Rightarrow> int \<Rightarrow> 'a list option" where
  "go_slice xs lo hi =
     (if 0 \<le> lo \<and> lo \<le> hi \<and> hi \<le> int (length xs)
      then Some (take (nat (hi - lo)) (drop (nat lo) xs)) else None)"

definition go_update :: "'a list \<Rightarrow> int \<Rightarrow> 'a \<Rightarrow> 'a list option" where
  "go_update xs i v = (if 0 \<le> i \<and> i < int (length xs) then Some (xs[nat i := v]) else None)"

lemma go_index_Some [go_index]:
  "0 \<le> i \<Longrightarrow> i < int (length xs) \<Longrightarrow> go_index xs i = Some (xs ! nat i)"
  by (simp add: go_index_def)

lemma go_update_Some [go_index]:
  "0 \<le> i \<Longrightarrow> i < int (length xs) \<Longrightarrow> go_update xs i v = Some (xs[nat i := v])"
  by (simp add: go_update_def)

lemma go_slice_Some [go_index]:
  "0 \<le> lo \<Longrightarrow> lo \<le> hi \<Longrightarrow> hi \<le> int (length xs) \<Longrightarrow>
   go_slice xs lo hi = Some (take (nat (hi - lo)) (drop (nat lo) xs))"
  by (simp add: go_slice_def)

lemma go_slice_length: "go_slice xs lo hi = Some ys \<Longrightarrow> int (length ys) = hi - lo"
  by (auto simp: go_slice_def split: if_splits)

subsection \<open>Decimal formatting\<close>

definition digit :: "nat \<Rightarrow> char" where
  "digit d = char_of (48 + d)"

fun dec :: "nat \<Rightarrow> string" where
  "dec n = (if n < 10 then [digit n] else dec (n div 10) @ [digit (n mod 10)])"

declare dec.simps [simp del]

lemma dec_small: "n < 10 \<Longrightarrow> dec n = [digit n]"
  by (simp add: dec.simps [of n])

lemma dec_large: "10 \<le> n \<Longrightarrow> dec n = dec (n div 10) @ [digit (n mod 10)]"
  by (simp add: dec.simps [of n])

text \<open>The verbs \<open>%d\<close> and \<open>%0wd\<close>: zeros pad after the sign, the width counts the sign.\<close>

definition fmt_d :: "int \<Rightarrow> string" where
  "fmt_d i = (if i < 0 then ''-'' else []) @ dec (nat \<bar>i\<bar>)"

definition fmt_0d :: "nat \<Rightarrow> int \<Rightarrow> string" where
  "fmt_0d w i =
     (let sign = (if i < 0 then ''-'' else []); ds = dec (nat \<bar>i\<bar>)
      in sign @ replicate (w - length sign - length ds) (CHR ''0'') @ ds)"

text \<open>Reading a decimal back, for the round trips.\<close>

definition undigit :: "char \<Rightarrow> nat" where
  "undigit c = of_char c - 48"

definition undec :: "string \<Rightarrow> nat" where
  "undec s = foldl (\<lambda>n c. 10 * n + undigit c) 0 s"

lemma undigit_digit [simp]: "d < 10 \<Longrightarrow> undigit (digit d) = d"
  by (simp add: undigit_def digit_def)

lemma undec_snoc: "undec (s @ [c]) = 10 * undec s + undigit c"
  by (simp add: undec_def)

lemma undec_dec [simp]: "undec (dec n) = n"
proof (induction n rule: dec.induct)
  case (1 n)
  show ?case
  proof (cases "n < 10")
    case True
    then show ?thesis by (simp add: dec.simps [of n] undec_def)
  next
    case False
    then show ?thesis using "1.IH" by (simp add: dec.simps [of n] undec_snoc)
  qed
qed

lemma undec_zeros: "undec (replicate k (CHR ''0'') @ s) = undec s"
  by (induction k) (simp_all add: undec_def undigit_def)

lemma dec_nonempty [simp]: "dec n \<noteq> []"
  by (simp add: dec.simps [of n])

lemma dec_inject: "dec m = dec n \<longleftrightarrow> m = n"
  using undec_dec by metis

lemma digit_chars:
  "digit 0 = CHR ''0''" "digit (Suc 0) = CHR ''1''" "digit 2 = CHR ''2''" "digit 3 = CHR ''3''"
  "digit 4 = CHR ''4''" "digit 5 = CHR ''5''" "digit 6 = CHR ''6''" "digit 7 = CHR ''7''"
  "digit 8 = CHR ''8''" "digit 9 = CHR ''9''"
  by code_simp+

lemma digit_isdigit: "d < 10 \<Longrightarrow> digit d \<in> set ''0123456789''"
proof -
  have "\<forall>d \<in> set [0..<10]. digit d \<in> set ''0123456789''" by code_simp
  then show "d < 10 \<Longrightarrow> digit d \<in> set ''0123456789''" by simp
qed

end
