(* ===== verification/GoFloat.thy ===== *)
theory GoFloat
  imports Prelude "HOL-Library.Log_Nat"
begin

text \<open>
  Go's \<open>float64\<close> for the quantities this program computes with.  A float is the rational it
  denotes, and an arithmetic operation is the exact one followed by \<open>rnd64\<close>, IEEE
  round-to-nearest, ties to even, at 53 significant bits.  The values used stay between
  \<open>2^-31\<close> and \<open>2^63\<close> in magnitude (or are 0), so neither subnormals nor overflow arise and
  none is modelled.  Go evaluates each division and multiplication of the modelled expressions
  with its own rounding: no product feeds an addition that could be fused.
\<close>

subsection \<open>Rounding to an integer, ties to even\<close>

definition rne :: "rat \<Rightarrow> int" where
  "rne x =
     (let f = \<lfloor>x\<rfloor>; d = x - of_int f
      in if d < 1 / 2 then f else if 1 / 2 < d then f + 1 else if even f then f else f + 1)"

lemma rne_bounds: "\<lfloor>x\<rfloor> \<le> rne x \<and> rne x \<le> \<lfloor>x\<rfloor> + 1"
  by (simp add: rne_def Let_def)

lemma rne_of_int [simp]: "rne (of_int k) = k"
  by (simp add: rne_def)

lemma rne_mono: "x \<le> y \<Longrightarrow> rne x \<le> rne y"
proof -
  assume xy: "x \<le> y"
  show ?thesis
  proof (cases "\<lfloor>x\<rfloor> = \<lfloor>y\<rfloor>")
    case True
    then show ?thesis using xy by (simp add: rne_def Let_def)
  next
    case False
    then have "\<lfloor>x\<rfloor> + 1 \<le> \<lfloor>y\<rfloor>" using floor_mono [OF xy] by linarith
    then show ?thesis using rne_bounds [of x] rne_bounds [of y] by linarith
  qed
qed

lemma rne_error: "\<bar>of_int (rne x) - x\<bar> \<le> 1 / 2"
proof -
  have "of_int \<lfloor>x\<rfloor> \<le> x" "x < of_int \<lfloor>x\<rfloor> + 1" by linarith+
  then show ?thesis by (simp add: rne_def Let_def)
qed

lemma rne_eqI: "\<bar>x - of_int k\<bar> < 1 / 2 \<Longrightarrow> rne x = k"
proof -
  assume "\<bar>x - of_int k\<bar> < 1 / 2"
  then have "\<bar>of_int (rne x) - (of_int k :: rat)\<bar> < 1" using rne_error [of x] by linarith
  then have "\<bar>of_int (rne x - k) :: rat\<bar> < of_int 1" by simp
  then have "\<bar>rne x - k\<bar> < 1" by (simp only: of_int_less_iff flip: of_int_abs)
  then show ?thesis by simp
qed

lemma rne_nonneg: "0 \<le> x \<Longrightarrow> 0 \<le> rne x"
  using rne_mono [of 0 x] rne_of_int [of 0] by simp

subsection \<open>The binary exponent\<close>

definition ilog2 :: "rat \<Rightarrow> int" where
  "ilog2 x =
     (let (p, q) = quotient_of x;
          k = int (floorlog 2 (nat p)) - int (floorlog 2 (nat q))
      in if 2 powi k \<le> x then k else k - 1)"

lemma floorlog_powi_bounds:
  assumes "0 < n"
  shows "(2::rat) powi (int (floorlog 2 n) - 1) \<le> of_nat n"
    and "of_nat n < (2::rat) powi int (floorlog 2 n)"
proof -
  have b: "2 ^ (floorlog 2 n - 1) \<le> n" "n < 2 ^ floorlog 2 n"
    using floorlog_bounds [of n 2] assms by simp_all
  have pos: "0 < floorlog 2 n" using assms by (simp add: floorlog_def)
  have e: "(2::rat) powi (int (floorlog 2 n) - 1) = of_nat (2 ^ (floorlog 2 n - 1))"
    using pos by (simp add: power_int_def nat_diff_distrib')
  have f: "(2::rat) powi int (floorlog 2 n) = of_nat (2 ^ floorlog 2 n)"
    by simp
  show "(2::rat) powi (int (floorlog 2 n) - 1) \<le> of_nat n"
    unfolding e using b(1) by (simp only: of_nat_le_iff)
  show "of_nat n < (2::rat) powi int (floorlog 2 n)"
    unfolding f using b(2) by (simp only: of_nat_less_iff)
qed

lemma powi2_pos [simp]: "(0::rat) < 2 powi z"
  by (simp add: zero_less_power_int)

lemma powi2_shift: "(2::rat) powi (e + of_nat n) = 2 ^ n * 2 powi e"
  by (simp add: power_int_add)

lemma ilog2_bounds:
  assumes "0 < x"
  shows "2 powi ilog2 x \<le> x" and "x < 2 powi (ilog2 x + 1)"
proof -
  obtain p q where pq: "quotient_of x = (p, q)" by force
  have q: "0 < q" and x: "x = of_int p / of_int q"
    using quotient_of_denom_pos [OF pq] quotient_of_div [OF pq] by simp_all
  have p: "0 < p" using assms q x by (simp add: zero_less_divide_iff)
  define a where "a = int (floorlog 2 (nat p))"
  define b where "b = int (floorlog 2 (nat q))"
  have P: "(2::rat) powi (a - 1) \<le> of_int p" "of_int p < (2::rat) powi a"
    using floorlog_powi_bounds [of "nat p"] p by (simp_all add: a_def of_nat_nat)
  have Q: "(2::rat) powi (b - 1) \<le> of_int q" "of_int q < (2::rat) powi b"
    using floorlog_powi_bounds [of "nat q"] q by (simp_all add: b_def of_nat_nat)
  have lo: "2 powi (a - b - 1) \<le> x"
  proof -
    have "(2::rat) powi (a - b - 1) = 2 powi (a - 1) / 2 powi b"
      using power_int_diff [of "2::rat" "a - 1" b] by (simp add: algebra_simps)
    also have "\<dots> \<le> of_int p / of_int q"
      using P(1) Q(2) q p by (intro frac_le) auto
    finally show ?thesis using x by simp
  qed
  have hi: "x < 2 powi (a - b + 1)"
  proof -
    have "of_int p / of_int q < (2::rat) powi a / 2 powi (b - 1)"
      using P(2) Q(1) q p by (intro frac_less) auto
    also have "\<dots> = 2 powi (a - b + 1)"
    proof -
      have "(2::rat) powi b = 2 * 2 powi (b - 1)" using powi2_shift [of "b - 1" 1] by simp
      moreover have "(2::rat) powi (a - b + 1) = 2 * (2 powi a / 2 powi b)"
        using powi2_shift [of "a - b" 1] by (simp add: power_int_diff)
      ultimately show ?thesis by simp
    qed
    finally show ?thesis using x by simp
  qed
  have e: "ilog2 x = (if 2 powi (a - b) \<le> x then a - b else a - b - 1)"
    by (simp add: ilog2_def pq a_def b_def Let_def)
  show "2 powi ilog2 x \<le> x" "x < 2 powi (ilog2 x + 1)"
    using lo hi by (auto simp: e)
qed

lemma powi2_mono: "m \<le> n \<Longrightarrow> (2::rat) powi m \<le> 2 powi n"
  by (simp add: power_int_increasing)

lemma ilog2_mono: "0 < x \<Longrightarrow> x \<le> y \<Longrightarrow> ilog2 x \<le> ilog2 y"
proof (rule ccontr)
  assume a: "0 < x" "x \<le> y" "\<not> ilog2 x \<le> ilog2 y"
  then have "(2::rat) powi (ilog2 y + 1) \<le> 2 powi ilog2 x" by (intro powi2_mono) simp
  then show False using ilog2_bounds [of x] ilog2_bounds [of y] a by linarith
qed

lemma ilog2_eq: "2 powi e \<le> x \<Longrightarrow> x < 2 powi (e + 1) \<Longrightarrow> ilog2 x = e"
proof -
  assume e: "2 powi e \<le> x" "x < 2 powi (e + 1)"
  then have x: "0 < x" using less_le_trans [OF powi2_pos] by blast
  have "\<not> (2::rat) powi (e + 1) \<le> 2 powi ilog2 x" "\<not> (2::rat) powi (ilog2 x + 1) \<le> 2 powi e"
    using ilog2_bounds [OF x] e by linarith+
  then have "\<not> e + 1 \<le> ilog2 x" "\<not> ilog2 x + 1 \<le> e" using powi2_mono by blast+
  then show ?thesis by simp
qed

subsection \<open>Rounding to 53 significant bits\<close>

definition rnd64 :: "rat \<Rightarrow> rat" where
  "rnd64 x =
     (if x = 0 then 0
      else let u = 2 powi (ilog2 \<bar>x\<bar> - 52)
           in sgn x * (of_int (rne (\<bar>x\<bar> / u)) * u))"

lemma rnd64_0 [simp]: "rnd64 0 = 0"
  by (simp add: rnd64_def)

lemma rnd64_uminus: "rnd64 (- x) = - rnd64 x"
  by (simp add: rnd64_def Let_def)

lemma rnd64_pos:
  "0 < x \<Longrightarrow> rnd64 x = of_int (rne (x / 2 powi (ilog2 x - 52))) * 2 powi (ilog2 x - 52)"
  by (simp add: rnd64_def Let_def)

lemma rnd64_pos_bounds:
  assumes "0 < x"
  shows "2 powi ilog2 x \<le> rnd64 x" and "rnd64 x \<le> 2 powi (ilog2 x + 1)"
proof -
  define u where "u = (2::rat) powi (ilog2 x - 52)"
  have u: "0 < u" by (simp add: u_def)
  have s: "(2::rat) powi ilog2 x = 2 ^ 52 * u" "(2::rat) powi (ilog2 x + 1) = 2 ^ 53 * u"
    using powi2_shift [of "ilog2 x - 52" 52] powi2_shift [of "ilog2 x - 52" 53]
    by (simp_all add: u_def add.commute)
  have "of_int (2 ^ 52) \<le> x / u" "x / u \<le> of_int (2 ^ 53)"
    using ilog2_bounds [OF assms] u s by (simp_all add: pos_le_divide_eq pos_divide_le_eq)
  then have "2 ^ 52 \<le> rne (x / u)" "rne (x / u) \<le> 2 ^ 53"
    using rne_mono [of "of_int (2 ^ 52)" "x / u"] rne_mono [of "x / u" "of_int (2 ^ 53)"]
    by (simp_all only: rne_of_int)
  then have "(of_int (2 ^ 52) :: rat) \<le> of_int (rne (x / u))"
    "(of_int (rne (x / u)) :: rat) \<le> of_int (2 ^ 53)"
    by (simp_all only: of_int_le_iff)
  then show "2 powi ilog2 x \<le> rnd64 x" "rnd64 x \<le> 2 powi (ilog2 x + 1)"
    using u by (simp_all add: rnd64_pos [OF assms] s u_def [symmetric] mult_right_mono)
qed

lemma rnd64_nonneg: "0 \<le> x \<Longrightarrow> 0 \<le> rnd64 x"
  using order_trans [OF less_imp_le [OF powi2_pos] rnd64_pos_bounds(1) [of x]]
  by (cases "x = 0") auto

lemma rnd64_mono_nonneg:
  assumes "0 \<le> x" "x \<le> y"
  shows "rnd64 x \<le> rnd64 y"
proof (cases "x = 0")
  case True
  then show ?thesis using assms rnd64_nonneg [of y] by simp
next
  case False
  then have x: "0 < x" and y: "0 < y" using assms by auto
  show ?thesis
  proof (cases "ilog2 x = ilog2 y")
    case True
    have "rne (x / 2 powi (ilog2 x - 52)) \<le> rne (y / 2 powi (ilog2 x - 52))"
      using assms by (intro rne_mono divide_right_mono) (auto intro: less_imp_le)
    then show ?thesis
      using True by (simp add: rnd64_pos x y mult_right_mono less_imp_le)
  next
    case False
    then have "ilog2 x + 1 \<le> ilog2 y" using ilog2_mono [OF x assms(2)] by linarith
    then have "(2::rat) powi (ilog2 x + 1) \<le> 2 powi ilog2 y" by (rule powi2_mono)
    then show ?thesis
      using rnd64_pos_bounds(2) [OF x] rnd64_pos_bounds(1) [OF y] by linarith
  qed
qed

lemma rnd64_eval:
  "2 powi e \<le> x \<Longrightarrow> x < 2 powi (e + 1) \<Longrightarrow>
   rnd64 x = of_int (rne (x / 2 powi (e - 52))) * 2 powi (e - 52)"
  by (subst rnd64_pos) (auto simp: ilog2_eq intro: less_le_trans [OF powi2_pos])

text \<open>A value with at most 53 significant bits is not changed.\<close>

lemma rnd64_exact:
  assumes "0 \<le> m" "m < 2 ^ 53"
  shows "rnd64 (of_int m * 2 powi k) = of_int m * 2 powi k"
proof (cases "m = 0")
  case False
  define x where "x = (of_int m * 2 powi k :: rat)"
  have x: "0 < x" using assms False by (simp add: x_def)
  have "(of_int m :: rat) < of_int (2 ^ 53)" using assms(2) by (simp only: of_int_less_iff)
  then have "x < 2 powi (k + 53)"
    using powi2_shift [of k 53] by (simp add: x_def)
  then have "2 powi ilog2 x < (2::rat) powi (k + 53)"
    using ilog2_bounds(1) [OF x] by linarith
  then have "ilog2 x < k + 53" by (metis linorder_not_le powi2_mono)
  define e where "e = ilog2 x - 52"
  have "e \<le> k" using \<open>ilog2 x < k + 53\<close> by (simp add: e_def)
  then obtain n where n: "k = e + of_nat n"
    using zle_iff_zadd [of e k] by auto
  have "x = of_int m * (2 ^ n * 2 powi e)"
    by (simp add: x_def n powi2_shift)
  then have "x / 2 powi e = of_int (m * 2 ^ n)" by simp
  then have "rnd64 x = of_int (m * 2 ^ n) * 2 powi e"
    using x by (simp only: rnd64_pos e_def [symmetric] rne_of_int)
  then show ?thesis by (simp add: x_def n powi2_shift)
qed simp

lemma rnd64_int: "0 \<le> m \<Longrightarrow> m < 2 ^ 53 \<Longrightarrow> rnd64 (of_int m) = of_int m"
  using rnd64_exact [of m 0] by simp

subsection \<open>The operations\<close>

definition f64 :: "int \<Rightarrow> rat" where
  "f64 i = rnd64 (of_int i)"

definition fmul :: "rat \<Rightarrow> rat \<Rightarrow> rat" where
  "fmul x y = rnd64 (x * y)"

definition fdiv :: "rat \<Rightarrow> rat \<Rightarrow> rat" where
  "fdiv x y = rnd64 (x / y)"

text \<open>Conversion to an integer type truncates towards zero.\<close>

definition ftrunc :: "rat \<Rightarrow> int" where
  "ftrunc x = (if x < 0 then - \<lfloor>- x\<rfloor> else \<lfloor>x\<rfloor>)"

lemma f64_small: "\<bar>i\<bar> < 2 ^ 53 \<Longrightarrow> f64 i = of_int i"
  using rnd64_int [of i] rnd64_int [of "- i"] rnd64_uminus [of "of_int i"]
  by (cases "0 \<le> i") (auto simp: f64_def)

lemma ftrunc_uminus: "ftrunc (- x) = - ftrunc x"
  by (auto simp: ftrunc_def)

lemma rnd64_error:
  assumes "0 \<le> x"
  shows "\<bar>rnd64 x - x\<bar> \<le> x / 2 ^ 53"
proof (cases "x = 0")
  case False
  then have x: "0 < x" using assms by simp
  define u where "u = (2::rat) powi (ilog2 x - 52)"
  have u: "0 < u" by (simp add: u_def)
  have "rnd64 x - x = (of_int (rne (x / u)) - x / u) * u"
    using u by (simp add: rnd64_pos [OF x] u_def [symmetric] left_diff_distrib)
  then have "\<bar>rnd64 x - x\<bar> \<le> 1 / 2 * u"
    using rne_error [of "x / u"] u by (simp add: abs_mult mult_right_mono)
  moreover have "2 ^ 52 * u \<le> x"
    using ilog2_bounds(1) [OF x] powi2_shift [of "ilog2 x - 52" 52] by (simp add: u_def)
  ultimately show ?thesis by (simp add: field_simps)
qed simp

end
