(* ===== verification/DbgenRand.thy ===== *)
theory DbgenRand
  imports GoFloat Dists
begin

text \<open>
  The pseudo-random streams of the TPC-H generator: \<open>tpch/dbgen/rand.go\<close>, with the tables of
  \<open>types.go\<close> and the rows of \<open>tDefs\<close> (\<open>driver.go\<close>) that \<open>rowStop\<close> reads.  The array
  \<open>seeds\<close> of 48 streams is a function on the stream number; an access outside \<open>0..47\<close> is
  Go's index panic (\<open>None\<close>).  A stream's \<open>usage\<close> counts the calls made for one row, so its
  increments are plain additions.  The central notion is \<open>consumed\<close>: how many steps of its
  generator a piece of code takes on every stream.
\<close>

type_synonym dssHuge = int

type_synonym long = int

datatype Table = TNone | TPart | TPsupp | TSupp | TCust | TOrder | TLine | TOrderLine
  | TPartPsupp | TNation | TRegion

record Seed =
  seed_table :: Table
  seed_value :: dssHuge
  seed_usage :: dssHuge
  seed_boundary :: dssHuge

type_synonym seeds = "int \<Rightarrow> Seed"

definition maxStream :: int where
  "maxStream = 47"

definition maxLong :: int where
  "maxLong = 2147483647"

definition dM :: rat where
  "dM = 2147483647"

definition seed_at :: "seeds \<Rightarrow> int \<Rightarrow> Seed option" where
  "seed_at ss i = (if 0 \<le> i \<and> i \<le> maxStream then Some (ss i) else None)"

subsection \<open>The two generators and their use\<close>

definition nextRand :: "dssHuge \<Rightarrow> dssHuge" where
  "nextRand nSeed = wrap64 (nSeed * 16807) smod 2147483647"

definition rngA :: dssHuge where
  "rngA = 6364136223846793005"

definition rngC :: dssHuge where
  "rngC = 1"

definition nextRand64 :: "dssHuge \<Rightarrow> dssHuge" where
  "nextRand64 nSeed = wrap64 (wrap64 (nSeed * rngA) + rngC)"

definition clampStream :: "long \<Rightarrow> long" where
  "clampStream nStream = (if nStream < 0 \<or> maxStream < nStream then 0 else nStream)"

text \<open>The number of values in the range, as a float; the first case wraps around in \<open>int32\<close>.\<close>

definition unifRange :: "dssHuge \<Rightarrow> dssHuge \<Rightarrow> rat" where
  "unifRange nLow nHigh =
     (if nHigh = maxLong \<and> nLow = 0
      then f64 (wrap32 (wrap32 (wrap32 nHigh - wrap32 nLow) + 1))
      else f64 (wrap64 (wrap64 (nHigh - nLow) + 1)))"

definition unifInt :: "dssHuge \<Rightarrow> dssHuge \<Rightarrow> long \<Rightarrow> seeds \<Rightarrow> (dssHuge \<times> seeds) option" where
  "unifInt nLow nHigh nStream ss =
     (let i = clampStream nStream;
          dRange = unifRange nLow nHigh;
          v = nextRand (seed_value (ss i));
          nTemp = ftrunc (fmul (fdiv (f64 v) dM) dRange)
      in Some (wrap64 (nLow + nTemp), ss(i := (ss i)\<lparr>seed_value := v\<rparr>)))"

definition random64 :: "dssHuge \<Rightarrow> dssHuge \<Rightarrow> long \<Rightarrow> seeds \<Rightarrow> (dssHuge \<times> seeds) option" where
  "random64 lower0 upper0 nStream ss =
     (let i = clampStream nStream;
          (lower, upper) = (if upper0 < lower0 then (upper0, lower0) else (lower0, upper0));
          v = nextRand64 (seed_value (ss i));
          nTemp = (if v < 0 then wrap64 (- v) else v);
          n = wrap64 (wrap64 (upper - lower) + 1)
      in if n = 0 then None
         else Some (wrap64 (lower + nTemp smod n),
           ss(i := (ss i)\<lparr>seed_value := v, seed_usage := seed_usage (ss i) + 1\<rparr>)))"

definition random :: "dssHuge \<Rightarrow> dssHuge \<Rightarrow> long \<Rightarrow> seeds \<Rightarrow> (dssHuge \<times> seeds) option" where
  "random lower upper nStream ss = do {
     sd \<leftarrow> seed_at ss nStream;
     unifInt lower upper nStream
       (ss(nStream := sd\<lparr>seed_usage := seed_usage sd + 1\<rparr>))
   }"

subsection \<open>Jumping ahead\<close>

text \<open>The search loop for the top bit never ends when no shift of \<open>nCount\<close> is 1.\<close>

partial_function (option) advanceRand64_topbit :: "dssHuge \<Rightarrow> nat \<Rightarrow> nat option" where
  "advanceRand64_topbit nCount nBit =
     (if nCount div 2 ^ nBit = rngC then Some nBit
      else advanceRand64_topbit nCount (Suc nBit))"

fun advanceRand64_loop ::
  "dssHuge \<Rightarrow> nat \<Rightarrow> dssHuge \<Rightarrow> dssHuge \<Rightarrow> dssHuge \<times> dssHuge" where
  "advanceRand64_loop nCount 0 aPow dSum = (aPow, dSum)"
| "advanceRand64_loop nCount (Suc nBit) aPow dSum =
     (let dSum1 = wrap64 (dSum * wrap64 (aPow + 1)); aPow1 = wrap64 (aPow * aPow)
      in if (nCount div 2 ^ nBit) smod 2 = 1
         then advanceRand64_loop nCount nBit (wrap64 (aPow1 * rngA)) (wrap64 (dSum1 + aPow1))
         else advanceRand64_loop nCount nBit aPow1 dSum1)"

definition advanceRand64 :: "dssHuge \<Rightarrow> dssHuge \<Rightarrow> dssHuge option" where
  "advanceRand64 nSeed nCount =
     (if nCount = 0 then Some nSeed
      else do {
        nBit \<leftarrow> advanceRand64_topbit nCount 0;
        let (aPow, dSum) = advanceRand64_loop nCount nBit rngA rngC;
        Some (wrap64 (wrap64 (nSeed * aPow) + wrap64 (dSum * rngC)))
      })"

definition multiplier :: dssHuge where
  "multiplier = 16807"

definition modulus :: dssHuge where
  "modulus = 2147483647"

function nthElement_loop :: "dssHuge \<Rightarrow> dssHuge \<Rightarrow> dssHuge \<Rightarrow> dssHuge" where
  "nthElement_loop n z mult =
     (if 0 < n
      then nthElement_loop (n sdiv 2)
             (if n smod 2 \<noteq> 0 then wrap64 (mult * z) smod modulus else z)
             (wrap64 (mult * mult) smod modulus)
      else z)"
  by pat_completeness auto
termination
  by (relation "measure (\<lambda>(n, z, mult). nat n)") (auto simp: sdiv_nonneg)

declare nthElement_loop.simps [simp del]

definition nthElement :: "dssHuge \<Rightarrow> dssHuge \<Rightarrow> dssHuge" where
  "nthElement n startSeed = nthElement_loop n startSeed multiplier"

definition advanceStream :: "int \<Rightarrow> dssHuge \<Rightarrow> bool \<Rightarrow> seeds \<Rightarrow> seeds option" where
  "advanceStream nStream nCalls bUse64Bit ss = do {
     sd \<leftarrow> seed_at ss nStream;
     v \<leftarrow> (if bUse64Bit then advanceRand64 (seed_value sd) nCalls
          else Some (nthElement nCalls (seed_value sd)));
     Some (ss(nStream := sd\<lparr>seed_value := v\<rparr>))
   }"

subsection \<open>Generators with a jump\<close>

text \<open>
  What the code relies on when it skips ahead: \<open>jump n\<close> is \<open>n\<close> steps of the generator.
\<close>

locale jump_ahead =
  fixes step :: "'s \<Rightarrow> 's"
    and jump :: "int \<Rightarrow> 's \<Rightarrow> 's"
    and inv :: "'s \<Rightarrow> bool"
  assumes inv_step: "inv s \<Longrightarrow> inv (step s)"
    and jump_steps: "0 \<le> n \<Longrightarrow> inv s \<Longrightarrow> jump n s = (step ^^ nat n) s"
begin

lemma inv_steps: "inv s \<Longrightarrow> inv ((step ^^ k) s)"
  by (induction k) (auto intro: inv_step)

lemma inv_jump: "0 \<le> n \<Longrightarrow> inv s \<Longrightarrow> inv (jump n s)"
  by (simp add: jump_steps inv_steps)

lemma jump_jump: "0 \<le> m \<Longrightarrow> 0 \<le> n \<Longrightarrow> inv s \<Longrightarrow> jump m (jump n s) = jump (n + m) s"
  by (simp add: jump_steps inv_steps nat_add_distrib funpow_add add.commute [of n m])

lemma jump_iterate: "0 \<le> n \<Longrightarrow> inv s \<Longrightarrow> (jump n ^^ k) s = jump (n * int k) s"
proof (induction k)
  case 0
  then show ?case by (simp add: jump_steps)
next
  case (Suc k)
  then show ?case by (simp add: jump_jump distrib_left add.commute)
qed

lemma jump_after_steps:
  "0 \<le> n \<Longrightarrow> inv s \<Longrightarrow> jump n ((step ^^ k) s) = (step ^^ (k + nat n)) s"
  by (simp add: jump_steps inv_steps funpow_add add.commute [of k])

end

definition valid_seed :: "dssHuge \<Rightarrow> bool" where
  "valid_seed v \<longleftrightarrow> 0 < v \<and> v < modulus"

lemma nextRand_mod: "0 \<le> v \<Longrightarrow> v < modulus \<Longrightarrow> nextRand v = v * 16807 mod modulus"
  by (simp add: nextRand_def modulus_def wrap64_id smod_nonneg)

lemma coprime_multiplier: "coprime modulus multiplier"
proof -
  have "gcd modulus multiplier = 1" by code_simp
  then show ?thesis by (simp add: coprime_iff_gcd_eq_1)
qed

lemma valid_seed_nextRand: "valid_seed v \<Longrightarrow> valid_seed (nextRand v)"
proof -
  assume v: "valid_seed v"
  have "\<not> modulus dvd v"
    using v by (auto simp: valid_seed_def dest: zdvd_not_zless)
  then have "\<not> modulus dvd v * 16807"
    using coprime_multiplier by (simp add: coprime_dvd_mult_left_iff multiplier_def)
  then have "v * 16807 mod modulus \<noteq> 0" by (simp add: dvd_eq_mod_eq_0)
  moreover have "0 \<le> v * 16807 mod modulus" "v * 16807 mod modulus < modulus"
    by (simp_all add: modulus_def)
  ultimately show ?thesis using v nextRand_mod [of v] unfolding valid_seed_def by linarith
qed

lemma nextRand_iterate:
  "0 \<le> v \<Longrightarrow> v < modulus \<Longrightarrow> (nextRand ^^ k) v = v * multiplier ^ k mod modulus"
proof (induction k)
  case 0
  then show ?case by simp
next
  case (Suc k)
  have "0 \<le> v * multiplier ^ k mod modulus" "v * multiplier ^ k mod modulus < modulus"
    by (simp_all add: modulus_def)
  then show ?case
    using Suc by (simp add: nextRand_mod mod_mult_left_eq mult.assoc mult.commute [of multiplier])
      (simp add: multiplier_def)
qed

lemma nthElement_loop_power:
  "0 \<le> n \<Longrightarrow> 0 \<le> z \<Longrightarrow> z < modulus \<Longrightarrow> 0 \<le> mult \<Longrightarrow> mult < modulus \<Longrightarrow>
   nthElement_loop n z mult = z * mult ^ nat n mod modulus"
proof (induction n z mult rule: nthElement_loop.induct)
  case (1 n z mult)
  show ?case
  proof (cases "0 < n")
    case False
    then show ?thesis using "1.prems" by (simp add: nthElement_loop.simps [of 0])
  next
    case True
    define m2 where "m2 = mult * mult mod modulus"
    define z2 where "z2 = (if n mod 2 \<noteq> 0 then mult * z mod modulus else z)"
    have small: "0 \<le> a * b" "a * b < 2 ^ 63"
      if "0 \<le> a" "a < modulus" "0 \<le> b" "b < modulus" for a b
      using that mult_strict_mono [of a modulus b modulus]
      by (simp_all add: modulus_def)
    have w: "wrap64 (a * b) smod modulus = a * b mod modulus"
      if "0 \<le> a" "a < modulus" "0 \<le> b" "b < modulus" for a b
      using small [OF that] by (simp add: wrap64_id smod_nonneg modulus_def)
    have r: "0 \<le> m2" "m2 < modulus" "0 \<le> z2" "z2 < modulus"
      using "1.prems" by (auto simp: m2_def z2_def modulus_def)
    have e1: "(if n smod 2 \<noteq> 0 then wrap64 (mult * z) smod modulus else z) = z2"
      using "1.prems" w [of mult z] by (simp add: z2_def smod_nonneg)
    have e2: "wrap64 (mult * mult) smod modulus = m2"
      using "1.prems" w [of mult mult] by (simp add: m2_def)
    have e3: "n sdiv 2 = n div 2" using True by (simp add: sdiv_nonneg)
    have "nthElement_loop n z mult = nthElement_loop (n div 2) z2 m2"
      using True by (simp add: nthElement_loop.simps [of n] e1 e2 e3)
    also have "\<dots> = z2 * m2 ^ nat (n div 2) mod modulus"
      using "1.IH" [unfolded e1 e2 e3] True r by simp
    also have "\<dots> = z * mult ^ nat n mod modulus"
    proof -
      have "z2 mod modulus = z * mult ^ nat (n mod 2) mod modulus"
        by (cases "n mod 2 = 0") (auto simp: z2_def mult.commute not_mod_2_eq_0_eq_1)
      moreover have "m2 ^ nat (n div 2) mod modulus = (mult ^ 2) ^ nat (n div 2) mod modulus"
        by (simp add: m2_def power_mod power2_eq_square)
      ultimately have "z2 * m2 ^ nat (n div 2) mod modulus =
          z * (mult ^ nat (n mod 2) * mult ^ (2 * nat (n div 2))) mod modulus"
        by (metis (no_types, lifting) mod_mult_cong mult.assoc power_mult)
      moreover have "nat n = nat (n mod 2) + 2 * nat (n div 2)"
      proof -
        have "int (nat (n mod 2) + 2 * nat (n div 2)) = n" using True by simp
        then show ?thesis by (metis nat_int)
      qed
      ultimately show ?thesis by (simp add: power_add)
    qed
    finally show ?thesis .
  qed
qed

lemma nthElement_steps:
  assumes "0 \<le> n" "0 \<le> v" "v < modulus"
  shows "nthElement n v = (nextRand ^^ nat n) v"
  using assms nthElement_loop_power [of n v multiplier]
  by (simp add: nthElement_def nextRand_iterate multiplier_def modulus_def)

interpretation lcg31: jump_ahead nextRand nthElement valid_seed
  by unfold_locales (rule valid_seed_nextRand, assumption, simp add: nthElement_steps valid_seed_def)

subsection \<open>Jumping in the 64-bit generator\<close>

text \<open>\<open>geo n\<close> is the sum of the first \<open>n\<close> powers of the multiplier.\<close>

definition geo :: "nat \<Rightarrow> int" where
  "geo n = (\<Sum>i<n. rngA ^ i)"

lemma geo_add: "geo (p + k) = geo p + rngA ^ p * geo k"
  by (induction k) (simp_all add: geo_def algebra_simps power_add)

lemma geo_double: "geo (2 * q) = geo q * (rngA ^ q + 1)"
  using geo_add [of q q] by (simp add: mult_2 [symmetric] distrib_left mult.commute)

lemma geo_Suc: "geo (Suc q) = geo q + rngA ^ q"
  by (simp add: geo_def)

lemma geo_Suc2: "geo (Suc n) = geo n * rngA + 1"
  using geo_add [of 1 n] by (simp add: geo_def mult.commute)

lemma nextRand64_iterate:
  "(nextRand64 ^^ n) (wrap64 s) = wrap64 (s * rngA ^ n + geo n)"
proof (induction n)
  case 0
  then show ?case by (simp add: geo_def)
next
  case (Suc n)
  have "(nextRand64 ^^ Suc n) (wrap64 s) = wrap64 ((s * rngA ^ n + geo n) * rngA + 1)"
    by (simp add: Suc nextRand64_def wrap64_absorb rngC_def)
  also have "(s * rngA ^ n + geo n) * rngA + 1 = s * rngA ^ Suc n + geo (Suc n)"
    by (simp add: geo_Suc2 algebra_simps)
  finally show ?case .
qed

lemma topbit_SomeD: "advanceRand64_topbit n k = Some b \<Longrightarrow> n div 2 ^ b = 1"
proof -
  assume ret: "advanceRand64_topbit n k = Some b"
  show ?thesis
  proof (rule advanceRand64_topbit.raw_induct [where P = "\<lambda>n k b. n div 2 ^ b = 1", OF _ ret])
    fix f n k b
    assume "\<And>n k b. f n k = Some b \<Longrightarrow> n div 2 ^ b = (1::int)"
      and "(if n div 2 ^ k = rngC then Some k else f n (Suc k)) = Some b"
    then show "n div 2 ^ b = 1" by (auto simp: rngC_def split: if_splits)
  qed
qed

lemma topbit_total: "n div 2 ^ (k + d) = 1 \<Longrightarrow> \<exists>b. advanceRand64_topbit n k = Some b"
proof (induction d arbitrary: k)
  case 0
  then show ?case by (simp add: advanceRand64_topbit.simps [of n k] rngC_def)
next
  case (Suc d)
  then show ?case using Suc.IH [of "Suc k"]
    by (auto simp: advanceRand64_topbit.simps [of n k])
qed

lemma topbit_exists: "0 < n \<Longrightarrow> \<exists>b. n div 2 ^ b = (1::int)"
proof (induction "nat n" arbitrary: n rule: less_induct)
  case less
  show ?case
  proof (cases "n = 1")
    case True
    then show ?thesis by (intro exI [of _ 0]) simp
  next
    case False
    then have "0 < n div 2" "nat (n div 2) < nat n" using less.prems by auto
    then obtain b where "n div 2 div 2 ^ b = 1" using less.hyps by blast
    then have "n div 2 ^ Suc b = 1" by (simp add: zdiv_zmult2_eq)
    then show ?thesis by blast
  qed
qed

lemma advanceRand64_loop_power:
  "0 < n \<Longrightarrow>
   advanceRand64_loop n b (wrap64 (rngA ^ nat (n div 2 ^ b))) (wrap64 (geo (nat (n div 2 ^ b)))) =
     (wrap64 (rngA ^ nat n), wrap64 (geo (nat n)))"
proof (induction b)
  case 0
  then show ?case by simp
next
  case (Suc b)
  define q where "q = nat (n div 2 ^ Suc b)"
  define r where "r = nat (n div 2 ^ b)"
  have split: "n div 2 ^ b = 2 * (n div 2 ^ Suc b) + (n div 2 ^ b) mod 2"
  proof -
    have "n div 2 ^ Suc b = n div 2 ^ b div 2"
      by (simp only: power_Suc2) (simp add: zdiv_zmult2_eq)
    then show ?thesis by simp
  qed
  have nn: "0 \<le> n div 2 ^ b" "0 \<le> n div 2 ^ Suc b"
    using Suc.prems by (simp_all add: pos_imp_zdiv_nonneg_iff)
  have "wrap64 (wrap64 (rngA ^ q) * wrap64 (rngA ^ q)) = wrap64 (rngA ^ (2 * q))"
    by (simp add: wrap64_absorb power_mult power2_eq_square power_mult_distrib)
  moreover have "wrap64 (wrap64 (geo q) * wrap64 (wrap64 (rngA ^ q) + 1)) = wrap64 (geo (2 * q))"
    by (simp add: wrap64_absorb geo_double)
  moreover have "(n div 2 ^ b) smod 2 = (n div 2 ^ b) mod 2"
    using nn by (simp add: smod_nonneg)
  moreover have "r = (if (n div 2 ^ b) mod 2 = 1 then Suc (2 * q) else 2 * q)"
    using split nn by (auto simp: q_def r_def nat_add_distrib nat_mult_distrib)
  ultimately show ?case
    using Suc.IH [OF Suc.prems]
    unfolding advanceRand64_loop.simps q_def [symmetric] r_def [symmetric]
    by (auto simp: Let_def wrap64_absorb geo_Suc power_Suc2 simp del: power_Suc)
qed

text \<open>
  The 64-bit jump equals the iterated generator for every non-negative count, and never
  returns for a negative one.
\<close>

lemma advanceRand64_steps:
  assumes "0 \<le> n"
  shows "advanceRand64 (wrap64 s) n = Some ((nextRand64 ^^ nat n) (wrap64 s))"
proof (cases "n = 0")
  case True
  then show ?thesis by (simp add: advanceRand64_def)
next
  case False
  with assms have n: "0 < n" by simp
  then obtain b0 where "n div 2 ^ b0 = 1" using topbit_exists by blast
  then obtain b where b: "advanceRand64_topbit n 0 = Some b"
    using topbit_total [of n 0 b0] by auto
  have q: "n div 2 ^ b = 1" by (rule topbit_SomeD [OF b])
  have "wrap64 rngA = rngA" "wrap64 rngC = rngC"
    by (simp_all add: rngA_def rngC_def wrap64_id)
  then have "advanceRand64_loop n b rngA rngC = (wrap64 (rngA ^ nat n), wrap64 (geo (nat n)))"
    using advanceRand64_loop_power [OF n, of b] q by (simp add: geo_def rngC_def)
  then show ?thesis
    using False b
    by (simp add: advanceRand64_def nextRand64_iterate wrap64_absorb rngC_def mult.commute)
qed

lemma advanceRand64_negative: "n < 0 \<Longrightarrow> advanceRand64 s n = None"
proof -
  assume n: "n < 0"
  then have "n div 2 ^ b \<noteq> 1" for b :: nat
    using div_neg_pos_less0 [of n "2 ^ b"] by simp
  then have "advanceRand64_topbit n 0 = None"
    using topbit_SomeD [of n 0] by (metis not_Some_eq)
  with n show ?thesis by (simp add: advanceRand64_def)
qed

interpretation lcg64: jump_ahead nextRand64
  "\<lambda>n s. case advanceRand64 s n of Some v \<Rightarrow> v | None \<Rightarrow> s" "\<lambda>s. wrap64 s = s"
proof unfold_locales
  fix s n :: int
  assume "0 \<le> n" "wrap64 s = s"
  then show "(case advanceRand64 s n of Some v \<Rightarrow> v | None \<Rightarrow> s) = (nextRand64 ^^ nat n) s"
    using advanceRand64_steps [of n s] by simp
qed (simp add: nextRand64_def)

subsection \<open>Properties\<close>

text \<open>
  C24. Skipping \<open>n\<close> draws of the 31-bit generator with \<open>nthElement\<close> (which squares its way to the
  power of the multiplier) gives exactly the value \<open>n\<close> calls of \<open>nextRand\<close> give, and the result
  is again a seed in \<open>1..2^31-2\<close>; a negative count leaves the seed unchanged.
\<close>

theorem nthElement_jumps:
  assumes "valid_seed v"
  shows "nthElement n v = (nextRand ^^ nat n) v \<and> valid_seed (nthElement n v)"
proof (cases "0 \<le> n")
  case True
  then show ?thesis using assms lcg31.jump_steps lcg31.inv_jump by simp
next
  case False
  then show ?thesis using assms by (simp add: nthElement_def nthElement_loop.simps [of n])
qed

lemma nthElement_jumps_witness:
  "nthElement 5 1 = (nextRand ^^ nat 5) 1 \<and> valid_seed (nthElement 5 1)"
  by (rule nthElement_jumps) (simp add: valid_seed_def modulus_def)

text \<open>
  Skipping in the 64-bit generator: for every \<open>int64\<close> state and every non-negative count
  \<open>advanceRand64\<close> returns the state after that many calls of \<open>nextRand64\<close>, with all products
  wrapping; for a negative count the search for the top bit never ends.
\<close>

theorem advanceRand64_jumps:
  "if 0 \<le> n then advanceRand64 (wrap64 s) n = Some ((nextRand64 ^^ nat n) (wrap64 s))
   else advanceRand64 (wrap64 s) n = None"
  by (simp add: advanceRand64_steps advanceRand64_negative)

end
