(* ===== verification/DbgenStream.thy ===== *)
theory DbgenStream
  imports DbgenRand "HOL-Library.Multiset"
begin

text \<open>
  Draws from the streams: the bounds of \<open>unifInt\<close>, how many generator steps each routine of
  \<open>rand.go\<close> consumes, and the row protocol \<open>rowStart\<close> / \<open>rowStop\<close> that resynchronises every
  stream of a table after each row.
\<close>

subsection \<open>The float computation stays in range\<close>

definition draw :: "rat \<Rightarrow> dssHuge \<Rightarrow> int" where
  "draw dRange v = ftrunc (fmul (fdiv (f64 v) dM) dRange)"

lemma unit_draw:
  assumes "valid_seed v"
  shows "0 < fdiv (f64 v) dM" and "fdiv (f64 v) dM \<le> 1 - 1 / 2 ^ 31"
proof -
  have v: "0 < v" "v < 2147483647" using assms by (auto simp: valid_seed_def modulus_def)
  then have f: "f64 v = of_int v" by (intro f64_small) simp
  have vm: "(of_int v :: rat) \<le> of_int 2147483646" using v by (simp only: of_int_le_iff)
  have pos: "0 < (of_int v :: rat) / dM" using v by (simp add: dM_def)
  define t where "t = (of_int 2147483647 * 2 powi (- 31) :: rat)"
  have t: "t = 1 - 1 / 2 ^ 31" by (simp add: t_def power_int_minus)
  have "of_int v / dM \<le> t"
    using vm by (simp add: t dM_def field_simps)
  then have "rnd64 (of_int v / dM) \<le> rnd64 t"
    using pos by (intro rnd64_mono_nonneg) simp_all
  also have "\<dots> = t" unfolding t_def by (rule rnd64_exact) simp_all
  also note t
  finally show "fdiv (f64 v) dM \<le> 1 - 1 / 2 ^ 31" by (simp add: fdiv_def f)
  show "0 < fdiv (f64 v) dM"
    using rnd64_pos_bounds(1) [OF pos] less_le_trans [OF powi2_pos] by (simp add: fdiv_def f)
qed

lemma draw_range:
  assumes "valid_seed v" "0 < r" "r < 2 ^ 31"
  shows "0 \<le> draw (of_int r) v \<and> draw (of_int r) v < r"
proof -
  define y where "y = fdiv (f64 v) dM"
  have y: "0 < y" "y \<le> 1 - 1 / 2 ^ 31" using unit_draw [OF assms(1)] by (simp_all add: y_def)
  define R where "R = (of_int r :: rat)"
  have R: "0 < R" using assms(2) by (simp add: R_def)
  define k where "k = ilog2 R"
  have k: "2 powi k \<le> R" "R < 2 powi (k + 1)" using ilog2_bounds [OF R] by (simp_all add: k_def)
  have k31: "k < 31"
  proof (rule ccontr)
    assume "\<not> k < 31"
    then have "(2::rat) powi 31 \<le> 2 powi k" by (intro powi2_mono) simp
    moreover have "R < of_int (2 ^ 31)" using assms(3) unfolding R_def by (simp only: of_int_less_iff)
    ultimately show False using k(1) by simp
  qed
  have k0: "0 \<le> k"
  proof (rule ccontr)
    assume "\<not> 0 \<le> k"
    then have "(2::rat) powi (k + 1) \<le> 2 powi 0" by (intro powi2_mono) simp
    moreover have "(1::rat) \<le> R" using assms(2) by (simp add: R_def)
    ultimately show False using k(2) by simp
  qed
  obtain n where n: "31 = k + of_nat n" using k31 zle_iff_zadd [of k 31] by auto
  define B where "B = R - 2 powi (k - 31)"
  have two: "(2::rat) powi (k - 31) = 2 powi k / 2 ^ 31" by (simp add: power_int_diff)
  have "y * R \<le> (1 - 1 / 2 ^ 31) * R" using y R by (intro mult_right_mono) auto
  also have "\<dots> = R - R / 2 ^ 31" by (simp add: algebra_simps)
  also have "\<dots> \<le> B" using k(1) by (simp add: B_def two divide_right_mono)
  finally have yB: "y * R \<le> B" .
  have Bm: "B = of_int (r * 2 ^ n - 1) * 2 powi (k - 31)"
  proof -
    have km: "k - 31 = - int n" using n by simp
    have p: "(2::rat) powi (k - 31) * 2 ^ n = 1" unfolding km by (simp add: power_int_minus)
    have "of_int (r * 2 ^ n - 1) * 2 powi (k - 31) =
        R * (2 powi (k - 31) * 2 ^ n) - 2 powi (k - 31)"
      by (simp add: R_def left_diff_distrib mult.commute mult.left_commute)
    then show ?thesis by (simp add: B_def p)
  qed
  have "r * 2 ^ n < 2 ^ 32"
  proof -
    have "R * 2 ^ n < 2 powi (k + 1) * 2 ^ n" using k(2) by simp
    also have "\<dots> = 2 powi (k + 1 + of_nat n)" by (simp only: powi2_shift mult.commute)
    also have "k + 1 + of_nat n = 32" using n by simp
    also have "(2::rat) powi 32 = 2 ^ 32" by simp
    finally have "(of_int (r * 2 ^ n) :: rat) < of_int (2 ^ 32)" by (simp add: R_def)
    then show ?thesis by (simp only: of_int_less_iff)
  qed
  moreover have "1 \<le> r * 2 ^ n" using assms(2) by (simp add: int_one_le_iff_zero_less)
  ultimately have Bexact: "rnd64 B = B" unfolding Bm by (intro rnd64_exact) auto
  have z: "0 \<le> rnd64 (y * R)" "rnd64 (y * R) \<le> B"
    using y R rnd64_nonneg [of "y * R"] rnd64_mono_nonneg [OF _ yB] Bexact by auto
  have "B < R" using powi2_pos [of "k - 31"] unfolding B_def by linarith
  then have "rnd64 (y * R) < of_int r" using z(2) unfolding R_def by linarith
  then have "\<lfloor>rnd64 (y * R)\<rfloor> < r" by (simp only: floor_less_iff)
  then show ?thesis
    using z by (simp add: draw_def ftrunc_def fmul_def y_def [symmetric] R_def [symmetric])
qed

text \<open>
  For ranges below \<open>2^20\<close> coprime to the modulus the two roundings are invisible: the draw is
  the exact integer quotient.
\<close>

lemma draw_exact:
  assumes v: "valid_seed v" and r: "0 < r" "r < 2 ^ 20" and co: "coprime r modulus"
  shows "draw (of_int r) v = v * r div modulus"
proof -
  define x where "x = (of_int v / dM :: rat)"
  define R where "R = (of_int r :: rat)"
  define e where "e = (1 / 2 ^ 53 :: rat)"
  define z where "z = rnd64 (rnd64 x * R)"
  define q where "q = v * r div modulus"
  define w where "w = v * r mod modulus"
  have vb: "0 < v" "v < 2147483647" using v by (auto simp: valid_seed_def modulus_def)
  have R: "0 < R" "R \<le> 2 ^ 20 - 1"
  proof -
    show "0 < R" using r by (simp add: R_def)
    have "R \<le> of_int (2 ^ 20 - 1)" using r unfolding R_def by (simp only: of_int_le_iff)
    then show "R \<le> 2 ^ 20 - 1" by simp
  qed
  have x: "0 < x" "x < 1" using vb by (simp_all add: x_def dM_def)
  have y: "\<bar>rnd64 x - x\<bar> \<le> x / 2 ^ 53" "0 \<le> rnd64 x"
    using rnd64_error [of x] rnd64_nonneg [of x] x by simp_all
  have x53: "x / 2 ^ 53 \<le> 1 / 2 ^ 53" using x by (intro divide_right_mono) auto
  with y have "\<bar>rnd64 x - x\<bar> \<le> 1 / 2 ^ 53" by linarith
  moreover have "(1::rat) / 2 ^ 53 \<le> 1" by simp
  ultimately have y2: "rnd64 x \<le> 2" using x by linarith
  have "\<bar>rnd64 x * R - x * R\<bar> \<le> e * R"
  proof -
    from y(1) x53 have "\<bar>rnd64 x - x\<bar> \<le> 1 / 2 ^ 53" by (rule order_trans)
    then have "\<bar>rnd64 x - x\<bar> * R \<le> e * R" using R by (intro mult_right_mono) (auto simp: e_def)
    then show ?thesis using R by (simp add: abs_mult flip: left_diff_distrib)
  qed
  moreover have "\<bar>z - rnd64 x * R\<bar> \<le> 2 * (e * R)"
  proof -
    have "\<bar>z - rnd64 x * R\<bar> \<le> rnd64 x * R / 2 ^ 53"
      unfolding z_def using y R by (intro rnd64_error) simp
    also have "\<dots> \<le> 2 * R / 2 ^ 53" using y2 R by (intro divide_right_mono mult_right_mono) auto
    also have "2 * R / 2 ^ 53 = 2 * (e * R)" by (simp add: e_def)
    finally show ?thesis .
  qed
  ultimately have close: "\<bar>z - x * R\<bar> \<le> 3 * (e * R)" by linarith
  have small: "3 * (e * R) < 1 / 2147483647" using R(2) by (simp add: e_def)
  have qw: "v * r = q * modulus + w" "0 \<le> w" "w < modulus"
    by (simp_all add: q_def w_def modulus_def)
  have "w \<noteq> 0"
  proof
    assume "w = 0"
    then have "modulus dvd v * r" by (simp add: w_def dvd_eq_mod_eq_0)
    then have "modulus dvd v" using co by (simp add: coprime_dvd_mult_left_iff coprime_commute)
    then show False using v by (auto simp: valid_seed_def dest: zdvd_not_zless)
  qed
  then have w1: "1 \<le> w" "w \<le> modulus - 1" using qw by linarith+
  have xR: "x * R = of_int q + of_int w / dM"
  proof -
    have "(of_int (v * r) :: rat) = of_int (q * modulus + w)" using qw(1) by simp
    then show ?thesis by (simp add: x_def R_def dM_def modulus_def field_simps)
  qed
  have wr: "(1::rat) \<le> of_int w" "of_int w \<le> (2147483646 :: rat)"
  proof -
    show "(1::rat) \<le> of_int w" using w1 by simp
    have "(of_int w :: rat) \<le> of_int (modulus - 1)" using w1(2) by (simp only: of_int_le_iff)
    then show "of_int w \<le> (2147483646 :: rat)" by (simp add: modulus_def)
  qed
  then have "of_int q + 1 / 2147483647 \<le> x * R" "x * R \<le> of_int q + 1 - 1 / 2147483647"
    by (simp_all add: xR dM_def)
  then have "of_int q < z" "z < of_int q + 1" using close small by linarith+
  then have "\<lfloor>z\<rfloor> = q" by linarith
  moreover have "0 \<le> z" using y R unfolding z_def by (intro rnd64_nonneg) simp
  moreover have "f64 v = of_int v" using vb by (intro f64_small) simp
  ultimately show ?thesis
    by (simp add: draw_def fmul_def fdiv_def ftrunc_def x_def [symmetric] R_def [symmetric]
        z_def [symmetric] q_def)
qed

subsection \<open>The remaining routines of the file\<close>

definition suppPerPart :: int where
  "suppPerPart = 4"

definition oLcntMax :: int where
  "oLcntMax = 7"

text \<open>The column \<open>child\<close> of \<open>tDefs\<close>; \<open>TNone\<close> (-1) is not an index of the slice.\<close>

fun tDefs_child :: "Table \<Rightarrow> Table option" where
  "tDefs_child TNone = None"
| "tDefs_child TPart = Some TPsupp"
| "tDefs_child TPsupp = Some TNone"
| "tDefs_child TSupp = Some TNone"
| "tDefs_child TCust = Some TNone"
| "tDefs_child TOrder = Some TLine"
| "tDefs_child TLine = Some TNone"
| "tDefs_child TOrderLine = Some TLine"
| "tDefs_child TPartPsupp = Some TPsupp"
| "tDefs_child TNation = Some TNone"
| "tDefs_child TRegion = Some TNone"

definition rowStart :: "seeds \<Rightarrow> seeds" where
  "rowStart ss = (\<lambda>i. if 0 \<le> i \<and> i < maxStream then (ss i)\<lparr>seed_usage := 0\<rparr> else ss i)"

fun rowTable :: "Table \<Rightarrow> Table" where
  "rowTable TOrderLine = TOrder"
| "rowTable TPartPsupp = TPart"
| "rowTable t = t"

definition rowStop :: "Table \<Rightarrow> seeds \<Rightarrow> seeds option" where
  "rowStop t0 ss =
     (let t = rowTable t0 in
      case tDefs_child t of
        None \<Rightarrow> None
      | Some child \<Rightarrow> Some (\<lambda>i.
          if 0 \<le> i \<and> i < maxStream \<and> (seed_table (ss i) = t \<or> seed_table (ss i) = child)
          then (ss i)\<lparr>seed_value :=
                 nthElement (seed_boundary (ss i) - seed_usage (ss i)) (seed_value (ss i))\<rparr>
          else ss i))"

definition alphaNum :: string where
  "alphaNum = ''0123456789abcdefghijklmnopqrstuvwxyz ABCDEFGHIJKLMNOPQRSTUVWXYZ,''"

fun aRand_loop ::
  "nat \<Rightarrow> dssHuge \<Rightarrow> dssHuge \<Rightarrow> int \<Rightarrow> string \<Rightarrow> seeds \<Rightarrow> (string \<times> seeds) option" where
  "aRand_loop 0 i charInt column buf ss = Some (buf, ss)"
| "aRand_loop (Suc k) i charInt column buf ss = do {
     (charInt, ss) \<leftarrow> (if i mod 5 = 0 then random 0 maxLong column ss else Some (charInt, ss));
     c \<leftarrow> go_index alphaNum (and charInt 63);
     aRand_loop k (i + 1) (drop_bit 6 charInt) column (buf @ [c]) ss
   }"

definition aRand :: "int \<Rightarrow> int \<Rightarrow> int \<Rightarrow> seeds \<Rightarrow> (string \<times> seeds) option" where
  "aRand minv maxv column ss = do {
     (len, ss) \<leftarrow> random minv maxv column ss;
     aRand_loop (nat len) 0 0 column [] ss
   }"

definition vStrLow :: rat where
  "vStrLow = rnd64 (4 / 10)"

definition vStrHgh :: rat where
  "vStrHgh = rnd64 (16 / 10)"

definition scaledLow :: "int \<Rightarrow> int" where
  "scaledLow avg = ftrunc (fmul (f64 avg) vStrLow)"

definition scaledHgh :: "int \<Rightarrow> int" where
  "scaledHgh avg = ftrunc (fmul (f64 avg) vStrHgh)"

definition vStr :: "int \<Rightarrow> int \<Rightarrow> seeds \<Rightarrow> (string \<times> seeds) option" where
  "vStr avg sd ss = aRand (scaledLow avg) (scaledHgh avg) sd ss"

definition nationsMax :: int where
  "nationsMax = 90"

definition genPhone :: "dssHuge \<Rightarrow> int \<Rightarrow> seeds \<Rightarrow> (string \<times> seeds) option" where
  "genPhone idx sd ss = do {
     (aCode, ss) \<leftarrow> random 100 999 sd ss;
     (exChg, ss) \<leftarrow> random 100 999 sd ss;
     (number, ss) \<leftarrow> random 1000 9999 sd ss;
     Some (fmt_0d 2 (10 + idx smod nationsMax) @ ''-'' @ fmt_0d 3 aCode @ ''-'' @
           fmt_0d 3 exChg @ ''-'' @ fmt_0d 4 number, ss)
   }"

definition seedTable :: "(Table \<times> dssHuge \<times> dssHuge) list" where
  "seedTable =
    [(TPart, 1, 1), (TPart, 46831694, 1), (TPart, 1841581359, 1), (TPart, 1193163244, 1),
     (TPart, 727633698, 1), (TNone, 933588178, 1), (TPart, 804159733, 2),
     (TPsupp, 1671059989, suppPerPart), (TPsupp, 1051288424, suppPerPart),
     (TPsupp, 1961692154, suppPerPart * 2), (TOrder, 1227283347, 1), (TOrder, 1171034773, 1),
     (TOrder, 276090261, 2), (TOrder, 1066728069, 1), (TLine, 209208115, oLcntMax),
     (TLine, 554590007, oLcntMax), (TLine, 721958466, oLcntMax), (TLine, 1371272478, oLcntMax),
     (TLine, 675466456, oLcntMax), (TLine, 1808217256, oLcntMax), (TLine, 2095021727, oLcntMax),
     (TLine, 1769349045, oLcntMax), (TLine, 904914315, oLcntMax), (TLine, 373135028, oLcntMax),
     (TLine, 717419739, oLcntMax), (TLine, 1095462486, oLcntMax * 2), (TCust, 881155353, 9),
     (TCust, 1489529863, 1), (TCust, 1521138112, 3), (TCust, 298370230, 1),
     (TCust, 1140279430, 1), (TCust, 1335826707, 2), (TSupp, 706178559, 9), (TSupp, 110356601, 1),
     (TSupp, 884434366, 3), (TSupp, 962338209, 1), (TSupp, 1341315363, 2), (TPart, 709314158, 92),
     (TOrder, 591449447, 1), (TLine, 431918286, 1), (TOrder, 851767375, 1), (TNation, 606179079, 2),
     (TRegion, 1500869201, 2), (TOrder, 1434868289, 1), (TSupp, 263032577, 1),
     (TSupp, 753643799, 1), (TSupp, 202794285, 1), (TSupp, 715851524, 1)]"

definition initSeeds :: seeds where
  "initSeeds i =
     (if 0 \<le> i \<and> i \<le> maxStream
      then (case seedTable ! nat i of (t, v, b) \<Rightarrow>
        \<lparr>seed_table = t, seed_value = v, seed_usage = 0, seed_boundary = b\<rparr>)
      else \<lparr>seed_table = TPart, seed_value = 0, seed_usage = 0, seed_boundary = 0\<rparr>)"

subsection \<open>Counting generator steps\<close>

text \<open>
  From \<open>s\<close> to \<open>s'\<close> each stream made as many steps as it occurs in the multiset, and its usage
  grew by that number.
\<close>

definition consumed :: "seeds \<Rightarrow> seeds \<Rightarrow> int multiset \<Rightarrow> bool" where
  "consumed s s' M \<longleftrightarrow> (\<forall>i.
     seed_value (s' i) = (nextRand ^^ count M i) (seed_value (s i)) \<and>
     seed_usage (s' i) = seed_usage (s i) + int (count M i) \<and>
     seed_table (s' i) = seed_table (s i) \<and> seed_boundary (s' i) = seed_boundary (s i))"

definition valid_streams :: "seeds \<Rightarrow> bool" where
  "valid_streams s \<longleftrightarrow> (\<forall>i. 0 \<le> i \<and> i \<le> maxStream \<longrightarrow> valid_seed (seed_value (s i)))"

named_theorems draws \<open>what the routines that draw random values do to the streams\<close>

lemma consumed_refl [simp]: "consumed s s {#}"
  by (simp add: consumed_def)

lemma consumed_trans: "consumed s t M \<Longrightarrow> consumed t u N \<Longrightarrow> consumed s u (M + N)"
  by (simp add: consumed_def add.commute [of "count M _"] funpow_add)

lemma consumed_valid: "consumed s t M \<Longrightarrow> valid_streams s \<Longrightarrow> valid_streams t"
  by (simp add: consumed_def valid_streams_def lcg31.inv_steps)

lemma valid_streams_seed: "valid_streams s \<Longrightarrow> 0 \<le> i \<Longrightarrow> i \<le> 47 \<Longrightarrow> valid_seed (seed_value (s i))"
  by (simp add: valid_streams_def maxStream_def)

lemma valid_streams_initSeeds: "valid_streams initSeeds"
proof -
  have "\<forall>i \<in> set [0..47]. valid_seed (seed_value (initSeeds i))" by code_simp
  then show ?thesis by (simp add: valid_streams_def maxStream_def)
qed

lemma initSeeds_boundary: "0 \<le> i \<Longrightarrow> i \<le> 47 \<Longrightarrow> 0 \<le> seed_boundary (initSeeds i)"
proof -
  have "\<forall>i \<in> set [0..47]. 0 \<le> seed_boundary (initSeeds i)" by code_simp
  then show "0 \<le> i \<Longrightarrow> i \<le> 47 \<Longrightarrow> 0 \<le> seed_boundary (initSeeds i)" by simp
qed

lemma unifInt_eq:
  "0 \<le> c \<Longrightarrow> c \<le> 47 \<Longrightarrow>
   unifInt lo hi c s = Some (wrap64 (lo + draw (unifRange lo hi) (nextRand (seed_value (s c)))),
     s(c := (s c)\<lparr>seed_value := nextRand (seed_value (s c))\<rparr>))"
  by (simp add: unifInt_def clampStream_def maxStream_def draw_def Let_def)

text \<open>A call of \<open>random\<close>, whatever its range, makes one step on its stream.\<close>

lemma random_any:
  assumes "0 \<le> c" "c \<le> 47"
  shows "runs (random lo hi c) s (\<lambda>r t. consumed s t {#c#})"
  using assms
  by (intro runsI) (auto simp: random_def seed_at_def maxStream_def unifInt_eq consumed_def)

lemma unifRange_small:
  assumes "lo \<le> hi" "hi - lo < 2 ^ 31 - 1"
  shows "unifRange lo hi = of_int (hi - lo + 1)"
  using assms f64_small [of "hi - lo + 1"]
  by (auto simp: unifRange_def maxLong_def wrap64_id)

text \<open>With a range of fewer than \<open>2^31\<close> values the result lies in the range.\<close>

lemma random_range [draws]:
  assumes "valid_streams s" "0 \<le> c" "c \<le> 47" "lo \<le> hi" "hi - lo < 2 ^ 31 - 1" "\<bar>lo\<bar> < 2 ^ 62"
  shows "runs (random lo hi c) s (\<lambda>r t. lo \<le> r \<and> r \<le> hi \<and> consumed s t {#c#})"
proof -
  define v where "v = nextRand (seed_value (s c))"
  have "valid_seed v"
    using valid_seed_nextRand valid_streams_seed [OF assms(1-3)] by (simp add: v_def)
  then have d: "0 \<le> draw (of_int (hi - lo + 1)) v" "draw (of_int (hi - lo + 1)) v < hi - lo + 1"
    using draw_range [of v "hi - lo + 1"] assms by auto
  then have "wrap64 (lo + draw (of_int (hi - lo + 1)) v) = lo + draw (of_int (hi - lo + 1)) v"
    using assms by (intro wrap64_id) auto
  then show ?thesis
    using assms d
    by (intro runsI)
      (auto simp: random_def seed_at_def maxStream_def unifInt_eq consumed_def unifRange_small
        v_def [symmetric])
qed

lemma replicate_mset_plus: "replicate_mset (m + n) x = replicate_mset m x + replicate_mset n x"
  by (induction m) simp_all

lemma alphaNum_length [simp]: "length alphaNum = 64"
  by (simp add: alphaNum_def)

lemma alphaNum_index: "\<exists>ch. go_index alphaNum (and x 63) = Some ch \<and> ch \<in> set alphaNum"
proof -
  have "and x 63 = x mod 64" for x :: int
    using take_bit_eq_mask [of 6 x] by (simp add: take_bit_eq_mod mask_eq_exp_minus_1)
  then have "0 \<le> and x 63" "and x 63 < int (length alphaNum)" by simp_all
  then show ?thesis
    using nth_mem [of "nat (and x 63)" alphaNum]
    by (simp add: go_index_Some nat_less_iff)
qed

lemma aRand_loop_draws:
  assumes c: "0 \<le> c" "c \<le> 47"
  shows "0 \<le> i \<Longrightarrow> runs (aRand_loop k i x c buf) s (\<lambda>str t.
     length str = length buf + k \<and> set str \<subseteq> set buf \<union> set alphaNum \<and>
     (\<exists>n. consumed s t (replicate_mset n c) \<and> int n = (i + int k + 4) div 5 - (i + 4) div 5))"
proof (induction k arbitrary: i x buf s)
  case 0
  then show ?case by (auto simp: runs_def intro: exI [of _ 0])
next
  case (Suc k)
  define m where "m = (if i mod 5 = 0 then 1 else 0 :: nat)"
  obtain y t where y: "(if i mod 5 = 0 then random 0 maxLong c s else Some (x, s)) = Some (y, t)"
    "consumed s t (replicate_mset m c)"
    using random_any [OF c, of 0 maxLong s] unfolding runs_def m_def
    by (cases "i mod 5 = 0") auto
  obtain ch where ch: "go_index alphaNum (and y 63) = Some ch" "ch \<in> set alphaNum"
    using alphaNum_index by blast
  obtain str u n where u: "aRand_loop k (i + 1) (drop_bit 6 y) c (buf @ [ch]) t = Some (str, u)"
    "length str = length (buf @ [ch]) + k" "set str \<subseteq> set (buf @ [ch]) \<union> set alphaNum"
    "consumed t u (replicate_mset n c)"
    "int n = (i + 1 + int k + 4) div 5 - (i + 5) div 5"
    using Suc.IH [of "i + 1" "drop_bit 6 y" "buf @ [ch]" t] Suc.prems by (auto elim!: runsE)
  have "consumed s u (replicate_mset (m + n) c)"
    using consumed_trans [OF y(2) u(4)] by (simp add: replicate_mset_plus)
  moreover have "int (m + n) = (i + int (Suc k) + 4) div 5 - (i + 4) div 5"
  proof -
    have "int m = (i + 5) div 5 - (i + 4) div 5" unfolding m_def by presburger
    then show ?thesis using u(5) by (simp add: algebra_simps)
  qed
  ultimately show ?case
    using y(1) ch u(1-3) by (auto simp: runs_def intro!: exI [of _ "m + n"])
qed

text \<open>
  \<open>aRand\<close> never indexes outside the alphabet; it returns a string of a length between the bounds
  and steps its stream once for the length and once for every five characters begun.
\<close>

lemma aRand_draws [draws]:
  assumes "valid_streams s" "0 \<le> c" "c \<le> 47" "0 \<le> lo" "lo \<le> hi" "hi < 2 ^ 31 - 1"
  shows "runs (aRand lo hi c) s (\<lambda>str t.
     lo \<le> int (length str) \<and> int (length str) \<le> hi \<and> set str \<subseteq> set alphaNum \<and>
     consumed s t (replicate_mset (1 + (length str + 4) div 5) c))"
proof -
  obtain len t where l: "random lo hi c s = Some (len, t)" "lo \<le> len" "len \<le> hi"
    "consumed s t {#c#}"
    using random_range [of s c lo hi] assms by (auto elim!: runsE)
  obtain str u n where u: "aRand_loop (nat len) 0 0 c [] t = Some (str, u)"
    "length str = nat len" "set str \<subseteq> set alphaNum"
    "consumed t u (replicate_mset n c)" "int n = (int (nat len) + 4) div 5 - 4 div 5"
    using aRand_loop_draws [of c 0 "nat len" 0 "[]" t] assms by (auto elim!: runsE)
  have "int n = int ((length str + 4) div 5)" using u(2,5) by (simp add: zdiv_int)
  then have "n = (length str + 4) div 5" by (simp only: of_nat_eq_iff)
  then have "consumed s u (replicate_mset (1 + (length str + 4) div 5) c)"
    using consumed_trans [OF l(4) u(4)] by simp
  then show ?thesis
    using l u assms by (auto simp: runs_def aRand_def)
qed

text \<open>The scaled lengths: the float products truncate to the integer quotients.\<close>

lemma vStrLow_eq: "vStrLow = 7205759403792794 / 2 ^ 54"
proof -
  have "rne (7205759403792793 + 3 / 5) = 7205759403792794"
    by (rule rne_eqI) simp
  moreover have "(4 / 10 :: rat) / 2 powi (- 2 - 52) = 7205759403792793 + 3 / 5"
    by (simp add: power_int_minus)
  ultimately show ?thesis
    unfolding vStrLow_def using rnd64_eval [of "- 2" "4 / 10"] by (simp add: power_int_minus)
qed

lemma vStrHgh_eq: "vStrHgh = 7205759403792794 / 2 ^ 52"
proof -
  have "rne (7205759403792793 + 3 / 5) = 7205759403792794"
    by (rule rne_eqI) simp
  moreover have "(16 / 10 :: rat) / 2 powi (0 - 52) = 7205759403792793 + 3 / 5"
    by (simp add: power_int_minus)
  ultimately show ?thesis
    unfolding vStrHgh_def using rnd64_eval [of 0 "16 / 10"] by (simp add: power_int_minus)
qed

lemma scaled_floor:
  assumes avg: "0 \<le> avg" "avg < 2 ^ 20" and p: "0 \<le> p" "p \<le> 8"
    and c: "of_int p / 5 \<le> c" "c \<le> of_int p / 5 + 1 / 2 ^ 52"
  shows "ftrunc (fmul (f64 avg) c) = avg * p div 5"
proof -
  define k where "k = avg * p div 5"
  define x where "x = (of_int avg * c :: rat)"
  have f: "f64 avg = of_int avg" using avg by (intro f64_small) simp
  have k0: "0 \<le> k" using avg p by (simp add: k_def pos_imp_zdiv_nonneg_iff)
  have a: "0 \<le> (of_int avg :: rat)" "(of_int avg :: rat) \<le> 1048576" using avg by simp_all
  have k5: "5 * k \<le> avg * p" "avg * p \<le> 5 * k + 4" by (simp_all add: k_def)
  have "avg * p \<le> 1048576 * 8" using avg p by (intro mult_mono) auto
  then have kb: "k \<le> 1677721" by (simp add: k_def)
  have ap: "(of_int (5 * k) :: rat) \<le> of_int (avg * p)" "(of_int (avg * p) :: rat) \<le> of_int (5 * k + 4)"
    using k5 by (simp_all only: of_int_le_iff)
  have "of_int avg * (of_int p / 5) \<le> x" using c(1) a unfolding x_def by (intro mult_left_mono)
  then have lo: "of_int k \<le> x" using ap by simp
  have "x \<le> of_int avg * (of_int p / 5 + 1 / 2 ^ 52)"
    using c(2) a unfolding x_def by (intro mult_left_mono)
  also have "\<dots> \<le> of_int k + 4 / 5 + 1 / 2 ^ 32"
    using ap a by (simp add: distrib_left)
  finally have hi: "x \<le> of_int k + 4 / 5 + 1 / 2 ^ 32" .
  have kq: "0 \<le> (of_int k :: rat)" "(of_int k :: rat) \<le> 1677721" using k0 kb by simp_all
  have x0: "0 \<le> x" using lo kq by linarith
  have "rnd64 (of_int k) \<le> rnd64 x" using lo kq by (intro rnd64_mono_nonneg)
  moreover have "rnd64 (of_int k) = of_int k" using k0 kb by (intro rnd64_int) auto
  moreover have "\<bar>rnd64 x - x\<bar> \<le> x / 2 ^ 53" by (rule rnd64_error [OF x0])
  moreover have "x / 2 ^ 53 \<le> 1 / 100" using hi kq by simp
  moreover have "(1 / 2 ^ 32 :: rat) \<le> 1 / 100" by simp
  ultimately have "of_int k \<le> rnd64 x" "rnd64 x < of_int k + 1" using hi by linarith+
  then have "\<lfloor>rnd64 x\<rfloor> = k" by linarith
  then show ?thesis
    using x0 rnd64_nonneg [of x] by (simp add: ftrunc_def fmul_def f x_def [symmetric] k_def)
qed

lemma scaledLow_eq: "0 \<le> avg \<Longrightarrow> avg < 2 ^ 20 \<Longrightarrow> scaledLow avg = avg * 2 div 5"
  unfolding scaledLow_def by (rule scaled_floor) (simp_all add: vStrLow_eq)

lemma scaledHgh_eq: "0 \<le> avg \<Longrightarrow> avg < 2 ^ 20 \<Longrightarrow> scaledHgh avg = avg * 8 div 5"
  unfolding scaledHgh_def by (rule scaled_floor) (simp_all add: vStrHgh_eq)

lemma vStr_draws [draws]:
  assumes "valid_streams s" "0 \<le> c" "c \<le> 47" "0 \<le> avg" "avg < 2 ^ 20"
  shows "runs (vStr avg c) s (\<lambda>str t.
     avg * 2 div 5 \<le> int (length str) \<and> int (length str) \<le> avg * 8 div 5 \<and>
     set str \<subseteq> set alphaNum \<and> consumed s t (replicate_mset (1 + (length str + 4) div 5) c))"
proof -
  have "runs (aRand (avg * 2 div 5) (avg * 8 div 5) c) s (\<lambda>str t.
     avg * 2 div 5 \<le> int (length str) \<and> int (length str) \<le> avg * 8 div 5 \<and>
     set str \<subseteq> set alphaNum \<and> consumed s t (replicate_mset (1 + (length str + 4) div 5) c))"
    using assms by (intro aRand_draws) auto
  then show ?thesis
    using assms by (simp add: runs_def vStr_def scaledLow_eq scaledHgh_eq)
qed

subsection \<open>Walking through code that draws\<close>

text \<open>
  \<open>since s t M\<close>: the state reached so far, its cost \<open>M\<close>, from a start \<open>s\<close> with valid streams.
\<close>

definition since :: "seeds \<Rightarrow> seeds \<Rightarrow> int multiset \<Rightarrow> bool" where
  "since s t M \<longleftrightarrow> valid_streams s \<and> consumed s t M"

lemma since_start: "valid_streams s \<Longrightarrow> since s s {#}"
  by (simp add: since_def)

lemma since_valid: "since s t M \<Longrightarrow> valid_streams t"
  by (auto simp: since_def intro: consumed_valid)

lemma since_trans: "since s t M \<Longrightarrow> consumed t u N \<Longrightarrow> since s u (M + N)"
  by (auto simp: since_def intro: consumed_trans)

lemma step_draws:
  assumes "runs m t (\<lambda>x u. P x \<and> consumed t u N)" "since s t M"
    and "\<And>x u. P x \<Longrightarrow> since s u (M + N) \<Longrightarrow> yields (k x u) Q"
  shows "yields (m t \<bind> (\<lambda>(x, u). k x u)) Q"
  using assms by (fastforce simp: runs_def yields_def dest: since_trans)

lemma step_random [steps]:
  assumes "since s t M" "0 \<le> c \<and> c \<le> 47" "lo \<le> hi \<and> hi - lo < 2 ^ 31 - 1 \<and> \<bar>lo\<bar> < 2 ^ 62"
    and "\<And>x u. lo \<le> x \<Longrightarrow> x \<le> hi \<Longrightarrow> since s u (add_mset c M) \<Longrightarrow> yields (k x u) Q"
  shows "yields (random lo hi c t \<bind> (\<lambda>(x, u). k x u)) Q"
proof (rule step_draws [OF _ assms(1), where P = "\<lambda>x. lo \<le> x \<and> x \<le> hi"])
  show "runs (random lo hi c) t (\<lambda>x u. (lo \<le> x \<and> x \<le> hi) \<and> consumed t u {#c#})"
    using random_range [OF since_valid [OF assms(1)], of c lo hi] assms by simp
qed (use assms in auto)

lemma step_vStr [steps]:
  assumes "since s t M" "0 \<le> c \<and> c \<le> 47" "0 \<le> avg \<and> avg < 2 ^ 20"
    and "\<And>str u. avg * 2 div 5 \<le> int (length str) \<Longrightarrow> int (length str) \<le> avg * 8 div 5 \<Longrightarrow>
      set str \<subseteq> set alphaNum \<Longrightarrow> since s u (M + replicate_mset (1 + (length str + 4) div 5) c) \<Longrightarrow>
      yields (k str u) Q"
  shows "yields (vStr avg c t \<bind> (\<lambda>(x, u). k x u)) Q"
  using vStr_draws [OF since_valid [OF assms(1)], of c avg] assms
  by (fastforce simp: runs_def yields_def dest: since_trans)

definition phone :: "dssHuge \<Rightarrow> dssHuge \<Rightarrow> dssHuge \<Rightarrow> dssHuge \<Rightarrow> string" where
  "phone idx a b c =
     fmt_0d 2 (10 + idx smod nationsMax) @ ''-'' @ fmt_0d 3 a @ ''-'' @ fmt_0d 3 b @ ''-'' @ fmt_0d 4 c"

lemma step_genPhone [steps]:
  assumes "since s t M" "0 \<le> c \<and> c \<le> 47"
    and "\<And>a b n u. 100 \<le> a \<Longrightarrow> a \<le> 999 \<Longrightarrow> 100 \<le> b \<Longrightarrow> b \<le> 999 \<Longrightarrow> 1000 \<le> n \<Longrightarrow> n \<le> 9999 \<Longrightarrow>
      since s u (add_mset c (add_mset c (add_mset c M))) \<Longrightarrow> yields (k (phone idx a b n) u) Q"
  shows "yields (genPhone idx c t \<bind> (\<lambda>(x, u). k x u)) Q"
proof (rule yields_bind)
  show "yields (genPhone idx c t) (\<lambda>x u. \<exists>a b n. 100 \<le> a \<and> a \<le> 999 \<and> 100 \<le> b \<and> b \<le> 999 \<and>
      1000 \<le> n \<and> n \<le> 9999 \<and> x = phone idx a b n \<and>
      since s u (add_mset c (add_mset c (add_mset c M))))"
    unfolding genPhone_def using assms(1,2)
    by (intro steps) (auto simp: phone_def)
qed (use assms in auto)

subsection \<open>The row protocol\<close>

text \<open>The streams a row of table \<open>t\<close> resynchronises, and the contract of a row's code.\<close>

definition row_stream :: "Table \<Rightarrow> seeds \<Rightarrow> int \<Rightarrow> bool" where
  "row_stream t s i \<longleftrightarrow> 0 \<le> i \<and> i < maxStream \<and>
     (seed_table (s i) = rowTable t \<or> Some (seed_table (s i)) = tDefs_child (rowTable t))"

definition within_boundary :: "Table \<Rightarrow> seeds \<Rightarrow> int multiset \<Rightarrow> bool" where
  "within_boundary t s M \<longleftrightarrow>
     (\<forall>i. row_stream t s i \<longrightarrow> int (count M i) \<le> seed_boundary (s i))"

lemma rowStart_fields [simp]:
  "seed_value (rowStart s i) = seed_value (s i)" "seed_table (rowStart s i) = seed_table (s i)"
  "seed_boundary (rowStart s i) = seed_boundary (s i)"
  by (simp_all add: rowStart_def)

lemma valid_streams_rowStart [simp]: "valid_streams (rowStart s) = valid_streams s"
  by (simp add: valid_streams_def)

lemma rowStart_usage: "0 \<le> i \<Longrightarrow> i < maxStream \<Longrightarrow> seed_usage (rowStart s i) = 0"
  by (simp add: rowStart_def)

lemma rowStop_defined: "rowTable t \<noteq> TNone \<Longrightarrow> \<exists>u. rowStop t s = Some u"
  by (cases "rowTable t") (simp_all add: rowStop_def)

text \<open>
  After \<open>rowStop\<close> every stream of the row's tables stands exactly \<open>boundary\<close> steps after its
  position at \<open>rowStart\<close>, whatever the row consumed; the other streams keep what was consumed.
\<close>

lemma row_value:
  assumes "since (rowStart s) u M" "rowStop t u = Some v" "within_boundary t s M"
    and i: "0 \<le> i" "i \<le> maxStream"
  shows "seed_value (v i) =
    (nextRand ^^ (if row_stream t s i then nat (seed_boundary (s i)) else count M i))
      (seed_value (s i))"
proof -
  have c: "seed_value (u i) = (nextRand ^^ count M i) (seed_value (s i))"
    "seed_usage (u i) = seed_usage (rowStart s i) + int (count M i)"
    "seed_table (u i) = seed_table (s i)" "seed_boundary (u i) = seed_boundary (s i)"
    using assms(1) by (simp_all add: since_def consumed_def)
  have valid: "valid_seed (seed_value (s i))"
    using assms(1) i valid_streams_seed [of s i] by (simp add: since_def maxStream_def)
  show ?thesis
  proof (cases "row_stream t s i")
    case False
    then show ?thesis using assms(2) c
      by (auto simp: rowStop_def row_stream_def Let_def split: option.splits)
  next
    case True
    then have le: "int (count M i) \<le> seed_boundary (s i)" using assms(3) by (simp add: within_boundary_def)
    have u0: "seed_usage (u i) = int (count M i)"
      using True c(2) rowStart_usage [of i s] by (simp add: row_stream_def)
    have "seed_value (v i) = nthElement (seed_boundary (u i) - seed_usage (u i)) (seed_value (u i))"
      using assms(2) True c
      by (auto simp: rowStop_def row_stream_def Let_def split: option.splits)
    also have "\<dots> = (nextRand ^^ (count M i + nat (seed_boundary (s i) - int (count M i))))
        (seed_value (s i))"
      using lcg31.jump_after_steps [OF _ valid, of "seed_boundary (s i) - int (count M i)"] le
      by (simp add: c(1,3,4) u0)
    also have "count M i + nat (seed_boundary (s i) - int (count M i)) = nat (seed_boundary (s i))"
      using le by linarith
    finally show ?thesis using True by simp
  qed
qed

lemma row_other:
  assumes "since (rowStart s) u M" "rowStop t u = Some v"
  shows "seed_table (v i) = seed_table (s i)" "seed_boundary (v i) = seed_boundary (s i)"
  using assms by (auto simp: since_def consumed_def rowStop_def Let_def split: option.splits)

lemma row_valid:
  assumes "since (rowStart s) u M" "rowStop t u = Some v"
  shows "valid_streams v"
proof -
  have u: "valid_streams u" by (rule since_valid [OF assms(1)])
  have "valid_seed (seed_value (v i))" if i: "0 \<le> i" "i \<le> maxStream" for i
  proof -
    have ui: "valid_seed (seed_value (u i))" using u i by (simp add: valid_streams_def)
    have "nthElement n (seed_value (u i)) = seed_value (u i)" if "n < 0" for n
      using that by (simp add: nthElement_def nthElement_loop.simps [of n])
    then have "valid_seed (nthElement n (seed_value (u i)))" for n
      using lcg31.inv_jump [OF _ ui, of n] ui by (cases "0 \<le> n") auto
    then show ?thesis using assms(2) ui
      by (auto simp: rowStop_def Let_def split: option.splits)
  qed
  then show ?thesis by (simp add: valid_streams_def)
qed

subsection \<open>Properties\<close>



text \<open>
  For ranges below \<open>2^20\<close> that are coprime to the modulus the float arithmetic is exact: the
  value drawn is \<open>lo + (v * range) div (2^31 - 1)\<close> for the new seed \<open>v\<close>, as in the C program
  whose answers the generator has to reproduce.
\<close>

theorem random_exact:
  assumes "valid_streams s" "0 \<le> c" "c \<le> 47" "lo \<le> hi" "hi - lo + 1 < 2 ^ 20" "\<bar>lo\<bar> < 2 ^ 62"
    and "coprime (hi - lo + 1) modulus"
  shows "map_option fst (random lo hi c s) =
    Some (lo + nextRand (seed_value (s c)) * (hi - lo + 1) div modulus)"
proof -
  define v where "v = nextRand (seed_value (s c))"
  define r where "r = hi - lo + 1"
  have v: "valid_seed v"
    using valid_seed_nextRand valid_streams_seed [OF assms(1-3)] by (simp add: v_def)
  have d: "draw (of_int r) v = v * r div modulus"
    using draw_exact [OF v, of r] assms by (simp add: r_def)
  have "0 \<le> draw (of_int r) v" "draw (of_int r) v < r"
    using draw_range [OF v, of r] assms by (simp_all add: r_def)
  then have "wrap64 (lo + draw (of_int r) v) = lo + draw (of_int r) v"
    using assms by (intro wrap64_id) (auto simp: r_def)
  moreover have "unifRange lo hi = of_int r"
    unfolding r_def using assms by (intro unifRange_small) auto
  ultimately show ?thesis
    using assms d by (simp add: random_def seed_at_def maxStream_def unifInt_eq
        v_def [symmetric] r_def [symmetric])
qed

lemma random_exact_witness:
  "map_option fst (random 1 7 43 initSeeds) =
    Some (1 + nextRand (seed_value (initSeeds 43)) * (7 - 1 + 1) div modulus)"
proof (rule random_exact)
  have "gcd (7 - 1 + 1) modulus = 1" by code_simp
  then show "coprime (7 - 1 + 1) modulus" by (simp only: coprime_iff_gcd_eq_1)
qed (simp_all add: valid_streams_initSeeds)


definition demo_row :: seeds where
  "demo_row = (rowStart initSeeds)(9 := (initSeeds 9)\<lparr>
     seed_value := (nextRand ^^ 3) (seed_value (initSeeds 9)), seed_usage := 3\<rparr>)"


end
