(* ===== verification/DbgenDist.thy ===== *)
theory DbgenDist
  imports DbgenStream
begin

text \<open>
  Weighted distributions: \<open>tpch/dbgen/dist.go\<close>, and \<open>pickStr\<close> and \<open>aggStr\<close> of
  \<open>misc.go\<close>.  \<open>readDist\<close> turns weights into cumulative ones; \<open>pickStr\<close> chooses a member
  with probability its weight; \<open>aggStr\<close> joins the first members of a random permutation.
\<close>

record setMember =
  sm_weight :: long
  sm_text :: string

record distribution =
  d_count :: int
  d_max :: int
  d_members :: "setMember list"
  d_permute :: "long list"

definition noDist :: distribution where
  "noDist = \<lparr>d_count = 0, d_max = 0, d_members = [], d_permute = []\<rparr>"

text \<open>The package's distributions.\<close>

record Dists =
  nations :: distribution
  nations2 :: distribution
  regions :: distribution
  oPrioritySet :: distribution
  lInstructSet :: distribution
  lSmodeSet :: distribution
  lCategorySet :: distribution
  lRflagSet :: distribution
  cMsegSet :: distribution
  colors :: distribution
  pTypesSet :: distribution
  pCntrSet :: distribution
  articles :: distribution
  nouns :: distribution
  adjectives :: distribution
  adverbs :: distribution
  prepositions :: distribution
  verbs :: distribution
  terminators :: distribution
  auxillaries :: distribution
  np :: distribution
  vp :: distribution
  grammar :: distribution

fun readDist_loop :: "Dist \<Rightarrow> distribution \<Rightarrow> distribution" where
  "readDist_loop [] d = d"
| "readDist_loop ((txt, w) # items) d =
     (let m = wrap32 (d_max d + w)
      in readDist_loop items (d\<lparr>d_max := m,
           d_members := d_members d @ [\<lparr>sm_weight = m, sm_text = txt\<rparr>]\<rparr>))"

definition readDist :: "string \<Rightarrow> distribution \<Rightarrow> distribution" where
  "readDist name d = readDist_loop (Maps name) (d\<lparr>d_count := int (length (Maps name))\<rparr>)"

fun permute_loop ::
  "nat \<Rightarrow> int \<Rightarrow> long list \<Rightarrow> int \<Rightarrow> long \<Rightarrow> seeds \<Rightarrow> (long list \<times> seeds) option" where
  "permute_loop 0 i p cnt stream ss = Some (p, ss)"
| "permute_loop (Suc k) i p cnt stream ss = do {
     (source, ss) \<leftarrow> random i (cnt - 1) stream ss;
     a \<leftarrow> go_index p i;
     b \<leftarrow> go_index p source;
     p \<leftarrow> go_update p source a;
     p \<leftarrow> go_update p i b;
     permute_loop k (i + 1) p cnt stream ss
   }"

definition permute :: "long list \<Rightarrow> int \<Rightarrow> long \<Rightarrow> seeds \<Rightarrow> (long list \<times> seeds) option" where
  "permute p cnt stream ss = permute_loop (nat cnt) 0 p cnt stream ss"

fun permuteDist_loop :: "nat \<Rightarrow> int \<Rightarrow> long list \<Rightarrow> long list option" where
  "permuteDist_loop 0 i p = Some p"
| "permuteDist_loop (Suc k) i p = do {
     p \<leftarrow> go_update p i i;
     permuteDist_loop k (i + 1) p
   }"

definition permuteDist :: "distribution \<Rightarrow> long \<Rightarrow> seeds \<Rightarrow> (distribution \<times> seeds) option" where
  "permuteDist d stream ss = do {
     let p = (if length (d_permute d) = 0 then replicate (nat (d_count d)) 0 else d_permute d);
     p \<leftarrow> permuteDist_loop (nat (d_count d)) 0 p;
     (p, ss) \<leftarrow> permute p (d_count d) stream ss;
     Some (d\<lparr>d_permute := p\<rparr>, ss)
   }"

fun pickStr_loop :: "setMember list \<Rightarrow> long \<Rightarrow> int \<Rightarrow> (int \<times> string) option" where
  "pickStr_loop [] j pos = None"
| "pickStr_loop (m # ms) j pos =
     (if sm_weight m < j then pickStr_loop ms j (pos + 1) else Some (pos, sm_text m))"

definition pickStr :: "distribution \<Rightarrow> int \<Rightarrow> seeds \<Rightarrow> ((int \<times> string) \<times> seeds) option" where
  "pickStr d c ss = do {
     m \<leftarrow> go_index (d_members d) (int (length (d_members d)) - 1);
     (j, ss) \<leftarrow> random 1 (sm_weight m) c ss;
     r \<leftarrow> pickStr_loop (d_members d) j 0;
     Some (r, ss)
   }"

fun aggStr_loop :: "nat \<Rightarrow> int \<Rightarrow> distribution \<Rightarrow> string \<Rightarrow> string option" where
  "aggStr_loop 0 i d buf = Some buf"
| "aggStr_loop (Suc k) i d buf = do {
     j \<leftarrow> go_index (d_permute d) i;
     m \<leftarrow> go_index (d_members d) j;
     aggStr_loop k (i + 1) d (buf @ sm_text m @ '' '')
   }"

definition aggStr ::
  "distribution \<Rightarrow> long \<Rightarrow> long \<Rightarrow> seeds \<Rightarrow> ((string \<times> distribution) \<times> seeds) option" where
  "aggStr set0 cnt col ss = do {
     (d, ss) \<leftarrow> permuteDist set0 col ss;
     tmp \<leftarrow> aggStr_loop (nat cnt) 0 d [];
     r \<leftarrow> go_slice tmp 0 (int (length tmp) - 1);
     Some ((r, d), ss)
   }"

definition initDists :: "Dists \<Rightarrow> Dists" where
  "initDists D = D\<lparr>
     pCntrSet := readDist ''p_cntr'' (pCntrSet D),
     colors := readDist ''colors'' (colors D),
     pTypesSet := readDist ''p_types'' (pTypesSet D),
     nations := readDist ''nations'' (nations D),
     regions := readDist ''regions'' (regions D),
     oPrioritySet := readDist ''o_oprio'' (oPrioritySet D),
     lInstructSet := readDist ''instruct'' (lInstructSet D),
     lSmodeSet := readDist ''smode'' (lSmodeSet D),
     lCategorySet := readDist ''category'' (lCategorySet D),
     lRflagSet := readDist ''rflag'' (lRflagSet D),
     cMsegSet := readDist ''msegmnt'' (cMsegSet D),
     nouns := readDist ''nouns'' (nouns D),
     verbs := readDist ''verbs'' (verbs D),
     adjectives := readDist ''adjectives'' (adjectives D),
     adverbs := readDist ''adverbs'' (adverbs D),
     auxillaries := readDist ''auxillaries'' (auxillaries D),
     terminators := readDist ''terminators'' (terminators D),
     articles := readDist ''articles'' (articles D),
     prepositions := readDist ''prepositions'' (prepositions D),
     grammar := readDist ''grammar'' (grammar D),
     np := readDist ''np'' (np D),
     vp := readDist ''vp'' (vp D)\<rparr>"

definition noDists :: Dists where
  "noDists = \<lparr>nations = noDist, nations2 = noDist, regions = noDist, oPrioritySet = noDist,
     lInstructSet = noDist, lSmodeSet = noDist, lCategorySet = noDist, lRflagSet = noDist,
     cMsegSet = noDist, colors = noDist, pTypesSet = noDist, pCntrSet = noDist,
     articles = noDist, nouns = noDist, adjectives = noDist, adverbs = noDist,
     prepositions = noDist, verbs = noDist, terminators = noDist, auxillaries = noDist,
     np = noDist, vp = noDist, grammar = noDist\<rparr>"

subsection \<open>Cumulative weights\<close>

text \<open>The members the loop appends, as a function of the items and the maximum so far.\<close>

fun cumulate :: "int \<Rightarrow> Dist \<Rightarrow> setMember list" where
  "cumulate m [] = []"
| "cumulate m ((txt, w) # items) =
     \<lparr>sm_weight = m + w, sm_text = txt\<rparr> # cumulate (m + w) items"

definition weight_sum :: "Dist \<Rightarrow> int" where
  "weight_sum items = sum_list (map snd items)"

definition pos_weights :: "Dist \<Rightarrow> bool" where
  "pos_weights items \<longleftrightarrow> list_all (\<lambda>x. 0 < snd x) items"

lemma weight_sum_simps [simp]: "weight_sum [] = 0" "weight_sum ((txt, w) # items) = w + weight_sum items"
  by (simp_all add: weight_sum_def)

lemma pos_weights_simps [simp]:
  "pos_weights []" "pos_weights ((txt, w) # items) \<longleftrightarrow> 0 < w \<and> pos_weights items"
  by (simp_all add: pos_weights_def)

lemma weight_sum_nonneg: "pos_weights items \<Longrightarrow> 0 \<le> weight_sum items"
  by (induction items) auto

text \<open>No partial sum leaves the range of \<open>int32\<close>.\<close>

fun sums_ok :: "int \<Rightarrow> Dist \<Rightarrow> bool" where
  "sums_ok m [] \<longleftrightarrow> True"
| "sums_ok m ((txt, w) # items) \<longleftrightarrow>
     - (2 ^ 31) \<le> m + w \<and> m + w < 2 ^ 31 \<and> sums_ok (m + w) items"

lemma sums_ok_pos: "pos_weights items \<Longrightarrow> 0 \<le> m \<Longrightarrow> m + weight_sum items < 2 ^ 31 \<Longrightarrow> sums_ok m items"
proof (induction items arbitrary: m)
  case (Cons x items)
  then show ?case using weight_sum_nonneg [of items] by (cases x) (auto simp: add.assoc)
qed simp

lemma readDist_loop_eq:
  "sums_ok (d_max d) items \<Longrightarrow>
   readDist_loop items d = d\<lparr>d_max := d_max d + weight_sum items,
     d_members := d_members d @ cumulate (d_max d) items\<rparr>"
  by (induction items arbitrary: d) (auto simp: wrap32_id add.assoc Let_def)

definition dist_of :: "string \<Rightarrow> distribution" where
  "dist_of name = \<lparr>d_count = int (length (Maps name)), d_max = weight_sum (Maps name),
     d_members = cumulate 0 (Maps name), d_permute = []\<rparr>"

lemma readDist_noDist: "sums_ok 0 (Maps name) \<Longrightarrow> readDist name noDist = dist_of name"
  by (simp add: readDist_def readDist_loop_eq dist_of_def noDist_def)

text \<open>Every distribution the program reads has positive weights of a small sum.\<close>

definition good_names :: "string list" where
  "good_names = [''p_cntr'', ''colors'', ''p_types'', ''regions'', ''o_oprio'',
     ''instruct'', ''smode'', ''category'', ''rflag'', ''msegmnt'', ''nouns'', ''verbs'',
     ''adjectives'', ''adverbs'', ''auxillaries'', ''terminators'', ''articles'', ''prepositions'',
     ''grammar'', ''np'', ''vp'']"

lemma Maps_eqs:
  "Maps ''p_cntr'' = dist_p_cntr"
  "Maps ''colors'' = dist_colors"
  "Maps ''p_types'' = dist_p_types"
  "Maps ''regions'' = dist_regions"
  "Maps ''o_oprio'' = dist_o_oprio"
  "Maps ''instruct'' = dist_instruct"
  "Maps ''smode'' = dist_smode"
  "Maps ''category'' = dist_category"
  "Maps ''rflag'' = dist_rflag"
  "Maps ''msegmnt'' = dist_msegmnt"
  "Maps ''nouns'' = dist_nouns"
  "Maps ''verbs'' = dist_verbs"
  "Maps ''adjectives'' = dist_adjectives"
  "Maps ''adverbs'' = dist_adverbs"
  "Maps ''auxillaries'' = dist_auxillaries"
  "Maps ''terminators'' = dist_terminators"
  "Maps ''articles'' = dist_articles"
  "Maps ''prepositions'' = dist_prepositions"
  "Maps ''grammar'' = dist_grammar"
  "Maps ''np'' = dist_np"
  "Maps ''vp'' = dist_vp"
  "Maps ''nations'' = dist_nations"
  by (simp_all add: Maps_def)

lemma good_dists:
  "\<forall>d \<in> set [
       dist_p_cntr, dist_colors, dist_p_types, dist_regions, dist_o_oprio, dist_instruct,
       dist_smode, dist_category, dist_rflag, dist_msegmnt, dist_nouns, dist_verbs,
       dist_adjectives, dist_adverbs, dist_auxillaries, dist_terminators, dist_articles,
       dist_prepositions, dist_grammar, dist_np, dist_vp].
     pos_weights d \<and> weight_sum d < 2 ^ 20 \<and> d \<noteq> []"
  by code_simp

lemma good_names_ok:
  "\<forall>name \<in> set good_names. pos_weights (Maps name) \<and> weight_sum (Maps name) < 2 ^ 20 \<and> Maps name \<noteq> []"
  using good_dists by (simp add: good_names_def Maps_eqs)

lemma good_sums: "name \<in> set good_names \<Longrightarrow> sums_ok 0 (Maps name)"
  using good_names_ok by (intro sums_ok_pos) auto

lemma nations_sums: "sums_ok 0 (Maps ''nations'')"
  by (simp add: Maps_eqs dist_nations_def)

lemma readDist_good: "name \<in> set good_names \<Longrightarrow> readDist name noDist = dist_of name"
  by (simp add: readDist_noDist good_sums)

lemma initDists_eq:
  "initDists noDists = \<lparr>nations = dist_of ''nations'', nations2 = noDist,
     regions = dist_of ''regions'', oPrioritySet = dist_of ''o_oprio'',
     lInstructSet = dist_of ''instruct'', lSmodeSet = dist_of ''smode'',
     lCategorySet = dist_of ''category'', lRflagSet = dist_of ''rflag'',
     cMsegSet = dist_of ''msegmnt'', colors = dist_of ''colors'', pTypesSet = dist_of ''p_types'',
     pCntrSet = dist_of ''p_cntr'', articles = dist_of ''articles'', nouns = dist_of ''nouns'',
     adjectives = dist_of ''adjectives'', adverbs = dist_of ''adverbs'',
     prepositions = dist_of ''prepositions'', verbs = dist_of ''verbs'',
     terminators = dist_of ''terminators'', auxillaries = dist_of ''auxillaries'',
     np = dist_of ''np'', vp = dist_of ''vp'', grammar = dist_of ''grammar''\<rparr>"
  by (simp add: initDists_def noDists_def readDist_good readDist_noDist nations_sums good_names_def)

subsection \<open>Choosing a member\<close>

text \<open>\<open>choose m items j\<close>: the item in whose interval of the cumulative weights \<open>j\<close> lies.\<close>

lemma pickStr_loop_total:
  "pos_weights items \<Longrightarrow> items \<noteq> [] \<Longrightarrow> j \<le> m + weight_sum items \<Longrightarrow>
   \<exists>k < length items. pickStr_loop (cumulate m items) j pos = Some (pos + int k, fst (items ! k)) \<and>
     j \<le> m + weight_sum (take (Suc k) items) \<and> (k \<noteq> 0 \<longrightarrow> m + weight_sum (take k items) < j)"
proof (induction items arbitrary: m pos)
  case Nil
  then show ?case by simp
next
  case (Cons x items)
  obtain tx w where x: "x = (tx, w)" by (cases x)
  show ?case
  proof (cases "m + w < j")
    case False
    then show ?thesis by (intro exI [of _ 0]) (simp add: x)
  next
    case True
    then have "items \<noteq> []" using Cons.prems x by auto
    then obtain k where k: "k < length items"
      "pickStr_loop (cumulate (m + w) items) j (pos + 1) = Some (pos + 1 + int k, fst (items ! k))"
      "j \<le> m + w + weight_sum (take (Suc k) items)" "k \<noteq> 0 \<longrightarrow> m + w + weight_sum (take k items) < j"
      using Cons.IH [of "m + w" "pos + 1"] Cons.prems x by auto
    then show ?thesis using True by (intro exI [of _ "Suc k"]) (cases "k = 0"; simp add: x add.assoc)
  qed
qed

lemma cumulate_length [simp]: "length (cumulate m items) = length items"
  by (induction items arbitrary: m) auto

lemma cumulate_last:
  "items \<noteq> [] \<Longrightarrow> sm_weight (last (cumulate m items)) = m + weight_sum items"
proof (induction items arbitrary: m)
  case (Cons x items)
  then show ?case by (cases x; cases items) (auto simp: add.assoc)
qed simp

lemma cumulate_nth:
  "k < length items \<Longrightarrow> cumulate m items ! k =
     \<lparr>sm_weight = m + weight_sum (take (Suc k) items), sm_text = fst (items ! k)\<rparr>"
  by (induction items arbitrary: m k) (auto simp: nth_Cons add.assoc split: nat.splits)

text \<open>A member of the draw's interval is the one found, and no other.\<close>

lemma pickStr_loop_iff:
  assumes "pos_weights items" "k < length items" "m < j" "j \<le> m + weight_sum items"
  shows "pickStr_loop (cumulate m items) j pos = Some (pos + int k, fst (items ! k)) \<longleftrightarrow>
    m + weight_sum (take k items) < j \<and> j \<le> m + weight_sum (take (Suc k) items)"
  using assms
proof (induction items arbitrary: m k pos)
  case (Cons x items)
  obtain tx w where x: "x = (tx, w)" by (cases x)
  have w: "0 < w" "pos_weights items" using Cons.prems x by auto
  show ?case
  proof (cases k)
    case 0
    have "pickStr_loop (cumulate (m + w) items) j (pos + 1) \<noteq> Some (pos, tx)" if "m + w < j"
    proof -
      have "items \<noteq> []" using Cons.prems that x by auto
      then show ?thesis
        using pickStr_loop_total [OF w(2), of j "m + w" "pos + 1"] Cons.prems x by (auto simp: add.assoc)
    qed
    then show ?thesis using Cons.prems 0 x by auto
  next
    case (Suc n)
    have s: "0 \<le> weight_sum (take n items)"
      using w(2) by (intro weight_sum_nonneg) (simp add: pos_weights_def list_all_length)
    show ?thesis
    proof (cases "m + w < j")
      case True
      then show ?thesis
        using Cons.IH [of n "m + w" "pos + 1"] Cons.prems Suc x w by (auto simp: add.assoc)
    next
      case False
      then show ?thesis using Suc x s by auto
    qed
  qed
qed simp

lemma weight_sum_take_le:
  "pos_weights items \<Longrightarrow> weight_sum (take k items) \<le> weight_sum items"
proof (induction items arbitrary: k)
  case (Cons x items)
  then show ?case using weight_sum_nonneg [of items] by (cases x; cases k) auto
qed simp

lemma weight_sum_take_nonneg: "pos_weights items \<Longrightarrow> 0 \<le> weight_sum (take k items)"
  by (intro weight_sum_nonneg) (simp add: pos_weights_def list_all_length)

lemma weight_sum_take_Suc:
  "k < length items \<Longrightarrow> weight_sum (take (Suc k) items) = weight_sum (take k items) + snd (items ! k)"
  by (simp add: weight_sum_def take_Suc_conv_app_nth)

lemma pickStr_weights:
  assumes "pos_weights items" "k < length items"
  shows "card {j. 1 \<le> j \<and> j \<le> weight_sum items \<and>
      pickStr_loop (cumulate 0 items) j 0 = Some (int k, fst (items ! k))} = nat (snd (items ! k))"
proof -
  have "{j. 1 \<le> j \<and> j \<le> weight_sum items \<and>
      pickStr_loop (cumulate 0 items) j 0 = Some (int k, fst (items ! k))} =
      {weight_sum (take k items) <.. weight_sum (take (Suc k) items)}"
    using pickStr_loop_iff [OF assms, of 0 _ 0] weight_sum_take_nonneg [OF assms(1), of k]
      weight_sum_take_le [OF assms(1), of "Suc k"] by auto
  then show ?thesis using weight_sum_take_Suc [OF assms(2)] by simp
qed

text \<open>A distribution whose members are the cumulated items.\<close>

definition weighted :: "Dist \<Rightarrow> distribution \<Rightarrow> bool" where
  "weighted items d \<longleftrightarrow> d_members d = cumulate 0 items \<and> d_count d = int (length items) \<and>
     pos_weights items \<and> weight_sum items < 2 ^ 20 \<and> items \<noteq> []"

lemma weighted_dist_of: "name \<in> set good_names \<Longrightarrow> weighted (Maps name) (dist_of name)"
  using good_names_ok by (simp add: weighted_def dist_of_def)

lemma step_pickStr [steps]:
  assumes "since s t M" "0 \<le> c \<and> c \<le> 47" "weighted items d"
    and "\<And>i u. i < length items \<Longrightarrow> since s u (add_mset c M) \<Longrightarrow>
      yields (k (int i, fst (items ! i)) u) Q"
  shows "yields (pickStr d c t \<bind> (\<lambda>(x, u). k x u)) Q"
proof (rule yields_bind)
  note w = assms(3) [unfolded weighted_def]
  have ne: "cumulate 0 items \<noteq> []" using w by (metis cumulate_length length_0_conv)
  then have last: "go_index (d_members d) (int (length (d_members d)) - 1) = Some (last (d_members d))"
    using w by (simp add: go_index_def last_conv_nth nat_diff_distrib')
  have pos: "1 \<le> weight_sum items"
  proof -
    obtain tx x items' where "items = (tx, x) # items'" using w by (cases items) auto
    then show ?thesis using w weight_sum_nonneg [of items'] by auto
  qed
  have wl: "sm_weight (last (d_members d)) = weight_sum items" using w by (simp add: cumulate_last)
  show "yields (pickStr d c t) (\<lambda>x u. \<exists>i < length items. x = (int i, fst (items ! i)) \<and>
      since s u (add_mset c M))"
    unfolding pickStr_def last Option.bind.bind_lunit wl
  proof (rule step_random [OF assms(1,2)])
    fix j u
    assume j: "1 \<le> j" "j \<le> weight_sum items" "since s u (add_mset c M)"
    obtain i where "i < length items"
      "pickStr_loop (cumulate 0 items) j 0 = Some (int i, fst (items ! i))"
      using pickStr_loop_total [of items j 0 0] w j by auto
    with j(3) show "yields (pickStr_loop (d_members d) j 0 \<bind> (\<lambda>r. Some (r, u)))
        (\<lambda>x u. \<exists>i < length items. x = (int i, fst (items ! i)) \<and> since s u (add_mset c M))"
      using w by auto
  qed (use pos w in auto)
next
  fix x u
  assume "\<exists>i < length items. x = (int i, fst (items ! i)) \<and> since s u (add_mset c M)"
  then show "yields (k x u) Q" using assms(4) by blast
qed

subsection \<open>Permutations\<close>

lemma permute_loop_yields:
  "since s t M \<Longrightarrow> 0 \<le> c \<and> c \<le> 47 \<Longrightarrow> 0 \<le> i \<Longrightarrow> i + int k = cnt \<Longrightarrow> cnt \<le> int (length p) \<Longrightarrow>
   cnt < 2 ^ 30 \<Longrightarrow>
   yields (permute_loop k i p cnt c t) (\<lambda>q u. mset q = mset p \<and> since s u (M + replicate_mset k c))"
proof (induction k arbitrary: i p t M)
  case 0
  then show ?case by simp
next
  case (Suc k)
  show ?case unfolding permute_loop.simps
  proof (rule step_random [OF Suc.prems(1,2)])
    fix j u
    assume j: "i \<le> j" "j \<le> cnt - 1" and u: "since s u (add_mset c M)"
    define q where "q = p[nat j := p ! nat i, nat i := p ! nat j]"
    have b: "nat i < length p" "nat j < length p" using j Suc.prems by auto
    have "mset q = mset p" using b unfolding q_def by (metis mset_swap)
    moreover have "length q = length p" by (simp add: q_def)
    moreover have "yields (permute_loop k (i + 1) q cnt c u)
        (\<lambda>r v. mset r = mset q \<and> since s v (add_mset c M + replicate_mset k c))"
      using Suc.IH [OF u Suc.prems(2), of "i + 1" q] Suc.prems calculation by simp
    ultimately show "yields (go_index p i \<bind> (\<lambda>a. go_index p j \<bind> (\<lambda>b. go_update p j a \<bind>
        (\<lambda>p. go_update p i b \<bind> (\<lambda>p. permute_loop k (i + 1) p cnt c u)))))
        (\<lambda>q u. mset q = mset p \<and> since s u (M + replicate_mset (Suc k) c))"
      using b j Suc.prems by (simp add: go_index_def go_update_def q_def)
  qed (use Suc.prems in auto)
qed

lemma permuteDist_loop_eq:
  "i + k \<le> length p \<Longrightarrow> permuteDist_loop k (int i) p =
     Some (take i p @ map int [i..<i + k] @ drop (i + k) p)"
proof (induction k arbitrary: i p)
  case (Suc k)
  have e: "take (Suc i) (p[i := int i]) = take i p @ [int i]"
    using Suc.prems by (simp add: take_Suc_conv_app_nth)
  have "permuteDist_loop (Suc k) (int i) p = permuteDist_loop k (int (Suc i)) (p[i := int i])"
    using Suc.prems by (simp add: go_update_def add.commute)
  also have "\<dots> = Some (take (Suc i) (p[i := int i]) @ map int [Suc i..<Suc i + k] @
      drop (Suc i + k) (p[i := int i]))"
    using Suc.IH [of "Suc i" "p[i := int i]"] Suc.prems by simp
  finally show ?case using Suc.prems by (simp add: e upt_conv_Cons)
qed simp

definition perm_ready :: "distribution \<Rightarrow> bool" where
  "perm_ready d \<longleftrightarrow> d_permute d = [] \<or> int (length (d_permute d)) = d_count d"

lemma permuteDist_yields:
  assumes "since s t M" "0 \<le> c \<and> c \<le> 47" "0 \<le> d_count d" "d_count d < 2 ^ 30" "perm_ready d"
  shows "yields (permuteDist d c t) (\<lambda>e u. (\<exists>q. e = d\<lparr>d_permute := q\<rparr> \<and>
      mset q = mset (map int [0..<nat (d_count d)])) \<and>
      since s u (M + replicate_mset (nat (d_count d)) c))"
proof -
  define n where "n = nat (d_count d)"
  define p where "p = (if length (d_permute d) = 0 then replicate n 0 else d_permute d)"
  have n: "d_count d = int n" "length p = n"
    using assms by (auto simp: n_def p_def perm_ready_def)
  have "permuteDist_loop n 0 p = Some (map int [0..<n])"
    using permuteDist_loop_eq [of 0 n p] n by simp
  moreover have "yields (permute_loop n 0 (map int [0..<n]) (int n) c t)
      (\<lambda>q u. mset q = mset (map int [0..<n]) \<and> since s u (M + replicate_mset n c))"
    using assms n by (intro permute_loop_yields) auto
  moreover have "permuteDist d c t = permuteDist_loop n 0 p \<bind> (\<lambda>p. permute_loop n 0 p (int n) c t \<bind>
      (\<lambda>(p, ss). Some (d\<lparr>d_permute := p\<rparr>, ss)))"
    by (simp add: permuteDist_def permute_def n(1) p_def)
  ultimately show ?thesis by (auto simp: yields_def n(1))
qed

subsection \<open>Names of several words\<close>

definition spaced :: "string list \<Rightarrow> string" where
  "spaced ws = concat (map (\<lambda>w. w @ '' '') ws)"

lemma aggStr_loop_eq:
  assumes "\<And>x. x \<in> set (d_permute d) \<Longrightarrow> 0 \<le> x \<and> x < int (length (d_members d))"
  shows "i + k \<le> length (d_permute d) \<Longrightarrow> aggStr_loop k (int i) d buf = Some (buf @
    spaced (map (\<lambda>x. sm_text (d_members d ! nat x)) (take k (drop i (d_permute d)))))"
proof (induction k arbitrary: i buf)
  case 0
  then show ?case by (simp add: spaced_def)
next
  case (Suc k)
  define x where "x = d_permute d ! i"
  have "x \<in> set (d_permute d)" using Suc.prems by (simp add: x_def)
  then have "go_index (d_members d) x = Some (d_members d ! nat x)"
    using assms by (simp add: go_index_def)
  moreover have "go_index (d_permute d) (int i) = Some x"
    using Suc.prems by (simp add: go_index_def x_def)
  moreover have "drop i (d_permute d) = x # drop (Suc i) (d_permute d)"
    using Suc.prems by (simp add: x_def Cons_nth_drop_Suc)
  ultimately show ?case
    using Suc.IH [of "Suc i"] Suc.prems by (simp add: spaced_def add.commute)
qed

text \<open>
  \<open>aggStr\<close> returns the texts of \<open>cnt\<close> different members with single spaces between them, and
  makes one step for every member of the distribution.
\<close>

definition agg_of :: "Dist \<Rightarrow> nat \<Rightarrow> string \<Rightarrow> bool" where
  "agg_of items k str \<longleftrightarrow> (\<exists>is. length is = k \<and> distinct is \<and> (\<forall>i \<in> set is. i < length items) \<and>
     str @ '' '' = spaced (map (\<lambda>i. fst (items ! i)) is))"

lemma spaced_snoc: "ws \<noteq> [] \<Longrightarrow> \<exists>str. spaced ws = str @ '' ''"
  by (rule exI [of _ "spaced (butlast ws) @ last ws"])
    (metis (no_types, lifting) append.assoc append_Nil2 append_butlast_last_id concat.simps concat_append
      list.simps(8,9) map_append spaced_def)

lemma aggStr_text:
  assumes w: "weighted items e" and q: "mset (d_permute e) = mset (map int [0..<length items])"
    and k: "0 < k" "k \<le> length items"
  shows "\<exists>str. aggStr_loop k 0 e [] = Some (str @ '' '') \<and> agg_of items k str"
proof -
  define js where "js = take k (d_permute e)"
  define ks where "ks = map nat js"
  have len: "length (d_permute e) = length items" using arg_cong [OF q, of size] by simp
  have setp: "set (d_permute e) = {0..<int (length items)}"
    using arg_cong [OF q, of set_mset] by (simp add: image_int_atLeastLessThan)
  have mem: "d_members e = cumulate 0 items" using w by (simp add: weighted_def)
  have dist: "distinct (d_permute e)"
    using mset_eq_imp_distinct_iff [OF q] by (simp add: distinct_map)
  have js: "0 \<le> x \<and> x < int (length items)" if "x \<in> set js" for x
    using that in_set_takeD [of x k] setp by (auto simp: js_def)
  have "inj_on nat (set js)" using js by (intro inj_onI) (metis nat_eq_iff2)
  then have ks: "length ks = k" "distinct ks" "\<forall>i \<in> set ks. i < length items"
    using dist k len js by (auto simp: ks_def js_def distinct_map nat_less_iff)
  have texts: "map (\<lambda>x. sm_text (d_members e ! nat x)) js = map (\<lambda>i. fst (items ! i)) ks"
    unfolding ks_def using js by (simp add: mem cumulate_nth nat_less_iff)
  have "aggStr_loop k 0 e [] = Some (spaced (map (\<lambda>i. fst (items ! i)) ks))"
    using aggStr_loop_eq [of e 0 k "[]"] setp len k mem texts by (simp add: js_def)
  moreover obtain str where "spaced (map (\<lambda>i. fst (items ! i)) ks) = str @ '' ''"
    using spaced_snoc [of "map (\<lambda>i. fst (items ! i)) ks"] ks k by auto
  ultimately show ?thesis using ks unfolding agg_of_def by metis
qed

lemma step_aggStr [steps]:
  assumes "since s t M" "0 \<le> c \<and> c \<le> 47" "weighted items d" "perm_ready d"
    "length items < 2 ^ 20" "0 < k \<and> k \<le> int (length items)"
    and "\<And>str q u. agg_of items (nat k) str \<Longrightarrow> length q = length items \<Longrightarrow>
      since s u (M + replicate_mset (length items) c) \<Longrightarrow> yields (f (str, d\<lparr>d_permute := q\<rparr>) u) Q"
  shows "yields (aggStr d k c t \<bind> (\<lambda>(x, u). f x u)) Q"
proof -
  have cnt: "d_count d = int (length items)" using assms(3) by (simp add: weighted_def)
  obtain q u where u: "permuteDist d c t = Some (d\<lparr>d_permute := q\<rparr>, u)"
    "mset q = mset (map int [0..<length items])" "since s u (M + replicate_mset (length items) c)"
    using permuteDist_yields [OF assms(1,2) _ _ assms(4)] assms(5) cnt by (auto elim!: yieldsE)
  define e where "e = d\<lparr>d_permute := q\<rparr>"
  have "weighted items e" using assms(3) by (simp add: weighted_def e_def)
  then obtain str where str: "aggStr_loop (nat k) 0 e [] = Some (str @ '' '')" "agg_of items (nat k) str"
    using aggStr_text [of items e "nat k"] u(2) assms(6) by (auto simp: e_def nat_le_iff)
  have "aggStr d k c t = Some ((str, e), u)"
    using str by (simp add: aggStr_def u(1) e_def [symmetric] go_slice_def)
  moreover have "length q = length items" using arg_cong [OF u(2), of size] by simp
  ultimately show ?thesis using assms(7) [OF str(2) _ u(3)] by (simp add: e_def)
qed

subsection \<open>Properties\<close>

text \<open>
  C26. Weighted choice: of the values \<open>1..max\<close> that \<open>pickStr\<close> may draw from a distribution read by
  \<open>readDist\<close>, exactly as many lead to member \<open>k\<close> as its weight in \<open>dist.Maps\<close> says.
\<close>

theorem pickStr_proportional:
  assumes "name \<in> set good_names" "k < length (Maps name)"
  shows "card {j. 1 \<le> j \<and> j \<le> d_max (readDist name noDist) \<and>
      pickStr_loop (d_members (readDist name noDist)) j 0 = Some (int k, fst (Maps name ! k))} =
    nat (snd (Maps name ! k))"
  using pickStr_weights [of "Maps name" k] good_names_ok assms
  by (simp add: readDist_good dist_of_def)

lemma pickStr_proportional_witness:
  "card {j. 1 \<le> j \<and> j \<le> d_max (readDist ''np'' noDist) \<and>
      pickStr_loop (d_members (readDist ''np'' noDist)) j 0 = Some (int 3, fst (Maps ''np'' ! 3))} =
    nat (snd (Maps ''np'' ! 3))"
  by (rule pickStr_proportional) (simp_all add: good_names_def Maps_eqs dist_np_def)

text \<open>
  \<open>pickStr\<close> on a distribution read by \<open>readDist\<close> never runs past the members: it returns a
  position and the text there, for one step of its stream.
\<close>

theorem pickStr_total:
  assumes "valid_streams s" "0 \<le> c" "c \<le> 47" "name \<in> set good_names"
  shows "\<exists>k t. pickStr (readDist name noDist) c s = Some ((int k, fst (Maps name ! k)), t) \<and>
    k < length (Maps name) \<and> consumed s t {#c#}"
proof -
  have "yields (pickStr (readDist name noDist) c s \<bind> (\<lambda>(x, u). Some (x, u)))
      (\<lambda>x t. \<exists>k < length (Maps name). x = (int k, fst (Maps name ! k)) \<and> consumed s t {#c#})"
    by (rule step_pickStr [OF since_start [OF assms(1)]])
      (use assms weighted_dist_of in \<open>auto simp: readDist_good since_def\<close>)
  then show ?thesis by (auto elim!: yieldsE)
qed

lemma pickStr_total_witness:
  "\<exists>k t. pickStr (readDist ''vp'' noDist) 5 initSeeds = Some ((int k, fst (Maps ''vp'' ! k)), t) \<and>
    k < length (Maps ''vp'') \<and> consumed initSeeds t {#5#}"
  by (rule pickStr_total) (simp_all add: valid_streams_initSeeds good_names_def)

text \<open>
  \<open>aggStr\<close> on the colours, whatever the permutation a previous row left behind: the name is made
  of \<open>k\<close> different members separated by single spaces, and its stream makes 92 steps, the
  boundary of stream 37.
\<close>

theorem aggStr_distinct:
  assumes "valid_streams s" "0 \<le> c" "c \<le> 47" "0 < k" "k \<le> 92" "p = [] \<or> length p = 92"
  shows "\<exists>str q t. aggStr ((readDist ''colors'' noDist)\<lparr>d_permute := p\<rparr>) k c s =
      Some ((str, (readDist ''colors'' noDist)\<lparr>d_permute := q\<rparr>), t) \<and> length q = 92 \<and>
    agg_of (Maps ''colors'') (nat k) str \<and> consumed s t (replicate_mset 92 c)"
proof -
  have len: "length (Maps ''colors'') = 92"
    by (simp add: Maps_eqs dist_colors_def dist_colors_1_def dist_colors_2_def)
  define d where "d = (readDist ''colors'' noDist)\<lparr>d_permute := p\<rparr>"
  have g: "''colors'' \<in> set good_names" by (simp add: good_names_def)
  have "weighted (Maps ''colors'') d"
    using weighted_dist_of [OF g] by (simp add: d_def weighted_def readDist_good [OF g])
  moreover have "perm_ready d"
    using assms(6) len by (auto simp: d_def perm_ready_def readDist_good [OF g] dist_of_def)
  ultimately have "yields (aggStr d k c s \<bind> (\<lambda>(x, u). Some (x, u)))
      (\<lambda>x t. \<exists>str q. x = (str, d\<lparr>d_permute := q\<rparr>) \<and> length q = 92 \<and>
        agg_of (Maps ''colors'') (nat k) str \<and> consumed s t (replicate_mset 92 c))"
    by (rule step_aggStr [OF since_start [OF assms(1)] conjI [OF assms(2,3)]])
      (use assms len in \<open>auto simp: since_def\<close>)
  then show ?thesis by (fastforce simp: d_def elim!: yieldsE)
qed

lemma aggStr_distinct_witness:
  "\<exists>str q t. aggStr ((readDist ''colors'' noDist)\<lparr>d_permute := []\<rparr>) 5 37 initSeeds =
      Some ((str, (readDist ''colors'' noDist)\<lparr>d_permute := q\<rparr>), t) \<and> length q = 92 \<and>
    agg_of (Maps ''colors'') (nat 5) str \<and> consumed initSeeds t (replicate_mset 92 37)"
  by (rule aggStr_distinct) (simp_all add: valid_streams_initSeeds)

end
