(* ===== verification/DbgenText.thy ===== *)
theory DbgenText
  imports DbgenDist
begin

text \<open>
  Pseudo-English text: the grammar of \<open>txtSentence\<close>, \<open>txtNp\<close> and \<open>txtVp\<close>, the text pool of
  \<open>initTextPool\<close> and its slices \<open>makeText\<close> (\<open>tpch/dbgen/misc.go\<close>).
\<close>

text \<open>\<open>strings.Split(s, " ")\<close>: the pieces between the spaces, at least one.\<close>

fun split_sp :: "string \<Rightarrow> string list" where
  "split_sp [] = [[]]"
| "split_sp (c # cs) =
     (if c = CHR '' '' then [] # split_sp cs
      else (case split_sp cs of w # ws \<Rightarrow> (c # w) # ws | [] \<Rightarrow> [[c]]))"

text \<open>\<open>if len(item) > 1 { buf.Write([]byte{item[1]}) }\<close>\<close>

definition second :: "string \<Rightarrow> string" where
  "second item = (if 1 < length item then [item ! 1] else [])"

definition vpSource :: "Dists \<Rightarrow> char \<Rightarrow> distribution option" where
  "vpSource D c =
     (if c = CHR ''D'' then Some (adverbs D)
      else if c = CHR ''V'' then Some (verbs D)
      else if c = CHR ''X'' then Some (auxillaries D)
      else None)"

definition npSource :: "Dists \<Rightarrow> char \<Rightarrow> distribution option" where
  "npSource D c =
     (if c = CHR ''A'' then Some (articles D)
      else if c = CHR ''J'' then Some (adjectives D)
      else if c = CHR ''D'' then Some (adverbs D)
      else if c = CHR ''N'' then Some (nouns D)
      else None)"

fun txtVp_loop :: "Dists \<Rightarrow> int \<Rightarrow> string list \<Rightarrow> string \<Rightarrow> seeds \<Rightarrow> (string \<times> seeds) option" where
  "txtVp_loop D sd [] buf ss = Some (buf, ss)"
| "txtVp_loop D sd (item # items) buf ss = do {
     c \<leftarrow> go_index item 0;
     src \<leftarrow> vpSource D c;
     ((pos, tmp), ss) \<leftarrow> pickStr src sd ss;
     txtVp_loop D sd items (buf @ tmp @ second item @ '' '') ss
   }"

definition txtVp :: "Dists \<Rightarrow> int \<Rightarrow> seeds \<Rightarrow> (string \<times> seeds) option" where
  "txtVp D sd ss = do {
     ((pos, syn), ss) \<leftarrow> pickStr (vp D) sd ss;
     txtVp_loop D sd (split_sp syn) [] ss
   }"

fun txtNp_loop :: "Dists \<Rightarrow> int \<Rightarrow> string list \<Rightarrow> string \<Rightarrow> seeds \<Rightarrow> (string \<times> seeds) option" where
  "txtNp_loop D sd [] buf ss = Some (buf, ss)"
| "txtNp_loop D sd (item # items) buf ss = do {
     c \<leftarrow> go_index item 0;
     src \<leftarrow> npSource D c;
     ((pos, tmp), ss) \<leftarrow> pickStr src sd ss;
     txtNp_loop D sd items (buf @ tmp @ second item @ '' '') ss
   }"

definition txtNp :: "Dists \<Rightarrow> int \<Rightarrow> seeds \<Rightarrow> (string \<times> seeds) option" where
  "txtNp D sd ss = do {
     ((pos, syn), ss) \<leftarrow> pickStr (np D) sd ss;
     txtNp_loop D sd (split_sp syn) [] ss
   }"

definition sentence_item ::
  "Dists \<Rightarrow> int \<Rightarrow> char \<Rightarrow> string \<Rightarrow> seeds \<Rightarrow> (string \<times> seeds) option" where
  "sentence_item D sd c buf ss =
     (if c = CHR ''V'' then do {
        (v, ss) \<leftarrow> txtVp D sd ss;
        Some (buf @ v, ss)
      } else if c = CHR ''N'' then do {
        (n, ss) \<leftarrow> txtNp D sd ss;
        Some (buf @ n, ss)
      } else if c = CHR ''P'' then do {
        ((pos, tmp), ss) \<leftarrow> pickStr (prepositions D) sd ss;
        (n, ss) \<leftarrow> txtNp D sd ss;
        Some (buf @ tmp @ '' the '' @ n, ss)
      } else if c = CHR ''T'' then do {
        sentence \<leftarrow> go_slice buf 0 (int (length buf) - 1);
        ((pos, tmp), ss) \<leftarrow> pickStr (terminators D) sd ss;
        Some (sentence @ tmp, ss)
      } else None)"

fun txtSentence_loop ::
  "Dists \<Rightarrow> int \<Rightarrow> string list \<Rightarrow> string \<Rightarrow> seeds \<Rightarrow> (string \<times> seeds) option" where
  "txtSentence_loop D sd [] buf ss = Some (buf, ss)"
| "txtSentence_loop D sd (item # items) buf ss = do {
     c \<leftarrow> go_index item 0;
     (buf, ss) \<leftarrow> sentence_item D sd c buf ss;
     txtSentence_loop D sd items (buf @ second item) ss
   }"

definition txtSentence :: "Dists \<Rightarrow> int \<Rightarrow> seeds \<Rightarrow> (string \<times> seeds) option" where
  "txtSentence D sd ss = do {
     ((pos, syn), ss) \<leftarrow> pickStr (grammar D) sd ss;
     txtSentence_loop D sd (split_sp syn) [] ss
   }"

definition textPoolSize :: int where
  "textPoolSize = 300 * 1024 * 1024"

text \<open>Every round of the loop writes at least one byte, or fills the pool.\<close>

function initTextPool_loop :: "Dists \<Rightarrow> string \<Rightarrow> seeds \<Rightarrow> (string \<times> seeds) option" where
  "initTextPool_loop D buffer ss =
     (if int (length buffer) < textPoolSize
      then (case txtSentence D 5 ss of
          None \<Rightarrow> None
        | Some (sentence, ss) \<Rightarrow>
            let len = int (length sentence); needed = textPoolSize - int (length buffer)
            in if len + 1 \<le> needed
               then initTextPool_loop D (buffer @ sentence @ '' '') ss
               else (case go_slice sentence 0 needed of
                   None \<Rightarrow> None
                 | Some part \<Rightarrow> initTextPool_loop D (buffer @ part) ss))
      else Some (buffer, ss))"
  by pat_completeness auto
termination
  by (relation "measure (\<lambda>(D, buffer, ss). nat (textPoolSize - int (length buffer)))")
    (auto dest: go_slice_length)

declare initTextPool_loop.simps [simp del]

definition initTextPool :: "Dists \<Rightarrow> seeds \<Rightarrow> (string \<times> seeds) option" where
  "initTextPool D ss = initTextPool_loop D [] ss"

definition makeText :: "string \<Rightarrow> int \<Rightarrow> int \<Rightarrow> seeds \<Rightarrow> (string \<times> seeds) option" where
  "makeText szTextPool avg sd ss = do {
     let minl = scaledLow avg;
     let maxl = scaledHgh avg;
     (hgOffset, ss) \<leftarrow> random 0 (textPoolSize - maxl) sd ss;
     (hgLength, ss) \<leftarrow> random minl maxl sd ss;
     txt \<leftarrow> go_slice szTextPool hgOffset (hgOffset + hgLength);
     Some (txt, ss)
   }"

subsection \<open>Text that only reads one stream\<close>

definition only :: "seeds \<Rightarrow> int \<Rightarrow> seeds \<Rightarrow> bool" where
  "only s c t \<longleftrightarrow> (\<exists>n. since s t (replicate_mset n c))"

lemma only_start: "valid_streams s \<Longrightarrow> only s c s"
  unfolding only_def by (rule exI [of _ 0]) (simp add: since_start)

lemma step_pickStr_only:
  assumes "only s c t" "0 \<le> c \<and> c \<le> 47" "weighted items d"
    and "\<And>i u. i < length items \<Longrightarrow> only s c u \<Longrightarrow> yields (k (int i, fst (items ! i)) u) Q"
  shows "yields (pickStr d c t \<bind> (\<lambda>(x, u). k x u)) Q"
proof -
  obtain n where n: "since s t (replicate_mset n c)" using assms(1) by (auto simp: only_def)
  show ?thesis
  proof (rule step_pickStr [OF n assms(2,3)])
    fix i u
    assume "i < length items" "since s u (add_mset c (replicate_mset n c))"
    moreover from this have "only s c u" unfolding only_def
      by (intro exI [of _ "Suc n"]) simp
    ultimately show "yields (k (int i, fst (items ! i)) u) Q" using assms(4) by blast
  qed
qed

text \<open>What the text generator needs of its distributions.\<close>

definition text_dists :: "Dists \<Rightarrow> bool" where
  "text_dists D \<longleftrightarrow>
     weighted dist_articles (articles D) \<and> weighted dist_nouns (nouns D) \<and>
     weighted dist_adjectives (adjectives D) \<and> weighted dist_adverbs (adverbs D) \<and>
     weighted dist_prepositions (prepositions D) \<and> weighted dist_verbs (verbs D) \<and>
     weighted dist_terminators (terminators D) \<and> weighted dist_auxillaries (auxillaries D) \<and>
     weighted dist_np (np D) \<and> weighted dist_vp (vp D) \<and> weighted dist_grammar (grammar D)"

lemma weighted_init:
  "name \<in> set good_names \<Longrightarrow> Maps name = d \<Longrightarrow> weighted d (dist_of name)"
  using weighted_dist_of by blast

lemma text_dists_init: "text_dists (initDists noDists)"
  unfolding text_dists_def initDists_eq
  by (simp add: weighted_init good_names_def Maps_eqs)

text \<open>The productions.\<close>

lemma vp_items: "i < length dist_vp \<Longrightarrow> split_sp (fst (dist_vp ! i)) \<noteq> [] \<and>
    list_all (\<lambda>w. w \<noteq> [] \<and> hd w \<in> {CHR ''D'', CHR ''V'', CHR ''X''}) (split_sp (fst (dist_vp ! i)))"
proof -
  have "\<forall>x \<in> set dist_vp. split_sp (fst x) \<noteq> [] \<and>
    list_all (\<lambda>w. w \<noteq> [] \<and> hd w \<in> {CHR ''D'', CHR ''V'', CHR ''X''}) (split_sp (fst x))"
    by code_simp
  then show "i < length dist_vp \<Longrightarrow> ?thesis" by (meson nth_mem)
qed

lemma np_items: "i < length dist_np \<Longrightarrow> split_sp (fst (dist_np ! i)) \<noteq> [] \<and>
    list_all (\<lambda>w. w \<noteq> [] \<and> hd w \<in> {CHR ''A'', CHR ''J'', CHR ''D'', CHR ''N''})
      (split_sp (fst (dist_np ! i)))"
proof -
  have "\<forall>x \<in> set dist_np. split_sp (fst x) \<noteq> [] \<and>
    list_all (\<lambda>w. w \<noteq> [] \<and> hd w \<in> {CHR ''A'', CHR ''J'', CHR ''D'', CHR ''N''}) (split_sp (fst x))"
    by code_simp
  then show "i < length dist_np \<Longrightarrow> ?thesis" by (meson nth_mem)
qed

text \<open>A sentence: phrases, then one terminator at the end.\<close>

fun sentence_ok :: "bool \<Rightarrow> string list \<Rightarrow> bool" where
  "sentence_ok b [] \<longleftrightarrow> False"
| "sentence_ok b (w # ws) \<longleftrightarrow>
     (if ws = [] then w = ''T'' \<and> b
      else w \<noteq> [] \<and> hd w \<in> {CHR ''V'', CHR ''N'', CHR ''P''} \<and> sentence_ok True ws)"

lemma grammar_items: "i < length dist_grammar \<Longrightarrow> sentence_ok False (split_sp (fst (dist_grammar ! i)))"
proof -
  have "\<forall>x \<in> set dist_grammar. sentence_ok False (split_sp (fst x))" by code_simp
  then show "i < length dist_grammar \<Longrightarrow> ?thesis" by (meson nth_mem)
qed

lemma vpSource_weighted:
  "text_dists D \<Longrightarrow> c \<in> {CHR ''D'', CHR ''V'', CHR ''X''} \<Longrightarrow>
   \<exists>d items. vpSource D c = Some d \<and> weighted items d"
  by (auto simp: vpSource_def text_dists_def)

lemma npSource_weighted:
  "text_dists D \<Longrightarrow> c \<in> {CHR ''A'', CHR ''J'', CHR ''D'', CHR ''N''} \<Longrightarrow>
   \<exists>d items. npSource D c = Some d \<and> weighted items d"
  by (auto simp: npSource_def text_dists_def)

lemma go_index_hd: "w \<noteq> [] \<Longrightarrow> go_index w 0 = Some (hd w)"
  by (cases w) (simp_all add: go_index_def)

lemma txtVp_loop_yields:
  assumes D: "text_dists D" and c: "0 \<le> c \<and> c \<le> 47"
  shows "only s c t \<Longrightarrow> list_all (\<lambda>w. w \<noteq> [] \<and> hd w \<in> {CHR ''D'', CHR ''V'', CHR ''X''}) ws \<Longrightarrow>
    yields (txtVp_loop D c ws buf t)
      (\<lambda>str u. (ws = [] \<longrightarrow> str = buf) \<and> (ws \<noteq> [] \<longrightarrow> str \<noteq> []) \<and> only s c u)"
proof (induction ws arbitrary: buf t)
  case (Cons w ws)
  obtain d items where d: "vpSource D (hd w) = Some d" "weighted items d"
    using vpSource_weighted [OF D, of "hd w"] Cons.prems by auto
  show ?case unfolding txtVp_loop.simps
    using Cons d
    by (auto simp: go_index_hd
        intro!: step_pickStr_only [OF _ c d(2), where s = s] yields_mono [OF Cons.IH])
qed simp

lemma txtNp_loop_yields:
  assumes D: "text_dists D" and c: "0 \<le> c \<and> c \<le> 47"
  shows "only s c t \<Longrightarrow>
    list_all (\<lambda>w. w \<noteq> [] \<and> hd w \<in> {CHR ''A'', CHR ''J'', CHR ''D'', CHR ''N''}) ws \<Longrightarrow>
    yields (txtNp_loop D c ws buf t)
      (\<lambda>str u. (ws = [] \<longrightarrow> str = buf) \<and> (ws \<noteq> [] \<longrightarrow> str \<noteq> []) \<and> only s c u)"
proof (induction ws arbitrary: buf t)
  case (Cons w ws)
  obtain d items where d: "npSource D (hd w) = Some d" "weighted items d"
    using npSource_weighted [OF D, of "hd w"] Cons.prems by auto
  show ?case unfolding txtNp_loop.simps
    using Cons d
    by (auto simp: go_index_hd
        intro!: step_pickStr_only [OF _ c d(2), where s = s] yields_mono [OF Cons.IH])
qed simp

lemma txtVp_yields:
  assumes D: "text_dists D" and c: "0 \<le> c \<and> c \<le> 47" and "only s c t"
  shows "yields (txtVp D c t) (\<lambda>str u. str \<noteq> [] \<and> only s c u)"
proof -
  have w: "weighted dist_vp (vp D)" using D by (simp add: text_dists_def)
  show ?thesis unfolding txtVp_def
    by (rule step_pickStr_only [OF assms(3) c w])
      (use vp_items in \<open>auto intro!: yields_mono [OF txtVp_loop_yields [OF D c]]\<close>)
qed

lemma txtNp_yields:
  assumes D: "text_dists D" and c: "0 \<le> c \<and> c \<le> 47" and "only s c t"
  shows "yields (txtNp D c t) (\<lambda>str u. str \<noteq> [] \<and> only s c u)"
proof -
  have w: "weighted dist_np (np D)" using D by (simp add: text_dists_def)
  show ?thesis unfolding txtNp_def
    by (rule step_pickStr_only [OF assms(3) c w])
      (use np_items in \<open>auto intro!: yields_mono [OF txtNp_loop_yields [OF D c]]\<close>)
qed

lemma sentence_item_phrase:
  assumes D: "text_dists D" and c: "0 \<le> c \<and> c \<le> 47" and t: "only s c t"
    and ch: "ch \<in> {CHR ''V'', CHR ''N'', CHR ''P''}"
  shows "yields (sentence_item D c ch buf t) (\<lambda>str u. str \<noteq> [] \<and> only s c u)"
proof -
  have w: "weighted dist_prepositions (prepositions D)" using D by (simp add: text_dists_def)
  show ?thesis
  proof (cases "ch = CHR ''P''")
    case True
    show ?thesis unfolding sentence_item_def True
      by (simp, rule step_pickStr_only [OF t c w], simp)
        (auto intro!: yields_bind [OF txtNp_yields [OF D c]])
  next
    case False
    then show ?thesis using ch t
      by (auto simp: sentence_item_def intro!: yields_bind [OF txtNp_yields [OF D c]]
          yields_bind [OF txtVp_yields [OF D c]])
  qed
qed

text \<open>The sentence ends with a member of \<open>terminators\<close> in place of the last blank.\<close>

definition ends_sentence :: "string \<Rightarrow> bool" where
  "ends_sentence str \<longleftrightarrow>
     (\<exists>pre. \<exists>i < length dist_terminators. str = pre @ fst (dist_terminators ! i))"

lemma sentence_item_end:
  assumes D: "text_dists D" and c: "0 \<le> c \<and> c \<le> 47" and t: "only s c t" and "buf \<noteq> []"
  shows "yields (sentence_item D c (CHR ''T'') buf t) (\<lambda>str u. ends_sentence str \<and> only s c u)"
proof -
  have w: "weighted dist_terminators (terminators D)" using D by (simp add: text_dists_def)
  have "\<exists>pre. go_slice buf 0 (int (length buf) - 1) = Some pre"
    using assms(4) by (cases buf) (simp_all add: go_slice_def)
  then obtain pre where "go_slice buf 0 (int (length buf) - 1) = Some pre" by blast
  then show ?thesis
    unfolding sentence_item_def
    by simp (rule step_pickStr_only [OF t c w], auto simp: ends_sentence_def)
qed

lemma txtSentence_loop_yields:
  assumes D: "text_dists D" and c: "0 \<le> c \<and> c \<le> 47"
  shows "only s c t \<Longrightarrow> sentence_ok b ws \<Longrightarrow> (b \<Longrightarrow> buf \<noteq> []) \<Longrightarrow>
    yields (txtSentence_loop D c ws buf t) (\<lambda>str u. ends_sentence str \<and> only s c u)"
proof (induction ws arbitrary: b buf t)
  case (Cons w ws)
  show ?case
  proof (cases "ws = []")
    case True
    then have w: "w = ''T''" "buf \<noteq> []" using Cons.prems by auto
    have "yields (sentence_item D c (CHR ''T'') buf t \<bind> (\<lambda>(buf, ss). txtSentence_loop D c [] (buf @ second w) ss))
        (\<lambda>str u. ends_sentence str \<and> only s c u)"
      by (rule yields_bind [OF sentence_item_end [OF D c Cons.prems(1) w(2)]])
        (simp add: second_def w)
    then show ?thesis unfolding True w txtSentence_loop.simps by (simp add: go_index_hd)
  next
    case False
    then have w: "w \<noteq> []" "hd w \<in> {CHR ''V'', CHR ''N'', CHR ''P''}" "sentence_ok True ws"
      using Cons.prems by auto
    have "yields (sentence_item D c (hd w) buf t \<bind>
        (\<lambda>(buf, ss). txtSentence_loop D c ws (buf @ second w) ss))
        (\<lambda>str u. ends_sentence str \<and> only s c u)"
      by (rule yields_bind [OF sentence_item_phrase [OF D c Cons.prems(1) w(2)]])
        (use w in \<open>auto intro: Cons.IH [of _ True]\<close>)
    then show ?thesis using w by (simp add: go_index_hd)
  qed
qed simp

lemma txtSentence_yields:
  assumes D: "text_dists D" and c: "0 \<le> c \<and> c \<le> 47" and t: "only s c t"
  shows "yields (txtSentence D c t) (\<lambda>str u. ends_sentence str \<and> only s c u)"
proof -
  have w: "weighted dist_grammar (grammar D)" using D by (simp add: text_dists_def)
  show ?thesis unfolding txtSentence_def
    by (rule step_pickStr_only [OF t c w])
      (use grammar_items in \<open>auto intro!: txtSentence_loop_yields [OF D c, where b = False]\<close>)
qed

lemma initTextPool_loop_yields:
  assumes D: "text_dists D"
  shows "only s 5 t \<Longrightarrow> int (length buffer) \<le> textPoolSize \<Longrightarrow>
    yields (initTextPool_loop D buffer t) (\<lambda>str u. int (length str) = textPoolSize \<and> only s 5 u)"
proof (induction "nat (textPoolSize - int (length buffer))" arbitrary: buffer t rule: less_induct)
  case less
  show ?case
  proof (cases "int (length buffer) < textPoolSize")
    case False
    then show ?thesis using less.prems by (simp add: initTextPool_loop.simps [of _ buffer])
  next
    case True
    obtain sentence u where u: "txtSentence D 5 t = Some (sentence, u)" "only s 5 u"
      using txtSentence_yields [OF D _ less.prems(1)] by (auto elim!: yieldsE)
    define needed where "needed = textPoolSize - int (length buffer)"
    show ?thesis
    proof (cases "int (length sentence) + 1 \<le> needed")
      case True
      then show ?thesis
        using less.hyps [OF _ u(2), of "buffer @ sentence @ '' ''"] \<open>int (length buffer) < _\<close>
        by (simp add: initTextPool_loop.simps [of _ buffer] u(1) needed_def)
    next
      case F: False
      have "go_slice sentence 0 needed = Some (take (nat needed) sentence)"
        using F True by (simp add: go_slice_def needed_def)
      moreover have "int (length (take (nat needed) sentence)) = needed"
        using F True by (simp add: needed_def)
      moreover from this have "int (length (buffer @ take (nat needed) sentence)) = textPoolSize"
        by (simp add: needed_def)
      ultimately show ?thesis
        using less.hyps [OF _ u(2), of "buffer @ take (nat needed) sentence"] F True
        by (simp add: initTextPool_loop.simps [of _ buffer] u(1) needed_def Let_def)
    qed
  qed
qed

text \<open>\<open>makeText\<close> slices the pool within its bounds and makes two steps.\<close>

definition text_of :: "string \<Rightarrow> int \<Rightarrow> string \<Rightarrow> bool" where
  "text_of pool avg str \<longleftrightarrow> (\<exists>pre post. pool = pre @ str @ post) \<and>
     avg * 2 div 5 \<le> int (length str) \<and> int (length str) \<le> avg * 8 div 5"

lemma step_makeText [steps]:
  assumes "since s t M" "0 \<le> c \<and> c \<le> 47" "int (length pool) = textPoolSize"
    "0 \<le> avg \<and> avg < 2 ^ 20"
    and "\<And>str u. text_of pool avg str \<Longrightarrow> since s u (add_mset c (add_mset c M)) \<Longrightarrow>
      yields (k str u) Q"
  shows "yields (makeText pool avg c t \<bind> (\<lambda>(x, u). k x u)) Q"
proof (rule yields_bind)
  have bound: "avg * 8 div 5 \<le> 1677721" using assms(4) by auto
  show "yields (makeText pool avg c t)
      (\<lambda>x u. text_of pool avg x \<and> since s u (add_mset c (add_mset c M)))"
    unfolding makeText_def Let_def
  proof (rule step_random [OF assms(1,2)])
    fix off u
    assume off: "0 \<le> off" "off \<le> textPoolSize - scaledHgh avg" and u: "since s u (add_mset c M)"
    show "yields (random (scaledLow avg) (scaledHgh avg) c u \<bind> (\<lambda>(hgLength, ss).
        go_slice pool off (off + hgLength) \<bind> (\<lambda>str. Some (str, ss))))
        (\<lambda>x u. text_of pool avg x \<and> since s u (add_mset c (add_mset c M)))"
    proof (rule step_random [OF u assms(2)])
      fix len v
      assume len: "scaledLow avg \<le> len" "len \<le> scaledHgh avg"
        and v: "since s v (add_mset c (add_mset c M))"
      define str where "str = take (nat len) (drop (nat off) pool)"
      have l0: "0 \<le> len" "avg * 2 div 5 \<le> len" "len \<le> avg * 8 div 5"
        using len assms(4) by (auto simp: scaledLow_eq scaledHgh_eq)
      have sl: "go_slice pool off (off + len) = Some str"
        using off len l0 assms by (simp add: go_slice_def str_def)
      have "pool = take (nat off) pool @ str @ drop (nat len) (drop (nat off) pool)"
        unfolding str_def by (metis append_take_drop_id)
      moreover have "int (length str) = len"
        using go_slice_length [OF sl] by simp
      ultimately have "text_of pool avg str" unfolding text_of_def using l0 by auto
      then show "yields (go_slice pool off (off + len) \<bind> (\<lambda>str. Some (str, v)))
          (\<lambda>x u. text_of pool avg x \<and> since s u (add_mset c (add_mset c M)))"
        using sl v by simp
    qed (use assms(4) bound in \<open>auto simp: scaledLow_eq scaledHgh_eq\<close>)
  qed (use assms(4) bound in \<open>auto simp: scaledLow_eq scaledHgh_eq textPoolSize_def\<close>)
qed (use assms(5) in auto)

subsection \<open>Properties\<close>

text \<open>
  With the grammar of \<open>dist.Maps\<close> the sentence generator never panics (no "unreachable", no
  empty item, no cut of an empty buffer): it returns a sentence that ends with one of the
  terminators, and reads no stream but its own.
\<close>

theorem txtSentence_total:
  assumes "valid_streams s" "0 \<le> c" "c \<le> 47"
  shows "\<exists>str t n. txtSentence (initDists noDists) c s = Some (str, t) \<and> ends_sentence str \<and>
    consumed s t (replicate_mset n c)"
  using txtSentence_yields [OF text_dists_init _ only_start [OF assms(1), of c]] assms
  by (auto simp: yields_def only_def since_def)

lemma txtSentence_total_witness:
  "\<exists>str t n. txtSentence (initDists noDists) 5 initSeeds = Some (str, t) \<and> ends_sentence str \<and>
    consumed initSeeds t (replicate_mset n 5)"
  by (rule txtSentence_total) (simp_all add: valid_streams_initSeeds)

text \<open>
  \<open>initTextPool\<close> terminates without a panic, the pool has exactly \<open>textPoolSize\<close> (300 MB) bytes,
  and only stream 5 has moved.
\<close>

theorem initTextPool_fills:
  assumes "valid_streams s"
  shows "\<exists>pool t n. initTextPool (initDists noDists) s = Some (pool, t) \<and>
    int (length pool) = textPoolSize \<and> consumed s t (replicate_mset n 5)"
  using initTextPool_loop_yields [OF text_dists_init only_start [OF assms, of 5], of "[]"]
  by (auto simp: yields_def initTextPool_def textPoolSize_def only_def since_def)

lemma initTextPool_fills_witness:
  "\<exists>pool t n. initTextPool (initDists noDists) initSeeds = Some (pool, t) \<and>
    int (length pool) = textPoolSize \<and> consumed initSeeds t (replicate_mset n 5)"
  by (rule initTextPool_fills) (rule valid_streams_initSeeds)

text \<open>
  \<open>makeText\<close> on a full pool never slices out of range: its result is a piece of the pool whose
  length lies between 2/5 and 8/5 of the average, rounded down, for two steps of its stream.
\<close>

theorem makeText_slices:
  assumes "valid_streams s" "0 \<le> c" "c \<le> 47" "int (length pool) = textPoolSize"
    "0 \<le> avg" "avg < 2 ^ 20"
  shows "\<exists>str t. makeText pool avg c s = Some (str, t) \<and> text_of pool avg str \<and>
    consumed s t {#c, c#}"
proof -
  have "yields (makeText pool avg c s \<bind> (\<lambda>(x, u). Some (x, u)))
      (\<lambda>x t. text_of pool avg x \<and> consumed s t {#c, c#})"
    by (rule step_makeText [OF since_start [OF assms(1)]]) (use assms in \<open>auto simp: since_def\<close>)
  then show ?thesis by (auto elim!: yieldsE)
qed

lemma makeText_slices_witness:
  "\<exists>str t. makeText (replicate (nat textPoolSize) CHR ''a'') 63 36 initSeeds = Some (str, t) \<and>
    text_of (replicate (nat textPoolSize) CHR ''a'') 63 str \<and> consumed initSeeds t {#36, 36#}"
  by (rule makeText_slices) (simp_all add: valid_streams_initSeeds textPoolSize_def)

end
