(* ===== verification/DbgenMisc.thy ===== *)
theory DbgenMisc
  imports DbgenText
begin

text \<open>
  The remaining helpers of \<open>tpch/dbgen/misc.go\<close>: dates, sparse order keys, prices, clerks and
  money.  Go's \<open>int\<close> is 64 bits wide; \<open>julian\<close> and \<open>yeap\<close> work on dates of five digits, whose
  sums do not wrap around.
\<close>

definition startDate :: int where
  "startDate = 92001"

definition currentDate :: int where
  "currentDate = 95168"

definition totDate :: nat where
  "totDate = 2557"

text \<open>The Gregorian calendar of package \<open>time\<close>: \<open>AddDate(0, 0, i)\<close> is \<open>i\<close> days later.\<close>

definition leap :: "int \<Rightarrow> bool" where
  "leap y \<longleftrightarrow> y mod 4 = 0 \<and> (y mod 100 \<noteq> 0 \<or> y mod 400 = 0)"

definition daysIn :: "int \<Rightarrow> int \<Rightarrow> int" where
  "daysIn y m = (if m = 2 then (if leap y then 29 else 28)
     else if m \<in> {4, 6, 9, 11} then 30 else 31)"

definition next_day :: "int \<times> int \<times> int \<Rightarrow> int \<times> int \<times> int" where
  "next_day t = (case t of (y, m, d) \<Rightarrow>
     if d < daysIn y m then (y, m, d + 1) else if m < 12 then (y, m + 1, 1) else (y + 1, 1, 1))"

definition date_at :: "nat \<Rightarrow> int \<times> int \<times> int" where
  "date_at i = (next_day ^^ i) (1992, 1, 1)"

text \<open>The verb \<open>%4d\<close> pads with blanks.\<close>

definition fmt_pd :: "nat \<Rightarrow> int \<Rightarrow> string" where
  "fmt_pd w i = (let s = fmt_d i in replicate (w - length s) (CHR '' '') @ s)"

definition ascDate_of :: "int \<times> int \<times> int \<Rightarrow> string" where
  "ascDate_of t = (case t of (y, m, d) \<Rightarrow>
     fmt_pd 4 y @ ''-'' @ fmt_0d 2 m @ ''-'' @ fmt_0d 2 d)"

definition makeAscDate :: "string list" where
  "makeAscDate = map (\<lambda>i. ascDate_of (date_at i)) [0..<totDate]"

definition makeSparse :: "dssHuge \<Rightarrow> dssHuge" where
  "makeSparse idx =
     or (wrap64 (push_bit 3 (or (wrap64 (push_bit 2 (drop_bit 3 idx))) (and 0 3)))) (and idx 7)"

definition max_dss :: "dssHuge \<Rightarrow> dssHuge \<Rightarrow> dssHuge" where
  "max_dss a b = (if b < a then a else b)"

definition min_dss :: "dssHuge \<Rightarrow> dssHuge \<Rightarrow> dssHuge" where
  "min_dss a b = (if a < b then a else b)"

definition pickClerk :: "dssHuge \<Rightarrow> seeds \<Rightarrow> (string \<times> seeds) option" where
  "pickClerk scale ss = do {
     (clkNum, ss) \<leftarrow> random 1 (max_dss (wrap64 (scale * 1000)) 1000) 11 ss;
     Some (''Clerk#'' @ fmt_0d 9 clkNum, ss)
   }"

definition rpbRoutine :: "dssHuge \<Rightarrow> dssHuge" where
  "rpbRoutine p = 90000 + (p sdiv 10) smod 20001 + (p smod 1000) * 100"

definition yeap :: "int \<Rightarrow> int" where
  "yeap year = (if year smod 4 = 0 \<and> year smod 100 \<noteq> 0 then 1 else 0)"

partial_function (option) julian_loop :: "int \<Rightarrow> int \<Rightarrow> int option" where
  "julian_loop offset result =
     (let yr = result sdiv 1000; yend = yr * 1000 + 365 + yeap yr
      in if yend < result + offset
         then julian_loop (offset - (yend - result + 1)) (result + 1000)
         else Some (result + offset))"

definition julian :: "int \<Rightarrow> int option" where
  "julian date = julian_loop (date - startDate) startDate"

definition FmtMoney :: "dssHuge \<Rightarrow> string" where
  "FmtMoney m0 =
     (let (sign, m) = (if m0 < 0 then (''-'', wrap64 (- m0)) else ([], m0))
      in sign @ fmt_d (m sdiv 100) @ ''.'' @ fmt_0d 2 (m smod 100))"

subsection \<open>Dates\<close>

definition valid_date :: "int \<times> int \<times> int \<Rightarrow> bool" where
  "valid_date t = (case t of (y, m, d) \<Rightarrow> 1 \<le> m \<and> m \<le> 12 \<and> 1 \<le> d \<and> d \<le> daysIn y m)"

fun days_before :: "int \<Rightarrow> nat \<Rightarrow> int" where
  "days_before y 0 = 0"
| "days_before y (Suc m) = days_before y m + (if m = 0 then 0 else daysIn y (int m))"

definition day_of_year :: "int \<times> int \<times> int \<Rightarrow> int" where
  "day_of_year t = (case t of (y, m, d) \<Rightarrow> days_before y (nat m) + d)"

definition year_len :: "int \<Rightarrow> int" where
  "year_len y = (if leap y then 366 else 365)"

lemma days_before_12: "days_before y 12 = year_len y - 31"
  by (simp add: eval_nat_numeral daysIn_def year_len_def)

lemma month_fits:
  assumes "1 \<le> m" "m \<le> 12"
  shows "days_before y (nat m) + daysIn y m \<le> year_len y"
    and "m < 12 \<Longrightarrow> days_before y (nat m) + daysIn y m < year_len y"
proof -
  have "\<forall>m \<in> set [1..12]. days_before y (nat m) + daysIn y m \<le> year_len y \<and>
      (m < 12 \<longrightarrow> days_before y (nat m) + daysIn y m < year_len y)"
    by (simp add: upto.simps eval_nat_numeral daysIn_def year_len_def)
  then show "days_before y (nat m) + daysIn y m \<le> year_len y"
    "m < 12 \<Longrightarrow> days_before y (nat m) + daysIn y m < year_len y"
    using assms by auto
qed

lemma next_day_valid: "valid_date t \<Longrightarrow> valid_date (next_day t)"
proof -
  assume t: "valid_date t"
  obtain y m d where [simp]: "t = (y, m, d)" by (cases t)
  have "1 \<le> daysIn z n" for z n by (simp add: daysIn_def)
  then show ?thesis using t by (simp add: valid_date_def next_day_def)
qed

text \<open>The next day has the next number in its year, or is the first of the next year.\<close>

lemma next_day_number:
  assumes "valid_date t"
  shows "(fst (next_day t), day_of_year (next_day t)) =
    (if day_of_year t < year_len (fst t) then (fst t, day_of_year t + 1) else (fst t + 1, 1))"
proof -
  obtain y m d where t: "t = (y, m, d)" by (cases t)
  have v: "1 \<le> m" "m \<le> 12" "1 \<le> d" "d \<le> daysIn y m" using assms by (auto simp: t valid_date_def)
  consider "d < daysIn y m" | "d = daysIn y m" "m < 12" | "d = daysIn y m" "m = 12"
    using v by linarith
  then show ?thesis
  proof cases
    case 1
    have "days_before y (nat m) + daysIn y m \<le> year_len y" by (rule month_fits(1) [OF v(1,2)])
    then show ?thesis using 1 by (simp add: t next_day_def day_of_year_def)
  next
    case 2
    have "nat (m + 1) = Suc (nat m)" using v by (simp add: nat_add_distrib)
    then have n: "days_before y (nat (m + 1)) = days_before y (nat m) + daysIn y m"
      using v by simp
    have "days_before y (nat m) + daysIn y m < year_len y" by (rule month_fits(2) [OF v(1,2) 2(2)])
    then show ?thesis using 2 n by (simp add: t next_day_def day_of_year_def)
  next
    case 3
    then show ?thesis using days_before_12 [of y]
      by (simp add: t next_day_def day_of_year_def daysIn_def)
  qed
qed

text \<open>The number of days before a year, counted from 1992.\<close>

fun year_start :: "nat \<Rightarrow> int" where
  "year_start 0 = 0"
| "year_start (Suc n) = year_start n + year_len (1992 + int n)"

lemma date_at_valid: "valid_date (date_at i)"
  by (induction i) (simp_all add: date_at_def next_day_valid, simp add: valid_date_def daysIn_def)

lemma date_at_number:
  "\<exists>n. fst (date_at i) = 1992 + int n \<and> year_start n + day_of_year (date_at i) = int i + 1 \<and>
     1 \<le> day_of_year (date_at i) \<and> day_of_year (date_at i) \<le> year_len (fst (date_at i))"
proof (induction i)
  case 0
  then show ?case
    by (intro exI [of _ 0]) (simp add: date_at_def day_of_year_def year_len_def)
next
  case (Suc i)
  then obtain n where n: "fst (date_at i) = 1992 + int n"
    "year_start n + day_of_year (date_at i) = int i + 1"
    "1 \<le> day_of_year (date_at i)" "day_of_year (date_at i) \<le> year_len (fst (date_at i))"
    by blast
  have s: "date_at (Suc i) = next_day (date_at i)" by (simp add: date_at_def)
  note nn = next_day_number [OF date_at_valid [of i]]
  show ?case
  proof (cases "day_of_year (date_at i) < year_len (fst (date_at i))")
    case True
    then show ?thesis using n nn by (intro exI [of _ n]) (simp add: s)
  next
    case False
    then show ?thesis using n nn
      by (intro exI [of _ "Suc n"]) (auto simp: s year_len_def)
  qed
qed

text \<open>The loop of \<open>julian\<close>: whole years are taken off the offset.\<close>

lemma julian_loop_years:
  assumes "\<forall>k < n. yeap (yr + int k) = (if leap (1900 + yr + int k) then 1 else 0)" "0 \<le> yr"
  shows "(\<Sum>k<n. year_len (1900 + yr + int k)) \<le> off \<Longrightarrow>
    julian_loop off (yr * 1000 + 1) =
    julian_loop (off - (\<Sum>k<n. year_len (1900 + yr + int k))) ((yr + int n) * 1000 + 1)"
  using assms
proof (induction n)
  case 0
  then show ?case by simp
next
  case (Suc n)
  define r where "r = off - (\<Sum>k<n. year_len (1900 + yr + int k))"
  define y where "y = yr + int n"
  have len: "yeap y = (if leap (1900 + y) then 1 else 0)" "0 \<le> y"
    using Suc.prems by (auto simp: y_def add.assoc)
  have r: "year_len (1900 + y) \<le> r" using Suc.prems(1) by (simp add: r_def y_def add.assoc)
  have "0 \<le> year_len (1900 + y)" by (simp add: year_len_def)
  then have "julian_loop off (yr * 1000 + 1) = julian_loop r (y * 1000 + 1)"
    using Suc.IH Suc.prems r by (simp add: r_def y_def)
  also have "(y * 1000 + 1) sdiv 1000 = y" using len(2) by (simp add: sdiv_nonneg)
  then have "julian_loop r (y * 1000 + 1) = julian_loop (r - year_len (1900 + y)) ((y + 1) * 1000 + 1)"
    using r len
    by (cases "leap (1900 + y)") (auto simp: julian_loop.simps [of r] Let_def year_len_def algebra_simps)
  finally show ?case by (simp add: r_def y_def algebra_simps)
qed

lemma year_start_sum: "year_start n = (\<Sum>k<n. year_len (1992 + int k))"
  by (induction n) simp_all

text \<open>The rule for centuries is not reached from 1992 to 2099.\<close>

lemma yeap_leap:
  assumes "0 \<le> k" "k < 8"
  shows "yeap (92 + k) = (if leap (1992 + k) then 1 else 0)"
proof -
  have "\<forall>k \<in> set [0..7]. yeap (92 + k) = (if leap (1992 + k) then 1 else 0)" by code_simp
  then show ?thesis using assms by simp
qed

lemma julian_date:
  assumes "i < totDate"
  shows "julian (startDate + int i) =
    Some ((fst (date_at i) - 1900) * 1000 + day_of_year (date_at i))"
proof -
  obtain n where n: "fst (date_at i) = 1992 + int n"
    "year_start n + day_of_year (date_at i) = int i + 1"
    "1 \<le> day_of_year (date_at i)" "day_of_year (date_at i) \<le> year_len (fst (date_at i))"
    using date_at_number by blast
  have n7: "n < 7"
  proof (rule ccontr)
    assume "\<not> n < 7"
    then obtain k where k: "n = 7 + k" by (metis le_add_diff_inverse not_less)
    have "year_start m \<le> year_start (m + k)" for m k
      by (induction k) (simp_all add: year_len_def)
    moreover have "year_start 7 = 2557" by code_simp
    ultimately have "2557 \<le> year_start n" unfolding k by metis
    then show False using n(2,3) assms by (simp add: totDate_def)
  qed
  define y where "y = 92 + int n"
  define r where "r = day_of_year (date_at i) - 1"
  have "\<forall>k < n. yeap (92 + int k) = (if leap (1900 + 92 + int k) then 1 else 0)"
    using yeap_leap n7 by simp
  then have "julian_loop (int i) (92 * 1000 + 1) =
      julian_loop (int i - year_start n) ((92 + int n) * 1000 + 1)"
    using julian_loop_years [of n 92 "int i"] n by (simp add: year_start_sum)
  also have "int i - year_start n = r" using n(2) by (simp add: r_def)
  also have "(92 + int n) * 1000 + 1 = y * 1000 + 1" by (simp add: y_def)
  also have "julian_loop r (y * 1000 + 1) = Some (y * 1000 + 1 + r)"
  proof -
    have "(y * 1000 + 1) sdiv 1000 = y" by (simp add: sdiv_nonneg y_def)
    moreover have "yeap y = (if leap (1900 + y) then 1 else 0)"
      using yeap_leap [of "int n"] n7 by (simp add: y_def)
    moreover have "r < year_len (1900 + y)" using n(1,4) by (simp add: r_def y_def)
    ultimately show ?thesis
      by (cases "leap (1900 + y)") (simp_all add: julian_loop.simps [of r] Let_def year_len_def)
  qed
  finally show ?thesis by (simp add: julian_def startDate_def n(1) y_def r_def)
qed

lemma makeAscDate_nth: "i < totDate \<Longrightarrow> makeAscDate ! i = ascDate_of (date_at i)"
  by (simp add: makeAscDate_def)

lemma makeAscDate_length [simp]: "length makeAscDate = totDate"
  by (simp add: makeAscDate_def)

subsection \<open>Keys and prices\<close>

lemma or_low_bits:
  assumes "0 \<le> y" "y < 2 ^ n"
  shows "or (x * 2 ^ n) y = x * 2 ^ n + (y :: int)"
proof -
  have "or (push_bit n x) (take_bit n y) = push_bit n x + take_bit n y"
    by (rule disjunctive_add_eq_or [symmetric]) (auto simp: bit_eq_iff bit_simps)
  then show ?thesis using assms by (simp add: push_bit_eq_mult take_bit_int_eq_self)
qed

lemma makeSparse_eq:
  assumes "0 \<le> idx" "idx < 2 ^ 60"
  shows "makeSparse idx = idx div 8 * 32 + idx mod 8"
proof -
  have m: "and idx 7 = idx mod 8"
    using take_bit_eq_mask [of 3 idx] by (simp add: take_bit_eq_mod mask_eq_exp_minus_1)
  have d: "0 \<le> idx div 8" "idx div 8 < 2 ^ 57" using assms by simp_all
  have "makeSparse idx = or (idx div 8 * 2 ^ 5) (idx mod 8)"
    using d by (simp add: makeSparse_def push_bit_eq_mult drop_bit_eq_div m wrap64_id mult.commute)
  also have "\<dots> = idx div 8 * 2 ^ 5 + idx mod 8"
    by (intro or_low_bits) (simp_all add: order.strict_trans2 [OF pos_mod_bound [of 8 idx]])
  finally show ?thesis by simp
qed

lemma rpbRoutine_eq: "0 \<le> p \<Longrightarrow> rpbRoutine p = 90000 + p div 10 mod 20001 + p mod 1000 * 100"
  by (simp add: rpbRoutine_def sdiv_nonneg smod_nonneg pos_imp_zdiv_nonneg_iff)

lemma rpbRoutine_bounds:
  assumes "0 \<le> p"
  shows "90000 \<le> rpbRoutine p \<and> rpbRoutine p \<le> 209900"
proof -
  have "0 \<le> p div 10 mod 20001" "p div 10 mod 20001 < 20001" "0 \<le> p mod 1000" "p mod 1000 < 1000"
    by simp_all
  then show ?thesis unfolding rpbRoutine_eq [OF assms] by linarith
qed

subsection \<open>Money\<close>

text \<open>Reading an amount back: an optional sign, digits, a point, digits.\<close>

definition parseMoney :: "string \<Rightarrow> int" where
  "parseMoney s =
     (let t = (if take 1 s = ''-'' then drop 1 s else s);
          ip = takeWhile (\<lambda>c. c \<noteq> CHR ''.'') t;
          v = int (100 * undec ip + undec (drop (Suc (length ip)) t))
      in if take 1 s = ''-'' then - v else v)"

lemma dec_digits: "set (dec n) \<subseteq> set ''0123456789''"
proof (induction n rule: dec.induct)
  case (1 n)
  then show ?case using digit_isdigit [of n] digit_isdigit [of "n mod 10"]
    by (auto simp: dec.simps [of n])
qed

lemma dec_length_2: "n < 100 \<Longrightarrow> length (dec n) \<le> 2"
  by (auto simp: dec.simps [of n] dec.simps [of "n div 10"])

lemma FmtMoney_eq:
  assumes "- (2 ^ 63) < m" "m < 2 ^ 63"
  shows "FmtMoney m = (if m < 0 then ''-'' else []) @ dec (nat (\<bar>m\<bar> div 100)) @ ''.'' @
    fmt_0d 2 (\<bar>m\<bar> mod 100)"
proof -
  define k where "k = \<bar>m\<bar>"
  have k: "0 \<le> k" "wrap64 k = k" using assms by (auto simp: k_def wrap64_id)
  have "fmt_d (k sdiv 100) = dec (nat (k div 100))"
    using k by (simp add: fmt_d_def sdiv_nonneg pos_imp_zdiv_neg_iff)
  moreover have "FmtMoney m = (if m < 0 then ''-'' else []) @ fmt_d (k sdiv 100) @ ''.'' @
      fmt_0d 2 (k smod 100)"
    using k by (auto simp: FmtMoney_def k_def)
  ultimately show ?thesis using k by (simp add: smod_nonneg k_def)
qed

lemma parseMoney_FmtMoney:
  assumes "- (2 ^ 63) < m" "m < 2 ^ 63"
  shows "parseMoney (FmtMoney m) = m"
proof -
  define a where "a = nat (\<bar>m\<bar> div 100)"
  define b where "b = nat (\<bar>m\<bar> mod 100)"
  define t where "t = dec a @ ''.'' @ fmt_0d 2 (int b)"
  have digits: "c \<noteq> CHR ''.'' \<and> c \<noteq> CHR ''-''" if "c \<in> set (dec a)" for c
    using that dec_digits [of a] by auto
  have "takeWhile (\<lambda>c. c \<noteq> CHR ''.'') (dec a @ ''.'' @ fmt_0d 2 (int b)) = dec a"
    using digits by (subst takeWhile_append2) auto
  then have tw: "takeWhile (\<lambda>c. c \<noteq> CHR ''.'') t = dec a" by (simp add: t_def)
  have fb: "undec (fmt_0d 2 (int b)) = b"
    by (simp add: fmt_0d_def Let_def undec_zeros)
  have v: "int (100 * a + b) = \<bar>m\<bar>"
    by (simp add: a_def b_def pos_imp_zdiv_nonneg_iff)
  have m: "FmtMoney m = (if m < 0 then ''-'' else []) @ t"
    using FmtMoney_eq [OF assms] by (simp add: t_def a_def b_def)
  have "take 1 t \<noteq> ''-''"
    using digits by (cases "dec a") (auto simp: t_def)
  then show ?thesis using v
    by (cases "m < 0") (simp_all add: parseMoney_def m tw, simp_all add: t_def fb)
qed

subsection \<open>Properties\<close>

text \<open>
  Dates: for every one of the 2557 days, \<open>julian\<close> terminates on \<open>startDate + i\<close> and its result
  yyddd is the year (from 1900) and the day in the year of the calendar day whose text
  \<open>ascDate[i]\<close> holds, so the comparison of \<open>julian\<close> with \<open>currentDate\<close> compares calendar days.
\<close>

theorem julian_calendar:
  assumes "i < totDate"
  shows "julian (startDate + int i) =
      Some ((fst (date_at i) - 1900) * 1000 + day_of_year (date_at i)) \<and>
    go_index makeAscDate (int i) = Some (ascDate_of (date_at i)) \<and> valid_date (date_at i)"
  using assms julian_date by (simp add: go_index_def makeAscDate_nth date_at_valid)

lemma julian_calendar_witness:
  "julian (startDate + int 60) = Some ((fst (date_at 60) - 1900) * 1000 + day_of_year (date_at 60)) \<and>
   go_index makeAscDate (int 60) = Some (ascDate_of (date_at 60)) \<and> valid_date (date_at 60)"
  by (rule julian_calendar) (simp add: totDate_def)

text \<open>
  Sparse order keys: \<open>makeSparse\<close> spreads the keys over 8 of every 32 values, keeps their order
  and so never gives two orders the same key.
\<close>

theorem makeSparse_order:
  assumes "0 \<le> i" "i < j" "j < 2 ^ 60"
  shows "makeSparse i = i div 8 * 32 + i mod 8 \<and> makeSparse i < makeSparse j"
proof -
  have "i = i div 8 * 8 + i mod 8" "j = j div 8 * 8 + j mod 8" "0 \<le> i mod 8" "i mod 8 < 8"
    "0 \<le> j mod 8" "j mod 8 < 8" by simp_all
  then have "i div 8 * 32 + i mod 8 < j div 8 * 32 + j mod 8"
    using zdiv_mono1 [of i j 8] assms(2) by linarith
  then show ?thesis using assms by (simp add: makeSparse_eq)
qed

lemma makeSparse_order_witness:
  "makeSparse 7 = 7 div 8 * 32 + 7 mod 8 \<and> makeSparse 7 < makeSparse 8"
  by (rule makeSparse_order) simp_all



text \<open>
  The smallest \<open>int64\<close> has no negative in 64 bits: the amount stays negative after the sign is
  taken off, and two more signs appear.
\<close>

theorem FmtMoney_smallest:
  "FmtMoney (- (2 ^ 63)) = ''--'' @ dec 92233720368547758 @ ''.-8''"
proof -
  have "wrap64 (2 ^ 63) = - (2 ^ 63)" by (simp add: wrap64_def)
  then show ?thesis
    by (simp add: FmtMoney_def fmt_d_def fmt_0d_def dec_small digit_chars signed_divide_int_def
        signed_modulo_int_def)
qed

end
