(* ===== verification/DbgenVars.thy ===== *)
theory DbgenVars
  imports DbgenMisc
begin

text \<open>
  The package variables of \<open>tpch/dbgen\<close> other than the streams, the columns of \<open>tDefs\<close> that the
  row code reads, and the initialisation \<open>InitDbGen\<close> (\<open>driver.go\<close>, \<open>order.go\<close>,
  \<open>lineitem.go\<close>).  The loaders that \<open>tDefs\<close> holds are in theory \<open>DbgenDriver\<close>.
\<close>

record Vars =
  scale :: dssHuge
  dists :: Dists
  szTextPool :: string
  ascDate :: "string list"
  ockeyMin :: dssHuge
  ockeyMax :: dssHuge
  odateMin :: dssHuge
  odateMax :: dssHuge
  LPkeyMax :: dssHuge

definition noVars :: Vars where
  "noVars = \<lparr>scale = 0, dists = noDists, szTextPool = [], ascDate = [], ockeyMin = 0,
     ockeyMax = 0, odateMin = 0, odateMax = 0, LPkeyMax = 0\<rparr>"

abbreviation (input) ordersPerCust :: int where
  "ordersPerCust \<equiv> 10"

abbreviation (input) lSdteMin :: int where
  "lSdteMin \<equiv> 1"

abbreviation (input) lSdteMax :: int where
  "lSdteMax \<equiv> 121"

abbreviation (input) lRdteMin :: int where
  "lRdteMin \<equiv> 1"

abbreviation (input) lRdteMax :: int where
  "lRdteMax \<equiv> 30"

text \<open>The column \<open>base\<close>; \<open>TNone\<close> is no index of \<open>tDefs\<close>.\<close>

fun tDefs_base :: "Dists \<Rightarrow> Table \<Rightarrow> dssHuge option" where
  "tDefs_base D TNone = None"
| "tDefs_base D TPart = Some 200000"
| "tDefs_base D TPsupp = Some 200000"
| "tDefs_base D TSupp = Some 10000"
| "tDefs_base D TCust = Some 150000"
| "tDefs_base D TOrder = Some (150000 * ordersPerCust)"
| "tDefs_base D TLine = Some (150000 * ordersPerCust)"
| "tDefs_base D TOrderLine = Some (150000 * ordersPerCust)"
| "tDefs_base D TPartPsupp = Some 200000"
| "tDefs_base D TNation = Some (d_count (nations D))"
| "tDefs_base D TRegion = Some (d_count (regions D))"

definition initOrder :: "Vars \<Rightarrow> Vars option" where
  "initOrder V = do {
     base \<leftarrow> tDefs_base (dists V) TCust;
     Some (V\<lparr>ockeyMin := 1, ockeyMax := wrap64 (base * scale V), ascDate := makeAscDate,
       odateMin := startDate,
       odateMax := startDate + int totDate - (lSdteMax + lRdteMax) - 1\<rparr>)
   }"

definition initLineItem :: "Vars \<Rightarrow> Vars option" where
  "initLineItem V = do {
     base \<leftarrow> tDefs_base (dists V) TPart;
     Some (V\<lparr>LPkeyMax := wrap64 (base * scale V)\<rparr>)
   }"

text \<open>\<open>InitDbGen\<close> on the package state \<open>V\<close>; the streams are overwritten.\<close>

definition InitDbGen :: "int \<Rightarrow> Vars \<Rightarrow> (Vars \<times> seeds) option" where
  "InitDbGen sc V = do {
     let V = V\<lparr>scale := sc\<rparr>;
     let ss = initSeeds;
     let V = V\<lparr>dists := initDists (dists V)\<rparr>;
     (pool, ss) \<leftarrow> initTextPool (dists V) ss;
     let V = V\<lparr>szTextPool := pool\<rparr>;
     V \<leftarrow> initOrder V;
     V \<leftarrow> initLineItem V;
     Some (V, ss)
   }"

subsection \<open>The state after the initialisation\<close>

text \<open>What rows rely on: every row keeps it, a part changes only \<open>colors.permute\<close>.\<close>

definition dists_ready :: "Dists \<Rightarrow> bool" where
  "dists_ready D \<longleftrightarrow> (\<exists>q. (q = [] \<or> length q = 92) \<and>
     D = (initDists noDists)\<lparr>colors := (dist_of ''colors'')\<lparr>d_permute := q\<rparr>\<rparr>)"

definition ready :: "Vars \<Rightarrow> bool" where
  "ready V \<longleftrightarrow> 1 \<le> scale V \<and> scale V \<le> 10000 \<and> dists_ready (dists V) \<and>
     int (length (szTextPool V)) = textPoolSize \<and> ascDate V = makeAscDate \<and>
     ockeyMin V = 1 \<and> ockeyMax V = 150000 * scale V \<and>
     odateMin V = 92001 \<and> odateMax V = 94406 \<and> LPkeyMax V = 200000 * scale V"

lemma colors_length: "length (Maps ''colors'') = 92"
  by (simp add: Maps_eqs dist_colors_def dist_colors_1_def dist_colors_2_def)

lemma dists_ready_init: "dists_ready (initDists noDists)"
  unfolding dists_ready_def
  by (intro exI [of _ "[]"]) (simp add: initDists_eq dist_of_def)

lemma dists_ready_permute:
  "dists_ready D \<Longrightarrow> length q = 92 \<Longrightarrow> dists_ready (D\<lparr>colors := (colors D)\<lparr>d_permute := q\<rparr>\<rparr>)"
  unfolding dists_ready_def by (auto intro!: exI [of _ q])

lemma weighted_permute: "weighted items (d\<lparr>d_permute := q\<rparr>) \<longleftrightarrow> weighted items d"
  by (simp add: weighted_def)

lemma dists_ready_weighted:
  assumes "dists_ready D"
  shows "weighted dist_colors (colors D)" "perm_ready (colors D)" "weighted dist_p_types (pTypesSet D)"
    "weighted dist_p_cntr (pCntrSet D)" "weighted dist_o_oprio (oPrioritySet D)"
    "weighted dist_instruct (lInstructSet D)" "weighted dist_smode (lSmodeSet D)"
    "weighted dist_rflag (lRflagSet D)" "weighted dist_msegmnt (cMsegSet D)"
    "nations D = dist_of ''nations''" "regions D = dist_of ''regions''"
proof -
  obtain q where q: "q = [] \<or> length q = 92"
    "D = (initDists noDists)\<lparr>colors := (dist_of ''colors'')\<lparr>d_permute := q\<rparr>\<rparr>"
    using assms by (auto simp: dists_ready_def)
  show "weighted dist_colors (colors D)" "weighted dist_p_types (pTypesSet D)"
    "weighted dist_p_cntr (pCntrSet D)" "weighted dist_o_oprio (oPrioritySet D)"
    "weighted dist_instruct (lInstructSet D)" "weighted dist_smode (lSmodeSet D)"
    "weighted dist_rflag (lRflagSet D)" "weighted dist_msegmnt (cMsegSet D)"
    using q(2) by (simp_all add: initDists_eq weighted_permute weighted_init good_names_def Maps_eqs)
  show "nations D = dist_of ''nations''" "regions D = dist_of ''regions''"
    using q(2) by (simp_all add: initDists_eq)
  show "perm_ready (colors D)" using q colors_length by (auto simp: perm_ready_def dist_of_def)
qed

text \<open>The streams of the rows are untouched by the initialisation.\<close>

definition streams_ready :: "seeds \<Rightarrow> bool" where
  "streams_ready ss \<longleftrightarrow> valid_streams ss \<and> (\<forall>i. i \<noteq> 5 \<longrightarrow> ss i = initSeeds i) \<and>
     seed_table (ss 5) = TNone \<and> seed_boundary (ss 5) = 1"

lemma InitDbGen_yields:
  assumes "1 \<le> sc" "sc \<le> 10000"
  shows "\<exists>V ss. InitDbGen sc noVars = Some (V, ss) \<and> ready V \<and> scale V = sc \<and> streams_ready ss"
proof -
  obtain pool t where p: "initTextPool (initDists noDists) initSeeds = Some (pool, t)"
    "int (length pool) = textPoolSize" "only initSeeds 5 t"
    using initTextPool_loop_yields [OF text_dists_init only_start [OF valid_streams_initSeeds], of "[]"]
    by (auto simp: yields_def initTextPool_def textPoolSize_def)
  obtain n where n: "consumed initSeeds t (replicate_mset n 5)" "valid_streams t"
    using p(3) by (auto simp: only_def since_def dest: consumed_valid)
  have "t i = initSeeds i" if "i \<noteq> 5" for i
    using n(1) that unfolding consumed_def by (intro Seed.equality) simp_all
  moreover have "seed_table (initSeeds 5) = TNone" "seed_boundary (initSeeds 5) = 1" by code_simp+
  ultimately have "streams_ready t" using n by (auto simp: streams_ready_def consumed_def)
  moreover have "wrap64 (150000 * sc) = 150000 * sc" "wrap64 (200000 * sc) = 200000 * sc"
    using assms by (auto intro!: wrap64_id)
  ultimately show ?thesis
    using assms p dists_ready_init
    by (simp add: InitDbGen_def initOrder_def initLineItem_def noVars_def ready_def startDate_def
        totDate_def)
qed

text \<open>A package state of scale 1 with a pool of one letter, for examples.\<close>

definition demo_vars :: Vars where
  "demo_vars = \<lparr>scale = 1, dists = initDists noDists,
     szTextPool = replicate (nat textPoolSize) (CHR ''a''), ascDate = makeAscDate, ockeyMin = 1,
     ockeyMax = 150000, odateMin = 92001, odateMax = 94406, LPkeyMax = 200000\<rparr>"

lemma ready_demo_vars: "ready demo_vars"
  by (simp add: ready_def demo_vars_def dists_ready_init textPoolSize_def)

lemma scale_demo_vars [simp]: "scale demo_vars = 1" "ockeyMax demo_vars = 150000"
  by (simp_all add: demo_vars_def)

subsection \<open>Properties\<close>

text \<open>
  C23. \<open>InitDbGen\<close> on the fresh package returns for every scale up to 10000: the text pool is full,
  the key and date ranges are those of the scale, every distribution is read, and only stream 5
  (the one of no table, that the text pool reads) has left its initial value.
\<close>

theorem InitDbGen_ready:
  assumes "1 \<le> sc" "sc \<le> 10000"
  shows "\<exists>V ss. InitDbGen sc noVars = Some (V, ss) \<and> ready V \<and> scale V = sc \<and> streams_ready ss"
  using assms by (rule InitDbGen_yields)

lemma InitDbGen_ready_witness:
  "\<exists>V ss. InitDbGen 1 noVars = Some (V, ss) \<and> ready V \<and> scale V = 1 \<and> streams_ready ss"
  by (rule InitDbGen_ready) simp_all

end
