(* ===== verification/DbgenPart.thy ===== *)
theory DbgenPart
  imports DbgenVars
begin

text \<open>
  Parts and their suppliers: \<open>tpch/dbgen/part.go\<close>, \<open>part_supp.go\<close>.  A row's code draws on the
  streams and may replace the permutation kept in \<open>colors\<close>.
\<close>

abbreviation (input) pNameScl :: int where "pNameScl \<equiv> 5"

abbreviation (input) pMfgSd :: int where "pMfgSd \<equiv> 0"

abbreviation (input) pBrndSd :: int where "pBrndSd \<equiv> 1"

abbreviation (input) pTypeSd :: int where "pTypeSd \<equiv> 2"

abbreviation (input) pSizeSd :: int where "pSizeSd \<equiv> 3"

abbreviation (input) pCntrSd :: int where "pCntrSd \<equiv> 4"

abbreviation (input) psQtySd :: int where "psQtySd \<equiv> 7"

abbreviation (input) psScstSd :: int where "psScstSd \<equiv> 8"

abbreviation (input) pNameSd :: int where "pNameSd \<equiv> 37"

abbreviation (input) pCmntLen :: int where "pCmntLen \<equiv> 14"

abbreviation (input) psCmntLen :: int where "psCmntLen \<equiv> 124"

abbreviation (input) pCmntSd :: int where "pCmntSd \<equiv> 6"

abbreviation (input) psCmntSd :: int where "psCmntSd \<equiv> 9"

record PartSupp =
  ps_PartKey :: dssHuge
  ps_SuppKey :: dssHuge
  ps_Qty :: dssHuge
  ps_SCost :: dssHuge
  ps_Comment :: string

record Part =
  p_PartKey :: dssHuge
  p_Name :: string
  p_Mfgr :: string
  p_Brand :: string
  p_Type :: string
  p_Size :: dssHuge
  p_Container :: string
  p_RetailPrice :: dssHuge
  p_Comment :: string
  p_S :: "PartSupp list"

definition partSuppBridge :: "Vars \<Rightarrow> dssHuge \<Rightarrow> dssHuge \<Rightarrow> dssHuge option" where
  "partSuppBridge V p s = do {
     base \<leftarrow> tDefs_base (dists V) TSupp;
     let totScnt = wrap64 (base * scale V);
     if totScnt = 0 then None
     else Some (wrap64 (wrap64 (p + wrap64 (s * wrap64 (totScnt sdiv suppPerPart +
            wrap64 (p - 1) sdiv totScnt))) smod totScnt + 1))
   }"

fun makePart_supps ::
  "nat \<Rightarrow> int \<Rightarrow> Vars \<Rightarrow> dssHuge \<Rightarrow> PartSupp list \<Rightarrow> seeds \<Rightarrow> (PartSupp list \<times> seeds) option" where
  "makePart_supps 0 snum V idx acc ss = Some (acc, ss)"
| "makePart_supps (Suc k) snum V idx acc ss = do {
     suppKey \<leftarrow> partSuppBridge V idx snum;
     (qty, ss) \<leftarrow> random 1 9999 psQtySd ss;
     (cost, ss) \<leftarrow> random 100 100000 psScstSd ss;
     (cmnt, ss) \<leftarrow> makeText (szTextPool V) psCmntLen psCmntSd ss;
     makePart_supps k (snum + 1) V idx
       (acc @ [\<lparr>ps_PartKey = idx, ps_SuppKey = suppKey, ps_Qty = qty, ps_SCost = cost,
          ps_Comment = cmnt\<rparr>]) ss
   }"

text \<open>Besides the part the result carries the distribution \<open>colors\<close> with its new permutation.\<close>

definition makePart :: "Vars \<Rightarrow> dssHuge \<Rightarrow> seeds \<Rightarrow> ((Part \<times> distribution) \<times> seeds) option" where
  "makePart V idx ss = do {
     ((name, cols), ss) \<leftarrow> aggStr (colors (dists V)) pNameScl pNameSd ss;
     (tmp, ss) \<leftarrow> random 1 5 pMfgSd ss;
     (brnd, ss) \<leftarrow> random 1 5 pBrndSd ss;
     ((pos, type), ss) \<leftarrow> pickStr (pTypesSet (dists V)) pTypeSd ss;
     (size, ss) \<leftarrow> random 1 50 pSizeSd ss;
     ((pos, container), ss) \<leftarrow> pickStr (pCntrSet (dists V)) pCntrSd ss;
     (cmnt, ss) \<leftarrow> makeText (szTextPool V) pCmntLen pCmntSd ss;
     (supps, ss) \<leftarrow> makePart_supps (nat suppPerPart) 0 V idx [] ss;
     Some ((\<lparr>p_PartKey = idx, p_Name = name, p_Mfgr = ''Manufacturer#'' @ fmt_d tmp,
        p_Brand = ''Brand#'' @ fmt_0d 2 (tmp * 10 + brnd), p_Type = type, p_Size = size,
        p_Container = container, p_RetailPrice = rpbRoutine idx, p_Comment = cmnt,
        p_S = supps\<rparr>, cols), ss)
   }"

subsection \<open>The suppliers of a part\<close>

text \<open>The exact value, without wrap-around, and that the four suppliers of a part differ.\<close>

definition bridge :: "int \<Rightarrow> int \<Rightarrow> int \<Rightarrow> int" where
  "bridge n p s = (p + s * (n div 4 + (p - 1) div n)) mod n + 1"

lemma partSuppBridge_eq:
  assumes "ready V" "1 \<le> p" "p \<le> 200000 * scale V" "0 \<le> s" "s \<le> 3"
  shows "partSuppBridge V p s = Some (bridge (10000 * scale V) p s)"
proof -
  define n where "n = 10000 * scale V"
  have n: "10000 \<le> n" "n \<le> 100000000" using assms(1) by (auto simp: ready_def n_def)
  have p: "1 \<le> p" "p \<le> 20 * n" using assms by (auto simp: n_def)
  have d: "0 \<le> (p - 1) div n" "(p - 1) div n < 20"
    using p n by (auto simp: pos_imp_zdiv_nonneg_iff intro: int_div_less)
  have q: "0 \<le> n div 4 + (p - 1) div n" "n div 4 + (p - 1) div n \<le> 25000020" using d n by auto
  have sq: "0 \<le> s * (n div 4 + (p - 1) div n)" "s * (n div 4 + (p - 1) div n) \<le> 3 * 25000020"
    using q assms(4,5) mult_mono [of s 3 "n div 4 + (p - 1) div n" 25000020] by simp_all
  have r: "0 \<le> (p + s * (n div 4 + (p - 1) div n)) mod n" "(p + s * (n div 4 + (p - 1) div n)) mod n < n"
    using n by simp_all
  have "wrap64 n = n" "wrap64 (p - 1) = p - 1"
    "wrap64 (n div 4 + (p - 1) div n) = n div 4 + (p - 1) div n"
    "wrap64 (s * (n div 4 + (p - 1) div n)) = s * (n div 4 + (p - 1) div n)"
    "wrap64 (p + s * (n div 4 + (p - 1) div n)) = p + s * (n div 4 + (p - 1) div n)"
    using n p q sq by (auto intro!: wrap64_id)
  moreover have "wrap64 ((p + s * (n div 4 + (p - 1) div n)) mod n + 1) =
      (p + s * (n div 4 + (p - 1) div n)) mod n + 1"
    by (rule wrap64_nonneg; use r n in linarith)
  ultimately show ?thesis
    using n p q sq
    by (simp add: partSuppBridge_def n_def [symmetric] suppPerPart_def sdiv_nonneg smod_nonneg bridge_def)
qed

lemma bridge_range: "0 < n \<Longrightarrow> 1 \<le> bridge n p s \<and> bridge n p s \<le> n"
proof -
  assume "0 < n"
  then have "0 \<le> (p + s * (n div 4 + (p - 1) div n)) mod n"
    "(p + s * (n div 4 + (p - 1) div n)) mod n < n" by simp_all
  then show ?thesis unfolding bridge_def by linarith
qed

lemma bridge_distinct:
  assumes n: "10000 \<le> n" "4 dvd n" and p: "1 \<le> p" "p \<le> 20 * n"
    and s: "0 \<le> s" "s < t" "t \<le> 3"
  shows "bridge n p s \<noteq> bridge n p t"
proof
  define q where "q = n div 4 + (p - 1) div n"
  assume "bridge n p s = bridge n p t"
  then have "(p + s * q) mod n = (p + t * q) mod n" by (simp add: bridge_def q_def)
  then have "n dvd (p + t * q) - (p + s * q)" by (simp only: mod_eq_dvd_iff [symmetric])
  then have dv: "n dvd (t - s) * q" by (simp add: left_diff_distrib)
  obtain k where k: "n = 4 * k" using n(2) by blast
  have d: "0 \<le> (p - 1) div n" "(p - 1) div n < 20"
    using p n by (auto simp: pos_imp_zdiv_nonneg_iff intro: int_div_less)
  have "0 < q" using d n k by (simp add: q_def)
  moreover have "(t - s) * q < n"
  proof -
    have "(t - s) * q \<le> 3 * q" using s \<open>0 < q\<close> by (intro mult_right_mono) auto
    also have "\<dots> < n" using d n k by (simp add: q_def)
    finally show ?thesis .
  qed
  moreover have "0 < (t - s) * q" using s \<open>0 < q\<close> by simp
  ultimately show False using dv zdvd_not_zless by blast
qed

subsection \<open>Rows\<close>

definition supp_ok :: "Vars \<Rightarrow> dssHuge \<Rightarrow> int \<Rightarrow> PartSupp \<Rightarrow> bool" where
  "supp_ok V idx s x \<longleftrightarrow> ps_PartKey x = idx \<and> ps_SuppKey x = bridge (10000 * scale V) idx s \<and>
     1 \<le> ps_Qty x \<and> ps_Qty x \<le> 9999 \<and> 100 \<le> ps_SCost x \<and> ps_SCost x \<le> 100000 \<and>
     text_of (szTextPool V) 124 (ps_Comment x)"

lemma makePart_supps_yields:
  assumes V: "ready V" and idx: "1 \<le> idx" "idx \<le> 200000 * scale V"
  shows "since s t M \<Longrightarrow> 0 \<le> i \<Longrightarrow> i + int k \<le> 4 \<Longrightarrow>
    yields (makePart_supps k i V idx acc t) (\<lambda>xs u. length xs = length acc + k \<and>
      (\<forall>j < length acc. xs ! j = acc ! j) \<and>
      (\<forall>j < k. supp_ok V idx (i + int j) (xs ! (length acc + j))) \<and>
      since s u (M + replicate_mset k 7 + replicate_mset k 8 + replicate_mset (2 * k) 9))"
proof (induction k arbitrary: i acc t M)
  case 0
  then show ?case by simp
next
  case (Suc k)
  have pool: "int (length (szTextPool V)) = textPoolSize" using V by (simp add: ready_def)
  have b: "partSuppBridge V idx i = Some (bridge (10000 * scale V) idx i)"
    using Suc.prems by (intro partSuppBridge_eq V idx) auto
  show ?case
    unfolding makePart_supps.simps b Option.bind.bind_lunit
  proof (rule step_random [OF Suc.prems(1)])
    fix qty :: int and u1
    assume qty: "1 \<le> qty" "qty \<le> 9999" and u1: "since s u1 (add_mset 7 M)"
    show "yields (random 100 100000 8 u1 \<bind> (\<lambda>(cost, ss). makeText (szTextPool V) 124 9 ss \<bind>
        (\<lambda>(cmnt, ss). makePart_supps k (i + 1) V idx (acc @ [\<lparr>ps_PartKey = idx,
          ps_SuppKey = bridge (10000 * scale V) idx i, ps_Qty = qty, ps_SCost = cost,
          ps_Comment = cmnt\<rparr>]) ss)))
        (\<lambda>xs u. length xs = length acc + Suc k \<and> (\<forall>j < length acc. xs ! j = acc ! j) \<and>
          (\<forall>j < Suc k. supp_ok V idx (i + int j) (xs ! (length acc + j))) \<and>
          since s u (M + replicate_mset (Suc k) 7 + replicate_mset (Suc k) 8 +
            replicate_mset (2 * Suc k) 9))"
    proof (rule step_random [OF u1], simp, simp, rule step_makeText [OF _ _ pool])
      fix cost :: int and u2 cmnt u3
      assume cost: "100 \<le> cost" "cost \<le> 100000" and cmnt: "text_of (szTextPool V) 124 cmnt"
        and u3: "since s u3 (add_mset 9 (add_mset 9 (add_mset 8 (add_mset 7 M))))"
      define x where "x = \<lparr>ps_PartKey = idx, ps_SuppKey = bridge (10000 * scale V) idx i,
        ps_Qty = qty, ps_SCost = cost, ps_Comment = cmnt\<rparr>"
      have x: "supp_ok V idx i x" using qty cost cmnt by (simp add: supp_ok_def x_def)
      show "yields (makePart_supps k (i + 1) V idx (acc @ [\<lparr>ps_PartKey = idx,
          ps_SuppKey = bridge (10000 * scale V) idx i, ps_Qty = qty, ps_SCost = cost,
          ps_Comment = cmnt\<rparr>]) u3)
        (\<lambda>xs u. length xs = length acc + Suc k \<and> (\<forall>j < length acc. xs ! j = acc ! j) \<and>
          (\<forall>j < Suc k. supp_ok V idx (i + int j) (xs ! (length acc + j))) \<and>
          since s u (M + replicate_mset (Suc k) 7 + replicate_mset (Suc k) 8 +
            replicate_mset (2 * Suc k) 9))"
        unfolding x_def [symmetric]
      proof (rule yields_mono [OF Suc.IH [OF u3]], goal_cases)
        case (3 xs u)
        have "xs ! length acc = x" using 3 by (metis (no_types, lifting) length_append_singleton
              lessI nth_append_length)
        moreover have "\<forall>j < length acc. xs ! j = acc ! j" using 3 by (simp add: nth_append)
        moreover have "supp_ok V idx (i + int j) (xs ! (length acc + j))" if "j < Suc k" for j
          using 3 that x calculation by (cases j) (auto simp: algebra_simps)
        ultimately show ?case using 3 by simp
      qed (use Suc.prems in auto)
    qed simp_all
  qed simp_all
qed

definition part_ok :: "Vars \<Rightarrow> dssHuge \<Rightarrow> Part \<Rightarrow> bool" where
  "part_ok V idx p \<longleftrightarrow> p_PartKey p = idx \<and> agg_of dist_colors 5 (p_Name p) \<and>
     (\<exists>m b. 1 \<le> m \<and> m \<le> 5 \<and> 1 \<le> b \<and> b \<le> 5 \<and> p_Mfgr p = ''Manufacturer#'' @ fmt_d m \<and>
        p_Brand p = ''Brand#'' @ fmt_0d 2 (m * 10 + b)) \<and>
     p_Type p \<in> fst ` set dist_p_types \<and> 1 \<le> p_Size p \<and> p_Size p \<le> 50 \<and>
     p_Container p \<in> fst ` set dist_p_cntr \<and>
     p_RetailPrice p = 90000 + idx div 10 mod 20001 + idx mod 1000 * 100 \<and>
     text_of (szTextPool V) 14 (p_Comment p) \<and>
     length (p_S p) = 4 \<and> (\<forall>j < 4. supp_ok V idx (int j) (p_S p ! j))"

definition part_cost :: "int multiset" where
  "part_cost = {#0, 1, 2, 3, 4, 6, 6#} + replicate_mset 92 37 + replicate_mset 4 7 +
     replicate_mset 4 8 + replicate_mset 8 9"

lemma makePart_yields:
  assumes V: "ready V" and idx: "1 \<le> idx" "idx \<le> 200000 * scale V" and s: "valid_streams s"
  shows "yields (makePart V idx s) (\<lambda>x u. (\<exists>q. snd x = (colors (dists V))\<lparr>d_permute := q\<rparr> \<and>
      length q = 92) \<and> part_ok V idx (fst x) \<and> since s u part_cost)"
proof -
  have pool: "int (length (szTextPool V)) = textPoolSize" and D: "dists_ready (dists V)"
    using V by (simp_all add: ready_def)
  note w = dists_ready_weighted [OF D]
  have c92: "length dist_colors = 92" using colors_length by (simp add: Maps_eqs)
  show ?thesis
    unfolding makePart_def
  proof (rule step_aggStr [OF since_start [OF s] _ w(1,2)], goal_cases)
    case (4 name q u1)
    then have u1: "since s u1 (replicate_mset 92 37)" and q: "length q = 92"
      and name: "agg_of dist_colors 5 name" using c92 by simp_all
    show ?case
      unfolding prod.case
    proof (rule step_random [OF u1], simp, simp, rule step_random, assumption, simp, simp,
        rule step_pickStr [OF _ _ w(3)], assumption, simp, unfold prod.case, rule step_random,
        assumption, simp, simp, rule step_pickStr [OF _ _ w(4)], assumption, simp, unfold prod.case,
        rule step_makeText [OF _ _ pool], assumption, simp, simp, goal_cases)
      case (1 m u2 b u3 ty u4 size u5 cn u6 cmnt u7)
      show ?case
      proof (rule yields_bind [OF makePart_supps_yields [OF V idx 1(15)]], goal_cases)
        case (3 xs u8)
        have "since s u8 part_cost"
          using 3 by (simp add: part_cost_def suppPerPart_def eval_nat_numeral union_ac)
        then show ?case using 1 3 q name rpbRoutine_eq [of idx] idx
          by (auto simp: part_ok_def suppPerPart_def)
      qed (simp_all add: suppPerPart_def)
    qed
  qed (simp_all add: c92)
qed

subsection \<open>Properties\<close>

text \<open>
  The bridge between parts and suppliers: for every part of the scale the four supplier keys
  exist, lie between 1 and the number of suppliers, and are pairwise different.
\<close>

theorem partSuppBridge_four:
  assumes "ready V" "1 \<le> p" "p \<le> 200000 * scale V" "0 \<le> s" "s < t" "t \<le> 3"
  shows "\<exists>a b. partSuppBridge V p s = Some a \<and> partSuppBridge V p t = Some b \<and> a \<noteq> b \<and>
    1 \<le> a \<and> a \<le> 10000 * scale V \<and> 1 \<le> b \<and> b \<le> 10000 * scale V"
proof -
  have n: "10000 \<le> 10000 * scale V" "4 dvd 10000 * scale V" using assms(1) by (auto simp: ready_def)
  show ?thesis
    using partSuppBridge_eq [of V p s] partSuppBridge_eq [of V p t] bridge_distinct [OF n, of p s t]
      bridge_range [of "10000 * scale V"] n assms by simp
qed

lemma partSuppBridge_four_witness:
  "\<exists>a b. partSuppBridge demo_vars 200000 0 = Some a \<and> partSuppBridge demo_vars 200000 3 = Some b \<and>
    a \<noteq> b \<and> 1 \<le> a \<and> a \<le> 10000 * scale demo_vars \<and> 1 \<le> b \<and> b \<le> 10000 * scale demo_vars"
  by (rule partSuppBridge_four) (simp_all add: ready_demo_vars)

text \<open>
  C21. A part: \<open>makePart\<close> never panics for a key of the scale; every field is in its range or of its
  distribution, the name has five different colours, the four suppliers are those of the bridge,
  and the steps taken are exactly the boundaries of the streams of part and partsupp.
\<close>

theorem makePart_row:
  assumes "ready V" "1 \<le> idx" "idx \<le> 200000 * scale V" "valid_streams s"
  shows "\<exists>p q t. makePart V idx s = Some ((p, (colors (dists V))\<lparr>d_permute := q\<rparr>), t) \<and>
    length q = 92 \<and> part_ok V idx p \<and> consumed s t part_cost"
  using makePart_yields [OF assms] by (auto simp: since_def elim!: yieldsE)

lemma makePart_row_witness:
  "\<exists>p q t. makePart demo_vars 7 initSeeds = Some ((p, (colors (dists demo_vars))\<lparr>d_permute := q\<rparr>), t) \<and>
    length q = 92 \<and> part_ok demo_vars 7 p \<and> consumed initSeeds t part_cost"
  by (rule makePart_row) (simp_all add: ready_demo_vars valid_streams_initSeeds)

end
