(* ===== verification/DbgenOrder.thy ===== *)
theory DbgenOrder
  imports DbgenPart
begin

text \<open>
  Orders and their line items: \<open>order.go\<close> and \<open>lineitem.go\<close> of \<open>tpch/dbgen\<close>.
\<close>

record LineItem =
  l_OKey :: dssHuge
  l_PartKey :: dssHuge
  l_SuppKey :: dssHuge
  l_LCnt :: dssHuge
  l_Quantity :: dssHuge
  l_EPrice :: dssHuge
  l_Discount :: dssHuge
  l_Tax :: dssHuge
  l_RFlag :: string
  l_LStatus :: string
  l_CDate :: string
  l_SDate :: string
  l_RDate :: string
  l_ShipInstruct :: string
  l_ShipMode :: string
  l_Comment :: string

record Order =
  o_OKey :: dssHuge
  o_CustKey :: dssHuge
  o_Status :: string
  o_TotalPrice :: dssHuge
  o_Date :: string
  o_OrderPriority :: string
  o_Clerk :: string
  o_ShipPriority :: int
  o_Comment :: string
  o_Lines :: "LineItem list"

text \<open>The loop that moves the order off the customers divisible by 3; \<open>delta\<close> changes its sign.\<close>

partial_function (option) custKey_loop :: "dssHuge \<Rightarrow> dssHuge \<Rightarrow> dssHuge \<Rightarrow> dssHuge option" where
  "custKey_loop ckMax ck delta =
     (if ck smod 3 = 0
      then custKey_loop ckMax (min_dss (wrap64 (ck + delta)) ckMax) (- delta)
      else Some ck)"

text \<open>The return flag: a date not after \<open>currentDate\<close> draws one, and keeps its first letter.\<close>

definition makeLine_rflag :: "Vars \<Rightarrow> dssHuge \<Rightarrow> seeds \<Rightarrow> (string \<times> seeds) option" where
  "makeLine_rflag V rDate ss = do {
     jr \<leftarrow> julian rDate;
     if jr \<le> currentDate then do {
       ((pos, tmpStr), ss) \<leftarrow> pickStr (lRflagSet (dists V)) 24 ss;
       f \<leftarrow> go_slice tmpStr 0 1;
       Some (f, ss)
     } else Some (''N'', ss)
   }"

text \<open>
  One round of the loop over the lines: the line, what it adds to \<open>TotalPrice\<close> and whether it
  counts in \<open>oCnt\<close>.
\<close>

definition makeLine ::
  "Vars \<Rightarrow> dssHuge \<Rightarrow> dssHuge \<Rightarrow> dssHuge \<Rightarrow> seeds \<Rightarrow> ((LineItem \<times> dssHuge \<times> bool) \<times> seeds) option" where
  "makeLine V okey tmpDate lCnt ss = do {
     (quantity, ss) \<leftarrow> random 1 50 14 ss;
     (discount, ss) \<leftarrow> random 0 10 15 ss;
     (tax, ss) \<leftarrow> random 0 8 16 ss;
     ((pos, instruct), ss) \<leftarrow> pickStr (lInstructSet (dists V)) 17 ss;
     ((pos, mode), ss) \<leftarrow> pickStr (lSmodeSet (dists V)) 18 ss;
     (cmnt, ss) \<leftarrow> makeText (szTextPool V) 27 25 ss;
     (partKey, ss) \<leftarrow> (if 30000 < scale V then random64 1 (LPkeyMax V) 19 ss
        else random 1 (LPkeyMax V) 19 ss);
     let rPrice = rpbRoutine partKey;
     (suppNum, ss) \<leftarrow> random 0 3 20 ss;
     suppKey \<leftarrow> partSuppBridge V partKey suppNum;
     let ePrice = wrap64 (rPrice * quantity);
     let price = wrap64 ((wrap64 (ePrice * (100 - discount)) sdiv 100) * (100 + tax)) sdiv 100;
     (sDate, ss) \<leftarrow> random lSdteMin lSdteMax 21 ss;
     let sDate = sDate + tmpDate;
     (cDate, ss) \<leftarrow> random 30 90 22 ss;
     let cDate = cDate + tmpDate;
     (rDate, ss) \<leftarrow> random lRdteMin lRdteMax 23 ss;
     let rDate = rDate + sDate;
     sd \<leftarrow> go_index (ascDate V) (sDate - startDate);
     cd \<leftarrow> go_index (ascDate V) (cDate - startDate);
     rd \<leftarrow> go_index (ascDate V) (rDate - startDate);
     (rflag, ss) \<leftarrow> makeLine_rflag V rDate ss;
     js \<leftarrow> julian sDate;
     let fin = (js \<le> currentDate);
     Some ((\<lparr>l_OKey = okey, l_PartKey = partKey, l_SuppKey = suppKey, l_LCnt = lCnt + 1,
        l_Quantity = quantity, l_EPrice = ePrice, l_Discount = discount, l_Tax = tax,
        l_RFlag = rflag, l_LStatus = (if fin then ''F'' else ''O''), l_CDate = cd, l_SDate = sd,
        l_RDate = rd, l_ShipInstruct = instruct, l_ShipMode = mode, l_Comment = cmnt\<rparr>,
        price, fin), ss)
   }"

fun makeOrder_lines ::
  "nat \<Rightarrow> dssHuge \<Rightarrow> Vars \<Rightarrow> dssHuge \<Rightarrow> dssHuge \<Rightarrow> LineItem list \<Rightarrow> dssHuge \<Rightarrow> int \<Rightarrow> seeds \<Rightarrow>
   ((LineItem list \<times> dssHuge \<times> int) \<times> seeds) option" where
  "makeOrder_lines 0 lCnt V okey tmpDate acc tot oCnt ss = Some ((acc, tot, oCnt), ss)"
| "makeOrder_lines (Suc k) lCnt V okey tmpDate acc tot oCnt ss = do {
     ((line, price, fin), ss) \<leftarrow> makeLine V okey tmpDate lCnt ss;
     makeOrder_lines k (lCnt + 1) V okey tmpDate (acc @ [line]) (wrap64 (tot + price))
       (if fin then oCnt + 1 else oCnt) ss
   }"

definition orderStatus :: "int \<Rightarrow> int \<Rightarrow> string" where
  "orderStatus oCnt n =
     (let st = ''O'';
          st = (if 0 < oCnt then ''P'' else st);
          st = (if oCnt = n then ''F'' else st)
      in st)"

definition makeOrder :: "Vars \<Rightarrow> dssHuge \<Rightarrow> seeds \<Rightarrow> (Order \<times> seeds) option" where
  "makeOrder V idx ss = do {
     let okey = makeSparse idx;
     (ck, ss) \<leftarrow> (if 30000 \<le> scale V then random64 (ockeyMin V) (ockeyMax V) 40 ss
        else random (ockeyMin V) (ockeyMax V) 40 ss);
     custKey \<leftarrow> custKey_loop (ockeyMax V) ck 1;
     (tmpDate, ss) \<leftarrow> random (odateMin V) (odateMax V) 13 ss;
     date \<leftarrow> go_index (ascDate V) (tmpDate - startDate);
     ((pos, prio), ss) \<leftarrow> pickStr (oPrioritySet (dists V)) 38 ss;
     (clerk, ss) \<leftarrow> pickClerk (scale V) ss;
     (cmnt, ss) \<leftarrow> makeText (szTextPool V) 49 12 ss;
     (lineCount, ss) \<leftarrow> random 1 oLcntMax 43 ss;
     ((lines, tot, oCnt), ss) \<leftarrow> makeOrder_lines (nat lineCount) 0 V okey tmpDate [] 0 0 ss;
     Some (\<lparr>o_OKey = okey, o_CustKey = custKey, o_Status = orderStatus oCnt (int (length lines)),
       o_TotalPrice = tot, o_Date = date, o_OrderPriority = prio, o_Clerk = clerk,
       o_ShipPriority = 0, o_Comment = cmnt, o_Lines = lines\<rparr>, ss)
   }"

subsection \<open>Customers and dates\<close>

text \<open>The loop ends after at most two rounds.\<close>

lemma custKey_loop_total:
  assumes "1 \<le> ck" "ck \<le> m" "3 \<le> m" "m < 2 ^ 62"
  shows "\<exists>c. custKey_loop m ck 1 = Some c \<and> 1 \<le> c \<and> c \<le> m \<and> c mod 3 \<noteq> 0 \<and> \<bar>c - ck\<bar> \<le> 1"
proof (cases "ck mod 3 = 0")
  case False
  then show ?thesis using assms by (simp add: custKey_loop.simps [of m ck] smod_nonneg)
next
  case True
  show ?thesis
  proof (cases "ck < m")
    case lt: True
    have "(ck + 1) mod 3 \<noteq> 0" using True by presburger
    moreover have "min_dss (wrap64 (ck + 1)) m = ck + 1"
      using assms lt by (auto simp: wrap64_id min_dss_def)
    ultimately show ?thesis using assms lt True
      by (simp add: custKey_loop.simps [of m ck] custKey_loop.simps [of m "ck + 1"] smod_nonneg)
  next
    case False
    then have m: "ck = m" using assms by simp
    have "(m - 1) mod 3 \<noteq> 0" using True m by presburger
    moreover have "min_dss (wrap64 (m + 1)) m = m" "min_dss (wrap64 (m - 1)) m = m - 1"
      using assms by (simp_all add: wrap64_id min_dss_def)
    ultimately show ?thesis using assms True m
      by (simp add: custKey_loop.simps [of m m 1] custKey_loop.simps [of m m "- 1"]
          custKey_loop.simps [of m "m - 1"] smod_nonneg)
  qed
qed

text \<open>Dates of the calendar, as \<open>ascDate\<close> and \<open>julian\<close> see them.\<close>

definition cal :: "dssHuge \<Rightarrow> int \<times> int \<times> int" where
  "cal date = date_at (nat (date - startDate))"

definition yyddd :: "dssHuge \<Rightarrow> int" where
  "yyddd date = (fst (cal date) - 1900) * 1000 + day_of_year (cal date)"

lemma date_lookup:
  assumes "startDate \<le> date" "date < startDate + int totDate"
  shows "go_index makeAscDate (date - startDate) = Some (ascDate_of (cal date))"
    and "julian date = Some (yyddd date)"
proof -
  have i: "nat (date - startDate) < totDate" using assms by simp
  show "go_index makeAscDate (date - startDate) = Some (ascDate_of (cal date))"
    using assms i by (simp add: go_index_def makeAscDate_nth cal_def)
  have "startDate + int (nat (date - startDate)) = date" using assms by simp
  then show "julian date = Some (yyddd date)"
    using julian_date [OF i] by (simp add: yyddd_def cal_def)
qed

subsection \<open>Lines\<close>

definition line_price :: "LineItem \<Rightarrow> int" where
  "line_price l = l_EPrice l * (100 - l_Discount l) div 100 * (100 + l_Tax l) div 100"

text \<open>A line of an order of day \<open>d\<close>; \<open>fin\<close>: shipped by the current date.\<close>

definition line_ok :: "Vars \<Rightarrow> dssHuge \<Rightarrow> dssHuge \<Rightarrow> dssHuge \<Rightarrow> LineItem \<Rightarrow> bool \<Rightarrow> bool" where
  "line_ok V okey d cnt l fin \<longleftrightarrow> l_OKey l = okey \<and> l_LCnt l = cnt \<and>
     1 \<le> l_PartKey l \<and> l_PartKey l \<le> 200000 * scale V \<and>
     (\<exists>s. 0 \<le> s \<and> s \<le> 3 \<and> l_SuppKey l = bridge (10000 * scale V) (l_PartKey l) s) \<and>
     1 \<le> l_Quantity l \<and> l_Quantity l \<le> 50 \<and> 0 \<le> l_Discount l \<and> l_Discount l \<le> 10 \<and>
     0 \<le> l_Tax l \<and> l_Tax l \<le> 8 \<and> l_EPrice l = rpbRoutine (l_PartKey l) * l_Quantity l \<and>
     l_ShipInstruct l \<in> fst ` set dist_instruct \<and> l_ShipMode l \<in> fst ` set dist_smode \<and>
     text_of (szTextPool V) 27 (l_Comment l) \<and>
     (\<exists>sd cd rd. d + 1 \<le> sd \<and> sd \<le> d + 121 \<and> d + 30 \<le> cd \<and> cd \<le> d + 90 \<and> sd + 1 \<le> rd \<and> rd \<le> sd + 30 \<and>
        l_SDate l = ascDate_of (cal sd) \<and> l_CDate l = ascDate_of (cal cd) \<and>
        l_RDate l = ascDate_of (cal rd) \<and>
        (if yyddd rd \<le> currentDate then l_RFlag l \<in> {''R'', ''A''} else l_RFlag l = ''N'') \<and>
        fin = (yyddd sd \<le> currentDate)) \<and>
     l_LStatus l = (if fin then ''F'' else ''O'')"

text \<open>Every line steps each stream of \<open>lineitem\<close> once, the text twice and the flag at most once.\<close>

definition line_cost :: "int multiset" where
  "line_cost = {#14, 15, 16, 17, 18, 19, 20, 21, 22, 23, 25, 25#}"

lemma dist_rflag_flags: "i < length dist_rflag \<Longrightarrow>
  \<exists>f. go_slice (fst (dist_rflag ! i)) 0 1 = Some f \<and> f \<in> {''R'', ''A''}"
  by (auto simp: dist_rflag_def go_slice_def nth_Cons split: nat.splits)

lemma makeLine_rflag_yields:
  assumes V: "ready V" and u: "since s t M" and d: "startDate \<le> date" "date < startDate + int totDate"
  shows "yields (makeLine_rflag V date t) (\<lambda>f u.
    (if yyddd date \<le> currentDate then f \<in> {''R'', ''A''} else f = ''N'') \<and>
    (\<exists>k \<le> 1. since s u (M + replicate_mset k 24)))"
proof -
  have D: "dists_ready (dists V)" using V by (simp add: ready_def)
  note w = dists_ready_weighted(8) [OF D]
  show ?thesis
  proof (cases "yyddd date \<le> currentDate")
    case False
    then show ?thesis using u
      by (auto simp: makeLine_rflag_def date_lookup(2) [OF d] intro: exI [of _ 0])
  next
    case True
    have "yields (pickStr (lRflagSet (dists V)) 24 t \<bind> (\<lambda>((pos, tmpStr), ss).
        go_slice tmpStr 0 1 \<bind> (\<lambda>f. Some (f, ss))))
        (\<lambda>f u. f \<in> {''R'', ''A''} \<and> (\<exists>k \<le> 1. since s u (M + replicate_mset k 24)))"
    proof (rule step_pickStr [OF u _ w], simp, goal_cases)
      case (1 i v)
      then have "\<exists>k \<le> 1. since s v (M + replicate_mset k 24)" by (intro exI [of _ 1]) simp
      then show ?case using dist_rflag_flags [OF 1(1)] by auto
    qed
    then show ?thesis using True by (simp add: makeLine_rflag_def date_lookup(2) [OF d])
  qed
qed

lemma step_pair:
  assumes "yields r (\<lambda>x u. P x \<and> R u)" "\<And>x u. P x \<Longrightarrow> R u \<Longrightarrow> yields (k x u) Q"
  shows "yields (r \<bind> (\<lambda>(x, u). k x u)) Q"
  using assms by (fastforce simp: yields_def)

lemma line_arith:
  assumes "1 \<le> pk" "1 \<le> q" "q \<le> 50" "0 \<le> dc" "dc \<le> 10" "0 \<le> tx" "tx \<le> 8"
  shows "wrap64 (rpbRoutine pk * q) = rpbRoutine pk * q"
    and "wrap64 (wrap64 (rpbRoutine pk * q * (100 - dc)) sdiv 100 * (100 + tx)) sdiv 100 =
      rpbRoutine pk * q * (100 - dc) div 100 * (100 + tx) div 100"
    and "0 \<le> rpbRoutine pk * q * (100 - dc) div 100 * (100 + tx) div 100"
    and "rpbRoutine pk * q * (100 - dc) div 100 * (100 + tx) div 100 \<le> 11334600"
proof -
  define e where "e = rpbRoutine pk * q"
  define a where "a = e * (100 - dc)"
  define b where "b = a div 100 * (100 + tx)"
  have r: "90000 \<le> rpbRoutine pk" "rpbRoutine pk \<le> 209900" using rpbRoutine_bounds [of pk] assms by auto
  have e: "0 \<le> e" "e \<le> 209900 * 50"
    using r assms mult_mono [of "rpbRoutine pk" 209900 q 50] by (simp_all add: e_def)
  have a: "0 \<le> a" "a \<le> 209900 * 50 * 100"
    using e assms mult_mono [of e "209900 * 50" "100 - dc" 100] by (simp_all add: a_def)
  have ad: "0 \<le> a div 100" "a div 100 \<le> 10495000" using a by auto
  have b: "0 \<le> b" "b \<le> 10495000 * 108"
    using ad assms mult_mono [of "a div 100" 10495000 "100 + tx" 108] by (simp_all add: b_def)
  show "wrap64 (rpbRoutine pk * q) = rpbRoutine pk * q"
    using e by (intro wrap64_nonneg) (simp_all add: e_def)
  have "wrap64 a = a" "wrap64 b = b" using a b by (auto intro!: wrap64_nonneg)
  then show "wrap64 (wrap64 (rpbRoutine pk * q * (100 - dc)) sdiv 100 * (100 + tx)) sdiv 100 =
      rpbRoutine pk * q * (100 - dc) div 100 * (100 + tx) div 100"
    using a b unfolding e_def [symmetric] a_def [symmetric]
    by (simp add: sdiv_nonneg b_def [symmetric])
  show "0 \<le> rpbRoutine pk * q * (100 - dc) div 100 * (100 + tx) div 100"
    "rpbRoutine pk * q * (100 - dc) div 100 * (100 + tx) div 100 \<le> 11334600"
    using b unfolding e_def [symmetric] a_def [symmetric] b_def [symmetric] by auto
qed

lemma makeLine_yields:
  assumes V: "ready V" and t: "since s t M" and d: "startDate \<le> d" "d \<le> 94406"
  shows "yields (makeLine V okey d cnt t) (\<lambda>x u. line_ok V okey d (cnt + 1) (fst x) (snd (snd x)) \<and>
    fst (snd x) = line_price (fst x) \<and> 0 \<le> line_price (fst x) \<and> line_price (fst x) \<le> 11334600 \<and>
    (\<exists>k \<le> 1. since s u (M + line_cost + replicate_mset k 24)))"
proof -
  have D: "dists_ready (dists V)" and pool: "int (length (szTextPool V)) = textPoolSize"
    and asc: "ascDate V = makeAscDate" and pm: "LPkeyMax V = 200000 * scale V"
    and sc: "1 \<le> scale V" "scale V \<le> 10000" using V by (simp_all add: ready_def)
  have nb: "\<not> 30000 < scale V" using sc by simp
  note w = dists_ready_weighted [OF D]
  show ?thesis
    unfolding makeLine_def if_not_P [OF nb] asc pm Let_def
  proof (rule step_random [OF t], simp, simp, rule step_random, assumption, simp, simp,
      rule step_random, assumption, simp, simp, rule step_pickStr [OF _ _ w(6)], assumption, simp,
      unfold prod.case, rule step_pickStr [OF _ _ w(7)], assumption, simp, unfold prod.case,
      rule step_makeText [OF _ _ pool], assumption, simp, simp, rule step_random, assumption, simp,
      goal_cases)
    case 1
    then show ?case using sc by simp
  next
    case (2 q u1 dc u2 tx u3 i u4 j u5 cm u6 pk u7)
    show ?case
    proof (rule step_random [OF 2(18)], simp, simp, goal_cases)
      case (1 sn u8)
      have br: "partSuppBridge V pk sn = Some (bridge (10000 * scale V) pk sn)"
        using 1 2 by (intro partSuppBridge_eq V) auto
      note sn = 1(1,2)
      note ar = line_arith [OF 2(16) 2(1,2,4,5,7,8)]
      show ?case
        unfolding br ar(1,2) Option.bind.bind_lunit
      proof (rule step_random [OF 1(3)], simp, simp, rule step_random, assumption, simp, simp,
          rule step_random, assumption, simp, simp, goal_cases)
        case (1 sd u9 cd u10 rd u11)
        note dates = 1(1,2,4,5,7,8)
        note dl = date_lookup [of "sd + d"] date_lookup [of "cd + d"] date_lookup [of "rd + (sd + d)"]
        have in_range: "startDate \<le> sd + d" "sd + d < startDate + int totDate" "startDate \<le> cd + d"
          "cd + d < startDate + int totDate" "startDate \<le> rd + (sd + d)"
          "rd + (sd + d) < startDate + int totDate"
          using 1 d by (simp_all add: startDate_def totDate_def)
        show ?case
          unfolding dl(1) [OF in_range(1,2)] dl(3) [OF in_range(3,4)] dl(5) [OF in_range(5,6)]
            dl(2) [OF in_range(1,2)] Option.bind.bind_lunit
        proof (rule step_pair [OF makeLine_rflag_yields [OF V 1(9) in_range(5,6)]], goal_cases)
          case (1 f u12)
          note flag = 1
          have line: "line_ok V okey d (cnt + 1) \<lparr>l_OKey = okey, l_PartKey = pk,
              l_SuppKey = bridge (10000 * scale V) pk sn, l_LCnt = cnt + 1, l_Quantity = q,
              l_EPrice = rpbRoutine pk * q, l_Discount = dc, l_Tax = tx, l_RFlag = f,
              l_LStatus = (if yyddd (sd + d) \<le> currentDate then ''F'' else ''O''),
              l_CDate = ascDate_of (cal (cd + d)), l_SDate = ascDate_of (cal (sd + d)),
              l_RDate = ascDate_of (cal (rd + (sd + d))),
              l_ShipInstruct = fst (dist_instruct ! i), l_ShipMode = fst (dist_smode ! j),
              l_Comment = cm\<rparr> (yyddd (sd + d) \<le> currentDate)"
            unfolding line_ok_def
          proof (intro conjI, goal_cases)
            case 5
            show ?case by (intro exI [of _ sn]) (use sn in simp)
          next
            case 16
            show ?case
              by (rule exI [of _ "sd + d"], rule exI [of _ "cd + d"], rule exI [of _ "rd + (sd + d)"])
                (use dates flag(1) in \<open>auto split: if_splits\<close>)
          qed (use 2(1,2,4,5,7,8,10,12,14,16,17) in simp_all)
          have cost: "\<exists>k \<le> 1. since s u12 (M + line_cost + replicate_mset k 24)"
            using flag(2) by (simp add: line_cost_def add_mset_commute)
          show ?case
            using line cost ar(3,4) by (simp add: line_price_def)
        qed
      qed
    qed
  qed
qed

subsection \<open>Orders\<close>

text \<open>
  The lines of an order, numbered from 1; \<open>fs\<close> says which have been shipped by the current date.
\<close>

definition lines_ok :: "Vars \<Rightarrow> dssHuge \<Rightarrow> dssHuge \<Rightarrow> LineItem list \<Rightarrow> bool list \<Rightarrow> bool" where
  "lines_ok V okey d ls fs \<longleftrightarrow> length fs = length ls \<and>
     (\<forall>j < length ls. line_ok V okey d (int j + 1) (ls ! j) (fs ! j)) \<and>
     (\<forall>l \<in> set ls. 0 \<le> line_price l \<and> line_price l \<le> 11334600)"

definition total_price :: "LineItem list \<Rightarrow> int" where
  "total_price ls = sum_list (map line_price ls)"

definition fin_count :: "bool list \<Rightarrow> int" where
  "fin_count fs = int (length (filter (\<lambda>b. b) fs))"

lemma lines_ok_snoc:
  "lines_ok V okey d ls fs \<Longrightarrow> line_ok V okey d (int (length ls) + 1) l f \<Longrightarrow>
   0 \<le> line_price l \<Longrightarrow> line_price l \<le> 11334600 \<Longrightarrow> lines_ok V okey d (ls @ [l]) (fs @ [f])"
  by (auto simp: lines_ok_def nth_append less_Suc_eq)

lemma total_price_bound:
  "lines_ok V okey d ls fs \<Longrightarrow> 0 \<le> total_price ls \<and> total_price ls \<le> 11334600 * int (length ls)"
proof -
  have "\<forall>l \<in> set ls. 0 \<le> line_price l \<and> line_price l \<le> 11334600 \<Longrightarrow>
      0 \<le> total_price ls \<and> total_price ls \<le> 11334600 * int (length ls)" for ls
    by (induction ls) (auto simp: total_price_def algebra_simps)
  then show "lines_ok V okey d ls fs \<Longrightarrow> ?thesis" by (simp add: lines_ok_def)
qed

definition lines_spent :: "nat \<Rightarrow> int multiset" where
  "lines_spent k = repeat_mset k line_cost"

lemma makeOrder_lines_yields:
  assumes V: "ready V" and d: "startDate \<le> d" "d \<le> 94406"
  shows "since s t M \<Longrightarrow> lines_ok V okey d acc fs \<Longrightarrow> length acc + k \<le> 7 \<Longrightarrow>
    yields (makeOrder_lines k (int (length acc)) V okey d acc (total_price acc) (fin_count fs) t)
      (\<lambda>x u. (case x of (ls, tot, oCnt) \<Rightarrow> \<exists>gs. lines_ok V okey d ls gs \<and>
          length ls = length acc + k \<and> tot = total_price ls \<and> oCnt = fin_count gs) \<and>
        (\<exists>f \<le> k. since s u (M + lines_spent k + replicate_mset f 24)))"
proof (induction k arbitrary: acc fs t M)
  case 0
  have "since s t (M + lines_spent 0 + replicate_mset 0 24)" using 0 by (simp add: lines_spent_def)
  then show ?case using 0 by auto
next
  case (Suc k)
  show ?case
    unfolding makeOrder_lines.simps
  proof (rule yields_bind [OF makeLine_yields [OF V Suc.prems(1) d]], goal_cases)
    case (1 x u)
    obtain l p f where x: "x = (l, p, f)" by (cases x)
    have l: "line_ok V okey d (int (length acc) + 1) l f" "p = line_price l" "0 \<le> line_price l"
      "line_price l \<le> 11334600" using 1 by (simp_all add: x)
    have ok: "lines_ok V okey d (acc @ [l]) (fs @ [f])"
      by (rule lines_ok_snoc [OF Suc.prems(2)]) (use l in auto)
    obtain h where h: "h \<le> 1" "since s u (M + line_cost + replicate_mset h 24)"
      using 1 by blast
    have "wrap64 (total_price acc + line_price l) = total_price (acc @ [l])"
      using total_price_bound [OF ok] Suc.prems(3)
      by (subst wrap64_nonneg) (simp_all add: total_price_def)
    moreover have "(if f then fin_count fs + 1 else fin_count fs) = fin_count (fs @ [f])"
      by (simp add: fin_count_def)
    ultimately have e: "makeOrder_lines k (int (length acc) + 1) V okey d (acc @ [l])
        (wrap64 (total_price acc + line_price l)) (if f then fin_count fs + 1 else fin_count fs) u =
      makeOrder_lines k (int (length (acc @ [l]))) V okey d (acc @ [l])
        (total_price (acc @ [l])) (fin_count (fs @ [f])) u"
      by (simp add: add.commute)
    have "yields (makeOrder_lines k (int (length (acc @ [l]))) V okey d (acc @ [l])
        (total_price (acc @ [l])) (fin_count (fs @ [f])) u)
      (\<lambda>x u. (case x of (ls, tot, oCnt) \<Rightarrow> \<exists>gs. lines_ok V okey d ls gs \<and>
          length ls = length (acc @ [l]) + k \<and> tot = total_price ls \<and> oCnt = fin_count gs) \<and>
        (\<exists>g \<le> k. since s u (M + line_cost + replicate_mset h 24 + lines_spent k +
          replicate_mset g 24)))"
      using Suc.prems(3) by (intro Suc.IH [OF h(2) ok]) simp
    then show ?case
      unfolding x prod.case l(2) fst_conv snd_conv e
    proof (rule yields_mono, elim conjE exE, goal_cases)
      case (1 y v g)
      have "since s v (M + lines_spent (Suc k) + replicate_mset (h + g) 24)"
        using 1 by (simp add: lines_spent_def replicate_mset_plus ac_simps)
      then show ?case using 1 h(1) by (auto intro!: exI [of _ "h + g"])
    qed
  qed
qed

lemma step_pickClerk:
  assumes "since s t M" "1 \<le> sc" "sc \<le> 10000"
    and "\<And>n u. 1 \<le> n \<Longrightarrow> n \<le> 1000 * sc \<Longrightarrow> since s u (add_mset 11 M) \<Longrightarrow>
      yields (k (''Clerk#'' @ fmt_0d 9 n) u) Q"
  shows "yields (pickClerk sc t \<bind> (\<lambda>(x, u). k x u)) Q"
proof (rule yields_bind)
  have "max_dss (wrap64 (sc * 1000)) 1000 = sc * 1000"
    using assms by (simp add: max_dss_def wrap64_nonneg)
  then show "yields (pickClerk sc t) (\<lambda>x u. \<exists>n. 1 \<le> n \<and> n \<le> 1000 * sc \<and>
      x = ''Clerk#'' @ fmt_0d 9 n \<and> since s u (add_mset 11 M))"
    unfolding pickClerk_def by simp (rule step_random [OF assms(1)], use assms in auto)
qed (use assms(4) in auto)

definition order_ok :: "Vars \<Rightarrow> dssHuge \<Rightarrow> Order \<Rightarrow> bool" where
  "order_ok V idx x \<longleftrightarrow> o_OKey x = makeSparse idx \<and>
     1 \<le> o_CustKey x \<and> o_CustKey x \<le> 150000 * scale V \<and> o_CustKey x mod 3 \<noteq> 0 \<and>
     o_OrderPriority x \<in> fst ` set dist_o_oprio \<and> o_ShipPriority x = 0 \<and>
     (\<exists>n. 1 \<le> n \<and> n \<le> 1000 * scale V \<and> o_Clerk x = ''Clerk#'' @ fmt_0d 9 n) \<and>
     text_of (szTextPool V) 49 (o_Comment x) \<and>
     1 \<le> length (o_Lines x) \<and> length (o_Lines x) \<le> 7 \<and>
     o_TotalPrice x = total_price (o_Lines x) \<and>
     (\<exists>d fs. startDate \<le> d \<and> d \<le> 94406 \<and> o_Date x = ascDate_of (cal d) \<and>
        lines_ok V (makeSparse idx) d (o_Lines x) fs \<and>
        o_Status x = (if \<forall>b \<in> set fs. b then ''F'' else if \<exists>b \<in> set fs. b then ''P'' else ''O''))"

definition order_cost :: "nat \<Rightarrow> nat \<Rightarrow> int multiset" where
  "order_cost k f = {#11, 12, 12, 13, 38, 40, 43#} + lines_spent k + replicate_mset f 24"

lemma orderStatus_eq:
  "fs \<noteq> [] \<Longrightarrow> orderStatus (fin_count fs) (int (length fs)) =
     (if \<forall>b \<in> set fs. b then ''F'' else if \<exists>b \<in> set fs. b then ''P'' else ''O'')"
proof -
  assume "fs \<noteq> []"
  have "length (filter (\<lambda>b. b) fs) = length fs \<longleftrightarrow> (\<forall>b \<in> set fs. b)"
    by (metis filter_True length_filter_less less_irrefl)
  moreover have "0 < length (filter (\<lambda>b. b) fs) \<longleftrightarrow> (\<exists>b \<in> set fs. b)"
    by (simp add: filter_empty_conv)
  ultimately show ?thesis by (simp add: orderStatus_def fin_count_def Let_def)
qed

lemma makeOrder_yields:
  assumes V: "ready V" and s: "valid_streams s"
  shows "yields (makeOrder V idx s) (\<lambda>x u. order_ok V idx x \<and>
    (\<exists>k f. k \<le> 7 \<and> f \<le> k \<and> since s u (order_cost k f)))"
proof -
  have D: "dists_ready (dists V)" and pool: "int (length (szTextPool V)) = textPoolSize"
    and asc: "ascDate V = makeAscDate" and ck: "ockeyMin V = 1" "ockeyMax V = 150000 * scale V"
    and od: "odateMin V = 92001" "odateMax V = 94406"
    and sc: "1 \<le> scale V" "scale V \<le> 10000" using V by (simp_all add: ready_def)
  have nb: "\<not> 30000 \<le> scale V" using sc by simp
  note w = dists_ready_weighted [OF D]
  show ?thesis
    unfolding makeOrder_def if_not_P [OF nb] asc ck od Let_def
  proof (rule step_random [OF since_start [OF s]], simp, goal_cases)
    case 1
    then show ?case using sc by simp
  next
    case (2 c0 u1)
    obtain c where c: "custKey_loop (150000 * scale V) c0 1 = Some c" "1 \<le> c"
      "c \<le> 150000 * scale V" "c mod 3 \<noteq> 0"
      using custKey_loop_total [of c0 "150000 * scale V"] 2 sc by auto
    show ?case
      unfolding c(1) Option.bind.bind_lunit
    proof (rule step_random [OF 2(3)], simp, simp, goal_cases)
      case (1 d u2)
      have dr: "startDate \<le> d" "d < startDate + int totDate" "d \<le> 94406"
        using 1 by (simp_all add: startDate_def totDate_def)
      show ?case
        unfolding date_lookup(1) [OF dr(1,2)] Option.bind.bind_lunit
      proof (rule step_pickStr [OF 1(3) _ w(5)], simp, unfold prod.case,
          rule step_pickClerk [OF _ sc], assumption, rule step_makeText [OF _ _ pool], assumption, simp,
          simp, rule step_random, assumption, simp, simp add: oLcntMax_def, goal_cases)
        case (1 i u3 n u4 cm u5 lc u6)
        note row = 1(1,3,4,6)
        have ln: "1 \<le> nat lc" "nat lc \<le> 7" using 1 by (auto simp: oLcntMax_def)
        have l0: "lines_ok V (makeSparse idx) d [] []" by (simp add: lines_ok_def)
        have "yields (makeOrder_lines (nat lc) 0 V (makeSparse idx) d [] 0 0 u6)
          (\<lambda>x u. (case x of (ls, tot, oCnt) \<Rightarrow> \<exists>gs. lines_ok V (makeSparse idx) d ls gs \<and>
              length ls = nat lc \<and> tot = total_price ls \<and> oCnt = fin_count gs) \<and>
            (\<exists>f \<le> nat lc. since s u (order_cost (nat lc) f)))"
          using makeOrder_lines_yields [OF V dr(1,3) 1(10) l0, of "nat lc"] ln
          by (simp add: total_price_def fin_count_def order_cost_def add_mset_commute)
        then show ?case
        proof (rule yields_bind, goal_cases)
          case (1 x u)
          obtain ls gs f where x: "x = (ls, total_price ls, fin_count gs)" "length ls = nat lc"
            "lines_ok V (makeSparse idx) d ls gs" "f \<le> nat lc" "since s u (order_cost (nat lc) f)"
            using 1 by (cases x) auto
          have "length gs = length ls" "gs \<noteq> []" using x ln by (auto simp: lines_ok_def)
          then have st: "orderStatus (fin_count gs) (int (length ls)) =
              (if \<forall>b \<in> set gs. b then ''F'' else if \<exists>b \<in> set gs. b then ''P'' else ''O'')"
            using orderStatus_eq [of gs] by simp
          have "order_ok V idx \<lparr>o_OKey = makeSparse idx, o_CustKey = c,
              o_Status = orderStatus (fin_count gs) (int (length ls)), o_TotalPrice = total_price ls,
              o_Date = ascDate_of (cal d), o_OrderPriority = fst (dist_o_oprio ! i),
              o_Clerk = ''Clerk#'' @ fmt_0d 9 n, o_ShipPriority = 0, o_Comment = cm,
              o_Lines = ls\<rparr>"
            unfolding st order_ok_def using c dr row x ln by auto
          then show ?case using x ln unfolding x(1) by auto
        qed
      qed
    qed
  qed
qed

subsection \<open>Properties\<close>

text \<open>
  The loop that avoids every third customer ends: from any key of the range it reaches, in at
  most one step up or down, a key of the range that is not divisible by 3.
\<close>

theorem custKey_loop_ends:
  assumes "ready V" "1 \<le> ck" "ck \<le> ockeyMax V"
  shows "\<exists>c. custKey_loop (ockeyMax V) ck 1 = Some c \<and> 1 \<le> c \<and> c \<le> ockeyMax V \<and> c mod 3 \<noteq> 0 \<and>
    \<bar>c - ck\<bar> \<le> 1"
  using custKey_loop_total [of ck "ockeyMax V"] assms by (simp add: ready_def)

lemma custKey_loop_ends_witness:
  "\<exists>c. custKey_loop (ockeyMax demo_vars) 150000 1 = Some c \<and> 1 \<le> c \<and> c \<le> ockeyMax demo_vars \<and>
    c mod 3 \<noteq> 0 \<and> \<bar>c - 150000\<bar> \<le> 1"
  by (rule custKey_loop_ends) (simp_all add: ready_demo_vars)

text \<open>
  C2. An order: \<open>makeOrder\<close> never panics and ends.  The customer has orders (no multiple of 3), there
  are 1 to 7 lines numbered from 1 with their prices, suppliers of their part, and dates in the
  order order < ship < receipt, all in the calendar; the flags follow from the current date, the
  status is F when all lines have been shipped, P when some have, O when none has; the total is
  the sum of the line prices.  The steps taken stay within the boundaries of the streams.
\<close>

theorem makeOrder_row:
  assumes "ready V" "valid_streams s"
  shows "\<exists>x t k f. makeOrder V idx s = Some (x, t) \<and> order_ok V idx x \<and> k \<le> 7 \<and> f \<le> k \<and>
    consumed s t (order_cost k f)"
  using makeOrder_yields [OF assms] by (fastforce simp: since_def elim!: yieldsE)

lemma makeOrder_row_witness:
  "\<exists>x t k f. makeOrder demo_vars 1 initSeeds = Some (x, t) \<and> order_ok demo_vars 1 x \<and> k \<le> 7 \<and>
    f \<le> k \<and> consumed initSeeds t (order_cost k f)"
  by (rule makeOrder_row) (simp_all add: ready_demo_vars valid_streams_initSeeds)

end
