(* ===== verification/DbgenSupp.thy ===== *)
theory DbgenSupp
  imports DbgenVars
begin

text \<open>
  Suppliers, customers, nations and regions: \<open>supp.go\<close>, \<open>cust.go\<close>, \<open>nation.go\<close> and
  \<open>region.go\<close> of \<open>tpch/dbgen\<close>.
\<close>

record Supp =
  s_SuppKey :: dssHuge
  s_Name :: string
  s_Address :: string
  s_NationCode :: dssHuge
  s_Phone :: string
  s_Acctbal :: dssHuge
  s_Comment :: string

record Cust =
  c_CustKey :: dssHuge
  c_Name :: string
  c_Address :: string
  c_NationCode :: dssHuge
  c_Phone :: string
  c_Acctbal :: dssHuge
  c_MktSegment :: string
  c_Comment :: string

record Nation =
  n_Code :: dssHuge
  n_Text :: string
  n_Join :: long
  n_Comment :: string

record Region =
  r_Code :: dssHuge
  r_Text :: string
  r_Join :: long
  r_Comment :: string

definition bbbBase :: string where
  "bbbBase = ''Customer ''"

definition bbbComplain :: string where
  "bbbComplain = ''Complaints''"

definition bbbCommend :: string where
  "bbbCommend = ''Recommends''"

text \<open>\<open>s[:i] + ins + s[i+len(ins):]\<close>\<close>

definition spliced :: "string \<Rightarrow> int \<Rightarrow> string \<Rightarrow> string option" where
  "spliced s i ins = do {
     a \<leftarrow> go_slice s 0 i;
     b \<leftarrow> go_slice s (i + int (length ins)) (int (length s));
     Some (a @ ins @ b)
   }"

definition makeSupp :: "Vars \<Rightarrow> dssHuge \<Rightarrow> seeds \<Rightarrow> (Supp \<times> seeds) option" where
  "makeSupp V idx ss = do {
     (address, ss) \<leftarrow> vStr 25 32 ss;
     (i, ss) \<leftarrow> random 0 (d_count (nations (dists V)) - 1) 33 ss;
     (ph, ss) \<leftarrow> genPhone i 34 ss;
     (acctbal, ss) \<leftarrow> random (- 99999) 999999 35 ss;
     (cmnt, ss) \<leftarrow> makeText (szTextPool V) 63 36 ss;
     (badPress, ss) \<leftarrow> random 1 10000 46 ss;
     (types, ss) \<leftarrow> random 0 100 45 ss;
     (noise, ss) \<leftarrow> random 0 (int (length cmnt) - 19) 44 ss;
     (offset, ss) \<leftarrow> random 0 (int (length cmnt) - (19 + noise)) 47 ss;
     cmnt \<leftarrow> (if badPress \<le> 10 then do {
         let types = (if types < 50 then 0 else 1 :: int);
         cmnt \<leftarrow> spliced cmnt offset bbbBase;
         if types = 0 then spliced cmnt (9 + offset + noise) bbbComplain
         else spliced cmnt (9 + offset + noise) bbbCommend
       } else Some cmnt);
     Some (\<lparr>s_SuppKey = idx, s_Name = ''Supplier#'' @ fmt_0d 9 idx, s_Address = address,
       s_NationCode = i, s_Phone = ph, s_Acctbal = acctbal, s_Comment = cmnt\<rparr>, ss)
   }"

definition makeCust :: "Vars \<Rightarrow> dssHuge \<Rightarrow> seeds \<Rightarrow> (Cust \<times> seeds) option" where
  "makeCust V idx ss = do {
     (address, ss) \<leftarrow> vStr 25 26 ss;
     (i, ss) \<leftarrow> random 0 (d_count (nations (dists V)) - 1) 27 ss;
     (ph, ss) \<leftarrow> genPhone i 28 ss;
     (acctbal, ss) \<leftarrow> random (- 99999) 999999 29 ss;
     ((pos, seg), ss) \<leftarrow> pickStr (cMsegSet (dists V)) 30 ss;
     (cmnt, ss) \<leftarrow> makeText (szTextPool V) 73 31 ss;
     Some (\<lparr>c_CustKey = idx, c_Name = ''Customer#'' @ fmt_0d 9 idx, c_Address = address,
       c_NationCode = i, c_Phone = ph, c_Acctbal = acctbal, c_MktSegment = seg,
       c_Comment = cmnt\<rparr>, ss)
   }"

definition makeNation :: "Vars \<Rightarrow> dssHuge \<Rightarrow> seeds \<Rightarrow> (Nation \<times> seeds) option" where
  "makeNation V idx ss = do {
     m \<leftarrow> go_index (d_members (nations (dists V))) (idx - 1);
     (cmnt, ss) \<leftarrow> makeText (szTextPool V) 72 41 ss;
     Some (\<lparr>n_Code = idx - 1, n_Text = sm_text m, n_Join = sm_weight m, n_Comment = cmnt\<rparr>, ss)
   }"

definition makeRegion :: "Vars \<Rightarrow> dssHuge \<Rightarrow> seeds \<Rightarrow> (Region \<times> seeds) option" where
  "makeRegion V idx ss = do {
     m \<leftarrow> go_index (d_members (regions (dists V))) (idx - 1);
     (cmnt, ss) \<leftarrow> makeText (szTextPool V) 72 42 ss;
     Some (\<lparr>r_Code = idx - 1, r_Text = sm_text m, r_Join = 0, r_Comment = cmnt\<rparr>, ss)
   }"

subsection \<open>Suppliers\<close>

text \<open>
  The comment of a supplier: the text drawn, or with two of its pieces overwritten in place.
\<close>

definition marked :: "string \<Rightarrow> string \<Rightarrow> bool" where
  "marked base c \<longleftrightarrow> (\<exists>off noise w. w \<in> {bbbComplain, bbbCommend} \<and> off + noise + 19 \<le> length base \<and>
     c = take off base @ bbbBase @ take noise (drop (off + 9) base) @ w @ drop (off + noise + 19) base)"

lemma spliced_eq:
  "0 \<le> i \<Longrightarrow> i + int (length ins) \<le> int (length s) \<Longrightarrow>
   spliced s i ins = Some (take (nat i) s @ ins @ drop (nat i + length ins) s)"
  by (simp add: spliced_def go_slice_def nat_add_distrib)

lemma bbb_lengths [simp]: "length bbbBase = 9" "length bbbComplain = 10" "length bbbCommend = 10"
  by (simp_all add: bbbBase_def bbbComplain_def bbbCommend_def)

lemma spliced_twice:
  assumes off: "0 \<le> off" "0 \<le> noise" "off + noise + 19 \<le> int (length base)"
    and w: "w \<in> {bbbComplain, bbbCommend}"
  shows "\<exists>c. spliced base off bbbBase \<bind> (\<lambda>c. spliced c (9 + off + noise) w) = Some c \<and> marked base c \<and>
    length c = length base"
proof -
  define o' where "o' = nat off"
  define n where "n = nat noise"
  have e: "off = int o'" "noise = int n" "o' + n + 19 \<le> length base"
    using off by (auto simp: o'_def n_def)
  define c1 where "c1 = take o' base @ bbbBase @ drop (o' + 9) base"
  have "spliced base off bbbBase = Some c1" using e by (subst spliced_eq) (auto simp: c1_def)
  moreover have "length c1 = length base" using e by (simp add: c1_def)
  moreover have wl: "length w = 10" using w by auto
  moreover have t: "take (9 + o' + n) c1 = take o' base @ bbbBase @ take n (drop (o' + 9) base)"
    using e by (simp add: c1_def)
  moreover have d: "drop (9 + o' + n + 10) c1 = drop (o' + n + 19) base"
    using e by (simp add: c1_def ac_simps)
  ultimately have "spliced base off bbbBase \<bind> (\<lambda>c. spliced c (9 + off + noise) w) =
      Some (take o' base @ bbbBase @ take n (drop (o' + 9) base) @ w @ drop (o' + n + 19) base)"
    using spliced_eq [of "9 + off + noise" w c1] e by (simp add: nat_add_distrib)
  then show ?thesis
    using e w wl unfolding marked_def
    by (intro exI [of _ "take o' base @ bbbBase @ take n (drop (o' + 9) base) @ w @
        drop (o' + n + 19) base"]) auto
qed

definition phone_ok :: "dssHuge \<Rightarrow> string \<Rightarrow> bool" where
  "phone_ok nation ph \<longleftrightarrow> (\<exists>a b n. 100 \<le> a \<and> a \<le> 999 \<and> 100 \<le> b \<and> b \<le> 999 \<and> 1000 \<le> n \<and> n \<le> 9999 \<and>
     ph = phone nation a b n)"

definition supplier_ok :: "Vars \<Rightarrow> dssHuge \<Rightarrow> Supp \<Rightarrow> bool" where
  "supplier_ok V idx x \<longleftrightarrow> s_SuppKey x = idx \<and> s_Name x = ''Supplier#'' @ fmt_0d 9 idx \<and>
     10 \<le> length (s_Address x) \<and> length (s_Address x) \<le> 40 \<and> set (s_Address x) \<subseteq> set alphaNum \<and>
     0 \<le> s_NationCode x \<and> s_NationCode x \<le> 24 \<and> phone_ok (s_NationCode x) (s_Phone x) \<and>
     - 99999 \<le> s_Acctbal x \<and> s_Acctbal x \<le> 999999 \<and>
     (\<exists>base. text_of (szTextPool V) 63 base \<and> (s_Comment x = base \<or> marked base (s_Comment x)))"

text \<open>Streams 32 to 36 and 44 to 47, once each but for the address, the phone and the text.\<close>

definition supp_cost :: "nat \<Rightarrow> int multiset" where
  "supp_cost k = {#33, 34, 34, 34, 35, 36, 36, 44, 45, 46, 47#} + replicate_mset k 32"

lemma nations_count: "dists_ready D \<Longrightarrow> d_count (nations D) = 25"
  by (simp add: dists_ready_weighted dist_of_def Maps_eqs dist_nations_def)

lemma address_cost: "length str \<le> 40 \<Longrightarrow> 1 + (length str + 4) div 5 \<le> 9"
  by simp

lemma makeSupp_yields:
  assumes V: "ready V" and s: "valid_streams s"
  shows "yields (makeSupp V idx s) (\<lambda>x u. supplier_ok V idx x \<and> (\<exists>k \<le> 9. since s u (supp_cost k)))"
proof -
  have pool: "int (length (szTextPool V)) = textPoolSize" and D: "dists_ready (dists V)"
    using V by (simp_all add: ready_def)
  note cnt = nations_count [OF D]
  show ?thesis
    unfolding makeSupp_def cnt
  proof (rule step_vStr [OF since_start [OF s]], simp, simp, rule step_random, assumption, simp, simp,
      rule step_genPhone, assumption, simp, rule step_random, assumption, simp, simp,
      rule step_makeText [OF _ _ pool], assumption, simp, simp, rule step_random, assumption, simp, simp,
      rule step_random, assumption, simp, simp, rule step_random, assumption, simp, goal_cases)
    case (1 ad u1 nat u2 a b n u3 bal u4 base u5 bad u6 ty u7)
    then show ?case by (simp add: text_of_def)
  next
    case (2 ad u1 nat u2 a b n u3 bal u4 base u5 bad u6 ty u7 noise u8)
    note ad = 2(1-3) and noise = \<open>0 \<le> noise\<close>
    note rest = \<open>0 \<le> nat\<close> \<open>nat \<le> 25 - 1\<close> \<open>- 99999 \<le> bal\<close> \<open>bal \<le> 999999\<close>
      \<open>text_of (szTextPool V) 63 base\<close>
    note ph = \<open>100 \<le> a\<close> \<open>a \<le> 999\<close> \<open>100 \<le> b\<close> \<open>b \<le> 999\<close> \<open>1000 \<le> n\<close> \<open>n \<le> 9999\<close>
    show ?case
    proof (rule step_random [OF 2(28)], simp, goal_cases)
      case 1
      then show ?case using 2 by (simp add: text_of_def)
    next
      case (2 offset u9)
      have c: "since s u9 (supp_cost (1 + (length ad + 4) div 5))"
        using 2(3) unfolding supp_cost_def by (simp add: add_mset_commute)
      have "length ad \<le> 40" using ad by simp
      then have k: "1 + (length ad + 4) div 5 \<le> 9" by (rule address_cost)
      with c have ck: "\<exists>k \<le> 9. since s u9 (supp_cost k)" by blast
      have ok: "supplier_ok V idx \<lparr>s_SuppKey = idx, s_Name = ''Supplier#'' @ fmt_0d 9 idx,
          s_Address = ad, s_NationCode = nat, s_Phone = phone nat a b n, s_Acctbal = bal,
          s_Comment = c\<rparr>" if "c = base \<or> marked base c" for c
        using that ph ad rest by (auto simp: supplier_ok_def phone_ok_def)
      show ?case
      proof (cases "bad \<le> 10")
        case False
        then show ?thesis using ok [of base] ck by simp
      next
        case True
        have "\<exists>c. spliced base offset bbbBase \<bind> (\<lambda>c. if ty < 50
            then spliced c (9 + offset + noise) bbbComplain
            else spliced c (9 + offset + noise) bbbCommend) = Some c \<and> marked base c"
          using spliced_twice [of offset noise base bbbComplain]
            spliced_twice [of offset noise base bbbCommend] 2(1,2) noise by (cases "ty < 50") auto
        then obtain d c where "spliced base offset bbbBase = Some d" "marked base c"
          "(if ty < 50 then spliced d (9 + offset + noise) bbbComplain
            else spliced d (9 + offset + noise) bbbCommend) = Some c"
          by (auto simp: bind_eq_Some_conv)
        then show ?thesis using ok [of c] ck True by (cases "ty < 50") (simp_all add: Let_def)
      qed
    qed
  qed
qed

subsection \<open>Customers, nations and regions\<close>

definition customer_ok :: "Vars \<Rightarrow> dssHuge \<Rightarrow> Cust \<Rightarrow> bool" where
  "customer_ok V idx x \<longleftrightarrow> c_CustKey x = idx \<and> c_Name x = ''Customer#'' @ fmt_0d 9 idx \<and>
     10 \<le> length (c_Address x) \<and> length (c_Address x) \<le> 40 \<and> set (c_Address x) \<subseteq> set alphaNum \<and>
     0 \<le> c_NationCode x \<and> c_NationCode x \<le> 24 \<and> phone_ok (c_NationCode x) (c_Phone x) \<and>
     - 99999 \<le> c_Acctbal x \<and> c_Acctbal x \<le> 999999 \<and> c_MktSegment x \<in> fst ` set dist_msegmnt \<and>
     text_of (szTextPool V) 73 (c_Comment x)"

definition cust_cost :: "nat \<Rightarrow> int multiset" where
  "cust_cost k = {#27, 28, 28, 28, 29, 30, 31, 31#} + replicate_mset k 26"

lemma makeCust_yields:
  assumes V: "ready V" and s: "valid_streams s"
  shows "yields (makeCust V idx s) (\<lambda>x u. customer_ok V idx x \<and> (\<exists>k \<le> 9. since s u (cust_cost k)))"
proof -
  have pool: "int (length (szTextPool V)) = textPoolSize" and D: "dists_ready (dists V)"
    using V by (simp_all add: ready_def)
  note cnt = nations_count [OF D]
  show ?thesis
    unfolding makeCust_def cnt
  proof (rule step_vStr [OF since_start [OF s]], simp, simp, rule step_random, assumption, simp, simp,
      rule step_genPhone, assumption, simp, rule step_random, assumption, simp, simp,
      rule step_pickStr [OF _ _ dists_ready_weighted(9) [OF D]], assumption, simp, unfold prod.case,
      rule step_makeText [OF _ _ pool], assumption, simp, simp, goal_cases)
    case (1 ad u1 nat u2 a b n u3 bal u4 i u5 cmnt u6)
    have c: "since s u6 (cust_cost (1 + (length ad + 4) div 5))"
      using 1 unfolding cust_cost_def by (simp add: add_mset_commute)
    have "length ad \<le> 40" using 1 by simp
    then have "1 + (length ad + 4) div 5 \<le> 9" by (rule address_cost)
    with c have "\<exists>k \<le> 9. since s u6 (cust_cost k)" by blast
    then show ?case using 1 by (auto simp: customer_ok_def phone_ok_def)
  qed
qed

text \<open>
  The field \<open>Join\<close> of a nation is the sum of the differences up to it: the region it belongs to.
\<close>

definition nation_ok :: "Vars \<Rightarrow> dssHuge \<Rightarrow> Nation \<Rightarrow> bool" where
  "nation_ok V idx x \<longleftrightarrow> n_Code x = idx - 1 \<and> n_Text x = fst (dist_nations ! nat (idx - 1)) \<and>
     n_Join x = weight_sum (take (nat idx) dist_nations) \<and> 0 \<le> n_Join x \<and> n_Join x \<le> 4 \<and>
     text_of (szTextPool V) 72 (n_Comment x)"

lemma nation_regions:
  "\<forall>k \<in> set [0..<25]. 0 \<le> weight_sum (take (Suc k) dist_nations) \<and>
     weight_sum (take (Suc k) dist_nations) \<le> 4"
  by code_simp

lemma makeNation_yields:
  assumes V: "ready V" and s: "valid_streams s" and idx: "1 \<le> idx" "idx \<le> 25"
  shows "yields (makeNation V idx s) (\<lambda>x u. nation_ok V idx x \<and> since s u {#41, 41#})"
proof -
  have pool: "int (length (szTextPool V)) = textPoolSize" and D: "dists_ready (dists V)"
    using V by (simp_all add: ready_def)
  define k where "k = nat (idx - 1)"
  have k: "k < 25" "idx = int k + 1" "nat idx = Suc k" using idx by (auto simp: k_def)
  have len: "length dist_nations = 25" by (simp add: dist_nations_def)
  have mem: "d_members (nations (dists V)) = cumulate 0 dist_nations"
    by (simp add: dists_ready_weighted [OF D] dist_of_def Maps_eqs)
  have m: "go_index (d_members (nations (dists V))) (idx - 1) =
      Some \<lparr>sm_weight = weight_sum (take (Suc k) dist_nations), sm_text = fst (dist_nations ! k)\<rparr>"
    using k len by (simp add: go_index_def mem cumulate_nth)
  show ?thesis
    unfolding makeNation_def m Option.bind.bind_lunit
    by (rule step_makeText [OF since_start [OF s] _ pool])
      (use k nation_regions in \<open>auto simp: nation_ok_def\<close>)
qed

definition region_ok :: "Vars \<Rightarrow> dssHuge \<Rightarrow> Region \<Rightarrow> bool" where
  "region_ok V idx x \<longleftrightarrow> r_Code x = idx - 1 \<and> r_Text x = fst (dist_regions ! nat (idx - 1)) \<and>
     r_Join x = 0 \<and> text_of (szTextPool V) 72 (r_Comment x)"

lemma makeRegion_yields:
  assumes V: "ready V" and s: "valid_streams s" and idx: "1 \<le> idx" "idx \<le> 5"
  shows "yields (makeRegion V idx s) (\<lambda>x u. region_ok V idx x \<and> since s u {#42, 42#})"
proof -
  have pool: "int (length (szTextPool V)) = textPoolSize" and D: "dists_ready (dists V)"
    using V by (simp_all add: ready_def)
  define k where "k = nat (idx - 1)"
  have k: "k < 5" "idx = int k + 1" using idx by (auto simp: k_def)
  have len: "length dist_regions = 5" by (simp add: dist_regions_def)
  have mem: "d_members (regions (dists V)) = cumulate 0 dist_regions"
    by (simp add: dists_ready_weighted [OF D] dist_of_def Maps_eqs)
  have m: "go_index (d_members (regions (dists V))) (idx - 1) =
      Some \<lparr>sm_weight = weight_sum (take (Suc k) dist_regions), sm_text = fst (dist_regions ! k)\<rparr>"
    using k len by (simp add: go_index_def mem cumulate_nth)
  show ?thesis
    unfolding makeRegion_def m Option.bind.bind_lunit
    by (rule step_makeText [OF since_start [OF s] _ pool]) (use k in \<open>auto simp: region_ok_def\<close>)
qed

subsection \<open>Properties\<close>

text \<open>
  C22. A supplier: \<open>makeSupp\<close> never panics, in particular no slice of the comment is out of range;
  the comment is the text drawn, or that text with "Customer " and "Complaints" or "Recommends"
  written over two of its pieces, of the same length; streams 32 to 36 and 44 to 47 take at most
  their boundaries.
\<close>

theorem makeSupp_row:
  assumes "ready V" "valid_streams s"
  shows "\<exists>x t k. makeSupp V idx s = Some (x, t) \<and> supplier_ok V idx x \<and> k \<le> 9 \<and>
    consumed s t (supp_cost k)"
  using makeSupp_yields [OF assms] by (fastforce simp: since_def elim!: yieldsE)

lemma makeSupp_row_witness:
  "\<exists>x t k. makeSupp demo_vars 1 initSeeds = Some (x, t) \<and> supplier_ok demo_vars 1 x \<and> k \<le> 9 \<and>
    consumed initSeeds t (supp_cost k)"
  by (rule makeSupp_row) (simp_all add: ready_demo_vars valid_streams_initSeeds)

text \<open>
  A customer: \<open>makeCust\<close> never panics, its fields are in their ranges, and streams 26 to 31 take
  at most their boundaries.
\<close>

theorem makeCust_row:
  assumes "ready V" "valid_streams s"
  shows "\<exists>x t k. makeCust V idx s = Some (x, t) \<and> customer_ok V idx x \<and> k \<le> 9 \<and>
    consumed s t (cust_cost k)"
  using makeCust_yields [OF assms] by (fastforce simp: since_def elim!: yieldsE)

lemma makeCust_row_witness:
  "\<exists>x t k. makeCust demo_vars 1 initSeeds = Some (x, t) \<and> customer_ok demo_vars 1 x \<and> k \<le> 9 \<and>
    consumed initSeeds t (cust_cost k)"
  by (rule makeCust_row) (simp_all add: ready_demo_vars valid_streams_initSeeds)

text \<open>
  A nation: the cumulated differences of \<open>dist.Maps["nations"]\<close> give the key of its region, one of
  the five, and the name is that of the same position.
\<close>

theorem makeNation_row:
  assumes "ready V" "valid_streams s" "1 \<le> idx" "idx \<le> 25"
  shows "\<exists>x t. makeNation V idx s = Some (x, t) \<and> nation_ok V idx x \<and> consumed s t {#41, 41#}"
  using makeNation_yields [OF assms(1,2)] assms by (fastforce simp: since_def elim!: yieldsE)

lemma makeNation_row_witness:
  "\<exists>x t. makeNation demo_vars 25 initSeeds = Some (x, t) \<and> nation_ok demo_vars 25 x \<and>
    consumed initSeeds t {#41, 41#}"
  by (rule makeNation_row) (simp_all add: ready_demo_vars valid_streams_initSeeds)

end
