(* ===== verification/DbgenDriver.thy ===== *)
theory DbgenDriver
  imports DbgenOrder DbgenSupp
begin

text \<open>
  Skipping rows and generating tables: the functions \<open>sd...\<close> of \<open>tpch/dbgen\<close>, \<open>genTbl\<close> and
  \<open>DbGen\<close> of \<open>driver.go\<close>, and the loaders that feed two tables (\<open>order_line.go\<close>,
  \<open>part_psupp.go\<close>).  A loader is a pair of operations on the state \<open>'w\<close> of its writer; an
  operation's outcome is an error text or \<open>None\<close>.
\<close>

subsection \<open>Skipping rows\<close>

text \<open>A list of calls of \<open>advanceStream\<close>: the stream and the number of steps.\<close>

fun advances :: "(int \<times> dssHuge) list \<Rightarrow> seeds \<Rightarrow> seeds option" where
  "advances [] ss = Some ss"
| "advances ((i, n) # cs) ss = do {
     ss \<leftarrow> advanceStream i n False ss;
     advances cs ss
   }"

definition sdPart :: "Table \<Rightarrow> dssHuge \<Rightarrow> seeds \<Rightarrow> seeds option" where
  "sdPart child skipCount ss =
     advances (map (\<lambda>i. (i, skipCount)) [pMfgSd..pCntrSd] @
       [(pCmntSd, wrap64 (skipCount * 2)), (pNameSd, wrap64 (skipCount * 92))]) ss"

definition sdPsupp :: "Table \<Rightarrow> dssHuge \<Rightarrow> seeds \<Rightarrow> seeds option" where
  "sdPsupp child skipCount ss =
     advances (concat (map (\<lambda>j. [(psQtySd, skipCount), (psScstSd, skipCount),
       (psCmntSd, wrap64 (skipCount * 2))]) [0..<nat suppPerPart])) ss"

definition sdSupp :: "Table \<Rightarrow> dssHuge \<Rightarrow> seeds \<Rightarrow> seeds option" where
  "sdSupp child skipCount ss =
     advances [(33, skipCount), (34, wrap64 (skipCount * 3)), (35, skipCount),
       (32, wrap64 (skipCount * 9)), (36, wrap64 (skipCount * 2)), (46, skipCount),
       (44, skipCount), (47, skipCount), (45, skipCount)] ss"

definition sdCust :: "Table \<Rightarrow> dssHuge \<Rightarrow> seeds \<Rightarrow> seeds option" where
  "sdCust child skipCount ss =
     advances [(26, wrap64 (skipCount * 9)), (31, wrap64 (skipCount * 2)), (27, skipCount),
       (28, wrap64 (skipCount * 3)), (29, skipCount), (30, skipCount)] ss"

definition sdOrder :: "Table \<Rightarrow> dssHuge \<Rightarrow> seeds \<Rightarrow> seeds option" where
  "sdOrder child skipCount ss =
     advances [(43, skipCount), (40, skipCount), (12, wrap64 (skipCount * 2)), (10, skipCount),
       (11, skipCount), (38, skipCount), (13, skipCount)] ss"

definition sdLineItem :: "Table \<Rightarrow> dssHuge \<Rightarrow> seeds \<Rightarrow> seeds option" where
  "sdLineItem child skipCount ss =
     advances (concat (map (\<lambda>j. map (\<lambda>i. (i, skipCount)) [14..24] @
         [(25, wrap64 (skipCount * 2))]) [0..<nat oLcntMax]) @
       (if child = TPsupp then [(13, skipCount), (43, skipCount)] else [])) ss"

definition sdNull :: "Table \<Rightarrow> dssHuge \<Rightarrow> seeds \<Rightarrow> seeds option" where
  "sdNull child skipCount ss = Some ss"

text \<open>The steps a list of calls makes on a stream.\<close>

definition steps_on :: "(int \<times> dssHuge) list \<Rightarrow> int \<Rightarrow> nat" where
  "steps_on cs i = sum_list (map (\<lambda>c. if fst c = i then nat (snd c) else 0) cs)"

lemma advances_value:
  assumes "\<forall>c \<in> set cs. 0 \<le> fst c \<and> fst c \<le> 47 \<and> 0 \<le> snd c"
  shows "valid_streams ss \<Longrightarrow> \<exists>t. advances cs ss = Some t \<and> valid_streams t \<and>
    (\<forall>i. seed_value (t i) = (if 0 \<le> i \<and> i \<le> 47 then nthElement (int (steps_on cs i)) (seed_value (ss i))
      else seed_value (ss i)))"
  using assms
proof (induction cs arbitrary: ss)
  case Nil
  have "nthElement 0 v = v" for v by (simp add: nthElement_def nthElement_loop.simps [of 0])
  then show ?case using Nil by (simp add: steps_on_def)
next
  case (Cons c cs)
  obtain i n where c: "c = (i, n)" by (cases c)
  have i: "0 \<le> i" "i \<le> 47" "0 \<le> n" using Cons.prems(2) by (simp_all add: c)
  define s1 where "s1 = ss(i := (ss i)\<lparr>seed_value := nthElement n (seed_value (ss i))\<rparr>)"
  have a: "advanceStream i n False ss = Some s1"
    using i by (simp add: advanceStream_def seed_at_def maxStream_def s1_def)
  have valid: "valid_seed (seed_value (ss j))" if "0 \<le> j" "j \<le> 47" for j
    using that Cons.prems(1) by (rule valid_streams_seed [rotated])
  then have "valid_streams s1"
    using Cons.prems(1) i by (auto simp: valid_streams_def s1_def intro: lcg31.inv_jump)
  then obtain t where t: "advances cs s1 = Some t" "valid_streams t"
    "\<forall>j. seed_value (t j) = (if 0 \<le> j \<and> j \<le> 47 then nthElement (int (steps_on cs j)) (seed_value (s1 j))
      else seed_value (s1 j))"
    using Cons.IH [of s1] Cons.prems(2) by auto
  have "seed_value (t j) = (if 0 \<le> j \<and> j \<le> 47
      then nthElement (int (steps_on (c # cs) j)) (seed_value (ss j)) else seed_value (ss j))" for j
  proof (cases "j = i")
    case True
    have "steps_on (c # cs) i = nat n + steps_on cs i" by (simp add: steps_on_def c)
    then show ?thesis
      using t(3) i valid [OF i(1,2)] lcg31.jump_jump [of "int (steps_on cs i)" n "seed_value (ss i)"]
      by (simp add: True s1_def)
  next
    case False
    then have "steps_on (c # cs) j = steps_on cs j" by (simp add: steps_on_def c)
    then show ?thesis using t(3) False by (simp add: s1_def)
  qed
  then show ?case using a t by (auto simp: c)
qed

subsection \<open>Loaders and tables\<close>

datatype Item = IOrder Order | ISupp Supp | ICust Cust | IPart Part | INation Nation | IRegion Region

record 'w Loader =
  ld_load :: "Item \<Rightarrow> 'w \<Rightarrow> (string option \<times> 'w) option"
  ld_flush :: "'w \<Rightarrow> (string option \<times> 'w) option"

text \<open>The loaders held by \<open>tDefs\<close>; a call of a nil loader panics.\<close>

type_synonym 'w Loaders = "Table \<Rightarrow> 'w Loader option"

definition orderLine_load ::
  "'w Loaders \<Rightarrow> Item \<Rightarrow> 'w \<Rightarrow> (string option \<times> 'w) option" where
  "orderLine_load L item w = do {
     lo \<leftarrow> L TOrder;
     (err, w) \<leftarrow> ld_load lo item w;
     if err \<noteq> None then Some (err, w)
     else do {
       ll \<leftarrow> L TLine;
       (err, w) \<leftarrow> ld_load ll item w;
       if err \<noteq> None then Some (err, w) else Some (None, w)
     }
   }"

definition orderLine_flush :: "'w Loaders \<Rightarrow> 'w \<Rightarrow> (string option \<times> 'w) option" where
  "orderLine_flush L w = do {
     lo \<leftarrow> L TOrder;
     (err, w) \<leftarrow> ld_flush lo w;
     if err \<noteq> None then Some (None, w)
     else do {
       ll \<leftarrow> L TLine;
       (err, w) \<leftarrow> ld_flush ll w;
       if err \<noteq> None then Some (err, w) else Some (None, w)
     }
   }"

definition partPsupp_load ::
  "'w Loaders \<Rightarrow> Item \<Rightarrow> 'w \<Rightarrow> (string option \<times> 'w) option" where
  "partPsupp_load L item w = do {
     lp \<leftarrow> L TPart;
     (err, w) \<leftarrow> ld_load lp item w;
     if err \<noteq> None then Some (err, w)
     else do {
       ls \<leftarrow> L TPsupp;
       (err, w) \<leftarrow> ld_load ls item w;
       if err \<noteq> None then Some (err, w) else Some (None, w)
     }
   }"

definition partPsupp_flush :: "'w Loaders \<Rightarrow> 'w \<Rightarrow> (string option \<times> 'w) option" where
  "partPsupp_flush L w = do {
     lp \<leftarrow> L TPart;
     (err, w) \<leftarrow> ld_flush lp w;
     if err \<noteq> None then Some (err, w)
     else do {
       ls \<leftarrow> L TPsupp;
       (err, w) \<leftarrow> ld_flush ls w;
       if err \<noteq> None then Some (err, w) else Some (None, w)
     }
   }"

text \<open>The loader of a table: the one \<open>DbGen\<close> stored, else the one \<open>initTDefs\<close> put there.\<close>

definition loader_of :: "'w Loaders \<Rightarrow> Table \<Rightarrow> 'w Loader option" where
  "loader_of L t = (case L t of
       Some l \<Rightarrow> Some l
     | None \<Rightarrow>
         if t = TOrderLine
         then Some \<lparr>ld_load = orderLine_load L, ld_flush = orderLine_flush L\<rparr>
         else if t = TPartPsupp
         then Some \<lparr>ld_load = partPsupp_load L, ld_flush = partPsupp_flush L\<rparr>
         else None)"

definition makeRow :: "Table \<Rightarrow> Vars \<Rightarrow> dssHuge \<Rightarrow> seeds \<Rightarrow> ((Item \<times> Vars) \<times> seeds) option" where
  "makeRow tnum V i ss =
     (if tnum \<in> {TLine, TOrder, TOrderLine} then do {
        (x, ss) \<leftarrow> makeOrder V i ss;
        Some ((IOrder x, V), ss)
      } else if tnum = TSupp then do {
        (x, ss) \<leftarrow> makeSupp V i ss;
        Some ((ISupp x, V), ss)
      } else if tnum = TCust then do {
        (x, ss) \<leftarrow> makeCust V i ss;
        Some ((ICust x, V), ss)
      } else if tnum \<in> {TPsupp, TPart, TPartPsupp} then do {
        ((x, cols), ss) \<leftarrow> makePart V i ss;
        Some ((IPart x, V\<lparr>dists := (dists V)\<lparr>colors := cols\<rparr>\<rparr>), ss)
      } else if tnum = TNation then do {
        (x, ss) \<leftarrow> makeNation V i ss;
        Some ((INation x, V), ss)
      } else if tnum = TRegion then do {
        (x, ss) \<leftarrow> makeRegion V i ss;
        Some ((IRegion x, V), ss)
      } else None)"

fun genTbl_loop ::
  "nat \<Rightarrow> dssHuge \<Rightarrow> Table \<Rightarrow> 'w Loader \<Rightarrow> Vars \<Rightarrow> 'w \<Rightarrow> seeds \<Rightarrow>
   ((string option \<times> Vars \<times> 'w) \<times> seeds) option" where
  "genTbl_loop 0 i tnum loader V w ss = Some ((None, V, w), ss)"
| "genTbl_loop (Suc k) i tnum loader V w ss = do {
     let ss = rowStart ss;
     ((item, V), ss) \<leftarrow> makeRow tnum V i ss;
     (err, w) \<leftarrow> ld_load loader item w;
     if err \<noteq> None then Some ((err, V, w), ss)
     else do {
       ss \<leftarrow> rowStop tnum ss;
       genTbl_loop k (i + 1) tnum loader V w ss
     }
   }"

text \<open>The flush is deferred, and its error is dropped.\<close>

definition genTbl ::
  "'w Loaders \<Rightarrow> Table \<Rightarrow> dssHuge \<Rightarrow> dssHuge \<Rightarrow> Vars \<Rightarrow> 'w \<Rightarrow> seeds \<Rightarrow>
   ((string option \<times> Vars \<times> 'w) \<times> seeds) option" where
  "genTbl L tnum start cnt V w ss = do {
     loader \<leftarrow> loader_of L tnum;
     ((err, V, w), ss) \<leftarrow> genTbl_loop (nat cnt) start tnum loader V w ss;
     (ferr, w) \<leftarrow> ld_flush loader w;
     Some ((err, V, w), ss)
   }"

fun tDefs_name :: "Table \<Rightarrow> string" where
  "tDefs_name TPart = ''part.tbl''"
| "tDefs_name TPsupp = ''partsupp.tbl''"
| "tDefs_name TSupp = ''supplier.tbl''"
| "tDefs_name TCust = ''customer.tbl''"
| "tDefs_name TOrder = ''orders.tbl''"
| "tDefs_name TLine = ''lineitem.tbl''"
| "tDefs_name TOrderLine = ''orders.tbl''"
| "tDefs_name TPartPsupp = ''part.tbl''"
| "tDefs_name TNation = ''nation.tbl''"
| "tDefs_name TRegion = ''region.tbl''"
| "tDefs_name TNone = []"

text \<open>\<open>i < TNation\<close>: all tables but nation and region grow with the scale.\<close>

definition rowCount :: "Vars \<Rightarrow> Table \<Rightarrow> dssHuge option" where
  "rowCount V t = do {
     base \<leftarrow> tDefs_base (dists V) t;
     Some (if t \<in> {TNation, TRegion} then base else wrap64 (base * scale V))
   }"

fun DbGen ::
  "'w Loaders \<Rightarrow> Table list \<Rightarrow> Vars \<Rightarrow> 'w \<Rightarrow> seeds \<Rightarrow> ((string option \<times> Vars \<times> 'w) \<times> seeds) option" where
  "DbGen L [] V w ss = Some ((None, V, w), ss)"
| "DbGen L (t # ts) V w ss = do {
     rowCnt \<leftarrow> rowCount V t;
     ((err, V, w), ss) \<leftarrow> genTbl L t 1 rowCnt V w ss;
     (case err of
        Some e \<Rightarrow> Some ((Some (''fail to generate '' @ tDefs_name t @ '', err: '' @ e), V, w), ss)
      | None \<Rightarrow> DbGen L ts V w ss)
   }"

subsection \<open>Tables row by row\<close>

text \<open>The tables and boundaries of the streams do not change.\<close>

definition shaped :: "seeds \<Rightarrow> bool" where
  "shaped s \<longleftrightarrow> (\<forall>i. 0 \<le> i \<and> i \<le> 47 \<longrightarrow>
     seed_table (s i) = seed_table (initSeeds i) \<and> seed_boundary (s i) = seed_boundary (initSeeds i))"

definition same_scale :: "Vars \<Rightarrow> Vars \<Rightarrow> bool" where
  "same_scale V W \<longleftrightarrow> scale W = scale V \<and> szTextPool W = szTextPool V"

text \<open>
  The contract of a table's row code: for a key of the table it returns a proper row, keeps the
  package state usable and takes at most \<open>boundary\<close> steps on the streams that \<open>rowStop\<close> will
  resynchronise.
\<close>

locale row_code =
  fixes tab :: Table
    and keys :: "Vars \<Rightarrow> dssHuge \<Rightarrow> bool"
    and good :: "Vars \<Rightarrow> dssHuge \<Rightarrow> Item \<Rightarrow> bool"
  assumes tab: "rowTable tab \<noteq> TNone"
    and row: "ready V \<Longrightarrow> valid_streams s \<Longrightarrow> shaped s \<Longrightarrow> keys V i \<Longrightarrow>
      \<exists>x W u M. makeRow tab V i s = Some ((x, W), u) \<and> good V i x \<and> ready W \<and> same_scale V W \<and>
        consumed s u M \<and> within_boundary tab s M"
    and keys_scale: "same_scale V W \<Longrightarrow> keys W = keys V"
    and good_scale: "same_scale V W \<Longrightarrow> good W = good V"
begin

lemma one_row:
  assumes "ready V" "valid_streams s" "shaped s" "keys V i"
  shows "\<exists>x W u v. makeRow tab V i (rowStart s) = Some ((x, W), u) \<and> good V i x \<and> ready W \<and>
    same_scale V W \<and> rowStop tab u = Some v \<and> valid_streams v \<and> shaped v \<and>
    (\<forall>j. row_stream tab s j \<longrightarrow>
      seed_value (v j) = nthElement (seed_boundary (s j)) (seed_value (s j)))"
proof -
  have "shaped (rowStart s)" using assms(3) by (simp add: shaped_def)
  then obtain x W u M where x: "makeRow tab V i (rowStart s) = Some ((x, W), u)" "good V i x"
    "ready W" "same_scale V W" "consumed (rowStart s) u M" "within_boundary tab (rowStart s) M"
    using row [OF assms(1) _ _ assms(4), of "rowStart s"] assms(2) by auto
  obtain v where v: "rowStop tab u = Some v" using rowStop_defined [OF tab] by blast
  have since: "since (rowStart s) u M" using x(5) assms(2) by (simp add: since_def)
  have w: "within_boundary tab s M"
    using x(6) by (simp add: within_boundary_def row_stream_def)
  have "seed_value (v j) = nthElement (seed_boundary (s j)) (seed_value (s j))"
    if j: "row_stream tab s j" for j
  proof -
    have r: "0 \<le> j" "j \<le> maxStream" using j by (auto simp: row_stream_def)
    have "0 \<le> seed_boundary (s j)" using w j by (fastforce simp: within_boundary_def)
    moreover have "valid_seed (seed_value (s j))" using assms(2) r by (simp add: valid_streams_def)
    ultimately show ?thesis
      using row_value [OF since v w r] j by (simp add: lcg31.jump_steps)
  qed
  moreover have "shaped v" using row_other [OF since v] assms(3) by (simp add: shaped_def)
  ultimately show ?thesis using x v row_valid [OF since v] by blast
qed

text \<open>A loader that accepts every row and keeps them in order.\<close>

lemma table_rows:
  assumes load: "\<And>x w. ld_load loader x w = Some (None, w @ [x])"
  shows "ready V \<Longrightarrow> valid_streams s \<Longrightarrow> shaped s \<Longrightarrow> (\<forall>j < k. keys V (i + int j)) \<Longrightarrow>
    \<exists>xs W v. genTbl_loop k i tab loader V w s = Some ((None, W, w @ xs), v) \<and> length xs = k \<and>
      (\<forall>j < k. good V (i + int j) (xs ! j)) \<and> ready W \<and> same_scale V W \<and> valid_streams v \<and> shaped v \<and>
      (\<forall>j. row_stream tab s j \<longrightarrow>
        seed_value (v j) = nthElement (seed_boundary (s j) * int k) (seed_value (s j)))"
proof (induction k arbitrary: i V w s)
  case 0
  have "nthElement 0 z = z" for z by (simp add: nthElement_def nthElement_loop.simps [of 0])
  then show ?case using 0 by (simp add: same_scale_def)
next
  case (Suc k)
  have k0: "keys V i" using Suc.prems(4) by force
  obtain x W u v where x: "makeRow tab V i (rowStart s) = Some ((x, W), u)" "good V i x" "ready W"
    "same_scale V W" "rowStop tab u = Some v" "valid_streams v" "shaped v"
    "\<forall>j. row_stream tab s j \<longrightarrow>
      seed_value (v j) = nthElement (seed_boundary (s j)) (seed_value (s j))"
    using one_row [OF Suc.prems(1-3) k0] by blast
  have "\<forall>j < k. keys W (i + 1 + int j)"
    using Suc.prems(4) keys_scale [OF x(4)] by (auto simp: add.assoc dest: spec [of _ "Suc _"])
  then obtain xs W' v' where r: "genTbl_loop k (i + 1) tab loader W (w @ [x]) v =
      Some ((None, W', (w @ [x]) @ xs), v')" "length xs = k" "\<forall>j < k. good W (i + 1 + int j) (xs ! j)"
    "ready W'" "same_scale W W'" "valid_streams v'" "shaped v'"
    "\<forall>j. row_stream tab v j \<longrightarrow>
      seed_value (v' j) = nthElement (seed_boundary (v j) * int k) (seed_value (v j))"
    using Suc.IH [OF x(3,6,7), of "i + 1" "w @ [x]"] by blast
  have "genTbl_loop (Suc k) i tab loader V w s = Some ((None, W', w @ x # xs), v')"
    using x(1,5) r(1) by (simp add: load Let_def)
  moreover have "good V (i + int j) ((x # xs) ! j)" if "j < Suc k" for j
    using that x(2) r(3) good_scale [OF x(4)] by (cases j) (auto simp: algebra_simps)
  moreover have "seed_value (v' j) = nthElement (seed_boundary (s j) * int (Suc k)) (seed_value (s j))"
    if j: "row_stream tab s j" for j
  proof -
    have jr: "0 \<le> j" "j \<le> 47" using j by (auto simp: row_stream_def maxStream_def)
    have same: "seed_table (v j) = seed_table (s j)" "seed_boundary (v j) = seed_boundary (s j)"
      using x(7) Suc.prems(3) jr by (simp_all add: shaped_def)
    have b: "0 \<le> seed_boundary (s j)"
      using initSeeds_boundary [OF jr] Suc.prems(3) jr by (simp add: shaped_def)
    have "row_stream tab v j" using j same by (simp add: row_stream_def)
    then have "seed_value (v' j) = nthElement (seed_boundary (s j) * int k)
        (nthElement (seed_boundary (s j)) (seed_value (s j)))"
      using r(8) x(8) j same by simp
    also have "\<dots> = nthElement (seed_boundary (s j) + seed_boundary (s j) * int k) (seed_value (s j))"
      using lcg31.jump_jump [of "seed_boundary (s j) * int k" "seed_boundary (s j)"] b
        valid_streams_seed [OF Suc.prems(2) jr] by simp
    finally show ?thesis by (simp add: distrib_left)
  qed
  moreover have "same_scale V W'" using x(4) r(5) by (simp add: same_scale_def)
  ultimately show ?case using r by (intro exI [of _ "x # xs"]) auto
qed

end

subsection \<open>The tables of the program meet the contract\<close>

text \<open>The streams of a table with their boundaries.\<close>

fun streams_of :: "Table \<Rightarrow> (int \<times> int) list" where
  "streams_of TPart = [(0, 1), (1, 1), (2, 1), (3, 1), (4, 1), (6, 2), (37, 92)]"
| "streams_of TPsupp = [(7, 4), (8, 4), (9, 8)]"
| "streams_of TSupp = [(32, 9), (33, 1), (34, 3), (35, 1), (36, 2), (44, 1), (45, 1), (46, 1)]"
| "streams_of TCust = [(26, 9), (27, 1), (28, 3), (29, 1), (30, 1), (31, 2)]"
| "streams_of TOrder = [(10, 1), (11, 1), (12, 2), (13, 1), (38, 1), (40, 1), (43, 1)]"
| "streams_of TLine = [(14, 7), (15, 7), (16, 7), (17, 7), (18, 7), (19, 7), (20, 7), (21, 7),
     (22, 7), (23, 7), (24, 7), (25, 14), (39, 1)]"
| "streams_of TNation = [(41, 2)]"
| "streams_of TRegion = [(42, 2)]"
| "streams_of TNone = [(5, 1)]"
| "streams_of t = []"

lemma streams_of_init:
  "\<forall>j \<in> set [0..46]. (j, seed_boundary (initSeeds j)) \<in> set (streams_of (seed_table (initSeeds j)))"
  by code_simp

lemma within_boundaryI:
  assumes "shaped s"
    and "\<forall>(j, b) \<in> set (streams_of (rowTable t)). int (count M j) \<le> b"
    and "\<And>c. tDefs_child (rowTable t) = Some c \<Longrightarrow> \<forall>(j, b) \<in> set (streams_of c). int (count M j) \<le> b"
  shows "within_boundary t s M"
  unfolding within_boundary_def
proof (intro allI impI)
  fix j
  assume j: "row_stream t s j"
  then have r: "0 \<le> j" "j \<le> 46" by (auto simp: row_stream_def maxStream_def)
  have e: "seed_table (s j) = seed_table (initSeeds j)" "seed_boundary (s j) = seed_boundary (initSeeds j)"
    using assms(1) r by (simp_all add: shaped_def)
  have m: "(j, seed_boundary (initSeeds j)) \<in> set (streams_of (seed_table (initSeeds j)))"
    using streams_of_init r by simp
  consider "seed_table (initSeeds j) = rowTable t"
    | "tDefs_child (rowTable t) = Some (seed_table (initSeeds j))"
    using j by (auto simp: row_stream_def e)
  then show "int (count M j) \<le> seed_boundary (s j)"
  proof cases
    case 1
    then show ?thesis using m assms(2) by (auto simp: e)
  next
    case 2
    show ?thesis using m assms(3) [OF 2] by (auto simp: e)
  qed
qed

definition order_item :: "Vars \<Rightarrow> dssHuge \<Rightarrow> Item \<Rightarrow> bool" where
  "order_item V i x \<longleftrightarrow> (\<exists>o'. x = IOrder o' \<and> order_ok V i o')"

definition supp_item :: "Vars \<Rightarrow> dssHuge \<Rightarrow> Item \<Rightarrow> bool" where
  "supp_item V i x \<longleftrightarrow> (\<exists>y. x = ISupp y \<and> supplier_ok V i y)"

definition cust_item :: "Vars \<Rightarrow> dssHuge \<Rightarrow> Item \<Rightarrow> bool" where
  "cust_item V i x \<longleftrightarrow> (\<exists>y. x = ICust y \<and> customer_ok V i y)"

definition part_item :: "Vars \<Rightarrow> dssHuge \<Rightarrow> Item \<Rightarrow> bool" where
  "part_item V i x \<longleftrightarrow> (\<exists>y. x = IPart y \<and> part_ok V i y)"

definition nation_item :: "Vars \<Rightarrow> dssHuge \<Rightarrow> Item \<Rightarrow> bool" where
  "nation_item V i x \<longleftrightarrow> (\<exists>y. x = INation y \<and> nation_ok V i y)"

definition region_item :: "Vars \<Rightarrow> dssHuge \<Rightarrow> Item \<Rightarrow> bool" where
  "region_item V i x \<longleftrightarrow> (\<exists>y. x = IRegion y \<and> region_ok V i y)"

lemma items_scale:
  assumes "same_scale V W"
  shows "order_item W = order_item V" "supp_item W = supp_item V" "cust_item W = cust_item V"
    "part_item W = part_item V" "nation_item W = nation_item V" "region_item W = region_item V"
  using assms
  by (simp_all add: fun_eq_iff same_scale_def order_item_def order_ok_def lines_ok_def line_ok_def
      supp_item_def supplier_ok_def cust_item_def customer_ok_def part_item_def part_ok_def supp_ok_def
      nation_item_def nation_ok_def region_item_def region_ok_def)

lemma same_scale_refl [simp]: "same_scale V V"
  by (simp add: same_scale_def)

interpretation order_rows: row_code TOrderLine "\<lambda>V i. True" order_item
proof unfold_locales
  fix V s i
  assume h: "ready V" "valid_streams s" "shaped s"
  obtain x u k f where x: "makeOrder V i s = Some (x, u)" "order_ok V i x" "k \<le> 7" "f \<le> k"
    "consumed s u (order_cost k f)"
    using makeOrder_yields [OF h(1,2), of i] by (fastforce simp: since_def elim!: yieldsE)
  have "within_boundary TOrderLine s (order_cost k f)"
    using x(3,4)
    by (intro within_boundaryI [OF h(3)]) (auto simp: order_cost_def lines_spent_def line_cost_def)
  then show "\<exists>y W u M. makeRow TOrderLine V i s = Some ((y, W), u) \<and> order_item V i y \<and> ready W \<and>
      same_scale V W \<and> consumed s u M \<and> within_boundary TOrderLine s M"
    using x h by (auto simp: makeRow_def order_item_def)
qed (simp_all add: items_scale)

interpretation supp_rows: row_code TSupp "\<lambda>V i. True" supp_item
proof unfold_locales
  fix V s i
  assume h: "ready V" "valid_streams s" "shaped s"
  obtain x u k where x: "makeSupp V i s = Some (x, u)" "supplier_ok V i x" "k \<le> 9"
    "consumed s u (supp_cost k)"
    using makeSupp_yields [OF h(1,2), of i] by (fastforce simp: since_def elim!: yieldsE)
  have "within_boundary TSupp s (supp_cost k)"
    using x(3) by (intro within_boundaryI [OF h(3)]) (auto simp: supp_cost_def)
  then show "\<exists>y W u M. makeRow TSupp V i s = Some ((y, W), u) \<and> supp_item V i y \<and> ready W \<and>
      same_scale V W \<and> consumed s u M \<and> within_boundary TSupp s M"
    using x h by (auto simp: makeRow_def supp_item_def)
qed (simp_all add: items_scale)

interpretation cust_rows: row_code TCust "\<lambda>V i. True" cust_item
proof unfold_locales
  fix V s i
  assume h: "ready V" "valid_streams s" "shaped s"
  obtain x u k where x: "makeCust V i s = Some (x, u)" "customer_ok V i x" "k \<le> 9"
    "consumed s u (cust_cost k)"
    using makeCust_yields [OF h(1,2), of i] by (fastforce simp: since_def elim!: yieldsE)
  have "within_boundary TCust s (cust_cost k)"
    using x(3) by (intro within_boundaryI [OF h(3)]) (auto simp: cust_cost_def)
  then show "\<exists>y W u M. makeRow TCust V i s = Some ((y, W), u) \<and> cust_item V i y \<and> ready W \<and>
      same_scale V W \<and> consumed s u M \<and> within_boundary TCust s M"
    using x h by (auto simp: makeRow_def cust_item_def)
qed (simp_all add: items_scale)

definition part_keys :: "Vars \<Rightarrow> dssHuge \<Rightarrow> bool" where
  "part_keys V i \<longleftrightarrow> 1 \<le> i \<and> i \<le> 200000 * scale V"

lemma part_keys_scale: "same_scale V W \<Longrightarrow> part_keys W = part_keys V"
  by (rule ext) (simp add: part_keys_def same_scale_def)

lemma ready_colors:
  "ready V \<Longrightarrow> length q = 92 \<Longrightarrow>
   ready (V\<lparr>dists := (dists V)\<lparr>colors := (colors (dists V))\<lparr>d_permute := q\<rparr>\<rparr>\<rparr>)"
  by (simp add: ready_def dists_ready_permute)

interpretation part_rows: row_code TPartPsupp part_keys part_item
proof unfold_locales
  fix V s i
  assume h: "ready V" "valid_streams s" "shaped s" "part_keys V i"
  obtain x q u where x: "makePart V i s = Some ((x, (colors (dists V))\<lparr>d_permute := q\<rparr>), u)"
    "length q = 92" "part_ok V i x" "consumed s u part_cost"
    using makePart_yields [OF h(1) _ _ h(2), of i] h(4)
    by (auto simp: since_def part_keys_def elim!: yieldsE)
  define W where "W = V\<lparr>dists := (dists V)\<lparr>colors := (colors (dists V))\<lparr>d_permute := q\<rparr>\<rparr>\<rparr>"
  have "within_boundary TPartPsupp s part_cost"
    by (intro within_boundaryI [OF h(3)]) (auto simp: part_cost_def)
  moreover have "makeRow TPartPsupp V i s = Some ((IPart x, W), u)"
    by (simp add: makeRow_def x(1) W_def)
  moreover have "part_item V i (IPart x)" using x(3) by (simp add: part_item_def)
  moreover have "ready W" using ready_colors [OF h(1) x(2)] by (simp add: W_def)
  moreover have "same_scale V W" by (simp add: same_scale_def W_def)
  ultimately show "\<exists>y W u M. makeRow TPartPsupp V i s = Some ((y, W), u) \<and> part_item V i y \<and> ready W \<and>
      same_scale V W \<and> consumed s u M \<and> within_boundary TPartPsupp s M"
    using x(4) by blast
qed (simp_all add: items_scale part_keys_scale)

interpretation nation_rows: row_code TNation "\<lambda>V i. 1 \<le> i \<and> i \<le> 25" nation_item
proof unfold_locales
  fix V s and i :: dssHuge
  assume h: "ready V" "valid_streams s" "shaped s" "1 \<le> i \<and> i \<le> 25"
  obtain x u where x: "makeNation V i s = Some (x, u)" "nation_ok V i x" "consumed s u {#41, 41#}"
    using makeNation_yields [OF h(1,2), of i] h(4) by (fastforce simp: since_def elim!: yieldsE)
  have "within_boundary TNation s {#41, 41#}"
    by (intro within_boundaryI [OF h(3)]) auto
  then show "\<exists>y W u M. makeRow TNation V i s = Some ((y, W), u) \<and> nation_item V i y \<and> ready W \<and>
      same_scale V W \<and> consumed s u M \<and> within_boundary TNation s M"
    using x h by (auto simp: makeRow_def nation_item_def)
qed (simp_all add: items_scale)

interpretation region_rows: row_code TRegion "\<lambda>V i. 1 \<le> i \<and> i \<le> 5" region_item
proof unfold_locales
  fix V s and i :: dssHuge
  assume h: "ready V" "valid_streams s" "shaped s" "1 \<le> i \<and> i \<le> 5"
  obtain x u where x: "makeRegion V i s = Some (x, u)" "region_ok V i x" "consumed s u {#42, 42#}"
    using makeRegion_yields [OF h(1,2), of i] h(4) by (fastforce simp: since_def elim!: yieldsE)
  have "within_boundary TRegion s {#42, 42#}"
    by (intro within_boundaryI [OF h(3)]) auto
  then show "\<exists>y W u M. makeRow TRegion V i s = Some ((y, W), u) \<and> region_item V i y \<and> ready W \<and>
      same_scale V W \<and> consumed s u M \<and> within_boundary TRegion s M"
    using x h by (auto simp: makeRow_def region_item_def)
qed (simp_all add: items_scale)

subsection \<open>Skipping against generating\<close>

text \<open>The functions \<open>genSeed\<close> that \<open>tDefs\<close> holds for a table and for its child.\<close>

definition skip_rows :: "Table \<Rightarrow> dssHuge \<Rightarrow> seeds \<Rightarrow> seeds option" where
  "skip_rows t k ss =
     (if t = TOrderLine then do { ss \<leftarrow> sdOrder TLine k ss; sdLineItem TNone k ss }
      else if t = TPartPsupp then do { ss \<leftarrow> sdPart TPsupp k ss; sdPsupp TNone k ss }
      else if t = TSupp then sdSupp TNone k ss
      else if t = TCust then sdCust TNone k ss
      else sdNull TNone k ss)"

text \<open>The streams the rows of a table read; stream 39 of \<open>lineitem\<close> is read by none.\<close>

definition read_streams :: "Table \<Rightarrow> (int \<times> int) list" where
  "read_streams t =
     (if t = TOrderLine then streams_of TOrder @ filter (\<lambda>x. fst x \<noteq> 39) (streams_of TLine)
      else if t = TPartPsupp then streams_of TPart @ streams_of TPsupp
      else if t = TSupp then streams_of TSupp
      else if t = TCust then streams_of TCust
      else [])"

lemma advances_append: "advances (cs @ ds) = (\<lambda>s. advances cs s \<bind> advances ds)"
proof (induction cs)
  case (Cons c cs)
  then show ?case by (intro ext) (cases c, simp add: bind_assoc)
qed (simp add: fun_eq_iff)

definition skip_calls :: "Table \<Rightarrow> dssHuge \<Rightarrow> (int \<times> dssHuge) list" where
  "skip_calls t k =
     (if t = TOrderLine then [(43, k), (40, k), (12, k * 2), (10, k), (11, k), (38, k), (13, k)] @
        concat (replicate 7 (map (\<lambda>i. (i, k)) [14..24] @ [(25, k * 2)]))
      else if t = TPartPsupp then map (\<lambda>i. (i, k)) [0..4] @ [(6, k * 2), (37, k * 92)] @
        concat (replicate 4 [(7, k), (8, k), (9, k * 2)])
      else if t = TSupp then [(33, k), (34, k * 3), (35, k), (32, k * 9), (36, k * 2), (46, k),
        (44, k), (47, k), (45, k)]
      else if t = TCust then [(26, k * 9), (31, k * 2), (27, k), (28, k * 3), (29, k), (30, k)]
      else [])"

lemma skip_rows_calls:
  assumes "0 \<le> k" "k < 2 ^ 50"
  shows "skip_rows t k s = advances (skip_calls t k) s"
proof -
  have w: "wrap64 (k * 2) = k * 2" "wrap64 (k * 3) = k * 3" "wrap64 (k * 9) = k * 9"
    "wrap64 (k * 92) = k * 92" using assms by (auto intro!: wrap64_nonneg)
  have r: "concat (map (\<lambda>j. xs) [0..<n]) = concat (replicate n xs)" for xs :: "'b list" and n
    by (simp add: map_replicate_const)
  show ?thesis
    unfolding skip_rows_def skip_calls_def sdOrder_def sdLineItem_def sdPart_def sdPsupp_def
      sdSupp_def sdCust_def sdNull_def w r suppPerPart_def oLcntMax_def
    by (simp add: advances_append [THEN fun_cong, symmetric] del: advances.simps(2))
qed

lemma skip_calls_ok:
  "0 \<le> k \<Longrightarrow> \<forall>c \<in> set (skip_calls t k). 0 \<le> fst c \<and> fst c \<le> 47 \<and> 0 \<le> snd c"
  by (auto simp: skip_calls_def)

lemma steps_on_append: "steps_on (cs @ ds) i = steps_on cs i + steps_on ds i"
  by (simp add: steps_on_def)

lemma steps_on_replicate: "steps_on (concat (replicate n cs)) i = n * steps_on cs i"
  by (induction n) (simp_all add: steps_on_append, simp add: steps_on_def)

lemma steps_on_Cons:
  "steps_on [] i = 0" "steps_on ((j, n) # cs) i = (if j = i then nat n else 0) + steps_on cs i"
  by (simp_all add: steps_on_def)

lemma skip_calls_steps:
  assumes "0 \<le> k" "t \<in> {TOrderLine, TPartPsupp, TSupp, TCust}"
  shows "\<forall>(j, b) \<in> set (read_streams t). steps_on (skip_calls t k) j = nat (b * k)"
proof -
  have n: "nat (k * b) = nat k * nat b" "nat (b * k) = nat b * nat k" if "0 \<le> b" for b
    using assms(1) that by (simp_all add: nat_mult_distrib)
  have up: "[14..24] = [14, 15, 16, 17, 18, 19, 20, 21, 22, 23, 24 :: int]" "[0..4] = [0, 1, 2, 3, 4 :: int]"
    by (simp_all add: upto.simps)
  show ?thesis
    using assms(2)
    by (elim insertE emptyE)
      (simp_all add: read_streams_def skip_calls_def steps_on_append steps_on_replicate steps_on_Cons
        n up)
qed

lemma skip_rows_value:
  assumes "valid_streams s" "0 \<le> k" "k < 2 ^ 50" "t \<in> {TOrderLine, TPartPsupp, TSupp, TCust}"
  shows "\<exists>u. skip_rows t k s = Some u \<and>
    (\<forall>(j, b) \<in> set (read_streams t). seed_value (u j) = nthElement (b * k) (seed_value (s j)))"
proof -
  obtain u where u: "advances (skip_calls t k) s = Some u"
    "\<forall>i. seed_value (u i) = (if 0 \<le> i \<and> i \<le> 47
      then nthElement (int (steps_on (skip_calls t k) i)) (seed_value (s i)) else seed_value (s i))"
    using advances_value [OF skip_calls_ok [OF assms(2)] assms(1)] by blast
  have b: "\<forall>(j, b) \<in> set (read_streams t). 0 \<le> j \<and> j \<le> 47 \<and> 0 \<le> b"
    using assms(4) by (auto simp: read_streams_def)
  have "seed_value (u j) = nthElement (b * k) (seed_value (s j))"
    if jb: "(j, b) \<in> set (read_streams t)" for j b
  proof -
    have "int (steps_on (skip_calls t k) j) = b * k"
      using skip_calls_steps [OF assms(2,4)] jb b assms(2) by fastforce
    then show ?thesis using u(2) b jb by fastforce
  qed
  then show ?thesis using u(1) skip_rows_calls [OF assms(2,3)] by auto
qed

lemma read_streams_row:
  assumes "t \<in> {TOrderLine, TPartPsupp, TSupp, TCust}" "(j, b) \<in> set (read_streams t)" "shaped s"
  shows "row_stream t s j \<and> seed_boundary (s j) = b"
proof -
  have "\<forall>t \<in> set [TOrderLine, TPartPsupp, TSupp, TCust]. \<forall>(j, b) \<in> set (read_streams t).
      0 \<le> j \<and> j < 47 \<and> (seed_table (initSeeds j) = rowTable t \<or>
        Some (seed_table (initSeeds j)) = tDefs_child (rowTable t)) \<and> seed_boundary (initSeeds j) = b"
    by code_simp
  then have "0 \<le> j \<and> j < 47 \<and> (seed_table (initSeeds j) = rowTable t \<or>
        Some (seed_table (initSeeds j)) = tDefs_child (rowTable t)) \<and> seed_boundary (initSeeds j) = b"
    using assms(1,2) by fastforce
  then show ?thesis using assms(3) by (auto simp: row_stream_def shaped_def maxStream_def)
qed

lemma shaped_init: "shaped initSeeds"
  by (simp add: shaped_def)

text \<open>Which keys a table has and what a row of it is.\<close>

definition keys_of :: "Table \<Rightarrow> Vars \<Rightarrow> dssHuge \<Rightarrow> bool" where
  "keys_of t V i =
     (if t = TPartPsupp then part_keys V i
      else if t = TNation then 1 \<le> i \<and> i \<le> 25
      else if t = TRegion then 1 \<le> i \<and> i \<le> 5
      else True)"

definition row_of :: "Table \<Rightarrow> Vars \<Rightarrow> dssHuge \<Rightarrow> Item \<Rightarrow> bool" where
  "row_of t =
     (if t = TOrderLine then order_item
      else if t = TSupp then supp_item
      else if t = TCust then cust_item
      else if t = TPartPsupp then part_item
      else if t = TNation then nation_item
      else region_item)"

definition loaded_tables :: "Table list" where
  "loaded_tables = [TNation, TRegion, TCust, TSupp, TPartPsupp, TOrderLine]"

lemma generated_rows:
  assumes "\<And>x w. ld_load loader x w = Some (None, w @ [x])"
    and "t \<in> set loaded_tables" "ready V" "valid_streams s" "shaped s"
    and "\<forall>j < k. keys_of t V (i + int j)"
  shows "\<exists>xs W v. genTbl_loop k i t loader V w s = Some ((None, W, w @ xs), v) \<and> length xs = k \<and>
      (\<forall>j < k. row_of t V (i + int j) (xs ! j)) \<and> ready W \<and> same_scale V W \<and> valid_streams v \<and>
      shaped v \<and> (\<forall>j. row_stream t s j \<longrightarrow>
        seed_value (v j) = nthElement (seed_boundary (s j) * int k) (seed_value (s j)))"
proof -
  note rows = order_rows.table_rows supp_rows.table_rows cust_rows.table_rows part_rows.table_rows
    nation_rows.table_rows region_rows.table_rows
  consider "t = TNation" | "t = TRegion" | "t = TCust" | "t = TSupp" | "t = TPartPsupp"
    | "t = TOrderLine" using assms(2) by (auto simp: loaded_tables_def)
  then show ?thesis
  proof cases
    case 1
    then show ?thesis
      using rows(5) [OF assms(1,3-5), of k i w] assms(6) by (simp add: keys_of_def row_of_def)
  next
    case 2
    then show ?thesis
      using rows(6) [OF assms(1,3-5), of k i w] assms(6) by (simp add: keys_of_def row_of_def)
  next
    case 3
    then show ?thesis using rows(3) [OF assms(1,3-5), of k i w] by (simp add: row_of_def)
  next
    case 4
    then show ?thesis using rows(2) [OF assms(1,3-5), of k i w] by (simp add: row_of_def)
  next
    case 5
    then show ?thesis
      using rows(4) [OF assms(1,3-5), of k i w] assms(6) by (simp add: keys_of_def row_of_def)
  next
    case 6
    then show ?thesis using rows(1) [OF assms(1,3-5), of k i w] by (simp add: row_of_def)
  qed
qed

lemma rowCount_keys:
  assumes "ready V" "t \<in> set loaded_tables"
  shows "\<exists>n. rowCount V t = Some n \<and> 0 \<le> n \<and> (\<forall>j < nat n. keys_of t V (1 + int j))"
proof -
  have sc: "1 \<le> scale V" "scale V \<le> 10000" and D: "dists_ready (dists V)"
    using assms(1) by (simp_all add: ready_def)
  have c: "d_count (nations (dists V)) = 25" "d_count (regions (dists V)) = 5"
    using nations_count [OF D]
    by (simp_all add: dists_ready_weighted(11) [OF D] dist_of_def Maps_eqs dist_regions_def)
  have w: "wrap64 (200000 * scale V) = 200000 * scale V" "0 \<le> wrap64 (150000 * scale V)"
    "0 \<le> wrap64 (10000 * scale V)" "0 \<le> wrap64 (1500000 * scale V)"
    using sc by (auto simp: wrap64_nonneg)
  show ?thesis
    using assms(2) w sc
    by (auto simp: loaded_tables_def rowCount_def keys_of_def part_keys_def c)
qed

subsection \<open>Properties\<close>

text \<open>
  C19. A table is generated completely: with a loader that accepts rows, \<open>genTbl\<close> on the row count of
  \<open>DbGen\<close> returns without an error and without a panic, and the loader has received exactly one
  proper row for each key 1, 2, ... in this order; the package state and the streams are fit for
  the next table.
\<close>

theorem genTbl_complete:
  assumes "t \<in> set loaded_tables" "ready V" "valid_streams s" "shaped s"
    and "loader_of L t = Some loader" "\<And>x w. ld_load loader x w = Some (None, w @ [x])"
    and "\<And>w. ld_flush loader w = Some (None, w)"
  shows "\<exists>n xs W v. rowCount V t = Some n \<and> genTbl L t 1 n V w s = Some ((None, W, w @ xs), v) \<and>
    length xs = nat n \<and> (\<forall>j < nat n. row_of t V (1 + int j) (xs ! j)) \<and>
    ready W \<and> valid_streams v \<and> shaped v"
proof -
  obtain n where n: "rowCount V t = Some n" "0 \<le> n" "\<forall>j < nat n. keys_of t V (1 + int j)"
    using rowCount_keys [OF assms(2,1)] by blast
  obtain xs W v where r: "genTbl_loop (nat n) 1 t loader V w s = Some ((None, W, w @ xs), v)"
    "length xs = nat n" "\<forall>j < nat n. row_of t V (1 + int j) (xs ! j)" "ready W" "valid_streams v"
    "shaped v"
    using generated_rows [OF assms(6,1-4) n(3), of w] by blast
  have "genTbl L t 1 n V w s = Some ((None, W, w @ xs), v)"
    using r(1) by (simp add: genTbl_def assms(5,7))
  then show ?thesis using n r by blast
qed

definition collector :: "Item list Loader" where
  "collector = \<lparr>ld_load = (\<lambda>x w. Some (None, w @ [x])), ld_flush = (\<lambda>w. Some (None, w))\<rparr>"

lemma genTbl_complete_witness:
  "\<exists>n xs W v. rowCount demo_vars TNation = Some n \<and>
    genTbl (\<lambda>t. Some collector) TNation 1 n demo_vars [] initSeeds = Some ((None, W, [] @ xs), v) \<and>
    length xs = nat n \<and> (\<forall>j < nat n. row_of TNation demo_vars (1 + int j) (xs ! j)) \<and>
    ready W \<and> valid_streams v \<and> shaped v"
  by (rule genTbl_complete [where loader = collector])
    (simp_all add: loaded_tables_def ready_demo_vars valid_streams_initSeeds shaped_init loader_of_def
      collector_def)



text \<open>
  A flush error of the orders is lost: \<open>orderLineLoader.Flush\<close> then returns no error and leaves
  the lines unflushed, where \<open>partPsuppLoader.Flush\<close> in the same situation returns the error.
\<close>

theorem orderLine_flush_swallows:
  assumes "L TOrder = Some lo" "ld_flush lo w = Some (Some e, w')"
    and "L TPart = Some lp" "ld_flush lp w = Some (Some e, w')"
  shows "orderLine_flush L w = Some (None, w') \<and> partPsupp_flush L w = Some (Some e, w')"
  using assms by (simp add: orderLine_flush_def partPsupp_flush_def)

lemma orderLine_flush_swallows_witness:
  "orderLine_flush (\<lambda>t. Some \<lparr>ld_load = (\<lambda>x w. Some (None, w)),
      ld_flush = (\<lambda>w. Some (Some ''disk full'', w))\<rparr>) (0 :: nat) = Some (None, 0) \<and>
   partPsupp_flush (\<lambda>t. Some \<lparr>ld_load = (\<lambda>x w. Some (None, w)),
      ld_flush = (\<lambda>w. Some (Some ''disk full'', w))\<rparr>) (0 :: nat) = Some (Some ''disk full'', 0)"
  by (rule orderLine_flush_swallows, simp, simp, simp, simp)

end
