(* ===== verification/SqlErr.thy ===== *)
theory SqlErr
  imports Prelude
begin

text \<open>
  Errors of the database drivers and their classification: \<open>pkg/sink/sqlstate.go\<close>.  A Go error
  is the list of the errors of its chain, outermost first: \<open>errors.As\<close> and \<open>errors.Is\<close> look
  for the first that matches.  The drivers themselves are not under \<open>src/\<close>; of their errors
  the code reads the SQLSTATE, the MySQL number and the sentinel values.
\<close>

datatype link =
    PqError string string \<comment> \<open>code, message\<close>
  | MySQLError int string string \<comment> \<open>number, five bytes of state, message\<close>
  | BadConn
  | ConnDone
  | InvalidConn
  | NetError string
  | NoRows
  | Plain string

type_synonym goerr = "link list"

text \<open>\<open>errors.As\<close> for an error with a method \<open>SQLState()\<close> and for a \<open>*mysql.MySQLError\<close>.\<close>

fun as_stater :: "goerr \<Rightarrow> string option" where
  "as_stater [] = None"
| "as_stater (PqError code msg # e) = Some code"
| "as_stater (l # e) = as_stater e"

fun as_mysql :: "goerr \<Rightarrow> (int \<times> string) option" where
  "as_mysql [] = None"
| "as_mysql (MySQLError n st msg # e) = Some (n, st)"
| "as_mysql (l # e) = as_mysql e"

definition no_state :: string where
  "no_state = replicate 5 (char_of (0 :: nat))"

definition SQLState :: "goerr \<Rightarrow> string" where
  "SQLState err = (case as_stater err of
       Some st \<Rightarrow> st
     | None \<Rightarrow> (case as_mysql err of
           Some (n, st) \<Rightarrow> if st \<noteq> no_state then st else []
         | None \<Rightarrow> []))"

definition IsTransactionConflict :: "goerr \<Rightarrow> bool" where
  "IsTransactionConflict err \<longleftrightarrow>
     (let state = SQLState err in length state = 5 \<and> take 2 state = ''40'')"

definition isDuplicateKey :: "goerr \<Rightarrow> bool" where
  "isDuplicateKey err = (case as_mysql err of
       Some (n, st) \<Rightarrow> n = 1062
     | None \<Rightarrow> SQLState err = ''23505'')"

datatype failureClass = failFatal | retryRolledBack | retryOutcomeUnknown

fun failureClass_String :: "failureClass \<Rightarrow> string" where
  "failureClass_String retryRolledBack = ''retry, rolled back''"
| "failureClass_String retryOutcomeUnknown = ''retry, outcome unknown''"
| "failureClass_String failFatal = ''fatal''"

definition classifyFailure :: "goerr \<Rightarrow> failureClass" where
  "classifyFailure err = (case as_mysql err of
       Some (n, st) \<Rightarrow> if take 2 st = ''25'' then failFatal else retryOutcomeUnknown
     | None \<Rightarrow>
         (let st = SQLState err in
          if st = [] then retryOutcomeUnknown
          else if st \<in> {''08000'', ''08003'', ''08006'', ''08007'', ''57P01'', ''57P02'', ''57014'', ''40003''}
          then retryOutcomeUnknown
          else if st \<in> {''40001'', ''40P01'', ''55P03'', ''53200'', ''53300'', ''57P03'', ''57P05'',
              ''08001'', ''08004'', ''MTB01'', ''MTB02'', ''MTB03'', ''MTF01''}
          then retryRolledBack
          else failFatal))"

definition IsConnectionError :: "goerr option \<Rightarrow> bool" where
  "IsConnectionError oerr = (case oerr of
       None \<Rightarrow> False
     | Some err \<Rightarrow>
         if BadConn \<in> set err then True
         else if ConnDone \<in> set err then True
         else if InvalidConn \<in> set err then True
         else (\<exists>m \<in> set err. case m of NetError s \<Rightarrow> True | _ \<Rightarrow> False))"

subsection \<open>How the predicates relate\<close>

lemma as_mysql_Some: "as_mysql err = Some (n, st) \<Longrightarrow> \<exists>msg. MySQLError n st msg \<in> set err"
  by (induction err rule: as_mysql.induct) auto

lemma as_stater_Some: "as_stater err = Some st \<Longrightarrow> \<exists>msg. PqError st msg \<in> set err"
  by (induction err rule: as_stater.induct) auto

lemma duplicate_class:
  "isDuplicateKey err \<Longrightarrow> classifyFailure err \<noteq> retryRolledBack"
  by (auto simp: isDuplicateKey_def classifyFailure_def Let_def split: option.splits if_splits)

text \<open>An error that names no server state leaves the outcome open.\<close>

lemma no_server_error_class:
  "as_mysql err = None \<Longrightarrow> as_stater err = None \<Longrightarrow> classifyFailure err = retryOutcomeUnknown"
  by (simp add: classifyFailure_def SQLState_def)

lemma wrapped_errors:
  "SQLState (Plain msg # err) = SQLState err"
  "classifyFailure (Plain msg # err) = classifyFailure err"
  "isDuplicateKey (Plain msg # err) = isDuplicateKey err"
proof -
  show "SQLState (Plain msg # err) = SQLState err" by (simp add: SQLState_def split: option.split)
  then show "classifyFailure (Plain msg # err) = classifyFailure err"
    "isDuplicateKey (Plain msg # err) = isDuplicateKey err"
    by (simp_all add: classifyFailure_def isDuplicateKey_def cong: option.case_cong)
qed

text \<open>A failure classed as rolled back comes from a Postgres SQLSTATE of the list alone.\<close>

lemma rolled_back_state:
  assumes "classifyFailure err = retryRolledBack"
  shows "\<exists>st. as_stater err = Some st \<and> as_mysql err = None \<and>
    st \<in> {''40001'', ''40P01'', ''55P03'', ''53200'', ''53300'', ''57P03'', ''57P05'',
      ''08001'', ''08004'', ''MTB01'', ''MTB02'', ''MTB03'', ''MTF01''}"
proof -
  have m: "as_mysql err = None"
    using assms by (auto simp: classifyFailure_def split: option.splits if_splits)
  then have st: "SQLState err \<noteq> []" "SQLState err \<in> {''40001'', ''40P01'', ''55P03'', ''53200'', ''53300'',
      ''57P03'', ''57P05'', ''08001'', ''08004'', ''MTB01'', ''MTB02'', ''MTB03'', ''MTF01''}"
    using assms by (auto simp: classifyFailure_def Let_def split: if_splits)
  moreover have "as_stater err = Some (SQLState err)"
    using st(1) m by (auto simp: SQLState_def split: option.splits)
  ultimately show ?thesis using m by blast
qed

end
