(* ===== verification/SqlSink.thy ===== *)
theory SqlSink
  imports SqlErr GoFloat
begin

text \<open>
  The batching sink of \<open>pkg/sink/sql.go\<close> with the attempt history of \<open>diagnostics.go\<close>.  The
  database and the context are a parameter: \<open>Env\<close> says on a state \<open>'w\<close> of the world what a
  statement returns, whether the context is done, and whether it ends during a sleep.  Times,
  and the text an error report is laid out in, are left out.
\<close>

subsection \<open>Rows as text\<close>

text \<open>The values a row may have, by the kinds the code distinguishes.\<close>

datatype Value =
    VNil
  | VString string
  | VInt int
  | VFloat rat
  | VNullString bool string
  | VNullInt64 bool int
  | VNullFloat64 bool rat
  | VOther

text \<open>The verb \<open>%f\<close>: six decimals, rounded half to even.\<close>

definition fmt_f :: "rat \<Rightarrow> string" where
  "fmt_f x =
     (let n = nat (rne (\<bar>x\<bar> * 1000000)); ds = dec (n mod 1000000)
      in (if x < 0 then ''-'' else []) @ dec (n div 1000000) @ ''.'' @
         replicate (6 - length ds) (CHR ''0'') @ ds)"

fun sqlValue :: "Value \<Rightarrow> string option" where
  "sqlValue VNil = Some ''NULL''"
| "sqlValue (VString s) = Some ([CHR 0x27] @ s @ [CHR 0x27])"
| "sqlValue (VInt i) = Some (fmt_d i)"
| "sqlValue (VFloat x) = Some (fmt_f x)"
| "sqlValue (VNullString valid s) = Some (if valid then [CHR 0x27] @ s @ [CHR 0x27] else ''NULL'')"
| "sqlValue (VNullInt64 valid i) = Some (if valid then fmt_d i else ''NULL'')"
| "sqlValue (VNullFloat64 valid x) = Some (if valid then fmt_f x else ''NULL'')"
| "sqlValue VOther = None"

fun buildSQLRow_loop :: "nat \<Rightarrow> Value list \<Rightarrow> string \<Rightarrow> string option" where
  "buildSQLRow_loop i [] buf = Some buf"
| "buildSQLRow_loop i (v # vs) buf = do {
     s \<leftarrow> sqlValue v;
     buildSQLRow_loop (Suc i) vs (buf @ (if 0 < i then '','' else []) @ s)
   }"

definition buildSQLRow :: "Value list \<Rightarrow> string option" where
  "buildSQLRow values = do {
     buf \<leftarrow> buildSQLRow_loop 0 values ''('';
     Some (buf @ '')'')
   }"

subsection \<open>Diagnostics\<close>

record attempt =
  a_label :: string
  a_err :: goerr

text \<open>\<open>strings.Fields\<close> on ASCII text.\<close>

definition is_space :: "char \<Rightarrow> bool" where
  "is_space c \<longleftrightarrow> c \<in> {CHR '' '', CHR 0x09, CHR 0x0A, CHR 0x0B, CHR 0x0C, CHR 0x0D}"

function fields :: "string \<Rightarrow> string list" where
  "fields s =
     (let t = dropWhile is_space s
      in if t = [] then []
         else takeWhile (\<lambda>c. \<not> is_space c) t # fields (dropWhile (\<lambda>c. \<not> is_space c) t))"
  by pat_completeness auto
termination
proof (relation "measure length")
  fix s t
  assume t: "t = dropWhile is_space s" "t \<noteq> []"
  then have "\<not> is_space (hd t)" by (simp add: hd_dropWhile)
  with t(2) have "length (dropWhile (\<lambda>c. \<not> is_space c) t) < length t"
    by (cases t) (simp_all add: le_imp_less_Suc length_dropWhile_le)
  moreover have "length t \<le> length s" using t(1) by (simp add: length_dropWhile_le)
  ultimately show "(dropWhile (\<lambda>c. \<not> is_space c) t, s) \<in> measure length" by simp
qed simp

declare fields.simps [simp del]

definition upper :: "char \<Rightarrow> char" where
  "upper c = (if c \<in> set ''abcdefghijklmnopqrstuvwxyz''
     then char_of (of_char c - 32 :: nat) else c)"

definition EqualFold :: "string \<Rightarrow> string \<Rightarrow> bool" where
  "EqualFold a b \<longleftrightarrow> map upper a = map upper b"

fun tableName_loop :: "string list \<Rightarrow> string" where
  "tableName_loop (f # g # fs) =
     (if EqualFold f ''INTO'' then takeWhile (\<lambda>c. c \<noteq> CHR ''('') g else tableName_loop (g # fs))"
| "tableName_loop fs = []"

definition tableName :: "string \<Rightarrow> string" where
  "tableName ins = tableName_loop (fields ins)"

text \<open>
  The entries of the report: first and last number of a run of failures with the same label and
  the same text; \<open>msg\<close> is the text \<open>Error()\<close> gives, which the drivers define.
\<close>

definition same_failure :: "(goerr \<Rightarrow> string) \<Rightarrow> attempt \<Rightarrow> attempt \<Rightarrow> bool" where
  "same_failure msg a b \<longleftrightarrow> a_label b = a_label a \<and> msg (a_err b) = msg (a_err a)"

function attempt_groups ::
  "(goerr \<Rightarrow> string) \<Rightarrow> nat \<Rightarrow> attempt list \<Rightarrow> (nat \<times> nat \<times> attempt) list" where
  "attempt_groups msg i [] = []"
| "attempt_groups msg i (a # as) =
     (let run = takeWhile (same_failure msg a) as;
          rest = dropWhile (same_failure msg a) as;
          j = i + 1 + length run
      in (i + 1, j, a) # attempt_groups msg j rest)"
  by pat_completeness auto
termination
  by (relation "measure (\<lambda>(msg, i, as). length as)") (auto simp: le_imp_less_Suc length_dropWhile_le)

subsection \<open>The sink\<close>

record SQLSink =
  ss_maxBatchRows :: int
  ss_insertHint :: string
  ss_buf :: string
  ss_bufferedRows :: int
  ss_retryCount :: int

text \<open>The failure of a flush: the reason, the last error, and the report.\<close>

record report =
  rp_table :: string
  rp_rows :: int
  rp_bytes :: int
  rp_attempts :: "(nat \<times> nat \<times> attempt) list"

datatype flush_err = FlushErr string goerr report

record 'w Env =
  env_exec :: "string \<Rightarrow> 'w \<Rightarrow> goerr option \<times> 'w"
  env_msg :: "goerr \<Rightarrow> string"
  env_ctxErr :: "'w \<Rightarrow> string option"
  env_sleep :: "'w \<Rightarrow> string option \<times> 'w"

definition sink_report :: "(goerr \<Rightarrow> string) \<Rightarrow> SQLSink \<Rightarrow> attempt list \<Rightarrow> report" where
  "sink_report msg s attempts =
     \<lparr>rp_table = tableName (ss_insertHint s), rp_rows = ss_bufferedRows s,
      rp_bytes = int (length (ss_buf s)), rp_attempts = attempt_groups msg 0 attempts\<rparr>"

text \<open>\<open>attempts[len(attempts)-1]\<close> panics when there was no attempt.\<close>

definition failure :: "(goerr \<Rightarrow> string) \<Rightarrow> SQLSink \<Rightarrow> string \<Rightarrow> attempt list \<Rightarrow> flush_err option" where
  "failure msg s reason attempts =
     (if attempts = [] then None
      else Some (FlushErr reason (a_err (last attempts)) (sink_report msg s attempts)))"

fun execWithRetry_loop ::
  "nat \<Rightarrow> 'w Env \<Rightarrow> SQLSink \<Rightarrow> attempt list \<Rightarrow> bool \<Rightarrow> 'w \<Rightarrow> (flush_err option \<times> 'w) option" where
  "execWithRetry_loop 0 E s attempts outcomeUnknown w = do {
     e \<leftarrow> failure (env_msg E) s ''retry limit reached'' attempts;
     Some (Some e, w)
   }"
| "execWithRetry_loop (Suc k) E s attempts outcomeUnknown w =
     (case env_exec E (ss_buf s) w of
        (None, w) \<Rightarrow> Some (None, w)
      | (Some err, w) \<Rightarrow>
          let cls = classifyFailure err in
          if isDuplicateKey err then
            let attempts = attempts @ [\<lparr>a_label = ''duplicate key'', a_err = err\<rparr>] in
            if outcomeUnknown then Some (None, w)
            else do {
              e \<leftarrow> failure (env_msg E) s ''duplicate key'' attempts;
              Some (Some e, w)
            }
          else
            let attempts = attempts @ [\<lparr>a_label = failureClass_String cls, a_err = err\<rparr>] in
            case env_ctxErr E w of
              Some reason \<Rightarrow> do {
                e \<leftarrow> failure (env_msg E) s reason attempts;
                Some (Some e, w)
              }
            | None \<Rightarrow>
                if cls = failFatal then do {
                  e \<leftarrow> failure (env_msg E) s ''non-retryable error'' attempts;
                  Some (Some e, w)
                }
                else
                  let unknown = (outcomeUnknown \<or> cls = retryOutcomeUnknown) in
                  if k = 0 then execWithRetry_loop k E s attempts unknown w
                  else (case env_sleep E w of
                      (Some reason, w) \<Rightarrow> do {
                        e \<leftarrow> failure (env_msg E) s reason attempts;
                        Some (Some e, w)
                      }
                    | (None, w) \<Rightarrow> execWithRetry_loop k E s attempts unknown w))"

definition execWithRetry :: "'w Env \<Rightarrow> SQLSink \<Rightarrow> 'w \<Rightarrow> (flush_err option \<times> 'w) option" where
  "execWithRetry E s w = execWithRetry_loop (nat (1 + ss_retryCount s)) E s [] False w"

definition SQLSink_Flush :: "'w Env \<Rightarrow> SQLSink \<Rightarrow> 'w \<Rightarrow> ((flush_err option \<times> SQLSink) \<times> 'w) option" where
  "SQLSink_Flush E s w =
     (if length (ss_buf s) = 0 then Some ((None, s), w)
      else do {
        (err, w) \<leftarrow> execWithRetry E s w;
        Some ((err, s\<lparr>ss_bufferedRows := 0, ss_buf := []\<rparr>), w)
      })"

definition SQLSink_WriteRow ::
  "'w Env \<Rightarrow> Value list \<Rightarrow> SQLSink \<Rightarrow> 'w \<Rightarrow> ((flush_err option \<times> SQLSink) \<times> 'w) option" where
  "SQLSink_WriteRow E values s w = do {
     row \<leftarrow> buildSQLRow values;
     let s = (if ss_bufferedRows s = 0
              then s\<lparr>ss_buf := ss_buf s @ ss_insertHint s @ '' '' @ row\<rparr>
              else s\<lparr>ss_buf := ss_buf s @ '', '' @ row\<rparr>);
     let s = s\<lparr>ss_bufferedRows := ss_bufferedRows s + 1\<rparr>;
     if ss_maxBatchRows s \<le> ss_bufferedRows s then SQLSink_Flush E s w
     else Some ((None, s), w)
   }"

definition SQLSink_Close :: "'w Env \<Rightarrow> SQLSink \<Rightarrow> 'w \<Rightarrow> ((flush_err option \<times> SQLSink) \<times> 'w) option" where
  "SQLSink_Close E s w = SQLSink_Flush E s w"

definition NewSQLSink :: "string \<Rightarrow> int \<Rightarrow> SQLSink" where
  "NewSQLSink hint retryCount =
     \<lparr>ss_maxBatchRows = 1024, ss_insertHint = hint, ss_buf = [], ss_bufferedRows = 0,
      ss_retryCount = retryCount\<rparr>"

subsection \<open>Retrying\<close>

text \<open>
  What an honest database does with one INSERT that commits all its rows or none: a success adds
  the rows, which were absent; a duplicate key means they are there; a failure classed as fatal
  or rolled back changes nothing; a failure of unknown outcome may have added them.
\<close>

definition honest :: "'w Env \<Rightarrow> string \<Rightarrow> ('w \<Rightarrow> nat) \<Rightarrow> bool" where
  "honest E q copies \<longleftrightarrow>
     (\<forall>w. (case env_exec E q w of
         (None, w') \<Rightarrow> copies w = 0 \<and> copies w' = 1
       | (Some err, w') \<Rightarrow>
           if isDuplicateKey err then copies w = 1 \<and> copies w' = 1
           else if classifyFailure err = retryOutcomeUnknown
             then copies w' = copies w \<or> copies w = 0 \<and> copies w' = 1
           else copies w' = copies w)) \<and>
     (\<forall>w. copies (snd (env_sleep E w)) = copies w)"

definition unknown_in :: "attempt list \<Rightarrow> bool" where
  "unknown_in as \<longleftrightarrow> (\<exists>a \<in> set as. a_label a = ''retry, outcome unknown'')"

fun groups_attempts :: "(nat \<times> nat \<times> attempt) list \<Rightarrow> attempt list" where
  "groups_attempts [] = []"
| "groups_attempts ((i, j, a) # gs) = replicate (Suc j - i) a @ groups_attempts gs"

lemma takeWhile_labels:
  "map a_label (takeWhile (same_failure msg a) as) =
   replicate (length (takeWhile (same_failure msg a) as)) (a_label a)"
  by (induction as) (auto simp: same_failure_def)

lemma attempt_groups_labels: "map a_label (groups_attempts (attempt_groups msg i as)) = map a_label as"
proof (induction msg i as rule: attempt_groups.induct)
  case (2 msg i a as)
  define run where "run = takeWhile (same_failure msg a) as"
  define rest where "rest = dropWhile (same_failure msg a) as"
  have "map a_label (groups_attempts (attempt_groups msg (i + 1 + length run) rest)) = map a_label rest"
    using 2 [OF run_def rest_def refl] by simp
  then have "map a_label (groups_attempts (attempt_groups msg i (a # as))) =
      a_label a # replicate (length run) (a_label a) @ map a_label rest"
    by (simp add: run_def [symmetric] rest_def [symmetric] Let_def)
  also have "replicate (length run) (a_label a) = map a_label run"
    using takeWhile_labels [of msg a as] by (simp add: run_def)
  also have "map a_label run @ map a_label rest = map a_label as"
    by (simp add: run_def rest_def flip: map_append)
  finally show ?case by simp
qed simp

lemma unknown_in_groups: "unknown_in (groups_attempts (attempt_groups msg i as)) = unknown_in as"
proof -
  have u: "unknown_in bs \<longleftrightarrow> ''retry, outcome unknown'' \<in> set (map a_label bs)" for bs
    by (force simp: unknown_in_def)
  show ?thesis by (simp only: u attempt_groups_labels)
qed

text \<open>What a call returns, seen from the outside: the attempts made, the copies stored.\<close>

definition flush_outcome :: "flush_err option \<Rightarrow> nat \<Rightarrow> bool" where
  "flush_outcome r n \<longleftrightarrow> n \<le> 1 \<and>
     (case r of
        None \<Rightarrow> n = 1
      | Some (FlushErr reason e rep) \<Rightarrow> n = 1 \<longrightarrow> unknown_in (groups_attempts (rp_attempts rep)))"

lemma failure_Some: "as \<noteq> [] \<Longrightarrow> failure msg s reason as =
    Some (FlushErr reason (a_err (last as)) (sink_report msg s as))"
  by (simp add: failure_def)

lemma failure_outcome:
  "as \<noteq> [] \<Longrightarrow> n \<le> 1 \<Longrightarrow> (n = 1 \<Longrightarrow> unknown_in as) \<Longrightarrow>
   \<exists>e. failure msg s reason as = Some e \<and> flush_outcome (Some e) n"
  by (simp add: failure_Some flush_outcome_def sink_report_def unknown_in_groups)

lemma execWithRetry_loop_once:
  assumes h: "honest E (ss_buf s) copies"
  shows "copies w \<le> 1 \<Longrightarrow> (copies w = 1 \<Longrightarrow> unknown) \<Longrightarrow> (unknown \<Longrightarrow> unknown_in as) \<Longrightarrow>
    as \<noteq> [] \<or> 0 < k \<Longrightarrow>
    \<exists>r w'. execWithRetry_loop k E s as unknown w = Some (r, w') \<and> flush_outcome r (copies w')"
proof (induction k arbitrary: as unknown w)
  case 0
  then obtain e where "failure (env_msg E) s ''retry limit reached'' as = Some e" "flush_outcome (Some e) (copies w)"
    using failure_outcome [of as "copies w" "env_msg E" s] by blast
  then show ?case by simp
next
  case (Suc k)
  obtain r w1 where x: "env_exec E (ss_buf s) w = (r, w1)" by fastforce
  show ?case
  proof (cases r)
    case None
    then have "copies w1 = 1" using h x unfolding honest_def by (auto dest!: spec [of _ w])
    then show ?thesis using None x by (simp add: flush_outcome_def)
  next
    case (Some err)
    define cls where "cls = classifyFailure err"
    have eff: "if isDuplicateKey err then copies w = 1 \<and> copies w1 = 1
        else if cls = retryOutcomeUnknown
          then copies w1 = copies w \<or> copies w = 0 \<and> copies w1 = 1
        else copies w1 = copies w"
      using h x Some unfolding honest_def cls_def by (auto dest!: spec [of _ w])
    show ?thesis
    proof (cases "isDuplicateKey err")
      case True
      then have "unknown" "copies w1 = 1" using eff Suc.prems(2) by auto
      then show ?thesis using Some x True by (simp add: flush_outcome_def Let_def)
    next
      case False
      define bs where "bs = as @ [\<lparr>a_label = failureClass_String cls, a_err = err\<rparr>]"
      have c1: "copies w1 \<le> 1" using eff False Suc.prems(1) by (auto split: if_splits)
      have u: "unknown_in bs" if "unknown \<or> cls = retryOutcomeUnknown"
        using that Suc.prems(3) by (auto simp: bs_def unknown_in_def)
      have cu: "unknown \<or> cls = retryOutcomeUnknown" if "copies w1 = 1"
        using eff False Suc.prems(1,2) that by (auto split: if_splits)
      have fails: "\<exists>r w'. failure (env_msg E) s reason bs \<bind> (\<lambda>e. Some (Some e, w2)) = Some (r, w') \<and>
          flush_outcome r (copies w')" if "copies w2 = copies w1" for reason w2
        using failure_outcome [of bs "copies w2" "env_msg E" s reason] c1 u cu that by (auto simp: bs_def)
      obtain q w2 where sl: "env_sleep E w1 = (q, w2)" by fastforce
      have eq: "execWithRetry_loop (Suc k) E s as unknown w = (case env_ctxErr E w1 of
          Some reason \<Rightarrow> failure (env_msg E) s reason bs \<bind> (\<lambda>e. Some (Some e, w1))
        | None \<Rightarrow> if cls = failFatal
            then failure (env_msg E) s ''non-retryable error'' bs \<bind> (\<lambda>e. Some (Some e, w1))
            else if k = 0 then failure (env_msg E) s ''retry limit reached'' bs \<bind> (\<lambda>e. Some (Some e, w1))
            else (case env_sleep E w1 of
                (Some reason, w) \<Rightarrow> failure (env_msg E) s reason bs \<bind> (\<lambda>e. Some (Some e, w))
              | (None, w) \<Rightarrow>
                  execWithRetry_loop k E s bs (unknown \<or> cls = retryOutcomeUnknown) w))"
        using False
        by (cases "env_ctxErr E w1"; cases "k = 0"; cases "cls = failFatal")
          (simp_all add: x Some sl Let_def bs_def cls_def split: option.split)
      have w2: "copies w2 = copies w1" using h sl unfolding honest_def by (metis snd_conv)
      have "\<exists>r w'. execWithRetry_loop k E s bs (unknown \<or> cls = retryOutcomeUnknown) w2 =
          Some (r, w') \<and> flush_outcome r (copies w')"
        using c1 cu u w2 by (intro Suc.IH) (auto simp: bs_def)
      then show ?thesis
        unfolding eq using fails [OF refl] fails [OF w2]
        by (simp add: sl split: option.split)
    qed
  qed
qed

text \<open>A count of the statements sent is not exceeded.\<close>

lemma execWithRetry_loop_calls:
  assumes exec: "\<And>q w. calls (snd (env_exec E q w)) = calls w + (1 :: nat)"
    and sleep: "\<And>w. calls (snd (env_sleep E w)) = calls w"
  shows "execWithRetry_loop k E s as unknown w = Some (r, w') \<Longrightarrow> calls w' \<le> calls w + k"
proof (induction k arbitrary: as unknown w)
  case 0
  then show ?case by (auto simp: bind_eq_Some_conv)
next
  case (Suc k)
  obtain o1 w1 where x: "env_exec E (ss_buf s) w = (o1, w1)" by fastforce
  obtain o2 w2 where y: "env_sleep E w1 = (o2, w2)" by fastforce
  have c: "calls w1 = calls w + 1" "calls w2 = calls w + 1"
    using exec [of "ss_buf s" w] sleep [of w1] x y by simp_all
  then show ?case
    using Suc.prems Suc.IH
    by (fastforce simp: x y Let_def bind_eq_Some_conv split: option.splits if_splits)
qed

text \<open>The fake executor of the tests: it answers from a list, the last answer for ever.\<close>

definition fake_env :: "(goerr option) list Env" where
  "fake_env = \<lparr>env_exec = (\<lambda>q w. case w of [] \<Rightarrow> (None, []) | [r] \<Rightarrow> (r, [r]) | r # w \<Rightarrow> (r, w)),
     env_msg = (\<lambda>e. []), env_ctxErr = (\<lambda>w. None), env_sleep = (\<lambda>w. (None, w))\<rparr>"

definition transient :: "goerr \<Rightarrow> bool" where
  "transient err \<longleftrightarrow> \<not> isDuplicateKey err \<and> classifyFailure err \<noteq> failFatal"

lemma execWithRetry_loop_transient:
  "list_all transient errs \<Longrightarrow> length errs < k \<Longrightarrow>
   execWithRetry_loop k fake_env s as unknown (map Some errs @ [None]) = Some (None, [None])"
proof (induction errs arbitrary: k as unknown)
  case Nil
  then show ?case by (cases k) (simp_all add: fake_env_def)
next
  case (Cons e errs)
  obtain k' where k: "k = Suc k'" "length errs < k'" "k' \<noteq> 0" using Cons.prems(2) by (cases k) auto
  have e: "\<not> isDuplicateKey e" "classifyFailure e \<noteq> failFatal" using Cons.prems(1) by (simp_all add: transient_def)
  have "env_exec fake_env q (map Some (e # errs) @ [None]) = (Some e, map Some errs @ [None])" for q
    by (cases errs) (simp_all add: fake_env_def)
  moreover have "env_ctxErr fake_env w = None" "env_sleep fake_env w = (None, w)" for w
    by (simp_all add: fake_env_def)
  moreover have "execWithRetry_loop k' fake_env s as' u' (map Some errs @ [None]) = Some (None, [None])"
    for as' u' using Cons.IH [OF _ k(2)] Cons.prems(1) by simp
  ultimately show ?case using e k by (simp add: Let_def del: list.map append.simps)
qed

subsection \<open>Batches\<close>

fun comma_join :: "string list \<Rightarrow> string" where
  "comma_join [] = []"
| "comma_join [r] = r"
| "comma_join (r # rs) = r @ '', '' @ comma_join rs"

definition statement :: "string \<Rightarrow> string list \<Rightarrow> string" where
  "statement hint rows = hint @ '' '' @ comma_join rows"

text \<open>The rows buffered since the last flush.\<close>

definition holds :: "SQLSink \<Rightarrow> string list \<Rightarrow> bool" where
  "holds s rows \<longleftrightarrow> ss_bufferedRows s = int (length rows) \<and>
     ss_buf s = (if rows = [] then [] else statement (ss_insertHint s) rows) \<and>
     0 < ss_maxBatchRows s \<and> 0 \<le> ss_retryCount s"

definition same_conf :: "SQLSink \<Rightarrow> SQLSink \<Rightarrow> bool" where
  "same_conf s t \<longleftrightarrow> ss_maxBatchRows t = ss_maxBatchRows s \<and> ss_insertHint t = ss_insertHint s \<and>
     ss_retryCount t = ss_retryCount s"

lemma comma_join_snoc: "rows \<noteq> [] \<Longrightarrow> comma_join (rows @ [r]) = comma_join rows @ '', '' @ r"
  by (induction rows rule: comma_join.induct) simp_all

lemma statement_nonempty: "statement hint rows \<noteq> []"
  by (simp add: statement_def)

lemma holds_snoc:
  assumes "holds s rows"
  shows "holds (s\<lparr>ss_buf := ss_buf s @ (if ss_bufferedRows s = 0 then ss_insertHint s @ '' '' @ r else '', '' @ r),
    ss_bufferedRows := ss_bufferedRows s + 1\<rparr>) (rows @ [r])"
  using assms by (cases "rows = []") (simp_all add: holds_def statement_def comma_join_snoc)

text \<open>A database that accepts every statement and keeps them.\<close>

definition accepting :: "string list Env" where
  "accepting = \<lparr>env_exec = (\<lambda>q w. (None, w @ [q])), env_msg = (\<lambda>e. []),
     env_ctxErr = (\<lambda>w. None), env_sleep = (\<lambda>w. (None, w))\<rparr>"

lemma accepting_exec: "0 \<le> ss_retryCount s \<Longrightarrow> execWithRetry accepting s w = Some (None, w @ [ss_buf s])"
proof -
  assume "0 \<le> ss_retryCount s"
  then obtain k where "nat (1 + ss_retryCount s) = Suc k" by (cases "nat (1 + ss_retryCount s)") auto
  then show ?thesis by (simp add: execWithRetry_def accepting_def)
qed

lemma flush_holds:
  assumes "holds s rows"
  shows "\<exists>t. SQLSink_Flush accepting s w = Some ((None, t),
      w @ (if rows = [] then [] else [statement (ss_insertHint s) rows])) \<and>
    holds t [] \<and> same_conf s t"
  using assms statement_nonempty [of "ss_insertHint s" rows]
  by (auto simp: holds_def SQLSink_Flush_def accepting_exec same_conf_def)

lemma write_holds:
  assumes "holds s rows" "buildSQLRow vs = Some r" "int (length rows) < ss_maxBatchRows s"
  shows "\<exists>t. SQLSink_WriteRow accepting vs s w =
      (if int (length rows) + 1 = ss_maxBatchRows s
       then Some ((None, t), w @ [statement (ss_insertHint s) (rows @ [r])])
       else Some ((None, t), w)) \<and>
    holds t (if int (length rows) + 1 = ss_maxBatchRows s then [] else rows @ [r]) \<and> same_conf s t"
proof -
  define s1 where "s1 = s\<lparr>ss_buf := ss_buf s @ (if ss_bufferedRows s = 0 then ss_insertHint s @ '' '' @ r
      else '', '' @ r), ss_bufferedRows := ss_bufferedRows s + 1\<rparr>"
  have h: "holds s1 (rows @ [r])" unfolding s1_def by (rule holds_snoc [OF assms(1)])
  have c: "same_conf s s1" by (simp add: same_conf_def s1_def)
  have e: "SQLSink_WriteRow accepting vs s w =
      (if int (length rows) + 1 = ss_maxBatchRows s then SQLSink_Flush accepting s1 w
       else Some ((None, s1), w))"
  proof -
    have "(ss_maxBatchRows s \<le> ss_bufferedRows s + 1) = (int (length rows) + 1 = ss_maxBatchRows s)"
      using assms(1,3) by (auto simp: holds_def)
    then show ?thesis
      by (cases "ss_bufferedRows s = 0")
        (simp_all add: SQLSink_WriteRow_def s1_def assms(2) del: of_nat_Suc)
  qed
  obtain t where "SQLSink_Flush accepting s1 w = Some ((None, t),
      w @ [statement (ss_insertHint s1) (rows @ [r])])" "holds t []" "same_conf s1 t"
    using flush_holds [OF h, of w] by auto
  then show ?thesis using e h c by (auto simp: same_conf_def)
qed

fun writeAll :: "'w Env \<Rightarrow> Value list list \<Rightarrow> SQLSink \<Rightarrow> 'w \<Rightarrow> ((flush_err option \<times> SQLSink) \<times> 'w) option" where
  "writeAll E [] s w = Some ((None, s), w)"
| "writeAll E (vs # rest) s w = do {
     ((err, s), w) \<leftarrow> SQLSink_WriteRow E vs s w;
     if err \<noteq> None then Some ((err, s), w) else writeAll E rest s w
   }"

lemma writeAll_batches:
  "holds s rows \<Longrightarrow> int (length rows) < ss_maxBatchRows s \<Longrightarrow> map buildSQLRow vss = map Some rs \<Longrightarrow>
   \<exists>t cs rest. writeAll accepting vss s w = Some ((None, t), w @ map (statement (ss_insertHint s)) cs) \<and>
     holds t rest \<and> int (length rest) < ss_maxBatchRows s \<and> same_conf s t \<and>
     concat cs @ rest = rows @ rs \<and> (\<forall>c \<in> set cs. int (length c) = ss_maxBatchRows s)"
proof (induction vss arbitrary: s rows rs w)
  case Nil
  then show ?case by (intro exI [of _ s] exI [of _ "[]"] exI [of _ rows]) (simp add: same_conf_def)
next
  case (Cons vs vss)
  obtain r rs' where rs: "rs = r # rs'" "buildSQLRow vs = Some r" "map buildSQLRow vss = map Some rs'"
    using Cons.prems(3) by (cases rs) auto
  define full where "full \<longleftrightarrow> int (length rows) + 1 = ss_maxBatchRows s"
  obtain t where t: "SQLSink_WriteRow accepting vs s w = Some ((None, t),
      w @ (if full then [statement (ss_insertHint s) (rows @ [r])] else []))"
    "holds t (if full then [] else rows @ [r])" "same_conf s t"
    using write_holds [OF Cons.prems(1) rs(2) Cons.prems(2), of w] unfolding full_def
    by (auto split: if_splits)
  define w1 where "w1 = w @ (if full then [statement (ss_insertHint s) (rows @ [r])] else [])"
  have "int (length (if full then [] else rows @ [r])) < ss_maxBatchRows t"
    using t(3) Cons.prems(1,2) by (auto simp: full_def same_conf_def holds_def)
  then obtain u cs rest where u: "writeAll accepting vss t w1 =
      Some ((None, u), w1 @ map (statement (ss_insertHint t)) cs)" "holds u rest"
    "int (length rest) < ss_maxBatchRows t" "same_conf t u"
    "concat cs @ rest = (if full then [] else rows @ [r]) @ rs'"
    "\<forall>c \<in> set cs. int (length c) = ss_maxBatchRows t"
    using Cons.IH [OF t(2) _ rs(3), of w1] by blast
  define ds where "ds = (if full then [rows @ [r]] else []) @ cs"
  have "writeAll accepting (vs # vss) s w = Some ((None, u), w @ map (statement (ss_insertHint s)) ds)"
    using t(1,3) u(1) by (simp add: w1_def ds_def same_conf_def)
  moreover have "concat ds @ rest = rows @ rs" using u(5) rs by (simp add: ds_def)
  moreover have "\<forall>c \<in> set ds. int (length c) = ss_maxBatchRows s"
    using u(6) t(3) by (auto simp: ds_def full_def same_conf_def)
  ultimately show ?case using u t(3) by (intro exI) (auto simp: same_conf_def)
qed

subsection \<open>Properties\<close>


text \<open>A database whose first answer is lost after the commit; the copies are the first component.\<close>

definition lossy :: "(nat \<times> nat) Env" where
  "lossy = \<lparr>env_exec = (\<lambda>q (c, n).
       if c = 0 then (Some [BadConn], (1, n + 1))
       else if c = 1 then (Some [PqError ''23505'' ''duplicate key''], (1, n + 1))
       else (Some [Plain ''broken''], (c, n + 1))),
     env_msg = (\<lambda>e. []), env_ctxErr = (\<lambda>w. None), env_sleep = (\<lambda>w. (None, w))\<rparr>"


text \<open>
  The number of statements a flush sends is at most one more than the retry count, whatever the
  database answers.
\<close>

theorem execWithRetry_attempts:
  assumes "\<And>q w. calls (snd (env_exec E q w)) = calls w + 1"
    and "\<And>w. calls (snd (env_sleep E w)) = calls w" "0 \<le> ss_retryCount s"
    and "execWithRetry E s w = Some (r, w')"
  shows "int (calls w') \<le> int (calls w) + 1 + ss_retryCount s"
proof -
  have "calls w' \<le> calls w + nat (1 + ss_retryCount s)"
    using assms(4) unfolding execWithRetry_def
    by (rule execWithRetry_loop_calls [where calls = calls, OF assms(1,2)])
  then show ?thesis using assms(3) by linarith
qed

lemma execWithRetry_attempts_witness:
  "int (snd (1 :: nat, 2 :: nat)) \<le> int (snd (0 :: nat, 0 :: nat)) + 1 + 5"
proof -
  have "execWithRetry lossy (NewSQLSink ''h'' 5) (0, 0) = Some (None, (1, 2))"
    by (simp add: execWithRetry_def NewSQLSink_def lossy_def eval_nat_numeral isDuplicateKey_def
        classifyFailure_def SQLState_def Let_def)
  then show ?thesis
    using execWithRetry_attempts [of snd lossy "NewSQLSink ''h'' 5" "(0, 0)" None "(1, 2)"]
    by (simp add: lossy_def NewSQLSink_def split: prod.splits)
qed

text \<open>
  As long as the retry count allows, any number of transient failures before a success leads to
  success.
\<close>

theorem execWithRetry_transient:
  assumes "list_all transient errs" "int (length errs) \<le> ss_retryCount s"
  shows "execWithRetry fake_env s (map Some errs @ [None]) = Some (None, [None])"
  unfolding execWithRetry_def using assms by (intro execWithRetry_loop_transient) auto

lemma execWithRetry_transient_witness:
  "execWithRetry fake_env (NewSQLSink ''h'' 2)
     (map Some [[Plain ''connection reset''], [PqError ''40001'' ''conflict'']] @ [None]) = Some (None, [None])"
  by (rule execWithRetry_transient)
    (simp_all add: transient_def isDuplicateKey_def classifyFailure_def SQLState_def NewSQLSink_def)

text \<open>
  C40. Batching loses and reorders nothing: writing rows one by one and flushing executes statements
  whose rows together are the rows written, in order; all statements but the last hold exactly
  \<open>maxBatchRows\<close> rows, none is empty, and the buffer is empty at the end.
\<close>

theorem SQLSink_batches:
  assumes "map buildSQLRow vss = map Some rs" "0 \<le> retries"
  shows "\<exists>s cs t. writeAll accepting vss (NewSQLSink hint retries) [] =
      Some ((None, s), map (statement hint) (filter (\<lambda>c. length c = 1024) cs)) \<and>
    SQLSink_Flush accepting s (map (statement hint) (filter (\<lambda>c. length c = 1024) cs)) =
      Some ((None, t), map (statement hint) cs) \<and>
    concat cs = rs \<and> (\<forall>c \<in> set cs. c \<noteq> [] \<and> length c \<le> 1024) \<and>
    (\<forall>c \<in> set (butlast cs). length c = 1024) \<and> ss_buf t = []"
proof -
  define s0 where "s0 = NewSQLSink hint retries"
  have s0: "holds s0 []" "ss_maxBatchRows s0 = 1024" "ss_insertHint s0 = hint"
    using assms(2) by (simp_all add: s0_def NewSQLSink_def holds_def)
  obtain s cs rest where s: "writeAll accepting vss s0 [] = Some ((None, s), map (statement hint) cs)"
    "holds s rest" "int (length rest) < 1024" "same_conf s0 s" "concat cs @ rest = rs"
    "\<forall>c \<in> set cs. int (length c) = 1024"
    using writeAll_batches [OF s0(1) _ assms(1), of "[]"] s0 by auto
  obtain t where t: "SQLSink_Flush accepting s (map (statement hint) cs) = Some ((None, t),
      map (statement hint) cs @ (if rest = [] then [] else [statement (ss_insertHint s) rest]))"
    "holds t []"
    using flush_holds [OF s(2), of "map (statement hint) cs"] by auto
  define ds where "ds = cs @ (if rest = [] then [] else [rest])"
  have "filter (\<lambda>c. length c = 1024) cs = cs" using s(6) by (intro filter_True) auto
  then have f: "filter (\<lambda>c. length c = 1024) ds = cs" using s(3) by (auto simp: ds_def)
  have h: "ss_insertHint s = hint" using s(4) s0(3) by (simp add: same_conf_def)
  have "\<forall>c \<in> set ds. c \<noteq> [] \<and> length c \<le> 1024" using s(3,6) by (auto simp: ds_def)
  moreover have "\<forall>c \<in> set (butlast ds). length c = 1024"
    using s(6) by (auto simp: ds_def dest: in_set_butlastD)
  moreover have "ss_buf t = []" using t(2) by (simp add: holds_def)
  moreover have "SQLSink_Flush accepting s (map (statement hint) cs) =
      Some ((None, t), map (statement hint) ds)"
    using t(1) h by (simp add: ds_def)
  moreover have "concat ds = rs" using s(5) by (auto simp: ds_def)
  ultimately show ?thesis
    using s(1) unfolding s0_def [symmetric] by (intro exI [of _ s] exI [of _ ds] exI [of _ t]) (simp add: f)
qed

lemma SQLSink_batches_witness:
  "\<exists>s cs t. writeAll accepting (replicate 1500 [VInt 7, VNil]) (NewSQLSink ''INSERT INTO t VALUES'' 3) [] =
      Some ((None, s), map (statement ''INSERT INTO t VALUES'') (filter (\<lambda>c. length c = 1024) cs)) \<and>
    SQLSink_Flush accepting s (map (statement ''INSERT INTO t VALUES'') (filter (\<lambda>c. length c = 1024) cs)) =
      Some ((None, t), map (statement ''INSERT INTO t VALUES'') cs) \<and>
    concat cs = replicate 1500 ''(7,NULL)'' \<and> (\<forall>c \<in> set cs. c \<noteq> [] \<and> length c \<le> 1024) \<and>
    (\<forall>c \<in> set (butlast cs). length c = 1024) \<and> ss_buf t = []"
proof (rule SQLSink_batches)
  have "buildSQLRow [VInt 7, VNil] = Some ''(7,NULL)''"
    by (simp add: buildSQLRow_def fmt_d_def dec_small digit_chars)
  then show "map buildSQLRow (replicate 1500 [VInt 7, VNil]) = map Some (replicate 1500 ''(7,NULL)'')"
    by (simp add: map_replicate)
qed simp

text \<open>
  Strings are not escaped: two different rows, of one and of two columns, have the same text.
\<close>

theorem buildSQLRow_ambiguous:
  "buildSQLRow [VString (''a'' @ [CHR 0x27] @ '','' @ [CHR 0x27] @ ''b'')] =
   buildSQLRow [VString ''a'', VString ''b'']"
  by (simp add: buildSQLRow_def)

end
