(* ===== verification/TpccDb.thy ===== *)
theory TpccDb
  imports SqlErr "HOL-Library.Stream"
begin

text \<open>
  The database of TPC-C as the statements of \<open>tpcc/*.go\<close> see it.  A table is the list of its rows
  in an arbitrary order; a \<open>SELECT\<close> filters, an \<open>UPDATE\<close> maps, an \<open>INSERT\<close> appends after
  checking the primary key, as SQL defines them.  Columns are those of \<open>ddl.go\<close>: a
  \<open>DECIMAL(_, 2)\<close> is a number of cents, a \<open>DECIMAL(4, 4)\<close> a number of ten-thousandths.
  Transactions run one after another; how they are isolated is the database's business.  Every
  call of the driver takes one reply from a stream, so any call may fail.
\<close>

subsection \<open>Tables\<close>

record warehouse_row =
  w_id :: int
  w_name :: string
  w_street_1 :: string
  w_street_2 :: string
  w_city :: string
  w_state :: string
  w_zip :: string
  w_tax :: int
  w_ytd :: int

record district_row =
  d_id :: int
  d_w_id :: int
  d_name :: string
  d_street_1 :: string
  d_street_2 :: string
  d_city :: string
  d_state :: string
  d_zip :: string
  d_tax :: int
  d_ytd :: int
  d_next_o_id :: int

record customer_row =
  c_id :: int
  c_d_id :: int
  c_w_id :: int
  c_first :: string
  c_middle :: string
  c_last :: string
  c_street_1 :: string
  c_street_2 :: string
  c_city :: string
  c_state :: string
  c_zip :: string
  c_phone :: string
  c_since :: string
  c_credit :: string
  c_credit_lim :: int
  c_discount :: int
  c_balance :: int
  c_ytd_payment :: int
  c_payment_cnt :: int
  c_delivery_cnt :: int
  c_data :: string

record history_row =
  h_c_id :: int
  h_c_d_id :: int
  h_c_w_id :: int
  h_d_id :: int
  h_w_id :: int
  h_date :: string
  h_amount :: int
  h_data :: string

record new_order_row =
  no_o_id :: int
  no_d_id :: int
  no_w_id :: int

record orders_row =
  o_id :: int
  o_d_id :: int
  o_w_id :: int
  o_c_id :: int
  o_entry_d :: string
  o_carrier_id :: "int option"
  o_ol_cnt :: int
  o_all_local :: int

record order_line_row =
  ol_o_id :: int
  ol_d_id :: int
  ol_w_id :: int
  ol_number :: int
  ol_i_id :: int
  ol_supply_w_id :: int
  ol_delivery_d :: "string option"
  ol_quantity :: int
  ol_amount :: int
  ol_dist_info :: string

record item_row =
  i_id :: int
  i_im_id :: int
  i_name :: string
  i_price :: int
  i_data :: string

record stock_row =
  s_i_id :: int
  s_w_id :: int
  s_quantity :: int
  s_dist :: "string list"
  s_ytd :: int
  s_order_cnt :: int
  s_remote_cnt :: int
  s_data :: string

record db =
  warehouses :: "warehouse_row list"
  districts :: "district_row list"
  customers :: "customer_row list"
  histories :: "history_row list"
  new_orders :: "new_order_row list"
  orders :: "orders_row list"
  order_lines :: "order_line_row list"
  items :: "item_row list"
  stocks :: "stock_row list"

text \<open>The primary keys.\<close>

definition w_key :: "warehouse_row \<Rightarrow> int" where "w_key r = w_id r"
definition d_key :: "district_row \<Rightarrow> int \<times> int" where "d_key r = (d_w_id r, d_id r)"
definition c_key :: "customer_row \<Rightarrow> int \<times> int \<times> int" where "c_key r = (c_w_id r, c_d_id r, c_id r)"
definition no_key :: "new_order_row \<Rightarrow> int \<times> int \<times> int" where
  "no_key r = (no_w_id r, no_d_id r, no_o_id r)"
definition o_key :: "orders_row \<Rightarrow> int \<times> int \<times> int" where "o_key r = (o_w_id r, o_d_id r, o_id r)"
definition ol_order :: "order_line_row \<Rightarrow> int \<times> int \<times> int" where
  "ol_order r = (ol_w_id r, ol_d_id r, ol_o_id r)"
definition ol_key :: "order_line_row \<Rightarrow> (int \<times> int \<times> int) \<times> int" where
  "ol_key r = (ol_order r, ol_number r)"
definition s_key :: "stock_row \<Rightarrow> int \<times> int" where "s_key r = (s_w_id r, s_i_id r)"

subsection \<open>Statements\<close>

text \<open>A statement returns an error and leaves the data, or returns a value and the new data.\<close>

type_synonym 'a stmt = "db \<Rightarrow> goerr + 'a \<times> db"

definition select :: "(db \<Rightarrow> 'a) \<Rightarrow> 'a stmt" where
  "select f d = Inr (f d, d)"

text \<open>\<open>QueryRow(...).Scan(...)\<close>: the first row, or \<open>sql.ErrNoRows\<close>.\<close>

definition select_row :: "(db \<Rightarrow> 'a list) \<Rightarrow> 'a stmt" where
  "select_row f d = (case f d of [] \<Rightarrow> Inl [NoRows] | r # rs \<Rightarrow> Inr (r, d))"

definition update :: "(db \<Rightarrow> db) \<Rightarrow> unit stmt" where
  "update f d = Inr ((), f d)"

definition set_where :: "('r \<Rightarrow> bool) \<Rightarrow> ('r \<Rightarrow> 'r) \<Rightarrow> 'r list \<Rightarrow> 'r list" where
  "set_where P f rs = map (\<lambda>r. if P r then f r else r) rs"

definition duplicate_key :: goerr where
  "duplicate_key = [PqError ''23505'' ''duplicate key value violates unique constraint'']"

definition fresh_rows :: "('r \<Rightarrow> 'k) \<Rightarrow> 'r list \<Rightarrow> 'r list \<Rightarrow> bool" where
  "fresh_rows key new rs \<longleftrightarrow> distinct (map key new) \<and> (\<forall>r \<in> set new. key r \<notin> key ` set rs)"

definition insert_rows ::
  "('r \<Rightarrow> 'k) \<Rightarrow> (db \<Rightarrow> 'r list) \<Rightarrow> ('r list \<Rightarrow> db \<Rightarrow> db) \<Rightarrow> 'r list \<Rightarrow> unit stmt" where
  "insert_rows key get put new d =
     (if fresh_rows key new (get d) then Inr ((), put (get d @ new) d) else Inl duplicate_key)"

subsection \<open>Sessions\<close>

text \<open>
  The reply to a call of the driver: it went through, it failed before it did anything, or it
  took effect and only the reply was lost.
\<close>

datatype reply = Done | Refused goerr | Lost goerr

type_synonym session = "db \<times> reply stream"

definition call :: "'a stmt \<Rightarrow> session \<Rightarrow> (goerr + 'a) \<times> session" where
  "call st s =
     (let (d, q) = s in
      case shd q of
        Refused e \<Rightarrow> (Inl e, (d, stl q))
      | r \<Rightarrow> (case st d of
            Inl e \<Rightarrow> (Inl e, (d, stl q))
          | Inr (x, d') \<Rightarrow> ((case r of Lost e \<Rightarrow> Inl e | _ \<Rightarrow> Inr x), (d', stl q))))"

text \<open>How the body of a transaction ends: with a \<open>return\<close>, with \<open>return tx.Commit()\<close>, or by a panic.\<close>

datatype ending = Return "goerr option" | CommitTx | PanicTx

type_synonym body = "session \<Rightarrow> ending \<times> session"

definition failed :: "string \<Rightarrow> goerr \<Rightarrow> goerr" where
  "failed stm e = Plain (''exec '' @ stm @ '' failed'') # e"

text \<open>\<open>if err := ...; err != nil { return fmt.Errorf("exec %s failed %w", stm, err) }\<close>, then \<open>k\<close>.\<close>

definition exec :: "string \<Rightarrow> 'a stmt \<Rightarrow> ('a \<Rightarrow> body) \<Rightarrow> body" where
  "exec stm st k s = (case call st s of
       (Inl e, s) \<Rightarrow> (Return (Some (failed stm e)), s)
     | (Inr x, s) \<Rightarrow> k x s)"

text \<open>The same where the error is returned as it is.\<close>

definition exec_raw :: "'a stmt \<Rightarrow> ('a \<Rightarrow> body) \<Rightarrow> body" where
  "exec_raw st k s = (case call st s of
       (Inl e, s) \<Rightarrow> (Return (Some e), s)
     | (Inr x, s) \<Rightarrow> k x s)"

text \<open>An expression that may panic, \<open>return err\<close>, and \<open>return tx.Commit()\<close>.\<close>

definition or_panic :: "'a option \<Rightarrow> ('a \<Rightarrow> body) \<Rightarrow> body" where
  "or_panic x k s = (case x of None \<Rightarrow> (PanicTx, s) | Some y \<Rightarrow> k y s)"

definition return :: "goerr option \<Rightarrow> body" where
  "return e s = (Return e, s)"

definition commit :: body where
  "commit s = (CommitTx, s)"

text \<open>Reading the rows of a query, which may fail on the way.\<close>

definition no_change :: "unit stmt" where
  "no_change d = Inr ((), d)"

text \<open>
  \<open>BeginTx\<close>, the body, and the deferred \<open>Rollback\<close>, which undoes everything unless the commit went
  through; a lost reply to the commit leaves the changes and still returns an error.
\<close>

datatype result = Returned "goerr option" | Panicked

definition finish :: "db \<Rightarrow> ending \<times> session \<Rightarrow> result \<times> session" where
  "finish d r =
     (case r of
        (Return e, (_, q)) \<Rightarrow> (Returned e, (d, q))
      | (PanicTx, (_, q)) \<Rightarrow> (Panicked, (d, q))
      | (CommitTx, (d', q)) \<Rightarrow>
          (case shd q of
             Done \<Rightarrow> (Returned None, (d', stl q))
           | Refused e \<Rightarrow> (Returned (Some e), (d, stl q))
           | Lost e \<Rightarrow> (Returned (Some e), (d', stl q))))"

definition transaction :: "body \<Rightarrow> session \<Rightarrow> result \<times> session" where
  "transaction b s =
     (case call no_change s of
        (Inl e, s) \<Rightarrow> (Returned (Some e), s)
      | (Inr _, s) \<Rightarrow> finish (fst s) (b s))"

end
