(* ===== verification/TpccRand.thy ===== *)
theory TpccRand
  imports Prelude "HOL-Library.Stream"
begin

text \<open>
  The random inputs of TPC-C: \<open>tpcc/rand.go\<close>.  A \<open>*rand.Rand\<close> is the stream of its future draws:
  \<open>Intn n\<close> takes the next number modulo \<open>n\<close>, so that every sequence of results that \<open>Intn\<close> may
  return is that of some stream, and it panics (\<open>None\<close>) when \<open>n\<close> is not positive.  Strings are
  values here; the buffer that holds their bytes until the next row is left out.
\<close>

type_synonym rnd = "nat stream"

definition Intn :: "int \<Rightarrow> rnd \<Rightarrow> (int \<times> rnd) option" where
  "Intn n R = (if 0 < n then Some (int (shd R) mod n, stl R) else None)"

definition randInt :: "int \<Rightarrow> int \<Rightarrow> rnd \<Rightarrow> (int \<times> rnd) option" where
  "randInt lo hi R =
     (if lo = hi then Some (lo, R)
      else do {
        (i, R) \<leftarrow> Intn (hi - lo + 1) R;
        Some (i + lo, R)
      })"

text \<open>\<open>Shuffle\<close> of the standard library: from the last place down, a swap with a place not above.\<close>

fun Shuffle_loop :: "nat \<Rightarrow> 'a list \<Rightarrow> rnd \<Rightarrow> ('a list \<times> rnd) option" where
  "Shuffle_loop 0 xs R = Some (xs, R)"
| "Shuffle_loop (Suc i) xs R = do {
     (j, R) \<leftarrow> Intn (int i + 2) R;
     Shuffle_loop i (xs[Suc i := xs ! nat j, nat j := xs ! Suc i]) R
   }"

definition Shuffle :: "'a list \<Rightarrow> rnd \<Rightarrow> ('a list \<times> rnd) option" where
  "Shuffle xs R = Shuffle_loop (length xs - 1) xs R"

definition characters :: string where
  "characters = ''abcdefghijklmnopqrstuvwxyzABCDEFGHIJKLMNOPQRSTUVWXYZ1234567890''"

definition letters :: string where
  "letters = ''ABCDEFGHIJKLMNOPQRSTUVWXYZ''"

definition numbers :: string where
  "numbers = ''1234567890''"

fun randBuffer_loop :: "nat \<Rightarrow> string \<Rightarrow> int \<Rightarrow> string \<Rightarrow> rnd \<Rightarrow> (string \<times> rnd) option" where
  "randBuffer_loop 0 source num buf R = Some (buf, R)"
| "randBuffer_loop (Suc k) source num buf R = do {
     (i, R) \<leftarrow> Intn num R;
     c \<leftarrow> go_index source i;
     randBuffer_loop k source num (buf @ [c]) R
   }"

definition randBuffer :: "string \<Rightarrow> int \<Rightarrow> int \<Rightarrow> int \<Rightarrow> rnd \<Rightarrow> (string \<times> rnd) option" where
  "randBuffer source lo hi num R = do {
     (n, R) \<leftarrow> randInt lo hi R;
     randBuffer_loop (nat n) source num [] R
   }"

definition randChars :: "int \<Rightarrow> int \<Rightarrow> rnd \<Rightarrow> (string \<times> rnd) option" where
  "randChars lo hi R = randBuffer characters lo hi 62 R"

definition randLetters :: "int \<Rightarrow> int \<Rightarrow> rnd \<Rightarrow> (string \<times> rnd) option" where
  "randLetters lo hi R = randBuffer letters lo hi 26 R"

definition randNumbers :: "int \<Rightarrow> int \<Rightarrow> rnd \<Rightarrow> (string \<times> rnd) option" where
  "randNumbers lo hi R = randBuffer numbers lo hi 10 R"

text \<open>\<open>copy(buf[i:], src)\<close>.\<close>

definition copy_at :: "string \<Rightarrow> int \<Rightarrow> string \<Rightarrow> string option" where
  "copy_at buf i src = do {
     tail \<leftarrow> go_slice buf i (int (length buf));
     Some (take (nat i) buf @ take (length tail) src @ drop (length src) tail)
   }"

definition randZip :: "rnd \<Rightarrow> (string \<times> rnd) option" where
  "randZip R = do {
     (buf, R) \<leftarrow> randBuffer numbers 9 9 10 R;
     buf \<leftarrow> copy_at buf 4 ''11111'';
     Some (buf, R)
   }"

definition randState :: "rnd \<Rightarrow> (string \<times> rnd) option" where
  "randState R = randBuffer letters 2 2 26 R"

definition originalString :: string where
  "originalString = ''ORIGINAL''"

definition randOriginalString :: "rnd \<Rightarrow> (string \<times> rnd) option" where
  "randOriginalString R = do {
     (i, R) \<leftarrow> Intn 10 R;
     if i = 0 then do {
       (buf, R) \<leftarrow> randBuffer characters 26 50 62 R;
       (index, R) \<leftarrow> Intn (int (length buf) - 8) R;
       buf \<leftarrow> copy_at buf index originalString;
       Some (buf, R)
     } else randChars 26 50 R
   }"

text \<open>The package variables, set once when the program starts.\<close>

record RandVars =
  cLoad :: int
  cCustomerID :: int
  cItemID :: int

definition init_rand :: "rnd \<Rightarrow> (RandVars \<times> rnd) option" where
  "init_rand R = do {
     (a, R) \<leftarrow> Intn 256 R;
     (b, R) \<leftarrow> Intn 1024 R;
     (c, R) \<leftarrow> Intn 8192 R;
     Some (\<lparr>cLoad = a, cCustomerID = b, cItemID = c\<rparr>, R)
   }"

definition cLastTokens :: "string list" where
  "cLastTokens = [''BAR'', ''OUGHT'', ''ABLE'', ''PRI'', ''PRES'',
     ''ESE'', ''ANTI'', ''CALLY'', ''ATION'', ''EING'']"

definition randCLastSyllables :: "int \<Rightarrow> string option" where
  "randCLastSyllables n = do {
     a \<leftarrow> go_index cLastTokens (n sdiv 100);
     let n = n smod 100;
     b \<leftarrow> go_index cLastTokens (n sdiv 10);
     let n = n smod 10;
     c \<leftarrow> go_index cLastTokens n;
     Some (a @ b @ c)
   }"

definition randCLast :: "RandVars \<Rightarrow> rnd \<Rightarrow> (string \<times> rnd) option" where
  "randCLast G R = do {
     (a, R) \<leftarrow> Intn 256 R;
     (b, R) \<leftarrow> Intn 1000 R;
     s \<leftarrow> randCLastSyllables ((or a b + cLoad G) smod 1000);
     Some (s, R)
   }"

definition randCustomerID :: "RandVars \<Rightarrow> rnd \<Rightarrow> (int \<times> rnd) option" where
  "randCustomerID G R = do {
     (a, R) \<leftarrow> Intn 1024 R;
     (b, R) \<leftarrow> Intn 3000 R;
     Some ((or a (b + 1) + cCustomerID G) smod 3000 + 1, R)
   }"

definition randItemID :: "RandVars \<Rightarrow> rnd \<Rightarrow> (int \<times> rnd) option" where
  "randItemID G R = do {
     (a, R) \<leftarrow> Intn 8192 R;
     (b, R) \<leftarrow> Intn 100000 R;
     Some ((or a (b + 1) + cItemID G) smod 100000 + 1, R)
   }"

subsection \<open>Placeholders of prepared statements\<close>

text \<open>\<open>strings.Replace(query, old, new, 1)\<close> for a single character \<open>old\<close>.\<close>

fun replace_first :: "char \<Rightarrow> string \<Rightarrow> string \<Rightarrow> string" where
  "replace_first c new [] = []"
| "replace_first c new (d # s) = (if d = c then new @ s else d # replace_first c new s)"

text \<open>The loop ends when nothing was replaced.\<close>

partial_function (option) convertToPQ_loop :: "int \<Rightarrow> string \<Rightarrow> string option" where
  "convertToPQ_loop i query =
     (let prev = query; query = replace_first (CHR ''?'') (''$'' @ fmt_d i) query
      in if prev = query then Some query else convertToPQ_loop (i + 1) query)"

definition convertToPQ :: "string \<Rightarrow> string \<Rightarrow> string option" where
  "convertToPQ query driver =
     (if driver = ''postgres'' then convertToPQ_loop 1 query else Some query)"

subsection \<open>Ranges\<close>

lemma yields_Intn: "0 < n \<Longrightarrow> yields (Intn n R) (\<lambda>i R'. 0 \<le> i \<and> i < n \<and> R' = stl R)"
  by (simp add: Intn_def)

lemma yields_randInt [steps]: "lo \<le> hi \<Longrightarrow> yields (randInt lo hi R) (\<lambda>i R'. lo \<le> i \<and> i \<le> hi)"
proof -
  assume "lo \<le> hi"
  then show ?thesis
    using pos_mod_bound [of "hi - lo + 1" "int (shd R)"] by (simp add: randInt_def Intn_def)
qed

lemma yields_randBuffer_loop:
  "0 < num \<Longrightarrow> num \<le> int (length source) \<Longrightarrow> set buf \<subseteq> set source \<Longrightarrow>
   yields (randBuffer_loop k source num buf R)
     (\<lambda>s R'. length s = length buf + k \<and> set s \<subseteq> set source)"
proof (induction k arbitrary: buf R)
  case (Suc k)
  have i: "yields (Intn num R) (\<lambda>i R'. 0 \<le> i \<and> i < num)"
    by (rule yields_mono [OF yields_Intn]) (use Suc.prems in auto)
  show ?case unfolding randBuffer_loop.simps
  proof (rule yields_bind [OF i])
    fix i R1
    assume "0 \<le> i \<and> i < num"
    then have "0 \<le> i" "i < int (length source)" using Suc.prems(2) by simp_all
    then have "go_index source i = Some (source ! nat i)" "source ! nat i \<in> set source"
      by (simp_all add: go_index)
    then show "yields (go_index source i \<bind> (\<lambda>c. randBuffer_loop k source num (buf @ [c]) R1))
        (\<lambda>s R'. length s = length buf + Suc k \<and> set s \<subseteq> set source)"
      using Suc.IH [of "buf @ [source ! nat i]" R1] Suc.prems by simp
  qed
qed simp

lemma yields_randBuffer:
  assumes "0 \<le> lo" "lo \<le> hi" "0 < num" "num \<le> int (length source)"
  shows "yields (randBuffer source lo hi num R)
    (\<lambda>s R'. lo \<le> int (length s) \<and> int (length s) \<le> hi \<and> set s \<subseteq> set source)"
  unfolding randBuffer_def
proof (rule yields_bind [OF yields_randInt [OF assms(2)]])
  fix n R1
  assume "lo \<le> n \<and> n \<le> hi"
  then show "yields (randBuffer_loop (nat n) source num [] R1)
      (\<lambda>s R'. lo \<le> int (length s) \<and> int (length s) \<le> hi \<and> set s \<subseteq> set source)"
    by (intro yields_mono [OF yields_randBuffer_loop]) (use assms in auto)
qed

lemma alphabet_lengths: "length characters = 62" "length letters = 26" "length numbers = 10"
  by (simp_all add: characters_def letters_def numbers_def)

lemma yields_randChars [steps]:
  "0 \<le> lo \<Longrightarrow> lo \<le> hi \<Longrightarrow> yields (randChars lo hi R)
     (\<lambda>s R'. lo \<le> int (length s) \<and> int (length s) \<le> hi \<and> set s \<subseteq> set characters)"
  unfolding randChars_def by (rule yields_randBuffer) (simp_all add: alphabet_lengths)

lemma yields_randLetters [steps]:
  "0 \<le> lo \<Longrightarrow> lo \<le> hi \<Longrightarrow> yields (randLetters lo hi R)
     (\<lambda>s R'. lo \<le> int (length s) \<and> int (length s) \<le> hi \<and> set s \<subseteq> set letters)"
  unfolding randLetters_def by (rule yields_randBuffer) (simp_all add: alphabet_lengths)

lemma yields_randNumbers [steps]:
  "0 \<le> lo \<Longrightarrow> lo \<le> hi \<Longrightarrow> yields (randNumbers lo hi R)
     (\<lambda>s R'. lo \<le> int (length s) \<and> int (length s) \<le> hi \<and> set s \<subseteq> set numbers)"
  unfolding randNumbers_def by (rule yields_randBuffer) (simp_all add: alphabet_lengths)

lemma copy_at_Some:
  assumes "0 \<le> i" "i + int (length src) \<le> int (length buf)"
  shows "copy_at buf i src = Some (take (nat i) buf @ src @ drop (nat i + length src) buf)"
proof -
  have "go_slice buf i (int (length buf)) = Some (drop (nat i) buf)"
    using assms by (simp add: go_slice_Some)
  moreover have "length src \<le> length buf - nat i" using assms by linarith
  ultimately show ?thesis by (simp add: copy_at_def add.commute)
qed

lemma yields_randZip [steps]:
  "yields (randZip R) (\<lambda>s R'. length s = 9 \<and> drop 4 s = ''11111'' \<and> set s \<subseteq> set numbers)"
  unfolding randZip_def
proof (rule yields_bind [OF yields_randBuffer])
  fix s R1
  assume s: "9 \<le> int (length s) \<and> int (length s) \<le> 9 \<and> set s \<subseteq> set numbers"
  then have "copy_at s 4 ''11111'' = Some (take 4 s @ ''11111'')"
    by (subst copy_at_Some) simp_all
  moreover have "set (take 4 s) \<subseteq> set numbers" using s set_take_subset [of 4 s] by blast
  moreover have "set ''11111'' \<subseteq> set numbers" by (simp add: numbers_def)
  ultimately show "yields (copy_at s 4 ''11111'' \<bind> (\<lambda>s. Some (s, R1)))
      (\<lambda>s R'. length s = 9 \<and> drop 4 s = ''11111'' \<and> set s \<subseteq> set numbers)"
    using s by simp
qed (simp_all add: alphabet_lengths)

lemma yields_randState [steps]:
  "yields (randState R) (\<lambda>s R'. length s = 2 \<and> set s \<subseteq> set letters)"
  unfolding randState_def
  by (rule yields_mono [OF yields_randBuffer]) (simp_all add: alphabet_lengths)

definition has_original :: "string \<Rightarrow> bool" where
  "has_original s \<longleftrightarrow> (\<exists>a b. s = a @ originalString @ b)"

text \<open>The index is drawn below \<open>len(buf) - 8\<close>, so the word never ends the text.\<close>

lemma yields_randOriginalString [steps]:
  "yields (randOriginalString R) (\<lambda>s R'. 26 \<le> length s \<and> length s \<le> 50 \<and>
     set s \<subseteq> set characters \<and> (shd R mod 10 = 0 \<longrightarrow> has_original s))"
  unfolding randOriginalString_def
proof (rule yields_bind [where P = "\<lambda>i R'. i = int (shd R mod 10)"])
  show "yields (Intn 10 R) (\<lambda>i R'. i = int (shd R mod 10))" by (simp add: Intn_def of_nat_mod)
next
  fix i R1
  assume i: "i = int (shd R mod 10)"
  show "yields (if i = 0 then randBuffer characters 26 50 62 R1 \<bind> (\<lambda>(buf, R).
        Intn (int (length buf) - 8) R \<bind> (\<lambda>(index, R).
        copy_at buf index originalString \<bind> (\<lambda>buf. Some (buf, R))))
      else randChars 26 50 R1) (\<lambda>s R'. 26 \<le> length s \<and> length s \<le> 50 \<and>
     set s \<subseteq> set characters \<and> (shd R mod 10 = 0 \<longrightarrow> has_original s))"
  proof (cases "i = 0")
    case True
    have step: "yields (Intn (int (length buf) - 8) R2 \<bind> (\<lambda>(index, R).
        copy_at buf index originalString \<bind> (\<lambda>buf. Some (buf, R)))) (\<lambda>s R'. 26 \<le> length s \<and>
        length s \<le> 50 \<and> set s \<subseteq> set characters \<and> (shd R mod 10 = 0 \<longrightarrow> has_original s))"
      if b: "26 \<le> int (length buf) \<and> int (length buf) \<le> 50 \<and> set buf \<subseteq> set characters" for buf R2
    proof (rule yields_bind [OF yields_Intn])
      fix ix R3
      assume ix: "0 \<le> ix \<and> ix < int (length buf) - 8 \<and> R3 = stl R2"
      have len: "length originalString = 8" by (simp add: originalString_def)
      have "copy_at buf ix originalString =
          Some (take (nat ix) buf @ originalString @ drop (nat ix + 8) buf)"
        using ix b by (subst copy_at_Some) (simp_all add: len)
      moreover have "set originalString \<subseteq> set characters" by (simp add: originalString_def characters_def)
      moreover have "length (take (nat ix) buf @ originalString @ drop (nat ix + 8) buf) = length buf"
        using ix by (simp add: len) linarith
      ultimately show "yields (copy_at buf ix originalString \<bind> (\<lambda>buf. Some (buf, R3)))
          (\<lambda>s R'. 26 \<le> length s \<and> length s \<le> 50 \<and> set s \<subseteq> set characters \<and>
            (shd R mod 10 = 0 \<longrightarrow> has_original s))"
        using b by (auto simp: has_original_def dest: in_set_takeD in_set_dropD)
    qed (use b in simp)
    show ?thesis unfolding True
      by (simp only: refl if_True, intro yields_bind [OF yields_randBuffer] step)
        (simp_all add: alphabet_lengths)
  next
    case False
    then show ?thesis using i
      by (simp only: if_False) (rule yields_mono [OF yields_randChars], auto)
  qed
qed

text \<open>A last name for each number below 1000; each fits in the 15 bytes allocated for it.\<close>

definition last_name :: "int \<Rightarrow> string" where
  "last_name n = cLastTokens ! nat (n div 100) @ cLastTokens ! nat (n mod 100 div 10) @
     cLastTokens ! nat (n mod 10)"

lemma randCLastSyllables_Some:
  assumes "0 \<le> n" "n < 1000"
  shows "randCLastSyllables n = Some (last_name n)"
proof -
  have l: "int (length cLastTokens) = 10" by (simp add: cLastTokens_def)
  have "n sdiv 100 = n div 100" "n smod 100 = n mod 100"
    "n mod 100 sdiv 10 = n mod 100 div 10" "n mod 100 smod 10 = n mod 10"
    using assms by (simp_all add: go_arith mod_mod_cancel)
  moreover have "0 \<le> n div 100" "n div 100 < 10" using assms by auto
  moreover have "0 \<le> n mod 100 div 10" "n mod 100 div 10 < 10"
    using pos_mod_bound [of 100 n] pos_mod_sign [of 100 n] by linarith+
  moreover have "0 \<le> n mod 10" "n mod 10 < 10" by simp_all
  ultimately show ?thesis
    unfolding randCLastSyllables_def last_name_def by (simp add: go_index_Some l Let_def del: bind_assoc)
qed

lemma token_length: "i < 10 \<Longrightarrow> 3 \<le> length (cLastTokens ! i) \<and> length (cLastTokens ! i) \<le> 5"
  by (auto simp: cLastTokens_def less_Suc_eq numeral_eq_Suc)

lemma last_name_length:
  assumes "0 \<le> n" "n < 1000"
  shows "9 \<le> length (last_name n) \<and> length (last_name n) \<le> 15"
proof -
  have "nat (n div 100) < 10" "nat (n mod 100 div 10) < 10" "nat (n mod 10) < 10"
    using assms pos_mod_bound [of 100 n] by linarith+
  from this [THEN token_length] show ?thesis by (simp add: last_name_def)
qed

definition good_vars :: "RandVars \<Rightarrow> bool" where
  "good_vars G \<longleftrightarrow> 0 \<le> cLoad G \<and> cLoad G < 256 \<and> 0 \<le> cCustomerID G \<and> cCustomerID G < 1024 \<and>
     0 \<le> cItemID G \<and> cItemID G < 8192"

lemma yields_init_rand: "yields (init_rand R) (\<lambda>G R'. good_vars G)"
  unfolding init_rand_def by (simp add: Intn_def good_vars_def)

lemma yields_randCLast [steps]:
  assumes "good_vars G"
  shows "yields (randCLast G R) (\<lambda>s R'. \<exists>n. 0 \<le> n \<and> n < 1000 \<and> s = last_name n)"
proof -
  define m where "m = (or (int (shd R) mod 256) (int (shd (stl R)) mod 1000) + cLoad G) smod 1000"
  have "0 \<le> or (int (shd R) mod 256) (int (shd (stl R)) mod 1000)" by simp
  then have "m = (or (int (shd R) mod 256) (int (shd (stl R)) mod 1000) + cLoad G) mod 1000"
    using assms by (simp add: m_def good_vars_def go_arith)
  then have m: "0 \<le> m" "m < 1000" by simp_all
  have "randCLast G R = Some (last_name m, stl (stl R))"
    using m by (simp add: randCLast_def Intn_def randCLastSyllables_Some flip: m_def)
  then show ?thesis using m by auto
qed

lemma yields_randCustomerID [steps]:
  assumes "good_vars G"
  shows "yields (randCustomerID G R) (\<lambda>i R'. 1 \<le> i \<and> i \<le> 3000)"
proof -
  have "0 \<le> or (int (shd R) mod 1024) (int (shd (stl R)) mod 3000 + 1)" by simp
  then show ?thesis
    using assms pos_mod_bound [of 3000 "or (int (shd R) mod 1024) (int (shd (stl R)) mod 3000 + 1) + cCustomerID G"]
    by (simp add: randCustomerID_def Intn_def good_vars_def go_arith)
qed

lemma yields_randItemID [steps]:
  assumes "good_vars G"
  shows "yields (randItemID G R) (\<lambda>i R'. 1 \<le> i \<and> i \<le> 100000 \<and> R' = stl (stl R))"
proof -
  have "0 \<le> or (int (shd R) mod 8192) (int (shd (stl R)) mod 100000 + 1)" by simp
  then show ?thesis
    using assms pos_mod_bound [of 100000 "or (int (shd R) mod 8192) (int (shd (stl R)) mod 100000 + 1) + cItemID G"]
    by (simp add: randItemID_def Intn_def good_vars_def go_arith)
qed

subsection \<open>Numbered placeholders\<close>

fun numbered :: "int \<Rightarrow> string \<Rightarrow> string" where
  "numbered i [] = []"
| "numbered i (c # s) =
     (if c = CHR ''?'' then ''$'' @ fmt_d i @ numbered (i + 1) s else c # numbered i s)"

lemma set_singleton_sub: "d \<in> X \<Longrightarrow> set [d] \<subseteq> X"
  by simp

lemma dec_only_digits: "set (dec n) \<subseteq> set ''0123456789''"
proof (induction n rule: less_induct)
  case (less n)
  show ?case
  proof (cases "n < 10")
    case True
    show ?thesis unfolding dec_small [OF True]
      by (rule set_singleton_sub [OF digit_isdigit [OF True]])
  next
    case False
    then have "set (dec (n div 10)) \<subseteq> set ''0123456789''"
      "set [digit (n mod 10)] \<subseteq> set ''0123456789''"
      using less [of "n div 10"] by (simp_all add: set_singleton_sub [OF digit_isdigit] del: list.set)
    then show ?thesis using False by (simp only: dec_large set_append Un_least not_less)
  qed
qed

lemma fmt_d_no_mark: "0 \<le> i \<Longrightarrow> CHR ''?'' \<notin> set (fmt_d i)"
  using dec_only_digits [of "nat i"] by (auto simp: fmt_d_def)

lemma replace_first_none: "c \<notin> set s \<Longrightarrow> replace_first c new s = s"
  by (induction s) auto

lemma replace_first_append: "c \<notin> set s \<Longrightarrow> replace_first c new (s @ c # t) = s @ new @ t"
  by (induction s) auto

lemma convertToPQ_loop_numbered:
  "0 \<le> i \<Longrightarrow> CHR ''?'' \<notin> set pre \<Longrightarrow> convertToPQ_loop i (pre @ s) = Some (pre @ numbered i s)"
proof (induction s arbitrary: i pre)
  case Nil
  then show ?case by (subst convertToPQ_loop.simps) (simp add: replace_first_none)
next
  case (Cons c s)
  show ?case
  proof (cases "c = CHR ''?''")
    case True
    have "convertToPQ_loop i (pre @ c # s) = convertToPQ_loop (i + 1) (pre @ (''$'' @ fmt_d i) @ s)"
      using Cons.prems True by (subst convertToPQ_loop.simps) (simp add: replace_first_append)
    also have "\<dots> = convertToPQ_loop (i + 1) ((pre @ ''$'' @ fmt_d i) @ s)" by simp
    also have "\<dots> = Some ((pre @ ''$'' @ fmt_d i) @ numbered (i + 1) s)"
      using Cons.prems fmt_d_no_mark by (intro Cons.IH) auto
    finally show ?thesis using True by simp
  next
    case False
    then show ?thesis using Cons.IH [of i "pre @ [c]"] Cons.prems by simp
  qed
qed

lemma numbered_append_marks:
  "CHR ''?'' \<notin> set s \<Longrightarrow> numbered i (s @ t) = s @ numbered i t"
  by (induction s) auto

text \<open>
  C12. Placeholders.  Rewriting a statement for Postgres ends and numbers its placeholders from 1
  in order, leaving the rest of the text alone; for another driver the text stays as it is.
\<close>

theorem convertToPQ_numbers:
  "convertToPQ q driver = Some (if driver = ''postgres'' then numbered 1 q else q)"
  using convertToPQ_loop_numbered [of 1 "[]" q] by (simp add: convertToPQ_def)

end
