(* ===== verification/TpccSql.thy ===== *)
theory TpccSql
  imports TpccRand
begin

text \<open>
  The SQL texts of the TPC-C transactions (\<open>new_order.go\<close>, \<open>payment.go\<close>, \<open>delivery.go\<close>,
  \<open>order_status.go\<close>, \<open>stock_level.go\<close>), the generators of the three batch statements of
  New-Order, and the fit of their placeholders after \<open>convertToPQ\<close>.  What the statements do to the
  tables is said in \<open>TpccTxn\<close>.
\<close>

definition newOrderSelectCustomer :: string where
  "newOrderSelectCustomer =
     ''SELECT c_discount, c_last, c_credit, w_tax FROM customer, warehouse WHERE w_id = ? AND'' @
     '' c_w_id = w_id AND c_d_id = ? AND c_id = ?''"

definition newOrderSelectDistrict :: string where
  "newOrderSelectDistrict =
     ''SELECT d_next_o_id, d_tax FROM district WHERE d_id = ? AND d_w_id = ? FOR UPDATE''"

definition newOrderUpdateDistrict :: string where
  "newOrderUpdateDistrict =
     ''UPDATE district SET d_next_o_id = ? + 1 WHERE d_id = ? AND d_w_id = ?''"

definition newOrderInsertOrder :: string where
  "newOrderInsertOrder =
     ''INSERT INTO orders (o_id, o_d_id, o_w_id, o_c_id, o_entry_d, o_ol_cnt, o_all_local)'' @
     '' VALUES (?, ?, ?, ?, ?, ?, ?)''"

definition newOrderInsertNewOrder :: string where
  "newOrderInsertNewOrder =
     ''INSERT INTO new_order (no_o_id, no_d_id, no_w_id) VALUES (?, ?, ?)''"

definition newOrderUpdateStock :: string where
  "newOrderUpdateStock =
     ''UPDATE stock SET s_quantity = ?, s_ytd = s_ytd + ?, s_order_cnt = s_order_cnt + 1,'' @
     '' s_remote_cnt = s_remote_cnt + ? WHERE s_i_id = ? AND s_w_id = ?''"

definition paymentUpdateDistrict :: string where
  "paymentUpdateDistrict =
     ''UPDATE district SET d_ytd = d_ytd + ? WHERE d_w_id = ? AND d_id = ?''"

definition paymentSelectDistrict :: string where
  "paymentSelectDistrict =
     ''SELECT d_street_1, d_street_2, d_city, d_state, d_zip, d_name FROM district WHERE'' @
     '' d_w_id = ? AND d_id = ?''"

definition paymentUpdateWarehouse :: string where
  "paymentUpdateWarehouse =
     ''UPDATE warehouse SET w_ytd = w_ytd + ? WHERE w_id = ?''"

definition paymentSelectWarehouse :: string where
  "paymentSelectWarehouse =
     ''SELECT w_street_1, w_street_2, w_city, w_state, w_zip, w_name FROM warehouse WHERE'' @
     '' w_id = ?''"

definition paymentSelectCustomerListByLast :: string where
  "paymentSelectCustomerListByLast =
     ''SELECT c_id FROM customer WHERE c_w_id = ? AND c_d_id = ? AND c_last = ? ORDER BY'' @
     '' c_first''"

definition paymentSelectCustomerForUpdate :: string where
  "paymentSelectCustomerForUpdate =
     ''SELECT c_first, c_middle, c_last, c_street_1, c_street_2, c_city, c_state, c_zip,'' @
     '' c_phone,'' @
     [CHR 0x0A] @
     ''c_credit, c_credit_lim, c_discount, c_balance, c_since FROM customer WHERE c_w_id = ?'' @
     '' AND c_d_id = ? '' @
     [CHR 0x0A] @
     ''AND c_id = ? FOR UPDATE''"

definition paymentUpdateCustomer :: string where
  "paymentUpdateCustomer =
     ''UPDATE customer SET c_balance = c_balance - ?, c_ytd_payment = c_ytd_payment + ?, '' @
     [CHR 0x0A] @
     ''c_payment_cnt = c_payment_cnt + 1 WHERE c_w_id = ? AND c_d_id = ? AND c_id = ?''"

definition paymentSelectCustomerData :: string where
  "paymentSelectCustomerData =
     ''SELECT c_data FROM customer WHERE c_w_id = ? AND c_d_id = ? AND c_id = ?''"

definition paymentUpdateCustomerWithData :: string where
  "paymentUpdateCustomerWithData =
     ''UPDATE customer SET c_balance = c_balance - ?, c_ytd_payment = c_ytd_payment + ?, '' @
     [CHR 0x0A] @
     ''c_payment_cnt = c_payment_cnt + 1, c_data = ? WHERE c_w_id = ? AND c_d_id = ? AND c_id'' @
     '' = ?''"

definition paymentInsertHistory :: string where
  "paymentInsertHistory =
     ''INSERT INTO history (h_c_d_id, h_c_w_id, h_c_id, h_d_id, h_w_id, h_date, h_amount,'' @
     '' h_data)'' @
     [CHR 0x0A] @
     ''VALUES (?, ?, ?, ?, ?, ?, ?, ?)''"

definition deliverySelectNewOrder :: string where
  "deliverySelectNewOrder =
     ''SELECT no_o_id FROM new_order WHERE no_w_id = ? AND no_d_id = ? ORDER BY no_o_id ASC'' @
     '' LIMIT 1 FOR UPDATE''"

definition deliveryDeleteNewOrder :: string where
  "deliveryDeleteNewOrder =
     ''DELETE FROM new_order WHERE (no_w_id, no_d_id, no_o_id) IN ('' @
     [CHR 0x0A] @
     [CHR 0x09] @
     ''(?,?,?),(?,?,?),(?,?,?),(?,?,?),(?,?,?),(?,?,?),(?,?,?),(?,?,?),(?,?,?),(?,?,?)'' @
     [CHR 0x0A] @
     '')''"

definition deliveryUpdateOrder :: string where
  "deliveryUpdateOrder =
     ''UPDATE orders SET o_carrier_id = ? WHERE (o_w_id, o_d_id, o_id) IN ('' @
     [CHR 0x0A] @
     [CHR 0x09] @
     ''(?,?,?),(?,?,?),(?,?,?),(?,?,?),(?,?,?),(?,?,?),(?,?,?),(?,?,?),(?,?,?),(?,?,?)'' @
     [CHR 0x0A] @
     '')''"

definition deliverySelectOrders :: string where
  "deliverySelectOrders =
     ''SELECT o_d_id, o_c_id FROM orders WHERE (o_w_id, o_d_id, o_id) IN ('' @
     [CHR 0x0A] @
     [CHR 0x09] @
     ''(?,?,?),(?,?,?),(?,?,?),(?,?,?),(?,?,?),(?,?,?),(?,?,?),(?,?,?),(?,?,?),(?,?,?)'' @
     [CHR 0x0A] @
     '')''"

definition deliveryUpdateOrderLine :: string where
  "deliveryUpdateOrderLine =
     ''UPDATE order_line SET ol_delivery_d = ? WHERE (ol_w_id, ol_d_id, ol_o_id) IN ('' @
     [CHR 0x0A] @
     [CHR 0x09] @
     ''(?,?,?),(?,?,?),(?,?,?),(?,?,?),(?,?,?),(?,?,?),(?,?,?),(?,?,?),(?,?,?),(?,?,?)'' @
     [CHR 0x0A] @
     '')''"

definition deliverySelectSumAmount :: string where
  "deliverySelectSumAmount =
     ''SELECT ol_d_id, SUM(ol_amount) FROM order_line WHERE (ol_w_id, ol_d_id, ol_o_id) IN ('' @
     [CHR 0x0A] @
     [CHR 0x09] @
     ''(?,?,?),(?,?,?),(?,?,?),(?,?,?),(?,?,?),(?,?,?),(?,?,?),(?,?,?),(?,?,?),(?,?,?)'' @
     [CHR 0x0A] @
     '') GROUP BY ol_d_id''"

definition deliveryUpdateCustomer :: string where
  "deliveryUpdateCustomer =
     ''UPDATE customer SET c_balance = c_balance + ?, c_delivery_cnt = c_delivery_cnt + 1'' @
     '' WHERE c_w_id = ? AND c_d_id = ? AND c_id = ?''"

definition orderStatusSelectCustomerCntByLast :: string where
  "orderStatusSelectCustomerCntByLast =
     ''SELECT count(c_id) namecnt FROM customer WHERE c_w_id = ? AND c_d_id = ? AND c_last ='' @
     '' ?''"

definition orderStatusSelectCustomerByLast :: string where
  "orderStatusSelectCustomerByLast =
     ''SELECT c_balance, c_first, c_middle, c_id FROM customer WHERE c_w_id = ? AND c_d_id ='' @
     '' ? AND c_last = ? ORDER BY c_first''"

definition orderStatusSelectCustomerByID :: string where
  "orderStatusSelectCustomerByID =
     ''SELECT c_balance, c_first, c_middle, c_last FROM customer WHERE c_w_id = ? AND c_d_id'' @
     '' = ? AND c_id = ?''"

definition orderStatusSelectLatestOrder :: string where
  "orderStatusSelectLatestOrder =
     ''SELECT o_id, o_carrier_id, o_entry_d FROM orders WHERE o_w_id = ? AND o_d_id = ? AND'' @
     '' o_c_id = ? ORDER BY o_id DESC LIMIT 1''"

definition orderStatusSelectOrderLine :: string where
  "orderStatusSelectOrderLine =
     ''SELECT ol_i_id, ol_supply_w_id, ol_quantity, ol_amount, ol_delivery_d FROM order_line'' @
     '' WHERE ol_w_id = ? AND ol_d_id = ? AND ol_o_id = ?''"

definition stockLevelCount :: string where
  "stockLevelCount =
     ''SELECT /*+ TIDB_INLJ(order_line,stock) */ COUNT(DISTINCT (s_i_id)) stock_count FROM'' @
     '' order_line, stock '' @
     [CHR 0x0A] @
     ''WHERE ol_w_id = ? AND ol_d_id = ? AND ol_o_id < ? AND ol_o_id >= ? - 20 AND s_w_id = ?'' @
     '' AND s_i_id = ol_i_id AND s_quantity < ?''"

definition stockLevelSelectDistrict :: string where
  "stockLevelSelectDistrict =
     ''SELECT d_next_o_id FROM district WHERE d_w_id = ? AND d_id = ?''"

subsection \<open>Batch statements of New-Order\<close>

fun marks_loop :: "nat \<Rightarrow> int \<Rightarrow> string \<Rightarrow> string \<Rightarrow> string" where
  "marks_loop 0 i m buf = buf"
| "marks_loop (Suc k) i m buf =
     marks_loop k (i + 1) m (buf @ (if i \<noteq> 0 then '','' else []) @ m)"

definition genNewOrderSelectItemsSQL :: "int \<Rightarrow> string" where
  "genNewOrderSelectItemsSQL cnt =
     marks_loop (nat cnt) 0 ''?''
       ''SELECT i_price, i_name, i_data, i_id FROM item WHERE i_id IN ('' @ '')''"

definition genNewOrderSelectStockSQL :: "int \<Rightarrow> string" where
  "genNewOrderSelectStockSQL cnt =
     marks_loop (nat cnt) 0 ''(?,?)''
       (''SELECT s_i_id, s_quantity, s_data, s_dist_01, s_dist_02, s_dist_03, s_dist_04, s_dist_05,'' @
        '' s_dist_06, s_dist_07, s_dist_08, s_dist_09, s_dist_10 FROM stock WHERE (s_w_id, s_i_id) IN ('') @
     '') FOR UPDATE''"

definition genNewOrderInsertOrderLineSQL :: "int \<Rightarrow> string" where
  "genNewOrderInsertOrderLineSQL cnt =
     marks_loop (nat cnt) 0 ''(?,?,?,?,?,?,?,?,?)''
       (''INSERT into order_line (ol_o_id, ol_d_id, ol_w_id, ol_number, ol_i_id, ol_supply_w_id,'' @
        '' ol_quantity, ol_amount, ol_dist_info) VALUES '')"

text \<open>The arrays that \<open>init\<close> fills: 16 places, of which 5 to 15 hold a statement.\<close>

definition newOrderSQLs :: "(int \<Rightarrow> string) \<Rightarrow> string list" where
  "newOrderSQLs gen = map (\<lambda>i. if 5 \<le> i \<and> i \<le> 15 then gen i else []) [0..15]"

definition newOrderSelectItemSQLs :: "string list" where
  "newOrderSelectItemSQLs = newOrderSQLs genNewOrderSelectItemsSQL"

definition newOrderSelectStockSQLs :: "string list" where
  "newOrderSelectStockSQLs = newOrderSQLs genNewOrderSelectStockSQL"

definition newOrderInsertOrderLineSQLs :: "string list" where
  "newOrderInsertOrderLineSQLs = newOrderSQLs genNewOrderInsertOrderLineSQL"

lemma newOrderSQLs_index:
  assumes "5 \<le> n" "n \<le> 15"
  shows "go_index (newOrderSQLs gen) n = Some (gen n)"
proof -
  have "length (newOrderSQLs gen) = 16" by (simp add: newOrderSQLs_def)
  moreover have "newOrderSQLs gen ! nat n = gen n"
    using assms by (simp add: newOrderSQLs_def nth_upto)
  ultimately show ?thesis using assms by (simp add: go_index_Some)
qed

subsection \<open>Placeholders\<close>

definition places :: "string \<Rightarrow> nat" where
  "places s = length (filter (\<lambda>c. c = CHR ''?'') s)"

lemma places_append [simp]: "places (a @ b) = places a + places b"
  by (simp add: places_def)

lemma places_marks_loop: "places (marks_loop k i m buf) = places buf + k * places m"
  by (induction k arbitrary: i buf) (simp_all add: places_def)

lemma places_select_items: "0 \<le> cnt \<Longrightarrow> int (places (genNewOrderSelectItemsSQL cnt)) = cnt"
  by (simp add: genNewOrderSelectItemsSQL_def places_marks_loop) (simp add: places_def)

lemma places_select_stock: "0 \<le> cnt \<Longrightarrow> int (places (genNewOrderSelectStockSQL cnt)) = 2 * cnt"
  by (simp add: genNewOrderSelectStockSQL_def places_marks_loop) (simp add: places_def)

lemma places_insert_lines: "0 \<le> cnt \<Longrightarrow> int (places (genNewOrderInsertOrderLineSQL cnt)) = 9 * cnt"
  by (simp add: genNewOrderInsertOrderLineSQL_def places_marks_loop) (simp add: places_def)

end
