(* ===== verification/TpccNewOrder.thy ===== *)
theory TpccNewOrder
  imports TpccDb TpccSql GoFloat
begin

text \<open>
  The New-Order transaction: \<open>tpcc/new_order.go\<close>, run with client-side statements.  The inputs
  are drawn first; then the statements run in one transaction.  \<open>World\<close> holds what comes from
  outside: the text of the current time and the database's conversion of a number to cents.
\<close>

record World =
  now :: string
  to_cents :: "rat \<Rightarrow> int"

definition districtPerWarehouse :: int where
  "districtPerWarehouse = 10"

subsection \<open>Inputs\<close>

record orderItem =
  olSupplyWID :: int
  olIID :: int
  olNumber :: int
  olQuantity :: int
  olAmount :: rat
  iPrice :: rat
  iName :: string
  iData :: string
  foundInItems :: bool
  foundInStock :: bool
  sQuantity :: int
  sDist :: string
  remoteWarehouse :: int

definition zeroItem :: orderItem where
  "zeroItem = \<lparr>olSupplyWID = 0, olIID = 0, olNumber = 0, olQuantity = 0, olAmount = 0, iPrice = 0,
     iName = [], iData = [], foundInItems = False, foundInStock = False, sQuantity = 0, sDist = [],
     remoteWarehouse = 0\<rparr>"

text \<open>A loop that draws until the warehouse differs; \<open>None\<close> is a loop that does not end.\<close>

partial_function (option) otherWarehouse_loop :: "int \<Rightarrow> int \<Rightarrow> rnd \<Rightarrow> (int \<times> rnd) option" where
  "otherWarehouse_loop W warehouse R =
     (case randInt 1 W R of
        None \<Rightarrow> None
      | Some (other, R) \<Rightarrow>
          if other \<noteq> warehouse then Some (other, R) else otherWarehouse_loop W warehouse R)"

definition otherWarehouse :: "int \<Rightarrow> int \<Rightarrow> rnd \<Rightarrow> (int \<times> rnd) option" where
  "otherWarehouse W warehouse R =
     (if W = 1 then Some (warehouse, R) else otherWarehouse_loop W warehouse R)"

text \<open>The search for an item number that no earlier line has.\<close>

partial_function (option) uniqueItemID ::
  "RandVars \<Rightarrow> (int \<rightharpoonup> nat) \<Rightarrow> rnd \<Rightarrow> (int \<times> rnd) option" where
  "uniqueItemID G itemsMap R =
     (case randItemID G R of
        None \<Rightarrow> None
      | Some (iid, R) \<Rightarrow>
          if itemsMap iid \<noteq> None then uniqueItemID G itemsMap R else Some (iid, R))"

text \<open>One line: its item, with the rest of the state of the loop.\<close>

definition newOrder_item ::
  "RandVars \<Rightarrow> int \<Rightarrow> int \<Rightarrow> bool \<Rightarrow> nat \<Rightarrow> (int \<rightharpoonup> nat) \<Rightarrow> rnd \<Rightarrow>
   ((orderItem \<times> (int \<rightharpoonup> nat) \<times> bool) \<times> rnd) option" where
  "newOrder_item G W wID rollback i itemsMap R = do {
     let item = zeroItem\<lparr>olNumber := int i + 1\<rparr>;
     ((item, itemsMap), R) \<leftarrow>
       (if rollback then Some ((item\<lparr>olIID := - 1\<rparr>, itemsMap), R)
        else do {
          (iid, R) \<leftarrow> uniqueItemID G itemsMap R;
          Some ((item\<lparr>olIID := iid\<rparr>, itemsMap(iid \<mapsto> i)), R)
        });
     (home, R) \<leftarrow> (if W = 1 then Some (True, R)
        else do { (r, R) \<leftarrow> randInt 1 100 R; Some (r \<noteq> 1, R) });
     (item, R) \<leftarrow>
       (if home then Some (item\<lparr>olSupplyWID := wID\<rparr>, R)
        else do {
          (other, R) \<leftarrow> otherWarehouse W wID R;
          Some (item\<lparr>olSupplyWID := other, remoteWarehouse := 1\<rparr>, R)
        });
     (quantity, R) \<leftarrow> randInt 1 10 R;
     Some ((item\<lparr>olQuantity := quantity\<rparr>, itemsMap, home), R)
   }"

fun newOrder_items ::
  "nat \<Rightarrow> RandVars \<Rightarrow> int \<Rightarrow> int \<Rightarrow> int \<Rightarrow> orderItem list \<Rightarrow> (int \<rightharpoonup> nat) \<Rightarrow> int \<Rightarrow> rnd \<Rightarrow>
   ((orderItem list \<times> (int \<rightharpoonup> nat) \<times> int) \<times> rnd) option" where
  "newOrder_items 0 G W wID rbk its itemsMap allLocal R = Some ((its, itemsMap, allLocal), R)"
| "newOrder_items (Suc k) G W wID rbk its itemsMap allLocal R = do {
     ((item, itemsMap, home), R) \<leftarrow>
       newOrder_item G W wID (k = 0 \<and> rbk = 1) (length its) itemsMap R;
     newOrder_items k G W wID rbk (its @ [item]) itemsMap (if home then allLocal else 0) R
   }"

record newOrderData =
  wID :: int
  dID :: int
  cID :: int
  oOlCnt :: int
  no_items :: "orderItem list"
  no_itemsMap :: "int \<rightharpoonup> nat"
  no_allLocal :: int

definition newOrder_input :: "RandVars \<Rightarrow> int \<Rightarrow> rnd \<Rightarrow> (newOrderData \<times> rnd) option" where
  "newOrder_input G W R = do {
     (w, R) \<leftarrow> randInt 1 W R;
     (d, R) \<leftarrow> randInt 1 districtPerWarehouse R;
     (c, R) \<leftarrow> randCustomerID G R;
     (n, R) \<leftarrow> randInt 5 15 R;
     (rbk, R) \<leftarrow> randInt 1 100 R;
     ((its, itemsMap, allLocal), R) \<leftarrow> newOrder_items (nat n) G W w rbk [] Map.empty 1 R;
     Some (\<lparr>wID = w, dID = d, cID = c, oOlCnt = n, no_items = its, no_itemsMap = itemsMap,
       no_allLocal = allLocal\<rparr>, R)
   }"

subsection \<open>Statements\<close>

text \<open>Scanning a \<open>DECIMAL\<close> column into a \<open>float64\<close> gives the nearest one.\<close>

definition scan_cents :: "int \<Rightarrow> rat" where
  "scan_cents x = rnd64 (of_int x / 100)"

definition scan_rate :: "int \<Rightarrow> rat" where
  "scan_rate x = rnd64 (of_int x / 10000)"

definition do_newOrderSelectCustomer ::
  "int \<Rightarrow> int \<Rightarrow> int \<Rightarrow> (rat \<times> string \<times> string \<times> rat) stmt" where
  "do_newOrderSelectCustomer w d c = select_row (\<lambda>t.
     [(scan_rate (c_discount r), c_last r, c_credit r, scan_rate (w_tax v)).
        r \<leftarrow> customers t, v \<leftarrow> warehouses t,
        w_id v = w \<and> c_w_id r = w_id v \<and> c_d_id r = d \<and> c_id r = c])"

definition do_newOrderSelectDistrict :: "int \<Rightarrow> int \<Rightarrow> (int \<times> rat) stmt" where
  "do_newOrderSelectDistrict d w = select_row (\<lambda>t.
     [(d_next_o_id r, scan_rate (d_tax r)). r \<leftarrow> districts t, d_id r = d \<and> d_w_id r = w])"

definition do_newOrderUpdateDistrict :: "int \<Rightarrow> int \<Rightarrow> int \<Rightarrow> unit stmt" where
  "do_newOrderUpdateDistrict n d w = update (\<lambda>t. t\<lparr>districts :=
     set_where (\<lambda>r. d_id r = d \<and> d_w_id r = w) (\<lambda>r. r\<lparr>d_next_o_id := n + 1\<rparr>) (districts t)\<rparr>)"

definition do_newOrderInsertOrder ::
  "int \<Rightarrow> int \<Rightarrow> int \<Rightarrow> int \<Rightarrow> string \<Rightarrow> int \<Rightarrow> int \<Rightarrow> unit stmt" where
  "do_newOrderInsertOrder o' d w c entry cnt allLocal =
     insert_rows o_key orders (\<lambda>rs t. t\<lparr>orders := rs\<rparr>)
       [\<lparr>o_id = o', o_d_id = d, o_w_id = w, o_c_id = c, o_entry_d = entry, o_carrier_id = None,
         o_ol_cnt = cnt, o_all_local = allLocal\<rparr>]"

definition do_newOrderInsertNewOrder :: "int \<Rightarrow> int \<Rightarrow> int \<Rightarrow> unit stmt" where
  "do_newOrderInsertNewOrder o' d w =
     insert_rows no_key new_orders (\<lambda>rs t. t\<lparr>new_orders := rs\<rparr>)
       [\<lparr>no_o_id = o', no_d_id = d, no_w_id = w\<rparr>]"

definition do_selectItems :: "int list \<Rightarrow> item_row list stmt" where
  "do_selectItems ids = select (\<lambda>t. filter (\<lambda>r. i_id r \<in> set ids) (items t))"

definition do_selectStock :: "(int \<times> int) list \<Rightarrow> stock_row list stmt" where
  "do_selectStock ws = select (\<lambda>t. filter (\<lambda>r. s_key r \<in> set ws) (stocks t))"

definition do_newOrderUpdateStock :: "int \<Rightarrow> int \<Rightarrow> int \<Rightarrow> int \<Rightarrow> int \<Rightarrow> unit stmt" where
  "do_newOrderUpdateStock quantity ytd remote i w = update (\<lambda>t. t\<lparr>stocks :=
     set_where (\<lambda>r. s_i_id r = i \<and> s_w_id r = w)
       (\<lambda>r. r\<lparr>s_quantity := quantity, s_ytd := s_ytd r + ytd, s_order_cnt := s_order_cnt r + 1,
          s_remote_cnt := s_remote_cnt r + remote\<rparr>) (stocks t)\<rparr>)"

definition do_insertOrderLines :: "order_line_row list \<Rightarrow> unit stmt" where
  "do_insertOrderLines rows =
     insert_rows ol_key order_lines (\<lambda>rs t. t\<lparr>order_lines := rs\<rparr>) rows"

subsection \<open>The transaction\<close>

text \<open>Process 6: the rows of the items found; a row of an item not asked for dereferences \<open>nil\<close>.\<close>

fun scan_items :: "item_row list \<Rightarrow> (int \<rightharpoonup> nat) \<Rightarrow> orderItem list \<Rightarrow> orderItem list option" where
  "scan_items [] itemsMap its = Some its"
| "scan_items (r # rs) itemsMap its =
     (case itemsMap (i_id r) of
        None \<Rightarrow> None
      | Some i \<Rightarrow> scan_items rs itemsMap (its[i := (its ! i)
          \<lparr>iPrice := scan_cents (i_price r), iName := i_name r, iData := i_data r,
           foundInItems := True\<rparr>]))"

definition fadd :: "rat \<Rightarrow> rat \<Rightarrow> rat" where
  "fadd a b = rnd64 (a + b)"

definition fsub :: "rat \<Rightarrow> rat \<Rightarrow> rat" where
  "fsub a b = rnd64 (a - b)"

definition line_amount :: "int \<Rightarrow> rat \<Rightarrow> rat \<Rightarrow> rat \<Rightarrow> rat \<Rightarrow> rat" where
  "line_amount quantity price wTax dTax discount =
     fmul (fmul (fmul (f64 quantity) price) (fadd (fadd 1 wTax) dTax)) (fsub 1 discount)"

text \<open>Process 7: the rows of the stock.\<close>

definition next_quantity :: "int \<Rightarrow> int \<Rightarrow> int" where
  "next_quantity quantity ordered =
     (let q = quantity - ordered in if q < 10 then q + 91 else q)"

fun scan_stock ::
  "stock_row list \<Rightarrow> int \<Rightarrow> rat \<Rightarrow> rat \<Rightarrow> rat \<Rightarrow> (int \<rightharpoonup> nat) \<Rightarrow> orderItem list \<Rightarrow> orderItem list option" where
  "scan_stock [] d wTax dTax discount itemsMap its = Some its"
| "scan_stock (r # rs) d wTax dTax discount itemsMap its =
     (case itemsMap (s_i_id r) of
        None \<Rightarrow> None
      | Some i \<Rightarrow> do {
          dist \<leftarrow> go_index (s_dist r) (d - 1);
          let item = its ! i;
          let item = item\<lparr>foundInStock := True,
            sQuantity := next_quantity (s_quantity r) (olQuantity item), sDist := dist,
            olAmount := line_amount (olQuantity item) (iPrice item) wTax dTax discount\<rparr>;
          scan_stock rs d wTax dTax discount itemsMap (its[i := item])
        })"

text \<open>Process 8.\<close>

fun update_stocks :: "orderItem list \<Rightarrow> body \<Rightarrow> body" where
  "update_stocks [] k s = k s"
| "update_stocks (item # its) k s =
     (if \<not> foundInStock item then return (Some [Plain ''item not found in stock'']) s
      else if olIID item < 0 then return None s
      else exec newOrderUpdateStock
        (do_newOrderUpdateStock (sQuantity item) (olQuantity item) (remoteWarehouse item)
           (olIID item) (olSupplyWID item))
        (\<lambda>_. update_stocks its k) s)"

text \<open>Process 9: the arguments of the batch, by line.\<close>

definition order_line_of :: "World \<Rightarrow> int \<Rightarrow> int \<Rightarrow> int \<Rightarrow> orderItem \<Rightarrow> order_line_row" where
  "order_line_of Z o' d w item =
     \<lparr>ol_o_id = o', ol_d_id = d, ol_w_id = w, ol_number = olNumber item, ol_i_id = olIID item,
      ol_supply_w_id = olSupplyWID item, ol_delivery_d = None, ol_quantity = olQuantity item,
      ol_amount = to_cents Z (olAmount item), ol_dist_info = sDist item\<rparr>"

text \<open>Processes 7 to 9, with what the earlier ones read.\<close>

definition newOrder_lines ::
  "World \<Rightarrow> newOrderData \<Rightarrow> int \<Rightarrow> rat \<Rightarrow> rat \<Rightarrow> rat \<Rightarrow> orderItem list \<Rightarrow> body" where
  "newOrder_lines Z d oID wTax dTax cDiscount its =
     or_panic (go_index newOrderSelectStockSQLs (int (length its))) (\<lambda>selectStockSQL.
     exec selectStockSQL (do_selectStock (map (\<lambda>i. (olSupplyWID i, olIID i)) its)) (\<lambda>stockRows.
     or_panic (scan_stock stockRows (dID d) wTax dTax cDiscount (no_itemsMap d) its) (\<lambda>its.
     exec selectStockSQL no_change (\<lambda>_.
     update_stocks its (
     or_panic (go_index newOrderInsertOrderLineSQLs (int (length its))) (\<lambda>insertOrderLineSQL.
     exec insertOrderLineSQL
       (do_insertOrderLines (map (order_line_of Z oID (dID d) (wID d)) its)) (\<lambda>_.
     commit)))))))"

text \<open>Process 6; an item that is not found ends the transaction.\<close>

definition newOrder_found ::
  "World \<Rightarrow> newOrderData \<Rightarrow> int \<Rightarrow> rat \<Rightarrow> rat \<Rightarrow> rat \<Rightarrow> body" where
  "newOrder_found Z d oID wTax dTax cDiscount =
     or_panic (go_index newOrderSelectItemSQLs (int (length (no_items d)))) (\<lambda>selectItemSQL.
     exec selectItemSQL (do_selectItems (map olIID (no_items d))) (\<lambda>itemRows.
     or_panic (scan_items itemRows (no_itemsMap d) (no_items d)) (\<lambda>its.
     exec selectItemSQL no_change (\<lambda>_.
     case find (\<lambda>item. \<not> foundInItems item) its of
       Some item \<Rightarrow> return (if olIID item = - 1 then None else Some [Plain ''item not found''])
     | None \<Rightarrow> newOrder_lines Z d oID wTax dTax cDiscount its))))"

definition newOrder_body :: "World \<Rightarrow> newOrderData \<Rightarrow> body" where
  "newOrder_body Z d =
     exec newOrderSelectCustomer (do_newOrderSelectCustomer (wID d) (dID d) (cID d))
       (\<lambda>(cDiscount, cLast, cCredit, wTax).
     exec newOrderSelectDistrict (do_newOrderSelectDistrict (dID d) (wID d))
       (\<lambda>(dNextOID, dTax).
     exec newOrderUpdateDistrict (do_newOrderUpdateDistrict dNextOID (dID d) (wID d)) (\<lambda>_.
     exec newOrderInsertOrder (do_newOrderInsertOrder dNextOID (dID d) (wID d) (cID d) (now Z)
         (oOlCnt d) (no_allLocal d)) (\<lambda>_.
     exec newOrderInsertNewOrder (do_newOrderInsertNewOrder dNextOID (dID d) (wID d)) (\<lambda>_.
     newOrder_found Z d dNextOID wTax dTax cDiscount)))))"

definition runNewOrder ::
  "World \<Rightarrow> RandVars \<Rightarrow> int \<Rightarrow> rnd \<Rightarrow> session \<Rightarrow> (result \<times> session \<times> rnd) option" where
  "runNewOrder Z G W R s = do {
     (d, R) \<leftarrow> newOrder_input G W R;
     let (r, s) = transaction (newOrder_body Z d) s;
     Some (r, s, R)
   }"

end
