(* ===== verification/TpccTxn.thy ===== *)
theory TpccTxn
  imports TpccNewOrder
begin

text \<open>
  The transactions Payment, Delivery, Order-Status and Stock-Level with client-side statements:
  \<open>tpcc/payment.go\<close>, \<open>delivery.go\<close>, \<open>order_status.go\<close> and \<open>stock_level.go\<close>.  Amounts are numbers
  of cents, the values the \<open>DECIMAL(_, 2)\<close> columns hold and the \<open>float64\<close> variables carry.
\<close>

subsection \<open>Payment\<close>

record paymentData =
  p_wID :: int
  p_dID :: int
  p_cWID :: int
  p_cDID :: int
  p_hAmount :: int
  p_cID :: int
  p_cLast :: string

definition payment_input :: "RandVars \<Rightarrow> int \<Rightarrow> rnd \<Rightarrow> (paymentData \<times> rnd) option" where
  "payment_input G W R = do {
     (w, R) \<leftarrow> randInt 1 W R;
     (d, R) \<leftarrow> randInt 1 districtPerWarehouse R;
     (amount, R) \<leftarrow> randInt 100 500000 R;
     (i, R) \<leftarrow> Intn 100 R;
     ((cLast, c), R) \<leftarrow>
       (if i < 60 then do { (cLast, R) \<leftarrow> randCLast G R; Some ((cLast, 0), R) }
        else do { (c, R) \<leftarrow> randCustomerID G R; Some (([], c), R) });
     (home, R) \<leftarrow> (if W = 1 then Some (True, R) else do { (i, R) \<leftarrow> Intn 100 R; Some (i < 85, R) });
     ((cw, cd), R) \<leftarrow>
       (if home then Some ((w, d), R)
        else do {
          (cw, R) \<leftarrow> otherWarehouse W w R;
          (cd, R) \<leftarrow> randInt 1 districtPerWarehouse R;
          Some ((cw, cd), R)
        });
     Some (\<lparr>p_wID = w, p_dID = d, p_cWID = cw, p_cDID = cd, p_hAmount = amount, p_cID = c,
       p_cLast = cLast\<rparr>, R)
   }"

definition customer_is :: "int \<Rightarrow> int \<Rightarrow> int \<Rightarrow> customer_row \<Rightarrow> bool" where
  "customer_is w d c r \<longleftrightarrow> c_w_id r = w \<and> c_d_id r = d \<and> c_id r = c"

definition do_paymentUpdateDistrict :: "int \<Rightarrow> int \<Rightarrow> int \<Rightarrow> unit stmt" where
  "do_paymentUpdateDistrict a w d = update (\<lambda>t. t\<lparr>districts :=
     set_where (\<lambda>r. d_w_id r = w \<and> d_id r = d) (\<lambda>r. r\<lparr>d_ytd := d_ytd r + a\<rparr>) (districts t)\<rparr>)"

definition do_paymentSelectDistrict :: "int \<Rightarrow> int \<Rightarrow> district_row stmt" where
  "do_paymentSelectDistrict w d =
     select_row (\<lambda>t. filter (\<lambda>r. d_w_id r = w \<and> d_id r = d) (districts t))"

definition do_paymentUpdateWarehouse :: "int \<Rightarrow> int \<Rightarrow> unit stmt" where
  "do_paymentUpdateWarehouse a w = update (\<lambda>t. t\<lparr>warehouses :=
     set_where (\<lambda>r. w_id r = w) (\<lambda>r. r\<lparr>w_ytd := w_ytd r + a\<rparr>) (warehouses t)\<rparr>)"

definition do_paymentSelectWarehouse :: "int \<Rightarrow> warehouse_row stmt" where
  "do_paymentSelectWarehouse w = select_row (\<lambda>t. filter (\<lambda>r. w_id r = w) (warehouses t))"

definition by_last :: "int \<Rightarrow> int \<Rightarrow> string \<Rightarrow> db \<Rightarrow> customer_row list" where
  "by_last w d l t = filter (\<lambda>r. c_w_id r = w \<and> c_d_id r = d \<and> c_last r = l) (customers t)"

text \<open>\<open>ORDER BY c_first\<close>: the texts are compared byte by byte.\<close>

fun le_text :: "string \<Rightarrow> string \<Rightarrow> bool" where
  "le_text [] t = True"
| "le_text (a # s) [] = False"
| "le_text (a # s) (b # t) =
     (if of_char a < (of_char b :: nat) then True else if a = b then le_text s t else False)"

fun insert_by_first :: "customer_row \<Rightarrow> customer_row list \<Rightarrow> customer_row list" where
  "insert_by_first r [] = [r]"
| "insert_by_first r (x # xs) =
     (if le_text (c_first r) (c_first x) then r # x # xs else x # insert_by_first r xs)"

definition order_by_first :: "customer_row list \<Rightarrow> customer_row list" where
  "order_by_first rs = foldr insert_by_first rs []"

definition do_paymentSelectCustomerListByLast :: "int \<Rightarrow> int \<Rightarrow> string \<Rightarrow> int list stmt" where
  "do_paymentSelectCustomerListByLast w d l = select (\<lambda>t. map c_id (order_by_first (by_last w d l t)))"

definition do_paymentSelectCustomerForUpdate :: "int \<Rightarrow> int \<Rightarrow> int \<Rightarrow> customer_row stmt" where
  "do_paymentSelectCustomerForUpdate w d c =
     select_row (\<lambda>t. filter (customer_is w d c) (customers t))"

definition do_paymentSelectCustomerData :: "int \<Rightarrow> int \<Rightarrow> int \<Rightarrow> string stmt" where
  "do_paymentSelectCustomerData w d c =
     select_row (\<lambda>t. map c_data (filter (customer_is w d c) (customers t)))"

definition paid :: "int \<Rightarrow> customer_row \<Rightarrow> customer_row" where
  "paid a r = r\<lparr>c_balance := c_balance r - a, c_ytd_payment := c_ytd_payment r + a,
     c_payment_cnt := c_payment_cnt r + 1\<rparr>"

definition do_paymentUpdateCustomer :: "int \<Rightarrow> int \<Rightarrow> int \<Rightarrow> int \<Rightarrow> unit stmt" where
  "do_paymentUpdateCustomer a w d c = update (\<lambda>t. t\<lparr>customers :=
     set_where (customer_is w d c) (paid a) (customers t)\<rparr>)"

definition do_paymentUpdateCustomerWithData ::
  "int \<Rightarrow> string \<Rightarrow> int \<Rightarrow> int \<Rightarrow> int \<Rightarrow> unit stmt" where
  "do_paymentUpdateCustomerWithData a txt' w d c = update (\<lambda>t. t\<lparr>customers :=
     set_where (customer_is w d c) (\<lambda>r. (paid a r)\<lparr>c_data := txt'\<rparr>) (customers t)\<rparr>)"

definition do_paymentInsertHistory :: "history_row \<Rightarrow> unit stmt" where
  "do_paymentInsertHistory r = update (\<lambda>t. t\<lparr>histories := histories t @ [r]\<rparr>)"

text \<open>The verbs \<open>%4d\<close>, \<open>%12s\<close> and \<open>%7.2f\<close>, the last of a number of cents.\<close>

definition pad :: "nat \<Rightarrow> string \<Rightarrow> string" where
  "pad n s = replicate (n - length s) (CHR '' '') @ s"

definition fmt_2f :: "int \<Rightarrow> string" where
  "fmt_2f a = fmt_d (a div 100) @ ''.'' @ fmt_0d 2 (a mod 100)"

definition payment_newData :: "World \<Rightarrow> paymentData \<Rightarrow> int \<Rightarrow> string \<Rightarrow> string option" where
  "payment_newData Z p c cData =
     (let newData = ''| '' @ pad 4 (fmt_d c) @ '' '' @ pad 2 (fmt_d (p_cDID p)) @ '' '' @
            pad 4 (fmt_d (p_cWID p)) @ '' '' @ pad 2 (fmt_d (p_dID p)) @ '' '' @
            pad 4 (fmt_d (p_wID p)) @ '' $'' @ pad 7 (fmt_2f (p_hAmount p)) @ '' '' @
            pad 12 (now Z) @ '' '' @ pad 24 cData
      in if 500 \<le> length newData then go_slice newData 0 500
         else do {
           rest \<leftarrow> go_slice cData 0 (500 - int (length newData));
           Some (newData @ rest)
         })"

text \<open>Processes 6 to 10, for the customer chosen.\<close>

definition payment_history ::
  "World \<Rightarrow> paymentData \<Rightarrow> int \<Rightarrow> string \<Rightarrow> string \<Rightarrow> body" where
  "payment_history Z p c wName dName =
     exec paymentInsertHistory (do_paymentInsertHistory
       \<lparr>h_c_id = c, h_c_d_id = p_cDID p, h_c_w_id = p_cWID p, h_d_id = p_dID p, h_w_id = p_wID p,
        h_date = now Z, h_amount = p_hAmount p,
        h_data = pad 10 wName @ ''    '' @ pad 10 dName\<rparr>) (\<lambda>_.
     commit)"

definition payment_customer ::
  "World \<Rightarrow> paymentData \<Rightarrow> string \<Rightarrow> string \<Rightarrow> int \<Rightarrow> body" where
  "payment_customer Z p wName dName c =
     exec paymentSelectCustomerForUpdate
       (do_paymentSelectCustomerForUpdate (p_cWID p) (p_cDID p) c) (\<lambda>r.
     if c_credit r = ''BC'' then
       exec paymentSelectCustomerData
         (do_paymentSelectCustomerData (p_cWID p) (p_cDID p) c) (\<lambda>cData.
       or_panic (payment_newData Z p c cData) (\<lambda>newData.
       exec paymentUpdateCustomerWithData
         (do_paymentUpdateCustomerWithData (p_hAmount p) newData (p_cWID p) (p_cDID p) c) (\<lambda>_.
       payment_history Z p c wName dName)))
     else
       exec paymentUpdateCustomer
         (do_paymentUpdateCustomer (p_hAmount p) (p_cWID p) (p_cDID p) c) (\<lambda>_.
       payment_history Z p c wName dName))"

text \<open>Process 5: the customer is chosen, by last name or by number.\<close>

definition payment_choose :: "World \<Rightarrow> paymentData \<Rightarrow> string \<Rightarrow> string \<Rightarrow> body" where
  "payment_choose Z p wName dName =
     (if p_cID p = 0 then
        exec paymentSelectCustomerListByLast
          (do_paymentSelectCustomerListByLast (p_cWID p) (p_cDID p) (p_cLast p)) (\<lambda>ids.
        exec paymentSelectCustomerListByLast no_change (\<lambda>_.
        if length ids = 0 then return (Some [Plain ''customer not found''])
        else or_panic (go_index ids ((int (length ids) + 1) div 2 - 1))
          (payment_customer Z p wName dName)))
      else payment_customer Z p wName dName (p_cID p))"

definition payment_body :: "World \<Rightarrow> paymentData \<Rightarrow> body" where
  "payment_body Z p =
     exec paymentUpdateDistrict (do_paymentUpdateDistrict (p_hAmount p) (p_wID p) (p_dID p)) (\<lambda>_.
     exec paymentSelectDistrict (do_paymentSelectDistrict (p_wID p) (p_dID p)) (\<lambda>dr.
     exec paymentUpdateWarehouse (do_paymentUpdateWarehouse (p_hAmount p) (p_wID p)) (\<lambda>_.
     exec paymentSelectDistrict (do_paymentSelectWarehouse (p_wID p)) (\<lambda>wr.
     payment_choose Z p (w_name wr) (d_name dr)))))"

definition runPayment ::
  "World \<Rightarrow> RandVars \<Rightarrow> int \<Rightarrow> rnd \<Rightarrow> session \<Rightarrow> (result \<times> session \<times> rnd) option" where
  "runPayment Z G W R s = do {
     (p, R) \<leftarrow> payment_input G W R;
     let (r, s) = transaction (payment_body Z p) s;
     Some (r, s, R)
   }"

subsection \<open>Delivery\<close>

record deliveryOrder =
  do_oID :: int
  do_cID :: int
  do_amount :: int

definition triples :: "int \<Rightarrow> deliveryOrder list \<Rightarrow> (int \<times> int \<times> int) list" where
  "triples w os = map (\<lambda>i. (w, int i + 1, do_oID (os ! i))) [0..<10]"

text \<open>\<open>ORDER BY no_o_id ASC LIMIT 1\<close>.\<close>

definition do_deliverySelectNewOrder :: "int \<Rightarrow> int \<Rightarrow> int stmt" where
  "do_deliverySelectNewOrder w d = select_row (\<lambda>t.
     sort (map no_o_id (filter (\<lambda>r. no_w_id r = w \<and> no_d_id r = d) (new_orders t))))"

definition do_deliveryDeleteNewOrder :: "(int \<times> int \<times> int) list \<Rightarrow> unit stmt" where
  "do_deliveryDeleteNewOrder ks = update (\<lambda>t. t\<lparr>new_orders :=
     filter (\<lambda>r. no_key r \<notin> set ks) (new_orders t)\<rparr>)"

definition do_deliveryUpdateOrder :: "int \<Rightarrow> (int \<times> int \<times> int) list \<Rightarrow> unit stmt" where
  "do_deliveryUpdateOrder carrier ks = update (\<lambda>t. t\<lparr>orders :=
     set_where (\<lambda>r. o_key r \<in> set ks) (\<lambda>r. r\<lparr>o_carrier_id := Some carrier\<rparr>) (orders t)\<rparr>)"

definition do_deliverySelectOrders :: "(int \<times> int \<times> int) list \<Rightarrow> (int \<times> int) list stmt" where
  "do_deliverySelectOrders ks = select (\<lambda>t.
     [(o_d_id r, o_c_id r). r \<leftarrow> orders t, o_key r \<in> set ks])"

definition do_deliveryUpdateOrderLine :: "string \<Rightarrow> (int \<times> int \<times> int) list \<Rightarrow> unit stmt" where
  "do_deliveryUpdateOrderLine date ks = update (\<lambda>t. t\<lparr>order_lines :=
     set_where (\<lambda>r. ol_order r \<in> set ks) (\<lambda>r. r\<lparr>ol_delivery_d := Some date\<rparr>) (order_lines t)\<rparr>)"

text \<open>\<open>SUM(ol_amount) ... GROUP BY ol_d_id\<close>: one row for each district that has a line.\<close>

definition do_deliverySelectSumAmount :: "(int \<times> int \<times> int) list \<Rightarrow> (int \<times> int) list stmt" where
  "do_deliverySelectSumAmount ks = select (\<lambda>t.
     let ls = filter (\<lambda>r. ol_order r \<in> set ks) (order_lines t)
     in map (\<lambda>d. (d, sum_list (map ol_amount (filter (\<lambda>r. ol_d_id r = d) ls)))) (remdups (map ol_d_id ls)))"

definition do_deliveryUpdateCustomer :: "int \<Rightarrow> int \<Rightarrow> int \<Rightarrow> int \<Rightarrow> unit stmt" where
  "do_deliveryUpdateCustomer a w d c = update (\<lambda>t. t\<lparr>customers :=
     set_where (customer_is w d c)
       (\<lambda>r. r\<lparr>c_balance := c_balance r + a, c_delivery_cnt := c_delivery_cnt r + 1\<rparr>) (customers t)\<rparr>)"

text \<open>The oldest new order of each district; \<open>sql.ErrNoRows\<close> leaves the number 0.\<close>

fun delivery_oldest ::
  "nat list \<Rightarrow> int \<Rightarrow> deliveryOrder list \<Rightarrow> (deliveryOrder list \<Rightarrow> body) \<Rightarrow> body" where
  "delivery_oldest [] w os k s = k os s"
| "delivery_oldest (i # is) w os k s =
     (case call (do_deliverySelectNewOrder w (int i + 1)) s of
        (Inl e, s) \<Rightarrow>
          if e = [NoRows] then delivery_oldest is w os k s
          else return (Some (failed deliverySelectNewOrder e)) s
      | (Inr o', s) \<Rightarrow> delivery_oldest is w (os[i := (os ! i)\<lparr>do_oID := o'\<rparr>]) k s)"

fun delivery_customers :: "(int \<times> int) list \<Rightarrow> deliveryOrder list \<Rightarrow> deliveryOrder list option" where
  "delivery_customers [] os = Some os"
| "delivery_customers ((d, c) # rows) os = do {
     x \<leftarrow> go_index os (d - 1);
     os \<leftarrow> go_update os (d - 1) (x\<lparr>do_cID := c\<rparr>);
     delivery_customers rows os
   }"

fun delivery_amounts :: "(int \<times> int) list \<Rightarrow> deliveryOrder list \<Rightarrow> deliveryOrder list option" where
  "delivery_amounts [] os = Some os"
| "delivery_amounts ((d, a) # rows) os = do {
     x \<leftarrow> go_index os (d - 1);
     os \<leftarrow> go_update os (d - 1) (x\<lparr>do_amount := a\<rparr>);
     delivery_amounts rows os
   }"

fun delivery_update :: "nat list \<Rightarrow> int \<Rightarrow> deliveryOrder list \<Rightarrow> body \<Rightarrow> body" where
  "delivery_update [] w os k s = k s"
| "delivery_update (i # is) w os k s =
     (let order = os ! i in
      if do_oID order = 0 then delivery_update is w os k s
      else exec deliveryUpdateCustomer
        (do_deliveryUpdateCustomer (do_amount order) w (int i + 1) (do_cID order))
        (\<lambda>_. delivery_update is w os k) s)"

definition delivery_rest :: "World \<Rightarrow> int \<Rightarrow> int \<Rightarrow> deliveryOrder list \<Rightarrow> body" where
  "delivery_rest Z w carrier os =
     exec deliveryDeleteNewOrder (do_deliveryDeleteNewOrder (triples w os)) (\<lambda>_.
     exec deliveryUpdateOrder (do_deliveryUpdateOrder carrier (triples w os)) (\<lambda>_.
     exec deliverySelectOrders (do_deliverySelectOrders (triples w os)) (\<lambda>orderRows.
     or_panic (delivery_customers orderRows os) (\<lambda>os.
     exec deliverySelectOrders no_change (\<lambda>_.
     exec deliveryUpdateOrderLine (do_deliveryUpdateOrderLine (now Z) (triples w os)) (\<lambda>_.
     exec deliverySelectSumAmount (do_deliverySelectSumAmount (triples w os)) (\<lambda>amountRows.
     or_panic (delivery_amounts amountRows os) (\<lambda>os.
     exec deliverySelectSumAmount no_change (\<lambda>_.
     delivery_update [0..<10] w os commit)))))))))"

definition delivery_body :: "World \<Rightarrow> int \<Rightarrow> int \<Rightarrow> body" where
  "delivery_body Z w carrier =
     delivery_oldest [0..<10] w (replicate 10 \<lparr>do_oID = 0, do_cID = 0, do_amount = 0\<rparr>)
       (delivery_rest Z w carrier)"

definition runDelivery ::
  "World \<Rightarrow> int \<Rightarrow> rnd \<Rightarrow> session \<Rightarrow> (result \<times> session \<times> rnd) option" where
  "runDelivery Z W R s = do {
     (w, R) \<leftarrow> randInt 1 W R;
     (carrier, R) \<leftarrow> randInt 1 10 R;
     let (r, s) = transaction (delivery_body Z w carrier) s;
     Some (r, s, R)
   }"

subsection \<open>Order-Status\<close>

record orderStatusData =
  os_wID :: int
  os_dID :: int
  os_cID :: int
  os_cLast :: string

definition orderStatus_input :: "RandVars \<Rightarrow> int \<Rightarrow> rnd \<Rightarrow> (orderStatusData \<times> rnd) option" where
  "orderStatus_input G W R = do {
     (w, R) \<leftarrow> randInt 1 W R;
     (d, R) \<leftarrow> randInt 1 districtPerWarehouse R;
     (i, R) \<leftarrow> Intn 100 R;
     if i < 60 then do {
       (cLast, R) \<leftarrow> randCLast G R;
       Some (\<lparr>os_wID = w, os_dID = d, os_cID = 0, os_cLast = cLast\<rparr>, R)
     } else do {
       (c, R) \<leftarrow> randCustomerID G R;
       Some (\<lparr>os_wID = w, os_dID = d, os_cID = c, os_cLast = []\<rparr>, R)
     }
   }"

definition do_orderStatusSelectCustomerCntByLast :: "int \<Rightarrow> int \<Rightarrow> string \<Rightarrow> int stmt" where
  "do_orderStatusSelectCustomerCntByLast w d l = select (\<lambda>t. int (length (by_last w d l t)))"

definition do_orderStatusSelectCustomerByLast :: "int \<Rightarrow> int \<Rightarrow> string \<Rightarrow> int list stmt" where
  "do_orderStatusSelectCustomerByLast w d l = select (\<lambda>t. map c_id (order_by_first (by_last w d l t)))"

definition do_orderStatusSelectCustomerByID :: "int \<Rightarrow> int \<Rightarrow> int \<Rightarrow> customer_row stmt" where
  "do_orderStatusSelectCustomerByID w d c =
     select_row (\<lambda>t. filter (customer_is w d c) (customers t))"

text \<open>\<open>ORDER BY o_id DESC LIMIT 1\<close>.\<close>

definition do_orderStatusSelectLatestOrder :: "int \<Rightarrow> int \<Rightarrow> int \<Rightarrow> int stmt" where
  "do_orderStatusSelectLatestOrder w d c = select_row (\<lambda>t.
     rev (sort (map o_id (filter (\<lambda>r. o_w_id r = w \<and> o_d_id r = d \<and> o_c_id r = c) (orders t)))))"

definition do_orderStatusSelectOrderLine :: "int \<Rightarrow> int \<Rightarrow> int \<Rightarrow> order_line_row list stmt" where
  "do_orderStatusSelectOrderLine w d o' = select (\<lambda>t. filter (\<lambda>r. ol_order r = (w, d, o')) (order_lines t))"

text \<open>The loop scans \<open>nameCnt / 2\<close> rows and keeps the last; with none the number stays 0.\<close>

fun scan_names :: "nat \<Rightarrow> int list \<Rightarrow> int \<Rightarrow> int" where
  "scan_names 0 rows c = c"
| "scan_names (Suc k) [] c = c"
| "scan_names (Suc k) (r # rows) c = scan_names k rows r"

definition orderStatus_lines :: "orderStatusData \<Rightarrow> int \<Rightarrow> body" where
  "orderStatus_lines d c =
     exec orderStatusSelectLatestOrder
       (do_orderStatusSelectLatestOrder (os_wID d) (os_dID d) c) (\<lambda>oID.
     exec orderStatusSelectOrderLine
       (do_orderStatusSelectOrderLine (os_wID d) (os_dID d) oID) (\<lambda>rows.
     exec_raw no_change (\<lambda>_.
     commit)))"

definition orderStatus_body :: "orderStatusData \<Rightarrow> body" where
  "orderStatus_body d =
     (if os_cID d = 0 then
        exec orderStatusSelectCustomerCntByLast
          (do_orderStatusSelectCustomerCntByLast (os_wID d) (os_dID d) (os_cLast d)) (\<lambda>nameCnt.
        let nameCnt = (if nameCnt mod 2 = 1 then nameCnt + 1 else nameCnt) in
        exec orderStatusSelectCustomerByLast
          (do_orderStatusSelectCustomerByLast (os_wID d) (os_dID d) (os_cLast d)) (\<lambda>rows.
        exec_raw no_change (\<lambda>_.
        orderStatus_lines d (scan_names (nat (nameCnt div 2)) rows 0))))
      else
        exec orderStatusSelectCustomerByID
          (do_orderStatusSelectCustomerByID (os_wID d) (os_dID d) (os_cID d)) (\<lambda>_.
        orderStatus_lines d (os_cID d)))"

definition runOrderStatus ::
  "RandVars \<Rightarrow> int \<Rightarrow> rnd \<Rightarrow> session \<Rightarrow> (result \<times> session \<times> rnd) option" where
  "runOrderStatus G W R s = do {
     (d, R) \<leftarrow> orderStatus_input G W R;
     let (r, s) = transaction (orderStatus_body d) s;
     Some (r, s, R)
   }"

subsection \<open>Stock-Level\<close>

definition do_stockLevelSelectDistrict :: "int \<Rightarrow> int \<Rightarrow> int stmt" where
  "do_stockLevelSelectDistrict w d = select_row (\<lambda>t.
     map d_next_o_id (filter (\<lambda>r. d_w_id r = w \<and> d_id r = d) (districts t)))"

definition do_stockLevelCount :: "int \<Rightarrow> int \<Rightarrow> int \<Rightarrow> int \<Rightarrow> int stmt" where
  "do_stockLevelCount w d o' threshold = select (\<lambda>t. int (length (remdups
     [s_i_id r. l \<leftarrow> order_lines t, r \<leftarrow> stocks t, ol_w_id l = w \<and> ol_d_id l = d \<and> ol_o_id l < o' \<and>
        o' - 20 \<le> ol_o_id l \<and> s_w_id r = w \<and> s_i_id r = ol_i_id l \<and> s_quantity r < threshold])))"

text \<open>The inputs are drawn inside the transaction; \<open>s\<close> is the session and the source.\<close>

definition stockLevel_body :: "int \<Rightarrow> int \<Rightarrow> int \<Rightarrow> body" where
  "stockLevel_body w d threshold =
     exec_raw (do_stockLevelSelectDistrict w d) (\<lambda>oID.
     exec_raw (do_stockLevelCount w d oID threshold) (\<lambda>stockCount.
     commit))"

definition runStockLevel ::
  "int \<Rightarrow> rnd \<Rightarrow> session \<Rightarrow> (result \<times> session \<times> rnd) option" where
  "runStockLevel W R s =
     (case call no_change s of
        (Inl e, s) \<Rightarrow> Some (Returned (Some e), s, R)
      | (Inr _, s) \<Rightarrow> do {
          (w, R) \<leftarrow> randInt 1 W R;
          (d, R) \<leftarrow> randInt 1 10 R;
          (threshold, R) \<leftarrow> randInt 10 20 R;
          let (r, s) = finish (fst s) (stockLevel_body w d threshold s);
          Some (r, s, R)
        })"

end
