(* ===== verification/TpccInv.thy ===== *)
theory TpccInv
  imports TpccTxn
begin

text \<open>
  The consistency conditions of TPC-C (clause 3.3.2, the ones \<open>tpcc/check.go\<close> queries) as an
  invariant of the tables, and the proof that each transaction keeps it whatever the driver
  replies.  \<open>ensures\<close> is the rule system for the bodies: a body does not panic, and if it commits
  its data satisfy the predicate.
\<close>

subsection \<open>Sums over rows\<close>

definition sum_where :: "('r \<Rightarrow> bool) \<Rightarrow> ('r \<Rightarrow> int) \<Rightarrow> 'r list \<Rightarrow> int" where
  "sum_where P f rs = sum_list (map f (filter P rs))"

definition count_where :: "('r \<Rightarrow> bool) \<Rightarrow> 'r list \<Rightarrow> int" where
  "count_where P rs = int (length (filter P rs))"

named_theorems rows \<open>sums, counts and updates of rows\<close>

lemma sum_where_append [rows]: "sum_where P f (xs @ ys) = sum_where P f xs + sum_where P f ys"
  by (simp add: sum_where_def)

lemma sum_where_Nil [rows]: "sum_where P f [] = 0"
  by (simp add: sum_where_def)

lemma sum_where_Cons [rows]: "sum_where P f (r # rs) = (if P r then f r else 0) + sum_where P f rs"
  by (simp add: sum_where_def)

lemma count_where_append [rows]: "count_where P (xs @ ys) = count_where P xs + count_where P ys"
  by (simp add: count_where_def)

lemma sum_where_none: "(\<And>r. r \<in> set rs \<Longrightarrow> P r \<Longrightarrow> f r = 0) \<Longrightarrow> sum_where P f rs = 0"
  by (induction rs) (simp_all add: rows)

lemma sum_where_cong:
  "(\<And>r. r \<in> set rs \<Longrightarrow> P r = Q r) \<Longrightarrow> (\<And>r. r \<in> set rs \<Longrightarrow> P r \<Longrightarrow> f r = g r) \<Longrightarrow>
   sum_where P f rs = sum_where Q g rs"
  by (induction rs) (simp_all add: rows)

lemma map_set_where [rows]: "(\<And>r. P r \<Longrightarrow> g (f r) = g r) \<Longrightarrow> map g (set_where P f rs) = map g rs"
  by (simp add: set_where_def)

lemma set_set_where: "x \<in> set (set_where P f rs) \<longleftrightarrow> (\<exists>r \<in> set rs. x = (if P r then f r else r))"
  by (auto simp: set_where_def)

text \<open>An \<open>UPDATE\<close> that adds \<open>a\<close> to the summed column of some rows and leaves the condition alone.\<close>

lemma sum_where_add:
  assumes "\<And>r. Q r \<Longrightarrow> P (u r) = P r" "\<And>r. Q r \<Longrightarrow> f (u r) = f r + a"
  shows "sum_where P f (set_where Q u rs) = sum_where P f rs + a * count_where (\<lambda>r. Q r \<and> P r) rs"
proof (induction rs)
  case (Cons r rs)
  have s: "set_where Q u (r # rs) = (if Q r then u r else r) # set_where Q u rs"
    by (simp add: set_where_def)
  have c: "count_where R (r # rs) = (if R r then 1 else 0) + count_where R rs" for R
    by (simp add: count_where_def)
  show ?case unfolding s c sum_where_Cons Cons.IH using assms [of r]
    by (cases "Q r"; cases "P r") (simp_all add: distrib_left)
qed (simp add: sum_where_def set_where_def count_where_def)

lemma sum_where_set_where_same:
  assumes "\<And>r. Q r \<Longrightarrow> P (u r) = P r" "\<And>r. Q r \<Longrightarrow> f (u r) = f r"
  shows "sum_where P f (set_where Q u rs) = sum_where P f rs"
proof -
  have "sum_where P f (set_where Q u rs) = sum_where P f rs + 0 * count_where (\<lambda>r. Q r \<and> P r) rs"
  proof (rule sum_where_add [of Q P u f 0 rs])
    fix r assume "Q r"
    then show "P (u r) = P r" "f (u r) = f r + 0" using assms by simp_all
  qed
  then show ?thesis by simp
qed

lemma filter_key:
  assumes "distinct (map key rs)" "r \<in> set rs" "P r" "\<And>x. P x \<Longrightarrow> key x = key r"
  shows "filter P rs = [r]"
proof -
  have inj: "inj_on key (set rs)" and d: "distinct rs" using assms(1) by (simp_all add: distinct_map)
  have eq: "x = r" if "x \<in> set rs" "P x" for x
    by (rule inj_onD [OF inj assms(4) [OF that(2)] that(1) assms(2)])
  have s: "set (filter P rs) = {r}"
  proof (intro equalityI subsetI)
    fix x assume "x \<in> set (filter P rs)"
    then show "x \<in> {r}" using eq [of x] by simp
  next
    fix x assume "x \<in> {r}"
    then show "x \<in> set (filter P rs)" using assms(2,3) by simp
  qed
  then have "length (filter P rs) = card {r}"
    using distinct_card [OF distinct_filter [OF d, of P]] by simp
  then show ?thesis using s by (cases "filter P rs") auto
qed

lemma count_where_key:
  assumes "distinct (map key rs)" "r \<in> set rs" "P r" "\<And>x. P x \<Longrightarrow> key x = key r"
  shows "count_where P rs = 1"
  by (simp add: count_where_def filter_key [of key rs r P, OF assms])

lemma sum_where_key:
  assumes "distinct (map key rs)" "r \<in> set rs" "P r" "\<And>x. P x \<Longrightarrow> key x = key r"
  shows "sum_where P f rs = f r"
  by (simp add: sum_where_def filter_key [of key rs r P, OF assms])

lemma count_where_none: "(\<And>x. x \<in> set rs \<Longrightarrow> \<not> P x) \<Longrightarrow> count_where P rs = 0"
  by (simp add: count_where_def)

subsection \<open>The conditions\<close>

definition o_customer :: "orders_row \<Rightarrow> int \<times> int \<times> int" where
  "o_customer r = (o_w_id r, o_d_id r, o_c_id r)"

text \<open>What has been delivered to a customer: the join that the checks of the balance use.\<close>

definition lines_sum :: "(order_line_row \<Rightarrow> bool) \<Rightarrow> order_line_row list \<Rightarrow> orders_row \<Rightarrow> int" where
  "lines_sum P ls r = sum_where (\<lambda>l. ol_order l = o_key r \<and> P l) ol_amount ls"

definition delivered :: "orders_row list \<Rightarrow> order_line_row list \<Rightarrow> int \<times> int \<times> int \<Rightarrow> int" where
  "delivered os ls k =
     sum_where (\<lambda>r. o_customer r = k) (lines_sum (\<lambda>l. ol_delivery_d l \<noteq> None) ls) os"

text \<open>What a customer has paid, and the sums of payments by warehouse and district.\<close>

definition paid_by :: "history_row list \<Rightarrow> int \<times> int \<times> int \<Rightarrow> int" where
  "paid_by hs k = sum_where (\<lambda>h. (h_c_w_id h, h_c_d_id h, h_c_id h) = k) h_amount hs"

text \<open>3.3.2.1: W_YTD is the sum of D_YTD; 3.3.2.8 and 3.3.2.9: both are sums of the history.\<close>

definition cond_ytd :: "db \<Rightarrow> bool" where
  "cond_ytd t \<longleftrightarrow>
     (\<forall>v \<in> set (warehouses t). w_ytd v = sum_where (\<lambda>r. d_w_id r = w_id v) d_ytd (districts t)) \<and>
     (\<forall>v \<in> set (warehouses t). w_ytd v = sum_where (\<lambda>h. h_w_id h = w_id v) h_amount (histories t)) \<and>
     (\<forall>r \<in> set (districts t). d_ytd r = sum_where (\<lambda>h. (h_w_id h, h_d_id h) = d_key r) h_amount (histories t))"

text \<open>
  3.3.2.2 and 3.3.2.3: the orders of a district are numbered from 1 without a gap up to the next
  number, and its new orders are the last of them.
\<close>

definition order_ids :: "orders_row list \<Rightarrow> int \<times> int \<Rightarrow> int set" where
  "order_ids os k = {n. (fst k, snd k, n) \<in> o_key ` set os}"

definition new_order_ids :: "new_order_row list \<Rightarrow> int \<times> int \<Rightarrow> int set" where
  "new_order_ids ns k = {n. (fst k, snd k, n) \<in> no_key ` set ns}"

definition cond_ids :: "db \<Rightarrow> bool" where
  "cond_ids t \<longleftrightarrow>
     (\<forall>r \<in> set (districts t). order_ids (orders t) (d_key r) = {1..<d_next_o_id r} \<and>
       (\<exists>m. 1 \<le> m \<and> m \<le> d_next_o_id r \<and> new_order_ids (new_orders t) (d_key r) = {m..<d_next_o_id r}))"

text \<open>3.3.2.5: an order has no carrier as long as it is a new order.\<close>

definition cond_carrier :: "db \<Rightarrow> bool" where
  "cond_carrier t \<longleftrightarrow>
     (\<forall>r \<in> set (orders t). o_carrier_id r = None \<longleftrightarrow> o_key r \<in> no_key ` set (new_orders t))"

text \<open>3.3.2.4 and 3.3.2.6: every order has as many lines as it says.\<close>

definition cond_lines :: "db \<Rightarrow> bool" where
  "cond_lines t \<longleftrightarrow>
     (\<forall>r \<in> set (orders t). o_ol_cnt r = count_where (\<lambda>l. ol_order l = o_key r) (order_lines t))"

text \<open>3.3.2.7: the lines are delivered when the order has a carrier.\<close>

definition cond_delivered :: "db \<Rightarrow> bool" where
  "cond_delivered t \<longleftrightarrow>
     (\<forall>r \<in> set (orders t). \<forall>l \<in> set (order_lines t). ol_order l = o_key r \<longrightarrow>
       (ol_delivery_d l = None \<longleftrightarrow> o_carrier_id r = None))"

text \<open>3.3.2.10 and 3.3.2.12: the balance of a customer.\<close>

definition cond_balance :: "db \<Rightarrow> bool" where
  "cond_balance t \<longleftrightarrow>
     (\<forall>r \<in> set (customers t).
       c_balance r = delivered (orders t) (order_lines t) (c_key r) - paid_by (histories t) (c_key r) \<and>
       c_balance r + c_ytd_payment r = delivered (orders t) (order_lines t) (c_key r))"

text \<open>Keys and references.\<close>

definition cond_keys :: "db \<Rightarrow> bool" where
  "cond_keys t \<longleftrightarrow>
     distinct (map w_key (warehouses t)) \<and> distinct (map d_key (districts t)) \<and>
     distinct (map o_key (orders t)) \<and> distinct (map no_key (new_orders t)) \<and>
     (\<forall>r \<in> set (orders t). (o_w_id r, o_d_id r) \<in> d_key ` set (districts t)) \<and>
     no_key ` set (new_orders t) \<subseteq> o_key ` set (orders t) \<and>
     ol_order ` set (order_lines t) \<subseteq> o_key ` set (orders t)"

text \<open>What the code needs of the values, so that no index or slice is out of range.\<close>

definition cond_values :: "db \<Rightarrow> bool" where
  "cond_values t \<longleftrightarrow>
     (\<forall>r \<in> set (items t). 1 \<le> i_id r) \<and>
     (\<forall>r \<in> set (stocks t). length (s_dist r) = 10 \<and> 10 \<le> s_quantity r \<and> s_quantity r \<le> 100) \<and>
     (\<forall>r \<in> set (customers t). 300 \<le> length (c_data r) \<and> length (c_data r) \<le> 500)"

definition consistent :: "db \<Rightarrow> bool" where
  "consistent t \<longleftrightarrow> cond_ytd t \<and> cond_ids t \<and> cond_carrier t \<and> cond_lines t \<and> cond_delivered t \<and>
     cond_balance t \<and> cond_keys t \<and> cond_values t"

subsection \<open>Rules for the bodies\<close>

definition ensures :: "body \<Rightarrow> db \<Rightarrow> (db \<Rightarrow> bool) \<Rightarrow> bool" where
  "ensures b t P \<longleftrightarrow> (\<forall>q. case b (t, q) of
       (CommitTx, (t', q')) \<Rightarrow> P t' | (PanicTx, s) \<Rightarrow> False | (Return e, s) \<Rightarrow> True)"

named_theorems ensures_intros \<open>rules for \<open>ensures\<close>\<close>

lemma ensures_exec [ensures_intros]:
  assumes "\<And>x t'. st t = Inr (x, t') \<Longrightarrow> ensures (k x) t' P"
  shows "ensures (exec stm st k) t P"
  unfolding ensures_def
proof
  fix q
  show "case exec stm st k (t, q) of
      (CommitTx, (t', q')) \<Rightarrow> P t' | (PanicTx, s) \<Rightarrow> False | (Return e, s) \<Rightarrow> True"
  proof (cases "st t")
    case (Inl e)
    then show ?thesis by (cases "shd q") (simp_all add: exec_def call_def)
  next
    case (Inr y)
    then obtain x t' where "st t = Inr (x, t')" by (cases y) simp
    then show ?thesis using assms [of x t']
      by (cases "shd q") (simp_all add: exec_def call_def ensures_def)
  qed
qed

lemma ensures_exec_raw [ensures_intros]:
  "(\<And>x t'. st t = Inr (x, t') \<Longrightarrow> ensures (k x) t' P) \<Longrightarrow> ensures (exec_raw st k) t P"
  using ensures_exec [of st t k P] unfolding ensures_def exec_def exec_raw_def
  by (fastforce split: prod.splits sum.splits)

lemma ensures_or_panic [ensures_intros]:
  "x = Some y \<Longrightarrow> ensures (k y) t P \<Longrightarrow> ensures (or_panic x k) t P"
  by (simp add: ensures_def or_panic_def)

lemma ensures_return [ensures_intros]: "ensures (return e) t P"
  by (simp add: ensures_def return_def)

lemma ensures_commit [ensures_intros]: "P t \<Longrightarrow> ensures commit t P"
  by (simp add: ensures_def commit_def)

lemma transaction_ensures:
  assumes "ensures b t P" "transaction b (t, q) = (r, (t', q'))"
  shows "r \<noteq> Panicked \<and> (t' = t \<or> P t')"
proof -
  obtain en t2 q2 where b: "b (t, stl q) = (en, (t2, q2))" by (metis prod.exhaust)
  have e: "case (en, (t2, q2)) of (CommitTx, (t', q')) \<Rightarrow> P t' | (PanicTx, s) \<Rightarrow> False | (Return e, s) \<Rightarrow> True"
    using assms(1) b unfolding ensures_def by metis
  show ?thesis
    using assms(2) e b
    by (cases "shd q"; cases en; cases "shd q2")
      (auto simp: transaction_def call_def no_change_def finish_def)
qed

subsection \<open>Statements\<close>


lemma ball_set_where:
  "(\<forall>x \<in> set (set_where P f rs). Q x) \<longleftrightarrow>
   (\<forall>r \<in> set rs. (P r \<longrightarrow> Q (f r)) \<and> (\<not> P r \<longrightarrow> Q r))"
  by (auto simp: set_where_def)

lemma select_row_Inr: "select_row f t = Inr (x, t') \<Longrightarrow> x \<in> set (f t) \<and> t' = t"
  by (auto simp: select_row_def split: list.splits)

lemma select_Inr: "select f t = Inr (x, t') \<longleftrightarrow> x = f t \<and> t' = t"
  by (auto simp: select_def)

lemma update_Inr: "update f t = Inr (x, t') \<longleftrightarrow> t' = f t"
  by (auto simp: update_def)

lemma no_change_Inr: "no_change t = Inr (x, t') \<longleftrightarrow> t' = t"
  by (auto simp: no_change_def)

lemma customer_is_key: "customer_is w d c r \<longleftrightarrow> c_key r = (w, d, c)"
  by (simp add: customer_is_def c_key_def)

lemma ball_set_where_same:
  "(\<And>r. P r \<Longrightarrow> Q (f r) = Q r) \<Longrightarrow> (\<forall>x \<in> set (set_where P f rs). Q x) = (\<forall>r \<in> set rs. Q r)"
  unfolding ball_set_where by (rule ball_cong [OF refl]) auto

lemma insert_rows_Inr:
  "insert_rows key get put new t = Inr (x, t') \<longleftrightarrow> fresh_rows key new (get t) \<and> t' = put (get t @ new) t"
  by (auto simp: insert_rows_def)

end
