(* ===== verification/TpccPayInv.thy ===== *)
theory TpccPayInv
  imports TpccInv
begin

text \<open>
  Payment keeps the consistency conditions and does not panic: in particular the text it writes
  into \<open>c_data\<close> never slices out of range.
\<close>

lemma d_key_ytd: "d_key (r\<lparr>d_ytd := x\<rparr>) = d_key r"
  by (simp add: d_key_def)

definition payment_effect ::
  "int \<Rightarrow> int \<Rightarrow> int \<Rightarrow> int \<times> int \<times> int \<Rightarrow> (customer_row \<Rightarrow> customer_row) \<Rightarrow> history_row \<Rightarrow> db \<Rightarrow> db" where
  "payment_effect a w d k u h t = t\<lparr>
     districts := set_where (\<lambda>r. d_w_id r = w \<and> d_id r = d) (\<lambda>r. r\<lparr>d_ytd := d_ytd r + a\<rparr>) (districts t),
     warehouses := set_where (\<lambda>r. w_id r = w) (\<lambda>r. r\<lparr>w_ytd := w_ytd r + a\<rparr>) (warehouses t),
     customers := set_where (\<lambda>r. c_key r = k) u (customers t),
     histories := histories t @ [h]\<rparr>"

lemma payment_ytd:
  assumes t: "cond_ytd t" "cond_keys t" and r0: "r0 \<in> set (districts t)" "d_key r0 = (w, d)"
    and h: "h_w_id h = w" "h_d_id h = d" "h_amount h = a"
  shows "cond_ytd (payment_effect a w d k u h t)"
proof -
  let ?Q = "\<lambda>r. d_w_id r = w \<and> d_id r = d" and ?u = "\<lambda>r. r\<lparr>d_ytd := d_ytd r + a\<rparr>"
  have one: "count_where (\<lambda>r. ?Q r \<and> d_w_id r = v) (districts t) = (if v = w then 1 else 0)" for v
  proof (cases "v = w")
    case True
    then show ?thesis
      using t(2) r0 by (simp, intro count_where_key [where key = d_key and r = r0])
        (auto simp: cond_keys_def d_key_def)
  qed (simp add: count_where_none)
  have s: "sum_where (\<lambda>r. d_w_id r = v) d_ytd (set_where ?Q ?u (districts t)) =
      sum_where (\<lambda>r. d_w_id r = v) d_ytd (districts t) + a * (if v = w then 1 else 0)" for v
    by (subst sum_where_add [where a = a]) (simp, simp, simp only: one)
  show ?thesis
    using t(1) h by (simp add: cond_ytd_def payment_effect_def ball_set_where s rows d_key_def)
      auto
qed

lemma payment_balance:
  assumes "cond_balance t"
    and u: "\<And>r. c_key (u r) = c_key r" "\<And>r. c_balance (u r) = c_balance r - a"
      "\<And>r. c_ytd_payment (u r) = c_ytd_payment r + a"
    and h: "(h_c_w_id h, h_c_d_id h, h_c_id h) = k" "h_amount h = a"
  shows "cond_balance (payment_effect a w d k u h t)"
  using assms(1) h
  by (simp add: cond_balance_def payment_effect_def ball_set_where paid_by_def rows u)
    (rule ballI, drule (1) bspec, auto)

lemma payment_keeps:
  "cond_ids (payment_effect a w d k u h t) = cond_ids t"
  "cond_carrier (payment_effect a w d k u h t) = cond_carrier t"
  "cond_lines (payment_effect a w d k u h t) = cond_lines t"
  "cond_delivered (payment_effect a w d k u h t) = cond_delivered t"
  "cond_keys (payment_effect a w d k u h t) = cond_keys t"
proof -
  let ?ds = "set_where (\<lambda>r. d_w_id r = w \<and> d_id r = d) (\<lambda>r. r\<lparr>d_ytd := d_ytd r + a\<rparr>) (districts t)"
  have key_map: "map d_key ?ds = map d_key (districts t)"
    by (rule map_set_where) (simp add: d_key_def)
  have key_set: "d_key ` set ?ds = d_key ` set (districts t)"
    by (simp only: set_map [symmetric] key_map)
  show "cond_ids (payment_effect a w d k u h t) = cond_ids t"
    unfolding cond_ids_def payment_effect_def
    by (simp, rule ball_set_where_same) (simp add: d_key_ytd)
  have w_map: "map w_key (set_where (\<lambda>r. w_id r = w) (\<lambda>r. r\<lparr>w_ytd := w_ytd r + a\<rparr>) (warehouses t)) =
      map w_key (warehouses t)"
    by (rule map_set_where) (simp add: w_key_def)
  show "cond_keys (payment_effect a w d k u h t) = cond_keys t"
    by (simp add: cond_keys_def payment_effect_def key_map key_set w_map)
qed (simp_all add: cond_carrier_def cond_lines_def cond_delivered_def payment_effect_def)

lemma payment_effect_consistent:
  assumes t: "consistent t" and r0: "r0 \<in> set (districts t)" "d_key r0 = (w, d)"
    and u: "\<And>r. c_key (u r) = c_key r" "\<And>r. c_balance (u r) = c_balance r - a"
      "\<And>r. c_ytd_payment (u r) = c_ytd_payment r + a"
      "\<And>r. r \<in> set (customers t) \<Longrightarrow> 300 \<le> length (c_data (u r)) \<and> length (c_data (u r)) \<le> 500"
    and h: "h_w_id h = w" "h_d_id h = d" "h_amount h = a" "(h_c_w_id h, h_c_d_id h, h_c_id h) = k"
  shows "consistent (payment_effect a w d k u h t)"
proof -
  have "cond_values (payment_effect a w d k u h t)"
    using t u(4) by (auto simp: consistent_def cond_values_def payment_effect_def set_set_where)
  moreover have "cond_ytd (payment_effect a w d k u h t)"
    by (rule payment_ytd [OF _ _ r0 h(1,2,3)]) (use t in \<open>auto simp: consistent_def\<close>)
  moreover have "cond_balance (payment_effect a w d k u h t)"
    by (rule payment_balance [OF _ u(1,2,3) h(4,3)]) (use t in \<open>auto simp: consistent_def\<close>)
  ultimately show ?thesis using t by (simp add: consistent_def payment_keeps)
qed

lemma pad_length: "n \<le> length (pad n s)" "length s \<le> length (pad n s)"
  by (simp_all add: pad_def)

lemma payment_newData_length:
  assumes "300 \<le> length cData"
  shows "\<exists>s. payment_newData Z p c cData = Some s \<and> length s = 500"
proof -
  define newData where "newData = ''| '' @ pad 4 (fmt_d c) @ '' '' @ pad 2 (fmt_d (p_cDID p)) @ '' '' @
            pad 4 (fmt_d (p_cWID p)) @ '' '' @ pad 2 (fmt_d (p_dID p)) @ '' '' @
            pad 4 (fmt_d (p_wID p)) @ '' $'' @ pad 7 (fmt_2f (p_hAmount p)) @ '' '' @
            pad 12 (now Z) @ '' '' @ pad 24 cData"
  have e: "payment_newData Z p c cData = (if 500 \<le> length newData then go_slice newData 0 500
      else do { rest \<leftarrow> go_slice cData 0 (500 - int (length newData)); Some (newData @ rest) })"
    unfolding payment_newData_def newData_def Let_def by (rule refl)
  have l: "length cData + 45 \<le> length newData"
    using pad_length(1) [of 4 "fmt_d c"] pad_length(1) [of 2 "fmt_d (p_cDID p)"]
      pad_length(1) [of 4 "fmt_d (p_cWID p)"] pad_length(1) [of 2 "fmt_d (p_dID p)"]
      pad_length(1) [of 4 "fmt_d (p_wID p)"] pad_length(1) [of 7 "fmt_2f (p_hAmount p)"]
      pad_length(1) [of 12 "now Z"] pad_length(2) [of cData 24]
    unfolding newData_def length_append by simp
  show ?thesis
  proof (cases "500 \<le> length newData")
    case True
    then show ?thesis by (simp add: e go_slice_Some)
  next
    case False
    have "go_slice cData 0 (500 - int (length newData)) =
        Some (take (nat (500 - int (length newData))) cData)"
      using False l assms by (subst go_slice_Some) simp_all
    moreover have "nat (500 - int (length newData)) \<le> length cData" using l assms by linarith
    ultimately show ?thesis using False by (simp add: e)
  qed
qed

lemma history_ensures:
  assumes "\<And>h. h_w_id h = p_wID p \<Longrightarrow> h_d_id h = p_dID p \<Longrightarrow> h_amount h = p_hAmount p \<Longrightarrow>
      (h_c_w_id h, h_c_d_id h, h_c_id h) = (p_cWID p, p_cDID p, c) \<Longrightarrow>
      P (t\<lparr>histories := histories t @ [h]\<rparr>)"
  shows "ensures (payment_history Z p c wName dName) t P"
  unfolding payment_history_def
  by (rule ensures_exec, rule ensures_commit)
    (use assms in \<open>auto simp: do_paymentInsertHistory_def update_Inr\<close>)

lemma payment_customer_ensures:
  assumes t: "consistent t" and r0: "r0 \<in> set (districts t)" "d_key r0 = (p_wID p, p_dID p)"
    and t2: "t2 = t\<lparr>
     districts := set_where (\<lambda>r. d_w_id r = p_wID p \<and> d_id r = p_dID p)
       (\<lambda>r. r\<lparr>d_ytd := d_ytd r + p_hAmount p\<rparr>) (districts t),
     warehouses := set_where (\<lambda>r. w_id r = p_wID p)
       (\<lambda>r. r\<lparr>w_ytd := w_ytd r + p_hAmount p\<rparr>) (warehouses t)\<rparr>"
  shows "ensures (payment_customer Z p wName dName c) t2 consistent"
proof -
  have len: "300 \<le> length (c_data r) \<and> length (c_data r) \<le> 500" if "r \<in> set (customers t2)" for r
    using t that by (simp add: t2 consistent_def cond_values_def)
  have fin: "ensures (payment_history Z p c wName dName)
      (t2\<lparr>customers := set_where (customer_is (p_cWID p) (p_cDID p) c) u (customers t2)\<rparr>) consistent"
    if u: "\<And>r. c_key (u r) = c_key r" "\<And>r. c_balance (u r) = c_balance r - p_hAmount p"
      "\<And>r. c_ytd_payment (u r) = c_ytd_payment r + p_hAmount p"
      "\<And>r. r \<in> set (customers t) \<Longrightarrow> 300 \<le> length (c_data (u r)) \<and> length (c_data (u r)) \<le> 500" for u
  proof (rule history_ensures)
    fix h :: history_row
    assume h: "h_w_id h = p_wID p" "h_d_id h = p_dID p" "h_amount h = p_hAmount p"
      "(h_c_w_id h, h_c_d_id h, h_c_id h) = (p_cWID p, p_cDID p, c)"
    show "consistent (t2\<lparr>customers := set_where (customer_is (p_cWID p) (p_cDID p) c) u (customers t2),
        histories := histories (t2\<lparr>customers := set_where (customer_is (p_cWID p) (p_cDID p) c) u (customers t2)\<rparr>) @ [h]\<rparr>)"
      using payment_effect_consistent [OF t r0 u h]
      by (simp add: payment_effect_def t2 customer_is_key [abs_def])
  qed
  have plain: "ensures (payment_history Z p c wName dName)
      (t2\<lparr>customers := set_where (customer_is (p_cWID p) (p_cDID p) c) (paid (p_hAmount p)) (customers t2)\<rparr>)
      consistent"
    by (rule fin) (use len in \<open>auto simp: paid_def c_key_def t2\<close>)
  have data: "ensures (payment_history Z p c wName dName)
      (t2\<lparr>customers := set_where (customer_is (p_cWID p) (p_cDID p) c)
         (\<lambda>r. (paid (p_hAmount p) r)\<lparr>c_data := new\<rparr>) (customers t2)\<rparr>) consistent"
    if "length new = 500" for new
    by (rule fin) (use that in \<open>auto simp: paid_def c_key_def\<close>)
  show ?thesis unfolding payment_customer_def
  proof (rule ensures_exec)
    fix r t3
    assume r: "do_paymentSelectCustomerForUpdate (p_cWID p) (p_cDID p) c t2 = Inr (r, t3)"
    then have t3: "t3 = t2" by (simp add: do_paymentSelectCustomerForUpdate_def select_row_Inr)
    show "ensures (if c_credit r = ''BC'' then
       exec paymentSelectCustomerData
         (do_paymentSelectCustomerData (p_cWID p) (p_cDID p) c) (\<lambda>cData.
       or_panic (payment_newData Z p c cData) (\<lambda>newData.
       exec paymentUpdateCustomerWithData
         (do_paymentUpdateCustomerWithData (p_hAmount p) newData (p_cWID p) (p_cDID p) c) (\<lambda>_.
       payment_history Z p c wName dName)))
     else
       exec paymentUpdateCustomer
         (do_paymentUpdateCustomer (p_hAmount p) (p_cWID p) (p_cDID p) c) (\<lambda>_.
       payment_history Z p c wName dName)) t3 consistent"
    proof (cases "c_credit r = ''BC''")
      case True
      show ?thesis unfolding t3 if_P [OF True]
      proof (rule ensures_exec)
        fix cData t4
        assume "do_paymentSelectCustomerData (p_cWID p) (p_cDID p) c t2 = Inr (cData, t4)"
        then have c: "cData \<in> c_data ` set (customers t2)" and t4: "t4 = t2"
          by (auto simp: do_paymentSelectCustomerData_def dest!: select_row_Inr)
        then obtain new where new: "payment_newData Z p c cData = Some new" "length new = 500"
          using payment_newData_length [of cData Z p c] len by auto
        show "ensures (or_panic (payment_newData Z p c cData) (\<lambda>newData.
           exec paymentUpdateCustomerWithData
             (do_paymentUpdateCustomerWithData (p_hAmount p) newData (p_cWID p) (p_cDID p) c) (\<lambda>_.
           payment_history Z p c wName dName))) t4 consistent"
          unfolding t4
          by (rule ensures_or_panic [OF new(1)], rule ensures_exec)
            (simp add: do_paymentUpdateCustomerWithData_def update_Inr data [OF new(2)])
      qed
    next
      case False
      show ?thesis unfolding t3 if_not_P [OF False]
        by (rule ensures_exec) (simp add: do_paymentUpdateCustomer_def update_Inr plain)
    qed
  qed
qed

lemma middle_index: "ids \<noteq> [] \<Longrightarrow> \<exists>c. go_index ids ((int (length ids) + 1) div 2 - 1) = Some c"
proof -
  assume "ids \<noteq> []"
  then have "1 \<le> (int (length ids) + 1) div 2" by (cases ids) auto
  then show ?thesis by (auto simp: go_index_def)
qed

lemma payment_choose_ensures:
  assumes "\<And>c. ensures (payment_customer Z p wName dName c) t P"
  shows "ensures (payment_choose Z p wName dName) t P"
proof (cases "p_cID p = 0")
  case True
  have found: "ensures (if length ids = 0 then return (Some [Plain ''customer not found''])
      else or_panic (go_index ids ((int (length ids) + 1) div 2 - 1))
        (payment_customer Z p wName dName)) t P" for ids
  proof (cases "ids = []")
    case False
    then obtain c where "go_index ids ((int (length ids) + 1) div 2 - 1) = Some c"
      using middle_index by blast
    then show ?thesis using False assms by (simp add: ensures_or_panic)
  qed (simp add: ensures_return)
  show ?thesis unfolding payment_choose_def if_P [OF True]
    by (intro ensures_exec, unfold do_paymentSelectCustomerListByLast_def select_Inr no_change_Inr)
      (simp only: found)
qed (simp add: payment_choose_def assms)

lemma payment_ensures:
  assumes t: "consistent t"
  shows "ensures (payment_body Z p) t consistent"
proof -
  let ?ds = "set_where (\<lambda>r. d_w_id r = p_wID p \<and> d_id r = p_dID p)
       (\<lambda>r. r\<lparr>d_ytd := d_ytd r + p_hAmount p\<rparr>) (districts t)"
  let ?t1 = "t\<lparr>districts := ?ds\<rparr>"
  let ?t2 = "?t1\<lparr>warehouses := set_where (\<lambda>r. w_id r = p_wID p)
       (\<lambda>r. r\<lparr>w_ytd := w_ytd r + p_hAmount p\<rparr>) (warehouses t)\<rparr>"
  have cust: "ensures (payment_choose Z p wName dName) ?t2 consistent"
    if "dr \<in> set ?ds" "d_w_id dr = p_wID p" "d_id dr = p_dID p" for dr wName dName
  proof (rule payment_choose_ensures)
    fix c
    have "\<exists>r0 \<in> set (districts t). d_key r0 = (p_wID p, p_dID p)"
      using that by (force simp: set_set_where d_key_def split: if_splits)
    then show "ensures (payment_customer Z p wName dName c) ?t2 consistent"
      using payment_customer_ensures [OF t _ _ refl, of _ p Z wName dName c] by auto
  qed
  show ?thesis unfolding payment_body_def
  proof (rule ensures_exec, goal_cases)
    case (1 x1 t1)
    then have t1: "t1 = ?t1" by (simp add: do_paymentUpdateDistrict_def update_Inr)
    show ?case unfolding t1
    proof (rule ensures_exec, goal_cases)
      case (1 dr t2)
      then have dr: "dr \<in> set ?ds" "d_w_id dr = p_wID p" "d_id dr = p_dID p" and t2: "t2 = ?t1"
        by (auto simp: do_paymentSelectDistrict_def dest!: select_row_Inr)
      show ?case unfolding t2
        by (intro ensures_exec)
          (use cust [OF dr] in \<open>auto simp: do_paymentUpdateWarehouse_def update_Inr
             do_paymentSelectWarehouse_def dest!: select_row_Inr\<close>)
    qed
  qed
qed

end
