(* ===== verification/TpccNewInv.thy ===== *)
theory TpccNewInv
  imports TpccInv
begin

text \<open>
  New-Order keeps the consistency conditions and does not panic on inputs whose map of items fits
  the lines.
\<close>

definition newOrder_effect ::
  "int \<times> int \<Rightarrow> int \<Rightarrow> orders_row \<Rightarrow> new_order_row \<Rightarrow> stock_row list \<Rightarrow> order_line_row list \<Rightarrow> db \<Rightarrow> db" where
  "newOrder_effect k n r x S L t = t\<lparr>
     districts := set_where (\<lambda>r. d_id r = snd k \<and> d_w_id r = fst k) (\<lambda>r. r\<lparr>d_next_o_id := n + 1\<rparr>) (districts t),
     orders := orders t @ [r], new_orders := new_orders t @ [x], stocks := S,
     order_lines := order_lines t @ L\<rparr>"

definition stock_ok :: "stock_row list \<Rightarrow> bool" where
  "stock_ok S \<longleftrightarrow> (\<forall>r \<in> set S. length (s_dist r) = 10 \<and> 10 \<le> s_quantity r \<and> s_quantity r \<le> 100)"

lemma d_key_next: "d_key (r\<lparr>d_next_o_id := x\<rparr>) = d_key r"
  by (simp add: d_key_def)

lemma district_unique:
  "cond_keys t \<Longrightarrow> r \<in> set (districts t) \<Longrightarrow> r' \<in> set (districts t) \<Longrightarrow> d_key r = d_key r' \<Longrightarrow> r = r'"
  unfolding cond_keys_def by (metis distinct_map inj_onD)

lemma order_ids_snoc:
  "order_ids (os @ [r]) k = order_ids os k \<union> (if (o_w_id r, o_d_id r) = k then {o_id r} else {})"
  by (cases k) (auto simp: order_ids_def o_key_def)

lemma new_order_ids_snoc:
  "new_order_ids (ns @ [r]) k = new_order_ids ns k \<union> (if (no_w_id r, no_d_id r) = k then {no_o_id r} else {})"
  by (cases k) (auto simp: new_order_ids_def no_key_def)

text \<open>What the rows written by New-Order have to satisfy.\<close>

definition newOrder_step ::
  "db \<Rightarrow> int \<Rightarrow> int \<Rightarrow> int \<Rightarrow> orders_row \<Rightarrow> new_order_row \<Rightarrow> stock_row list \<Rightarrow> order_line_row list \<Rightarrow> bool" where
  "newOrder_step t w d n r x S L \<longleftrightarrow> consistent t \<and>
     (\<exists>r0 \<in> set (districts t). d_key r0 = (w, d) \<and> d_next_o_id r0 = n) \<and>
     o_key r = (w, d, n) \<and> o_carrier_id r = None \<and> o_ol_cnt r = int (length L) \<and>
     no_key x = (w, d, n) \<and> (\<forall>l \<in> set L. ol_order l = (w, d, n) \<and> ol_delivery_d l = None) \<and> stock_ok S"

lemma newOrder_stepD:
  assumes "newOrder_step t w d n r x S L"
  shows "consistent t" "\<exists>r0 \<in> set (districts t). d_key r0 = (w, d) \<and> d_next_o_id r0 = n"
    "o_key r = (w, d, n)" "o_carrier_id r = None" "o_ol_cnt r = int (length L)" "no_key x = (w, d, n)"
    "\<forall>l \<in> set L. ol_order l = (w, d, n) \<and> ol_delivery_d l = None" "stock_ok S"
  using assms by (simp_all add: newOrder_step_def)

lemma fresh_order:
  assumes h: "newOrder_step t w d n r x S L"
  shows "(w, d, n) \<notin> o_key ` set (orders t)"
proof -
  note t = newOrder_stepD(1) [OF h] and r = newOrder_stepD(3,4,5) [OF h] and x = newOrder_stepD(6) [OF h]
    and L = newOrder_stepD(7) [OF h, rule_format] and S = newOrder_stepD(8) [OF h]
  obtain r0 where r0: "r0 \<in> set (districts t)" "d_key r0 = (w, d)" "d_next_o_id r0 = n"
    using newOrder_stepD(2) [OF h] by blast
  have "order_ids (orders t) (w, d) = {1..<n}" using t r0 by (auto simp: consistent_def cond_ids_def)
  then have "n \<notin> order_ids (orders t) (w, d)" by simp
  then show ?thesis by (simp add: order_ids_def)
qed

lemma fresh_lines:
  assumes h: "newOrder_step t w d n r x S L" and l: "l \<in> set (order_lines t)"
  shows "ol_order l \<noteq> (w, d, n)"
proof
  assume "ol_order l = (w, d, n)"
  then have "(w, d, n) \<in> ol_order ` set (order_lines t)" using l by force
  then show False
    using fresh_order [OF h] newOrder_stepD(1) [OF h] by (auto simp: consistent_def cond_keys_def)
qed

lemma newOrder_ids:
  assumes h: "newOrder_step t w d n r x S L"
  shows "cond_ids (newOrder_effect (w, d) n r x S L t)"
proof -
  note t = newOrder_stepD(1) [OF h] and r = newOrder_stepD(3,4,5) [OF h] and x = newOrder_stepD(6) [OF h]
    and L = newOrder_stepD(7) [OF h, rule_format] and S = newOrder_stepD(8) [OF h]
  obtain r0 where r0: "r0 \<in> set (districts t)" "d_key r0 = (w, d)" "d_next_o_id r0 = n"
    using newOrder_stepD(2) [OF h] by blast
  have k: "(o_w_id r, o_d_id r) = (w, d)" "o_id r = n" "(no_w_id x, no_d_id x) = (w, d)" "no_o_id x = n"
    using r(1) x by (simp_all add: o_key_def no_key_def)
  have "order_ids (orders t) (d_key q) = {1..<d_next_o_id q}"
    and "\<exists>m. 1 \<le> m \<and> m \<le> d_next_o_id q \<and> new_order_ids (new_orders t) (d_key q) = {m..<d_next_o_id q}"
    if "q \<in> set (districts t)" for q
    using t that by (auto simp: consistent_def cond_ids_def)
  note old = this
  have here: "order_ids (orders t @ [r]) (d_key q) = {1..<n + 1} \<and>
      (\<exists>m. 1 \<le> m \<and> m \<le> n + 1 \<and> new_order_ids (new_orders t @ [x]) (d_key q) = {m..<n + 1})"
    if q: "q \<in> set (districts t)" "d_id q = d" "d_w_id q = w" for q
  proof -
    have qk: "d_key q = (w, d)" using q by (simp add: d_key_def)
    then have "q = r0" using district_unique [of t q r0] t q(1) r0 by (simp add: consistent_def)
    then have n: "d_next_o_id q = n" using r0(3) by simp
    obtain m where m: "1 \<le> m" "m \<le> n" "new_order_ids (new_orders t) (w, d) = {m..<n}"
      using old(2) [OF q(1)] qk n by auto
    have "order_ids (orders t @ [r]) (d_key q) = {1..<n} \<union> {n}"
      using old(1) [OF q(1)] k by (simp add: order_ids_snoc qk n)
    also have "\<dots> = {1..<n + 1}" using m by auto
    moreover have "new_order_ids (new_orders t @ [x]) (d_key q) = {m..<n} \<union> {n}"
      using m k by (simp add: new_order_ids_snoc qk)
    moreover have "{m..<n} \<union> {n} = {m..<n + 1}" using m by auto
    ultimately show ?thesis using m by (intro conjI exI [of _ m]) auto
  qed
  have there: "order_ids (orders t @ [r]) (d_key q) = order_ids (orders t) (d_key q)"
    "new_order_ids (new_orders t @ [x]) (d_key q) = new_order_ids (new_orders t) (d_key q)"
    if "\<not> (d_id q = d \<and> d_w_id q = w)" for q
    using that k by (auto simp: order_ids_snoc new_order_ids_snoc d_key_def)
  show ?thesis unfolding cond_ids_def newOrder_effect_def
    using here there old by (simp add: ball_set_where d_key_next)
qed

lemma newOrder_carrier:
  assumes h: "newOrder_step t w d n r x S L"
  shows "cond_carrier (newOrder_effect (w, d) n r x S L t)"
proof -
  note t = newOrder_stepD(1) [OF h] and r = newOrder_stepD(3,4,5) [OF h] and x = newOrder_stepD(6) [OF h]
    and L = newOrder_stepD(7) [OF h, rule_format] and S = newOrder_stepD(8) [OF h]
  obtain r0 where r0: "r0 \<in> set (districts t)" "d_key r0 = (w, d)" "d_next_o_id r0 = n"
    using newOrder_stepD(2) [OF h] by blast
  have "o_key q \<noteq> (w, d, n)" if "q \<in> set (orders t)" for q
    using fresh_order [OF h] that by (metis image_eqI)
  then show ?thesis
    using t r x by (simp add: consistent_def cond_carrier_def newOrder_effect_def)
qed

lemma newOrder_lines_count:
  assumes h: "newOrder_step t w d n r x S L"
  shows "cond_lines (newOrder_effect (w, d) n r x S L t)"
proof -
  note t = newOrder_stepD(1) [OF h] and r = newOrder_stepD(3,4,5) [OF h] and x = newOrder_stepD(6) [OF h]
    and L = newOrder_stepD(7) [OF h, rule_format] and S = newOrder_stepD(8) [OF h]
  obtain r0 where r0: "r0 \<in> set (districts t)" "d_key r0 = (w, d)" "d_next_o_id r0 = n"
    using newOrder_stepD(2) [OF h] by blast
  have "o_key q \<noteq> (w, d, n)" if "q \<in> set (orders t)" for q
    using fresh_order [OF h] that by (metis image_eqI)
  then have "count_where (\<lambda>l. ol_order l = o_key q) L = 0" if "q \<in> set (orders t)" for q
    using L that by (intro count_where_none) metis
  moreover have "count_where (\<lambda>l. ol_order l = (w, d, n)) (order_lines t) = 0"
    using fresh_lines [OF h] by (intro count_where_none) auto
  moreover have "count_where (\<lambda>l. ol_order l = (w, d, n)) L = int (length L)"
    using L by (simp add: count_where_def)
  ultimately show ?thesis
    using t r by (simp add: consistent_def cond_lines_def newOrder_effect_def rows)
qed

lemma newOrder_delivered:
  assumes h: "newOrder_step t w d n r x S L"
  shows "cond_delivered (newOrder_effect (w, d) n r x S L t)"
proof -
  note t = newOrder_stepD(1) [OF h] and r = newOrder_stepD(3,4,5) [OF h] and x = newOrder_stepD(6) [OF h]
    and L = newOrder_stepD(7) [OF h, rule_format] and S = newOrder_stepD(8) [OF h]
  obtain r0 where r0: "r0 \<in> set (districts t)" "d_key r0 = (w, d)" "d_next_o_id r0 = n"
    using newOrder_stepD(2) [OF h] by blast
  have "o_key q \<noteq> (w, d, n)" if "q \<in> set (orders t)" for q
    using fresh_order [OF h] that by (metis image_eqI)
  then show ?thesis
    using t r(1,2) L fresh_lines [OF h]
    unfolding consistent_def cond_delivered_def newOrder_effect_def by fastforce
qed

lemma newOrder_balance:
  assumes h: "newOrder_step t w d n r x S L"
  shows "cond_balance (newOrder_effect (w, d) n r x S L t)"
proof -
  note t = newOrder_stepD(1) [OF h] and r = newOrder_stepD(3,4,5) [OF h] and x = newOrder_stepD(6) [OF h]
    and L = newOrder_stepD(7) [OF h, rule_format] and S = newOrder_stepD(8) [OF h]
  obtain r0 where r0: "r0 \<in> set (districts t)" "d_key r0 = (w, d)" "d_next_o_id r0 = n"
    using newOrder_stepD(2) [OF h] by blast
  have "lines_sum (\<lambda>l. ol_delivery_d l \<noteq> None) (order_lines t @ L) =
      lines_sum (\<lambda>l. ol_delivery_d l \<noteq> None) (order_lines t)"
  proof (rule ext)
    fix q
    have "sum_where (\<lambda>l. ol_order l = o_key q \<and> ol_delivery_d l \<noteq> None) ol_amount L = 0"
      using L by (intro sum_where_none) auto
    then show "lines_sum (\<lambda>l. ol_delivery_d l \<noteq> None) (order_lines t @ L) q =
        lines_sum (\<lambda>l. ol_delivery_d l \<noteq> None) (order_lines t) q" by (simp add: lines_sum_def rows)
  qed
  moreover have "lines_sum (\<lambda>l. ol_delivery_d l \<noteq> None) (order_lines t) r = 0"
    unfolding lines_sum_def using r(1) fresh_lines [OF h] by (intro sum_where_none) auto
  ultimately have "delivered (orders t @ [r]) (order_lines t @ L) k = delivered (orders t) (order_lines t) k" for k
    by (simp add: delivered_def rows)
  then show ?thesis
    using t by (simp add: consistent_def cond_balance_def newOrder_effect_def) auto
qed

lemma newOrder_ytd:
  assumes h: "newOrder_step t w d n r x S L"
  shows "cond_ytd (newOrder_effect (w, d) n r x S L t)"
proof -
  note t = newOrder_stepD(1) [OF h] and r = newOrder_stepD(3,4,5) [OF h] and x = newOrder_stepD(6) [OF h]
    and L = newOrder_stepD(7) [OF h, rule_format] and S = newOrder_stepD(8) [OF h]
  obtain r0 where r0: "r0 \<in> set (districts t)" "d_key r0 = (w, d)" "d_next_o_id r0 = n"
    using newOrder_stepD(2) [OF h] by blast
  have "sum_where (\<lambda>r. d_w_id r = v) d_ytd
      (set_where (\<lambda>r. d_id r = d \<and> d_w_id r = w) (\<lambda>r. r\<lparr>d_next_o_id := n + 1\<rparr>) (districts t)) =
      sum_where (\<lambda>r. d_w_id r = v) d_ytd (districts t)" for v
    by (rule sum_where_set_where_same) simp_all
  then show ?thesis
    using t by (simp add: consistent_def cond_ytd_def newOrder_effect_def ball_set_where d_key_def)
      auto
qed

lemma newOrder_keys:
  assumes h: "newOrder_step t w d n r x S L"
  shows "cond_keys (newOrder_effect (w, d) n r x S L t)"
proof -
  note t = newOrder_stepD(1) [OF h] and r = newOrder_stepD(3,4,5) [OF h] and x = newOrder_stepD(6) [OF h]
    and L = newOrder_stepD(7) [OF h, rule_format] and S = newOrder_stepD(8) [OF h]
  obtain r0 where r0: "r0 \<in> set (districts t)" "d_key r0 = (w, d)" "d_next_o_id r0 = n"
    using newOrder_stepD(2) [OF h] by blast
  let ?ds = "set_where (\<lambda>r. d_id r = d \<and> d_w_id r = w) (\<lambda>r. r\<lparr>d_next_o_id := n + 1\<rparr>) (districts t)"
  have key_map: "map d_key ?ds = map d_key (districts t)"
    by (rule map_set_where) (simp add: d_key_def)
  have key_set: "d_key ` set ?ds = d_key ` set (districts t)"
    by (simp only: set_map [symmetric] key_map)
  have "(w, d) \<in> d_key ` set (districts t)" using r0 by force
  then show ?thesis
    using t r x L fresh_order [OF h]
    by (auto simp: consistent_def cond_keys_def newOrder_effect_def key_map key_set o_key_def)
qed

lemma newOrder_effect_consistent:
  assumes h: "newOrder_step t w d n r x S L"
  shows "consistent (newOrder_effect (w, d) n r x S L t)"
proof -
  note t = newOrder_stepD(1) [OF h] and r = newOrder_stepD(3,4,5) [OF h] and x = newOrder_stepD(6) [OF h]
    and L = newOrder_stepD(7) [OF h, rule_format] and S = newOrder_stepD(8) [OF h]
  obtain r0 where r0: "r0 \<in> set (districts t)" "d_key r0 = (w, d)" "d_next_o_id r0 = n"
    using newOrder_stepD(2) [OF h] by blast
  have "cond_values (newOrder_effect (w, d) n r x S L t)"
    using t S by (simp add: consistent_def cond_values_def newOrder_effect_def stock_ok_def)
  then show ?thesis
    using newOrder_ids [OF h] newOrder_carrier [OF h] newOrder_lines_count [OF h] newOrder_delivered [OF h]
      newOrder_balance [OF h] newOrder_ytd [OF h] newOrder_keys [OF h] by (simp add: consistent_def)
qed

text \<open>The inputs: the map of the items is right, and the numbers are in range.\<close>

definition input_ok :: "newOrderData \<Rightarrow> bool" where
  "input_ok d \<longleftrightarrow>
     1 \<le> dID d \<and> dID d \<le> 10 \<and> 5 \<le> oOlCnt d \<and> oOlCnt d \<le> 15 \<and>
     int (length (no_items d)) = oOlCnt d \<and>
     (\<forall>i \<in> set (no_items d). \<not> foundInItems i \<and> \<not> foundInStock i \<and> 1 \<le> olQuantity i \<and> olQuantity i \<le> 10 \<and>
       (olIID i = - 1 \<or> no_itemsMap d (olIID i) \<noteq> None)) \<and>
     (\<forall>iid i. no_itemsMap d iid = Some i \<longrightarrow>
       i < length (no_items d) \<and> olIID (no_items d ! i) = iid \<and> 1 \<le> iid)"

text \<open>What the scans do not change.\<close>

definition same_lines :: "orderItem list \<Rightarrow> orderItem list \<Rightarrow> bool" where
  "same_lines its its' \<longleftrightarrow>
     map (\<lambda>i. (olIID i, olSupplyWID i, olNumber i, olQuantity i, remoteWarehouse i)) its' =
     map (\<lambda>i. (olIID i, olSupplyWID i, olNumber i, olQuantity i, remoteWarehouse i)) its"

lemma same_lines_refl [simp]: "same_lines its its"
  by (simp add: same_lines_def)

lemma same_lines_trans: "same_lines a b \<Longrightarrow> same_lines b c \<Longrightarrow> same_lines a c"
  by (simp add: same_lines_def)

lemma same_lines_length: "same_lines a b \<Longrightarrow> length b = length a"
  unfolding same_lines_def by (drule arg_cong [of _ _ length]) simp

lemma same_lines_nth:
  assumes "same_lines a b" "i < length a"
  shows "olIID (b ! i) = olIID (a ! i)" "olQuantity (b ! i) = olQuantity (a ! i)"
    "olSupplyWID (b ! i) = olSupplyWID (a ! i)" "remoteWarehouse (b ! i) = remoteWarehouse (a ! i)"
    "olNumber (b ! i) = olNumber (a ! i)"
proof -
  let ?f = "\<lambda>i. (olIID i, olSupplyWID i, olNumber i, olQuantity i, remoteWarehouse i)"
  have "i < length b" using assms same_lines_length by metis
  then have "?f (b ! i) = ?f (a ! i)"
    using assms nth_map [of i b ?f] nth_map [of i a ?f] by (simp add: same_lines_def)
  then show "olIID (b ! i) = olIID (a ! i)" "olQuantity (b ! i) = olQuantity (a ! i)"
    "olSupplyWID (b ! i) = olSupplyWID (a ! i)" "remoteWarehouse (b ! i) = remoteWarehouse (a ! i)"
    "olNumber (b ! i) = olNumber (a ! i)" by simp_all
qed

lemma same_lines_update:
  assumes "i < length its" "olIID v = olIID (its ! i)" "olSupplyWID v = olSupplyWID (its ! i)"
    "olNumber v = olNumber (its ! i)" "olQuantity v = olQuantity (its ! i)"
    "remoteWarehouse v = remoteWarehouse (its ! i)"
  shows "same_lines its (its[i := v])"
  using assms by (simp add: same_lines_def list_eq_iff_nth_eq nth_list_update)

text \<open>The map fits the lines: it leads from the number of an item to its line.\<close>

definition map_fits :: "(int \<rightharpoonup> nat) \<Rightarrow> orderItem list \<Rightarrow> bool" where
  "map_fits m its \<longleftrightarrow> (\<forall>iid i. m iid = Some i \<longrightarrow> i < length its \<and> olIID (its ! i) = iid \<and> 1 \<le> iid)"

lemma map_fits_same: "map_fits m its \<Longrightarrow> same_lines its its' \<Longrightarrow> map_fits m its'"
  by (auto simp: map_fits_def same_lines_length same_lines_nth)

lemma next_quantity_range:
  "10 \<le> s \<Longrightarrow> s \<le> 100 \<Longrightarrow> 1 \<le> q \<Longrightarrow> q \<le> 10 \<Longrightarrow> 10 \<le> next_quantity s q \<and> next_quantity s q \<le> 100"
  by (auto simp: next_quantity_def Let_def)

definition lines_ok :: "orderItem list \<Rightarrow> bool" where
  "lines_ok its \<longleftrightarrow> (\<forall>i \<in> set its. 1 \<le> olQuantity i \<and> olQuantity i \<le> 10 \<and>
     (foundInStock i \<longrightarrow> 10 \<le> sQuantity i \<and> sQuantity i \<le> 100))"

text \<open>Lines found are not the one that asks for a rollback.\<close>

definition found_ok :: "orderItem list \<Rightarrow> bool" where
  "found_ok its \<longleftrightarrow> (\<forall>i \<in> set its. foundInItems i \<longrightarrow> olIID i \<noteq> - 1)"

lemma all_update:
  "(\<forall>x \<in> set xs. Q x) \<Longrightarrow> Q v \<Longrightarrow> \<forall>x \<in> set (xs[i := v]). Q x"
  using set_update_subset_insert [of xs i v] by blast

lemma scan_items_ok:
  "map_fits m its \<Longrightarrow> (\<And>r. r \<in> set rows \<Longrightarrow> m (i_id r) \<noteq> None) \<Longrightarrow> found_ok its \<Longrightarrow> lines_ok its \<Longrightarrow>
   \<exists>its'. scan_items rows m its = Some its' \<and> same_lines its its' \<and> found_ok its' \<and> lines_ok its'"
proof (induction rows arbitrary: its)
  case (Cons r rows)
  obtain i where i: "m (i_id r) = Some i" using Cons.prems(2) by fastforce
  define v where "v = (its ! i)\<lparr>iPrice := scan_cents (i_price r), iName := i_name r, iData := i_data r,
      foundInItems := True\<rparr>"
  have len: "i < length its" "olIID (its ! i) = i_id r" "1 \<le> i_id r"
    using Cons.prems(1) i by (auto simp: map_fits_def)
  have same: "same_lines its (its[i := v])"
    by (rule same_lines_update) (simp_all add: len(1) v_def)
  have "\<exists>its'. scan_items rows m (its[i := v]) = Some its' \<and> same_lines (its[i := v]) its' \<and>
      found_ok its' \<and> lines_ok its'"
  proof (rule Cons.IH)
    show "map_fits m (its[i := v])" using map_fits_same [OF Cons.prems(1) same] .
    show "m (i_id q) \<noteq> None" if "q \<in> set rows" for q using Cons.prems(2) that by simp
    have "foundInItems v \<longrightarrow> olIID v \<noteq> - 1" using len by (simp add: v_def)
    then show "found_ok (its[i := v])"
      using Cons.prems(3) unfolding found_ok_def by (intro all_update)
    have "1 \<le> olQuantity v \<and> olQuantity v \<le> 10 \<and>
        (foundInStock v \<longrightarrow> 10 \<le> sQuantity v \<and> sQuantity v \<le> 100)"
      using Cons.prems(4) nth_mem [OF len(1)] by (simp add: lines_ok_def v_def)
    then show "lines_ok (its[i := v])"
      using Cons.prems(4) unfolding lines_ok_def by (intro all_update)
  qed
  then obtain its' where "scan_items rows m (its[i := v]) = Some its'" "same_lines (its[i := v]) its'"
    "found_ok its'" "lines_ok its'" by blast
  then show ?case
    using i same_lines_trans [OF same] by (intro exI [of _ its']) (simp add: v_def)
qed simp

lemma scan_stock_ok:
  "map_fits m its \<Longrightarrow> (\<And>r. r \<in> set rows \<Longrightarrow> m (s_i_id r) \<noteq> None) \<Longrightarrow> stock_ok rows \<Longrightarrow> lines_ok its \<Longrightarrow>
   1 \<le> d \<Longrightarrow> d \<le> 10 \<Longrightarrow>
   \<exists>its'. scan_stock rows d wt dt dc m its = Some its' \<and> same_lines its its' \<and> lines_ok its'"
proof (induction rows arbitrary: its)
  case (Cons r rows)
  obtain i where i: "m (s_i_id r) = Some i" using Cons.prems(2) by fastforce
  have r: "length (s_dist r) = 10" "10 \<le> s_quantity r" "s_quantity r \<le> 100" and rows: "stock_ok rows"
    using Cons.prems(3) by (auto simp: stock_ok_def)
  then obtain dist where dist: "go_index (s_dist r) (d - 1) = Some dist"
    using Cons.prems(5,6) by (auto simp: go_index_def)
  define v where "v = (its ! i)\<lparr>foundInStock := True,
            sQuantity := next_quantity (s_quantity r) (olQuantity (its ! i)), sDist := dist,
            olAmount := line_amount (olQuantity (its ! i)) (iPrice (its ! i)) wt dt dc\<rparr>"
  have len: "i < length its" using Cons.prems(1) i by (auto simp: map_fits_def)
  then have q: "1 \<le> olQuantity (its ! i)" "olQuantity (its ! i) \<le> 10"
    using Cons.prems(4) nth_mem [OF len] by (simp_all add: lines_ok_def)
  have same: "same_lines its (its[i := v])"
    by (rule same_lines_update) (simp_all add: len v_def)
  have v: "1 \<le> olQuantity v \<and> olQuantity v \<le> 10 \<and>
      (foundInStock v \<longrightarrow> 10 \<le> sQuantity v \<and> sQuantity v \<le> 100)"
    using q next_quantity_range [OF r(2,3) q] by (simp add: v_def)
  have "\<exists>its'. scan_stock rows d wt dt dc m (its[i := v]) = Some its' \<and>
      same_lines (its[i := v]) its' \<and> lines_ok its'"
  proof (rule Cons.IH)
    show "map_fits m (its[i := v])" using map_fits_same [OF Cons.prems(1) same] .
    show "m (s_i_id q) \<noteq> None" if "q \<in> set rows" for q using Cons.prems(2) that by simp
    show "lines_ok (its[i := v])"
      using Cons.prems(4) v unfolding lines_ok_def by (intro all_update)
  qed (use rows Cons.prems in simp_all)
  then obtain its' where "scan_stock rows d wt dt dc m (its[i := v]) = Some its'"
    "same_lines (its[i := v]) its'" "lines_ok its'" by blast
  then show ?case
    using i dist same_lines_trans [OF same] by (intro exI [of _ its']) (simp add: v_def Let_def)
qed simp

lemma update_stocks_ensures:
  "lines_ok its \<Longrightarrow> stock_ok (stocks t) \<Longrightarrow>
   (\<And>S. stock_ok S \<Longrightarrow> ensures k (t\<lparr>stocks := S\<rparr>) P) \<Longrightarrow> ensures (update_stocks its k) t P"
proof (induction its arbitrary: t)
  case Nil
  then show ?case using Nil.prems(3) [of "stocks t"] by (simp add: ensures_def)
next
  case (Cons i its)
  show ?case
  proof (cases "foundInStock i \<and> \<not> olIID i < 0")
    case False
    then show ?thesis by (auto simp: ensures_def return_def)
  next
    case True
    let ?S = "set_where (\<lambda>r. s_i_id r = olIID i \<and> s_w_id r = olSupplyWID i)
       (\<lambda>r. r\<lparr>s_quantity := sQuantity i, s_ytd := s_ytd r + olQuantity i, s_order_cnt := s_order_cnt r + 1,
          s_remote_cnt := s_remote_cnt r + remoteWarehouse i\<rparr>) (stocks t)"
    have S: "stock_ok ?S"
      using Cons.prems(1,2) True by (simp add: stock_ok_def lines_ok_def ball_set_where)
    have "ensures (update_stocks its k) (t\<lparr>stocks := ?S\<rparr>) P"
      by (rule Cons.IH) (use Cons.prems S in \<open>auto simp: lines_ok_def\<close>)
    then have "ensures (exec newOrderUpdateStock (do_newOrderUpdateStock (sQuantity i) (olQuantity i)
        (remoteWarehouse i) (olIID i) (olSupplyWID i)) (\<lambda>_. update_stocks its k)) t P"
      by (intro ensures_exec) (simp add: do_newOrderUpdateStock_def update_Inr)
    then show ?thesis using True by (simp add: ensures_def)
  qed
qed

lemma same_lines_mem:
  "same_lines a b \<Longrightarrow> i \<in> set b \<Longrightarrow> \<exists>j \<in> set a. olIID j = olIID i"
proof -
  assume s: "same_lines a b" and "i \<in> set b"
  then obtain n where n: "n < length a" "i = b ! n" by (auto simp: in_set_conv_nth same_lines_length)
  then have "olIID (a ! n) = olIID i" using same_lines_nth(1) [OF s n(1)] by simp
  then show ?thesis using n(1) nth_mem by blast
qed

lemma newOrder_lines_ensures:
  assumes d: "input_ok d" and t: "stock_ok (stocks t)"
    and its: "same_lines (no_items d) its" "\<forall>i \<in> set its. olIID i \<noteq> - 1" "lines_ok its"
    and P: "\<And>S L. stock_ok S \<Longrightarrow> length L = length its \<Longrightarrow>
      (\<forall>l \<in> set L. ol_order l = (wID d, dID d, oID) \<and> ol_delivery_d l = None) \<Longrightarrow>
      P (t\<lparr>stocks := S, order_lines := order_lines t @ L\<rparr>)"
  shows "ensures (newOrder_lines Z d oID wt dt dc its) t P"
proof -
  have n: "5 \<le> int (length its)" "int (length its) \<le> 15"
    using d same_lines_length [OF its(1)] by (auto simp: input_ok_def)
  obtain sql1 where sql1: "go_index newOrderSelectStockSQLs (int (length its)) = Some sql1"
    using newOrderSQLs_index [OF n] by (simp add: newOrderSelectStockSQLs_def)
  obtain sql2 where sql2: "go_index newOrderInsertOrderLineSQLs (int (length its)) = Some sql2"
    using newOrderSQLs_index [OF n] by (simp add: newOrderInsertOrderLineSQLs_def)
  have fits: "map_fits (no_itemsMap d) its"
    using d by (intro map_fits_same [OF _ its(1)]) (auto simp: input_ok_def map_fits_def)
  have dom: "no_itemsMap d (olIID i) \<noteq> None" if "i \<in> set its" for i
    using d its(2) same_lines_mem [OF its(1) that] that unfolding input_ok_def by metis
  show ?thesis unfolding newOrder_lines_def
  proof (rule ensures_or_panic [OF sql1], rule ensures_exec, goal_cases)
    case (1 rows t1)
    then have t1: "t1 = t" and rows: "rows = filter (\<lambda>r. s_key r \<in> set (map (\<lambda>i. (olSupplyWID i, olIID i)) its)) (stocks t)"
      by (auto simp: do_selectStock_def select_Inr)
    have "no_itemsMap d (s_i_id r) \<noteq> None" if "r \<in> set rows" for r
      using that dom by (auto simp: rows s_key_def)
    moreover have "stock_ok rows" using t by (auto simp: rows stock_ok_def)
    ultimately obtain its' where its': "scan_stock rows (dID d) wt dt dc (no_itemsMap d) its = Some its'"
      "same_lines its its'" "lines_ok its'"
      using scan_stock_ok [OF fits _ _ its(3), of rows "dID d" wt dt dc] d by (auto simp: input_ok_def)
    have len: "length its' = length its" using same_lines_length [OF its'(2)] .
    have fin: "ensures (or_panic (go_index newOrderInsertOrderLineSQLs (int (length its'))) (\<lambda>sql.
        exec sql (do_insertOrderLines (map (order_line_of Z oID (dID d) (wID d)) its')) (\<lambda>_. commit)))
        (t\<lparr>stocks := S\<rparr>) P" if "stock_ok S" for S
    proof (rule ensures_or_panic [OF sql2 [folded len]], rule ensures_exec, goal_cases)
      case (1 u t2)
      then have "t2 = t\<lparr>stocks := S, order_lines := order_lines t @ map (order_line_of Z oID (dID d) (wID d)) its'\<rparr>"
        by (simp add: do_insertOrderLines_def insert_rows_Inr)
      moreover have "P (t\<lparr>stocks := S, order_lines := order_lines t @ map (order_line_of Z oID (dID d) (wID d)) its'\<rparr>)"
        by (rule P [OF that]) (simp_all add: len order_line_of_def ol_order_def)
      ultimately show ?case by (simp add: ensures_commit)
    qed
    show ?case unfolding t1
      by (rule ensures_or_panic [OF its'(1)], rule ensures_exec, unfold no_change_Inr)
        (simp add: update_stocks_ensures [OF its'(3) t fin])
  qed
qed

lemma newOrder_found_ensures:
  assumes d: "input_ok d" and t: "stock_ok (stocks t)" "\<forall>r \<in> set (items t). 1 \<le> i_id r"
    and P: "\<And>S L. stock_ok S \<Longrightarrow> int (length L) = oOlCnt d \<Longrightarrow>
      (\<forall>l \<in> set L. ol_order l = (wID d, dID d, oID) \<and> ol_delivery_d l = None) \<Longrightarrow>
      P (t\<lparr>stocks := S, order_lines := order_lines t @ L\<rparr>)"
  shows "ensures (newOrder_found Z d oID wt dt dc) t P"
proof -
  have n: "5 \<le> int (length (no_items d))" "int (length (no_items d)) \<le> 15"
    using d by (auto simp: input_ok_def)
  obtain sql where sql: "go_index newOrderSelectItemSQLs (int (length (no_items d))) = Some sql"
    using newOrderSQLs_index [OF n] by (simp add: newOrderSelectItemSQLs_def)
  have fits: "map_fits (no_itemsMap d) (no_items d)" "found_ok (no_items d)" "lines_ok (no_items d)"
    using d by (auto simp: input_ok_def map_fits_def found_ok_def lines_ok_def)
  show ?thesis unfolding newOrder_found_def
  proof (rule ensures_or_panic [OF sql], rule ensures_exec, goal_cases)
    case (1 rows t1)
    then have t1: "t1 = t" and rows: "rows = filter (\<lambda>r. i_id r \<in> set (map olIID (no_items d))) (items t)"
      by (auto simp: do_selectItems_def select_Inr)
    have "no_itemsMap d (i_id r) \<noteq> None" if "r \<in> set rows" for r
    proof -
      have "1 \<le> i_id r" "i_id r \<in> olIID ` set (no_items d)" using that t(2) by (auto simp: rows)
      then show ?thesis using d by (auto simp: input_ok_def)
    qed
    then obtain its where its: "scan_items rows (no_itemsMap d) (no_items d) = Some its"
      "same_lines (no_items d) its" "found_ok its" "lines_ok its"
      using scan_items_ok [OF fits(1) _ fits(2,3), of rows] by blast
    have "ensures (case find (\<lambda>item. \<not> foundInItems item) its of
       Some item \<Rightarrow> return (if olIID item = - 1 then None else Some [Plain ''item not found''])
     | None \<Rightarrow> newOrder_lines Z d oID wt dt dc its) t P"
    proof (cases "find (\<lambda>item. \<not> foundInItems item) its")
      case None
      then have "\<forall>i \<in> set its. olIID i \<noteq> - 1"
        using its(3) by (auto simp: find_None_iff found_ok_def)
      then show ?thesis unfolding None option.case
        by (intro newOrder_lines_ensures [OF d t(1) its(2) _ its(4)] P)
          (use d same_lines_length [OF its(2)] in \<open>auto simp: input_ok_def\<close>)
    qed (simp add: ensures_return)
    then show ?case unfolding t1
      by (intro ensures_or_panic [OF its(1)] ensures_exec, unfold no_change_Inr) simp
  qed
qed

lemma newOrder_ensures:
  assumes d: "input_ok d" and t: "consistent t"
  shows "ensures (newOrder_body Z d) t consistent"
  unfolding newOrder_body_def
proof (rule ensures_exec, goal_cases)
  case (1 x1 t1)
  obtain dc last credit wt where x1: "x1 = (dc, last, credit, wt)" by (metis prod.exhaust)
  have t1: "t1 = t" using 1 by (auto simp: do_newOrderSelectCustomer_def dest!: select_row_Inr)
  show ?case unfolding t1 x1 prod.case
  proof (rule ensures_exec, goal_cases)
    case (1 x2 t2)
    obtain n dt where x2: "x2 = (n, dt)" by (metis prod.exhaust)
    have t2: "t2 = t" and "\<exists>r0 \<in> set (districts t). d_key r0 = (wID d, dID d) \<and> d_next_o_id r0 = n"
      using 1 x2 by (auto simp: do_newOrderSelectDistrict_def d_key_def dest!: select_row_Inr)
    note r0 = this(2)
    have fin: "ensures (newOrder_found Z d n wt dt dc) (t\<lparr>
        districts := set_where (\<lambda>r. d_id r = dID d \<and> d_w_id r = wID d) (\<lambda>r. r\<lparr>d_next_o_id := n + 1\<rparr>) (districts t),
        orders := orders t @ [\<lparr>o_id = n, o_d_id = dID d, o_w_id = wID d, o_c_id = cID d, o_entry_d = now Z,
          o_carrier_id = None, o_ol_cnt = oOlCnt d, o_all_local = no_allLocal d\<rparr>],
        new_orders := new_orders t @ [\<lparr>no_o_id = n, no_d_id = dID d, no_w_id = wID d\<rparr>]\<rparr>) consistent"
    proof (rule newOrder_found_ensures [OF d], goal_cases)
      case (3 S L)
      let ?r = "\<lparr>o_id = n, o_d_id = dID d, o_w_id = wID d, o_c_id = cID d, o_entry_d = now Z,
          o_carrier_id = None, o_ol_cnt = oOlCnt d, o_all_local = no_allLocal d\<rparr>"
      let ?x = "\<lparr>no_o_id = n, no_d_id = dID d, no_w_id = wID d\<rparr>"
      have "newOrder_step t (wID d) (dID d) n ?r ?x S L"
        using t r0 3 by (simp add: newOrder_step_def o_key_def no_key_def)
      from newOrder_effect_consistent [OF this] show ?case by (simp add: newOrder_effect_def)
    qed (use t in \<open>auto simp: consistent_def cond_values_def stock_ok_def\<close>)
    show ?case unfolding t2 x2 prod.case
      by (intro ensures_exec)
        (use fin in \<open>simp add: do_newOrderUpdateDistrict_def update_Inr do_newOrderInsertOrder_def
           do_newOrderInsertNewOrder_def insert_rows_Inr\<close>)
  qed
qed

end
