(* ===== verification/TpccDelInv.thy ===== *)
theory TpccDelInv
  imports TpccInv
begin

text \<open>
  Delivery keeps the consistency conditions and does not panic.  The transaction handles the
  oldest new order of each of the ten districts; \<open>triples\<close> are their keys.
\<close>

subsection \<open>The oldest orders\<close>

definition key_at :: "int \<Rightarrow> deliveryOrder list \<Rightarrow> nat \<Rightarrow> int \<times> int \<times> int" where
  "key_at w os i = (w, int i + 1, do_oID (os ! i))"

lemma triples_mem: "k \<in> set (triples w os) \<longleftrightarrow> (\<exists>i < 10. k = key_at w os i)"
  by (auto simp: triples_def key_at_def)

lemma key_at_inj: "key_at w os i = key_at w os j \<Longrightarrow> i = j"
  by (simp add: key_at_def)

text \<open>A place holds 0 or the least number of a new order of its district.\<close>

definition oldest :: "db \<Rightarrow> int \<Rightarrow> deliveryOrder list \<Rightarrow> bool" where
  "oldest t w os \<longleftrightarrow> length os = 10 \<and>
     (\<forall>i < 10. do_oID (os ! i) = 0 \<or>
        do_oID (os ! i) \<in> new_order_ids (new_orders t) (w, int i + 1) \<and>
        (\<forall>n \<in> new_order_ids (new_orders t) (w, int i + 1). do_oID (os ! i) \<le> n))"

lemma select_oldest:
  assumes "do_deliverySelectNewOrder w d t = Inr (n, t')"
  shows "t' = t \<and> n \<in> new_order_ids (new_orders t) (w, d) \<and>
    (\<forall>m \<in> new_order_ids (new_orders t) (w, d). n \<le> m)"
proof -
  define ns where "ns = map no_o_id (filter (\<lambda>r. no_w_id r = w \<and> no_d_id r = d) (new_orders t))"
  have s: "set ns = new_order_ids (new_orders t) (w, d)"
    by (force simp: ns_def new_order_ids_def no_key_def)
  obtain rest where rest: "sort ns = n # rest" and t': "t' = t"
    using assms by (auto simp: do_deliverySelectNewOrder_def select_row_def ns_def split: list.splits)
  have "sorted (n # rest)" using sorted_sort rest by metis
  moreover have "set (n # rest) = set ns" using rest set_sort by metis
  ultimately show ?thesis using t' s by (metis list.set_intros(1) set_ConsD sorted_simps(2) order_refl)
qed

lemma ensures_oldest:
  "oldest t w os \<Longrightarrow> (\<forall>i < 10. do_amount (os ! i) = 0) \<Longrightarrow> (\<forall>i \<in> set is. i < 10) \<Longrightarrow>
   (\<And>os'. oldest t w os' \<Longrightarrow> (\<forall>i < 10. do_amount (os' ! i) = 0) \<Longrightarrow> ensures (k os') t P) \<Longrightarrow>
   ensures (delivery_oldest is w os k) t P"
proof (induction "is" arbitrary: os)
  case Nil
  then show ?case by (simp add: ensures_def)
next
  case (Cons i "is")
  have skip: "ensures (delivery_oldest is w os k) t P" using Cons by simp
  have found: "ensures (delivery_oldest is w (os[i := (os ! i)\<lparr>do_oID := n\<rparr>]) k) t P"
    if n: "do_deliverySelectNewOrder w (int i + 1) t = Inr (n, t')" for n t'
  proof (rule Cons.IH)
    show "oldest t w (os[i := (os ! i)\<lparr>do_oID := n\<rparr>])"
      using select_oldest [OF n] Cons.prems(1,3) by (auto simp: oldest_def nth_list_update)
    show "\<forall>j < 10. do_amount (os[i := (os ! i)\<lparr>do_oID := n\<rparr>] ! j) = 0"
      using Cons.prems(1,2,3) by (auto simp: oldest_def nth_list_update)
  qed (use Cons.prems in auto)
  show ?case unfolding ensures_def
  proof
    fix q
    obtain r q' where call: "call (do_deliverySelectNewOrder w (int i + 1)) (t, q) = (r, (t, q'))"
      and r: "\<And>n. r = Inr n \<Longrightarrow> \<exists>t'. do_deliverySelectNewOrder w (int i + 1) t = Inr (n, t')"
    proof (cases "do_deliverySelectNewOrder w (int i + 1) t")
      case (Inl e)
      then show thesis using that by (cases "shd q") (auto simp: call_def)
    next
      case (Inr y)
      then obtain n where "do_deliverySelectNewOrder w (int i + 1) t = Inr (n, t)"
        using select_oldest by (metis prod.collapse)
      then show thesis using that by (cases "shd q") (auto simp: call_def)
    qed
    show "case delivery_oldest (i # is) w os k (t, q) of
        (CommitTx, (t', q')) \<Rightarrow> P t' | (PanicTx, s) \<Rightarrow> False | (Return e, s) \<Rightarrow> True"
    proof (cases r)
      case (Inl e)
      then show ?thesis using call skip by (auto simp: ensures_def return_def)
    next
      case (Inr n)
      then obtain t2 where "do_deliverySelectNewOrder w (int i + 1) t = Inr (n, t2)" using r by blast
      from found [OF this] show ?thesis using call Inr unfolding ensures_def
        by (simp add: spec [of _ q'])
    qed
  qed
qed

subsection \<open>Scanning rows into the ten places\<close>

lemma delivery_customers_ok:
  "length os = 10 \<Longrightarrow> (\<forall>x \<in> set rows. 1 \<le> fst x \<and> fst x \<le> 10) \<Longrightarrow>
   \<exists>os'. delivery_customers rows os = Some os' \<and> length os' = 10 \<and>
     (\<forall>i < 10. do_oID (os' ! i) = do_oID (os ! i) \<and> do_amount (os' ! i) = do_amount (os ! i) \<and>
        ((int i + 1, do_cID (os' ! i)) \<in> set rows \<or>
         int i + 1 \<notin> fst ` set rows \<and> do_cID (os' ! i) = do_cID (os ! i)))"
proof (induction rows arbitrary: os)
  case (Cons x rows)
  obtain d c where x: "x = (d, c)" "1 \<le> d" "d \<le> 10" using Cons.prems(2) by (cases x) auto
  define os1 where "os1 = os[nat (d - 1) := (os ! nat (d - 1))\<lparr>do_cID := c\<rparr>]"
  have nd: "nat (d - 1) < 10" using x by linarith
  obtain os' where os': "delivery_customers rows os1 = Some os'" "length os' = 10"
    "\<And>i. i < 10 \<Longrightarrow> do_oID (os' ! i) = do_oID (os1 ! i) \<and> do_amount (os' ! i) = do_amount (os1 ! i) \<and>
        ((int i + 1, do_cID (os' ! i)) \<in> set rows \<or>
         int i + 1 \<notin> fst ` set rows \<and> do_cID (os' ! i) = do_cID (os1 ! i))"
    using Cons.IH [of os1] Cons.prems by (auto simp: os1_def)
  have "delivery_customers (x # rows) os = Some os'"
    using x os'(1) Cons.prems(1) by (simp add: go_index_Some go_update_Some os1_def)
  moreover have "do_oID (os' ! i) = do_oID (os ! i) \<and> do_amount (os' ! i) = do_amount (os ! i) \<and>
        ((int i + 1, do_cID (os' ! i)) \<in> set (x # rows) \<or>
         int i + 1 \<notin> fst ` set (x # rows) \<and> do_cID (os' ! i) = do_cID (os ! i))" if i: "i < 10" for i
  proof (cases "i = nat (d - 1)")
    case True
    then have "int i + 1 = d" using x by linarith
    then show ?thesis using os'(3) [OF i] True x Cons.prems(1) nd by (auto simp: os1_def)
  next
    case False
    then have "int i + 1 \<noteq> d" using x by linarith
    then show ?thesis using os'(3) [OF i] False x Cons.prems(1) nd by (auto simp: os1_def)
  qed
  ultimately show ?case using os'(2) by blast
qed simp

lemma delivery_amounts_ok:
  "length os = 10 \<Longrightarrow> (\<forall>x \<in> set rows. 1 \<le> fst x \<and> fst x \<le> 10) \<Longrightarrow>
   \<exists>os'. delivery_amounts rows os = Some os' \<and> length os' = 10 \<and>
     (\<forall>i < 10. do_oID (os' ! i) = do_oID (os ! i) \<and> do_cID (os' ! i) = do_cID (os ! i) \<and>
        ((int i + 1, do_amount (os' ! i)) \<in> set rows \<or>
         int i + 1 \<notin> fst ` set rows \<and> do_amount (os' ! i) = do_amount (os ! i)))"
proof (induction rows arbitrary: os)
  case (Cons x rows)
  obtain d c where x: "x = (d, c)" "1 \<le> d" "d \<le> 10" using Cons.prems(2) by (cases x) auto
  define os1 where "os1 = os[nat (d - 1) := (os ! nat (d - 1))\<lparr>do_amount := c\<rparr>]"
  have nd: "nat (d - 1) < 10" using x by linarith
  obtain os' where os': "delivery_amounts rows os1 = Some os'" "length os' = 10"
    "\<And>i. i < 10 \<Longrightarrow> do_oID (os' ! i) = do_oID (os1 ! i) \<and> do_cID (os' ! i) = do_cID (os1 ! i) \<and>
        ((int i + 1, do_amount (os' ! i)) \<in> set rows \<or>
         int i + 1 \<notin> fst ` set rows \<and> do_amount (os' ! i) = do_amount (os1 ! i))"
    using Cons.IH [of os1] Cons.prems by (auto simp: os1_def)
  have "delivery_amounts (x # rows) os = Some os'"
    using x os'(1) Cons.prems(1) by (simp add: go_index_Some go_update_Some os1_def)
  moreover have "do_oID (os' ! i) = do_oID (os ! i) \<and> do_cID (os' ! i) = do_cID (os ! i) \<and>
        ((int i + 1, do_amount (os' ! i)) \<in> set (x # rows) \<or>
         int i + 1 \<notin> fst ` set (x # rows) \<and> do_amount (os' ! i) = do_amount (os ! i))" if i: "i < 10" for i
  proof (cases "i = nat (d - 1)")
    case True
    then have "int i + 1 = d" using x by linarith
    then show ?thesis using os'(3) [OF i] True x Cons.prems(1) nd by (auto simp: os1_def)
  next
    case False
    then have "int i + 1 \<noteq> d" using x by linarith
    then show ?thesis using os'(3) [OF i] False x Cons.prems(1) nd by (auto simp: os1_def)
  qed
  ultimately show ?case using os'(2) by blast
qed simp

subsection \<open>The customers credited\<close>

definition gain :: "int \<Rightarrow> deliveryOrder list \<Rightarrow> nat list \<Rightarrow> int \<times> int \<times> int \<Rightarrow> int" where
  "gain w os is k = (\<Sum>i \<leftarrow> is. if do_oID (os ! i) \<noteq> 0 \<and> k = (w, int i + 1, do_cID (os ! i))
     then do_amount (os ! i) else 0)"

definition credited :: "(int \<times> int \<times> int \<Rightarrow> int) \<Rightarrow> customer_row list \<Rightarrow> customer_row list \<Rightarrow> bool" where
  "credited g cs cs' \<longleftrightarrow>
     list_all2 (\<lambda>r r'. c_key r' = c_key r \<and> c_balance r' = c_balance r + g (c_key r) \<and>
       c_ytd_payment r' = c_ytd_payment r \<and> c_data r' = c_data r) cs cs'"

lemma credited_step:
  assumes "credited g (set_where (\<lambda>r. c_key r = k)
      (\<lambda>r. r\<lparr>c_balance := c_balance r + a, c_delivery_cnt := c_delivery_cnt r + 1\<rparr>) cs) cs'"
  shows "credited (\<lambda>x. (if x = k then a else 0) + g x) cs cs'"
  using assms unfolding credited_def set_where_def list_all2_map1
  by (rule list_all2_mono) (auto simp: c_key_def split: if_splits)

lemma ensures_update:
  "(\<And>cs'. credited (gain w os is) (customers t) cs' \<Longrightarrow> ensures k (t\<lparr>customers := cs'\<rparr>) P) \<Longrightarrow>
   ensures (delivery_update is w os k) t P"
proof (induction "is" arbitrary: t)
  case Nil
  have "credited (gain w os []) (customers t) (customers t)"
    by (simp add: credited_def gain_def list_all2_same)
  then show ?case using Nil.prems [of "customers t"] by (simp add: ensures_def)
next
  case (Cons i "is")
  show ?case
  proof (cases "do_oID (os ! i) = 0")
    case True
    then have "gain w os (i # is) = gain w os is" by (simp add: gain_def fun_eq_iff)
    then have "ensures (delivery_update is w os k) t P" using Cons by simp
    then show ?thesis using True by (simp add: ensures_def)
  next
    case False
    let ?cs = "set_where (\<lambda>r. c_key r = (w, int i + 1, do_cID (os ! i)))
       (\<lambda>r. r\<lparr>c_balance := c_balance r + do_amount (os ! i), c_delivery_cnt := c_delivery_cnt r + 1\<rparr>) (customers t)"
    have "ensures (delivery_update is w os k) (t\<lparr>customers := ?cs\<rparr>) P"
    proof (rule Cons.IH)
      fix cs' assume "credited (gain w os is) (customers (t\<lparr>customers := ?cs\<rparr>)) cs'"
      then have "credited (\<lambda>x. (if x = (w, int i + 1, do_cID (os ! i)) then do_amount (os ! i) else 0) +
          gain w os is x) (customers t) cs'" by (simp add: credited_step)
      then have "credited (gain w os (i # is)) (customers t) cs'"
        using False by (simp add: gain_def [abs_def])
      then show "ensures k ((t\<lparr>customers := ?cs\<rparr>)\<lparr>customers := cs'\<rparr>) P" using Cons.prems by simp
    qed
    then have "ensures (exec deliveryUpdateCustomer (do_deliveryUpdateCustomer (do_amount (os ! i)) w (int i + 1)
        (do_cID (os ! i))) (\<lambda>_. delivery_update is w os k)) t P"
      by (intro ensures_exec) (simp add: do_deliveryUpdateCustomer_def update_Inr customer_is_key [abs_def])
    then show ?thesis using False by (simp add: ensures_def Let_def)
  qed
qed

subsection \<open>The effect\<close>

definition delivery_effect ::
  "(int \<times> int \<times> int) set \<Rightarrow> int \<Rightarrow> string \<Rightarrow> customer_row list \<Rightarrow> db \<Rightarrow> db" where
  "delivery_effect ks carrier date cs t = t\<lparr>
     new_orders := filter (\<lambda>r. no_key r \<notin> ks) (new_orders t),
     orders := set_where (\<lambda>r. o_key r \<in> ks) (\<lambda>r. r\<lparr>o_carrier_id := Some carrier\<rparr>) (orders t),
     order_lines := set_where (\<lambda>r. ol_order r \<in> ks) (\<lambda>r. r\<lparr>ol_delivery_d := Some date\<rparr>) (order_lines t),
     customers := cs\<rparr>"

lemma set_carrier_simps:
  "o_key (r\<lparr>o_carrier_id := c\<rparr>) = o_key r" "o_customer (r\<lparr>o_carrier_id := c\<rparr>) = o_customer r"
  "ol_order (l\<lparr>ol_delivery_d := e\<rparr>) = ol_order l"
  by (simp_all add: o_key_def o_customer_def ol_order_def)

lemma image_set_where:
  "(\<And>r. P r \<Longrightarrow> g (f r) = g r) \<Longrightarrow> g ` set (set_where P f rs) = g ` set rs"
  by (simp only: set_map [symmetric] map_set_where)

lemma delivered_keys:
  "o_key ` set (set_where (\<lambda>r. o_key r \<in> ks) (\<lambda>r. r\<lparr>o_carrier_id := c\<rparr>) rs) = o_key ` set rs"
  "map o_key (set_where (\<lambda>r. o_key r \<in> ks) (\<lambda>r. r\<lparr>o_carrier_id := c\<rparr>) rs) = map o_key rs"
  "ol_order ` set (set_where (\<lambda>r. ol_order r \<in> ks) (\<lambda>r. r\<lparr>ol_delivery_d := e\<rparr>) ls) = ol_order ` set ls"
  by (rule image_set_where map_set_where; simp add: set_carrier_simps)+

text \<open>A key of the ten is that of an order exactly when it is that of a new order.\<close>

lemma oldest_key:
  assumes t: "consistent t" and old: "oldest t w os" and i: "i < 10"
  shows "key_at w os i \<in> o_key ` set (orders t) \<longleftrightarrow> do_oID (os ! i) \<noteq> 0"
    "key_at w os i \<in> no_key ` set (new_orders t) \<longleftrightarrow> do_oID (os ! i) \<noteq> 0"
proof -
  have zero: "key_at w os i \<notin> o_key ` set (orders t)" if z: "do_oID (os ! i) = 0"
  proof
    assume "key_at w os i \<in> o_key ` set (orders t)"
    then obtain r where r: "r \<in> set (orders t)" "o_w_id r = w" "o_d_id r = int i + 1" "o_id r = 0"
      using z by (auto simp: key_at_def o_key_def)
    then obtain q where q: "q \<in> set (districts t)" "d_key q = (w, int i + 1)"
      using t by (fastforce simp: consistent_def cond_keys_def)
    then have "order_ids (orders t) (w, int i + 1) = {1..<d_next_o_id q}"
      using t by (auto simp: consistent_def cond_ids_def)
    moreover have "(w, int i + 1, 0) \<in> o_key ` set (orders t)"
      using r by (auto simp: o_key_def intro: image_eqI [of _ _ r])
    then have "0 \<in> order_ids (orders t) (w, int i + 1)" by (simp add: order_ids_def)
    ultimately show False by simp
  qed
  have new: "key_at w os i \<in> no_key ` set (new_orders t)" if "do_oID (os ! i) \<noteq> 0"
    using old i that by (auto simp: oldest_def key_at_def new_order_ids_def)
  have sub: "no_key ` set (new_orders t) \<subseteq> o_key ` set (orders t)"
    using t by (simp add: consistent_def cond_keys_def)
  show "key_at w os i \<in> o_key ` set (orders t) \<longleftrightarrow> do_oID (os ! i) \<noteq> 0"
    "key_at w os i \<in> no_key ` set (new_orders t) \<longleftrightarrow> do_oID (os ! i) \<noteq> 0"
    using zero new sub by blast+
qed

lemma triple_carrier:
  assumes t: "consistent t" and old: "oldest t w os" and r: "r \<in> set (orders t)" "o_key r \<in> set (triples w os)"
  shows "o_carrier_id r = None"
proof -
  obtain i where "i < 10" "o_key r = key_at w os i" using r(2) by (auto simp: triples_mem)
  then have "o_key r \<in> no_key ` set (new_orders t)"
    using oldest_key [OF t old] r(1) by (metis image_eqI)
  then show ?thesis using t r(1) by (auto simp: consistent_def cond_carrier_def)
qed

lemma delivery_ids:
  assumes t: "consistent t" and old: "oldest t w os"
  shows "cond_ids (delivery_effect (set (triples w os)) carrier date cs t)"
proof -
  let ?ks = "set (triples w os)"
  have o1: "order_ids (set_where (\<lambda>r. o_key r \<in> ?ks) (\<lambda>r. r\<lparr>o_carrier_id := Some carrier\<rparr>) (orders t)) k =
      order_ids (orders t) k" for k
    by (simp only: order_ids_def delivered_keys)
  have n1: "new_order_ids (filter (\<lambda>r. no_key r \<notin> ?ks) (new_orders t)) k =
      new_order_ids (new_orders t) k - {n. (fst k, snd k, n) \<in> ?ks}" for k
    by (auto simp: new_order_ids_def)
  have n2: "\<exists>m. 1 \<le> m \<and> m \<le> n \<and> new_order_ids (new_orders t) (v, d) - {n. (v, d, n) \<in> ?ks} = {m..<n}"
    if m: "1 \<le> m" "m \<le> n" "new_order_ids (new_orders t) (v, d) = {m..<n}" for m n v d
  proof (cases "v = w \<and> 1 \<le> d \<and> d \<le> 10")
    case False
    then have "{n. (v, d, n) \<in> ?ks} = {}" by (auto simp: triples_mem key_at_def)
    then show ?thesis using m by auto
  next
    case True
    define i where "i = nat (d - 1)"
    have i: "i < 10" "d = int i + 1" using True by (auto simp: i_def)
    have "(v, d, x) \<in> ?ks \<longleftrightarrow> x = do_oID (os ! i)" for x
      using True i by (auto simp: triples_mem key_at_def)
    then have s: "{n. (v, d, n) \<in> ?ks} = {do_oID (os ! i)}" by auto
    show ?thesis
    proof (cases "do_oID (os ! i) = 0")
      case True
      then show ?thesis using m s by (intro exI [of _ m]) auto
    next
      case False
      have "new_order_ids (new_orders t) (w, int i + 1) = {m..<n}" using m(3) \<open>v = w \<and> _\<close> i by simp
      then have "do_oID (os ! i) \<in> {m..<n}" "\<forall>x \<in> {m..<n}. do_oID (os ! i) \<le> x"
        using old i False unfolding oldest_def by metis+
      then have "do_oID (os ! i) = m" "m < n" by force+
      then show ?thesis using m s by (intro exI [of _ "m + 1"]) auto
    qed
  qed
  show ?thesis
    using t n2 by (fastforce simp: cond_ids_def delivery_effect_def consistent_def o1 n1 d_key_def)
qed

lemma delivery_carrier:
  assumes "cond_carrier t"
  shows "cond_carrier (delivery_effect ks carrier date cs t)"
  using assms unfolding cond_carrier_def delivery_effect_def
  by (auto simp: ball_set_where set_carrier_simps)

lemma delivery_lines:
  assumes "cond_lines t"
  shows "cond_lines (delivery_effect ks carrier date cs t)"
proof -
  have "count_where (\<lambda>l. ol_order l = k)
      (set_where (\<lambda>r. ol_order r \<in> ks) (\<lambda>r. r\<lparr>ol_delivery_d := Some date\<rparr>) ls) =
      count_where (\<lambda>l. ol_order l = k) ls" for k ls
  proof -
    have "filter (\<lambda>l. ol_order l = k) (map f ls) = map f (filter (\<lambda>l. ol_order l = k) ls)"
      if "\<And>l. ol_order (f l) = ol_order l" for f
      using that by (simp add: filter_map o_def)
    then show ?thesis by (simp add: count_where_def set_where_def set_carrier_simps)
  qed
  then show ?thesis using assms unfolding cond_lines_def delivery_effect_def
    by (simp add: ball_set_where set_carrier_simps)
qed

lemma delivery_delivered:
  assumes "cond_delivered t"
  shows "cond_delivered (delivery_effect ks carrier date cs t)"
  using assms unfolding cond_delivered_def delivery_effect_def
  by (auto simp: ball_set_where set_carrier_simps)

lemma delivery_keys:
  assumes "cond_keys t"
  shows "cond_keys (delivery_effect ks carrier date cs t)"
proof -
  have "(\<forall>r \<in> set (set_where (\<lambda>r. o_key r \<in> ks) (\<lambda>r. r\<lparr>o_carrier_id := Some carrier\<rparr>) (orders t)).
      (o_w_id r, o_d_id r) \<in> X) \<longleftrightarrow> (\<forall>r \<in> set (orders t). (o_w_id r, o_d_id r) \<in> X)" for X
    by (rule ball_set_where_same) simp
  then show ?thesis
    using assms by (auto simp: cond_keys_def delivery_effect_def delivered_keys distinct_map_filter)
qed

text \<open>What the ten orders add to the deliveries of a customer.\<close>

lemma sum_where_keys:
  assumes "inj_on T (set is)" "distinct is"
  shows "sum_where (\<lambda>r. Q r \<and> key r \<in> T ` set is) f rs = (\<Sum>i \<leftarrow> is. sum_where (\<lambda>r. Q r \<and> key r = T i) f rs)"
proof (induction rs)
  case (Cons r rs)
  have "(\<Sum>i \<leftarrow> is. if Q r \<and> key r = T i then f r else 0) = (if Q r \<and> key r \<in> T ` set is then f r else 0)"
    using assms by (induction "is") (auto simp: inj_on_def)
  then show ?case using Cons.IH by (simp add: rows sum_list_addf)
qed (simp add: rows)

lemma delivered_effect:
  assumes t: "consistent t" and old: "oldest t w os"
  shows "delivered (orders (delivery_effect (set (triples w os)) carrier date cs t))
      (order_lines (delivery_effect (set (triples w os)) carrier date cs t)) k =
    delivered (orders t) (order_lines t) k +
    sum_where (\<lambda>r. o_customer r = k \<and> o_key r \<in> set (triples w os))
      (lines_sum (\<lambda>l. True) (order_lines t)) (orders t)"
proof -
  let ?ks = "set (triples w os)"
  let ?ls = "set_where (\<lambda>r. ol_order r \<in> ?ks) (\<lambda>r. r\<lparr>ol_delivery_d := Some date\<rparr>) (order_lines t)"
  let ?D = "\<lambda>l :: order_line_row. ol_delivery_d l \<noteq> None"
  have ls: "lines_sum ?D ?ls r = (if o_key r \<in> ?ks then lines_sum (\<lambda>l. True) (order_lines t) r
      else lines_sum ?D (order_lines t) r)" for r
  proof -
    have "lines_sum ?D (set_where (\<lambda>r. ol_order r \<in> ?ks) (\<lambda>r. r\<lparr>ol_delivery_d := Some date\<rparr>) ls) r =
        (if o_key r \<in> ?ks then lines_sum (\<lambda>l. True) ls r else lines_sum ?D ls r)" for ls
      unfolding lines_sum_def by (induction ls) (auto simp: rows set_where_def set_carrier_simps)
    then show ?thesis .
  qed
  have zero: "lines_sum ?D (order_lines t) r = 0" if "r \<in> set (orders t)" "o_key r \<in> ?ks" for r
    using triple_carrier [OF t old that] t that(1) unfolding lines_sum_def
    by (intro sum_where_none) (auto simp: consistent_def cond_delivered_def)
  have "sum_where (\<lambda>r. o_customer r = k) (lines_sum ?D ?ls)
      (set_where (\<lambda>r. o_key r \<in> ?ks) (\<lambda>r. r\<lparr>o_carrier_id := Some carrier\<rparr>) (orders t)) =
      sum_where (\<lambda>r. o_customer r = k) (lines_sum ?D ?ls) (orders t)"
    by (rule sum_where_set_where_same) (simp_all add: set_carrier_simps lines_sum_def)
  also have "\<dots> = sum_where (\<lambda>r. o_customer r = k) (\<lambda>r. lines_sum ?D (order_lines t) r +
      (if o_key r \<in> ?ks then lines_sum (\<lambda>l. True) (order_lines t) r else 0)) (orders t)"
    by (rule sum_where_cong) (simp_all add: ls zero del: not_None_eq)
  also have "\<dots> = delivered (orders t) (order_lines t) k +
    sum_where (\<lambda>r. o_customer r = k \<and> o_key r \<in> ?ks) (lines_sum (\<lambda>l. True) (order_lines t)) (orders t)"
  proof -
    have "sum_where (\<lambda>r. o_customer r = k) (\<lambda>r. f r + (if o_key r \<in> ?ks then g r else 0)) rs =
        sum_where (\<lambda>r. o_customer r = k) f rs + sum_where (\<lambda>r. o_customer r = k \<and> o_key r \<in> ?ks) g rs"
      for f g rs by (induction rs) (simp_all add: rows)
    then show ?thesis by (simp add: delivered_def)
  qed
  finally show ?thesis by (simp add: delivery_effect_def delivered_def)
qed

text \<open>The places filled from the rows fit the orders.\<close>

definition filled :: "db \<Rightarrow> int \<Rightarrow> deliveryOrder list \<Rightarrow> bool" where
  "filled t w os \<longleftrightarrow> (\<forall>i < 10. do_oID (os ! i) \<noteq> 0 \<longrightarrow>
     (\<exists>r \<in> set (orders t). o_key r = key_at w os i \<and> o_c_id r = do_cID (os ! i)) \<and>
     do_amount (os ! i) = sum_where (\<lambda>l. ol_order l = key_at w os i) ol_amount (order_lines t))"

lemma gain_is_delivered:
  assumes t: "consistent t" and old: "oldest t w os" and fill: "filled t w os"
  shows "sum_where (\<lambda>r. o_customer r = k \<and> o_key r \<in> set (triples w os))
      (lines_sum (\<lambda>l. True) (order_lines t)) (orders t) = gain w os [0..<10] k"
proof -
  let ?f = "lines_sum (\<lambda>l. True) (order_lines t)"
  have one: "sum_where (\<lambda>r. o_customer r = k \<and> o_key r = key_at w os i) ?f (orders t) =
      (if do_oID (os ! i) \<noteq> 0 \<and> k = (w, int i + 1, do_cID (os ! i)) then do_amount (os ! i) else 0)"
    if i: "i < 10" for i
  proof (cases "do_oID (os ! i) = 0")
    case True
    then have "o_key r \<noteq> key_at w os i" if "r \<in> set (orders t)" for r
      using oldest_key(1) [OF t old i] that by (metis image_eqI)
    then have "sum_where (\<lambda>r. o_customer r = k \<and> o_key r = key_at w os i) ?f (orders t) = 0"
      by (intro sum_where_none) auto
    then show ?thesis using True by simp
  next
    case False
    then obtain r where r: "r \<in> set (orders t)" "o_key r = key_at w os i" "o_c_id r = do_cID (os ! i)"
      "do_amount (os ! i) = sum_where (\<lambda>l. ol_order l = key_at w os i) ol_amount (order_lines t)"
      using fill i by (auto simp: filled_def)
    have d: "distinct (map o_key (orders t))" using t by (simp add: consistent_def cond_keys_def)
    have c: "o_customer r = (w, int i + 1, do_cID (os ! i))"
      using r(2,3) by (simp add: o_customer_def o_key_def key_at_def)
    have u: "q = r" if "q \<in> set (orders t)" "o_key q = key_at w os i" for q
      using that r(1,2) d by (metis distinct_map inj_onD)
    show ?thesis
    proof (cases "k = o_customer r")
      case True
      have "sum_where (\<lambda>r. o_customer r = k \<and> o_key r = key_at w os i) ?f (orders t) = ?f r"
        by (rule sum_where_key [OF d r(1)]) (simp_all add: True r(2))
      then show ?thesis using True c False r(2,4) by (simp add: lines_sum_def)
    next
      case k: False
      then have "\<not> (o_customer q = k \<and> o_key q = key_at w os i)" if "q \<in> set (orders t)" for q
        using u that by metis
      then show ?thesis using k c by (subst sum_where_none) auto
    qed
  qed
  have "set (triples w os) = key_at w os ` set [0..<10]" by (auto simp: triples_mem)
  then have "sum_where (\<lambda>r. o_customer r = k \<and> o_key r \<in> set (triples w os)) ?f (orders t) =
      (\<Sum>i \<leftarrow> [0..<10]. sum_where (\<lambda>r. o_customer r = k \<and> o_key r = key_at w os i) ?f (orders t))"
    using sum_where_keys [of "key_at w os" "[0..<10]" "\<lambda>r. o_customer r = k" o_key]
    by (auto simp: inj_on_def key_at_def)
  also have "\<dots> = gain w os [0..<10] k"
    unfolding gain_def by (rule arg_cong [where f = sum_list], rule map_cong [OF refl]) (simp add: one)
  finally show ?thesis .
qed

lemma delivery_effect_consistent:
  assumes t: "consistent t" and old: "oldest t w os" and fill: "filled t w os"
    and cs: "credited (gain w os [0..<10]) (customers t) cs"
  shows "consistent (delivery_effect (set (triples w os)) carrier date cs t)"
proof -
  let ?t = "delivery_effect (set (triples w os)) carrier date cs t"
  have row: "\<exists>r0 \<in> set (customers t). c_key r = c_key r0 \<and> c_balance r = c_balance r0 + gain w os [0..<10] (c_key r0) \<and>
      c_ytd_payment r = c_ytd_payment r0 \<and> c_data r = c_data r0" if "r \<in> set cs" for r
    using cs that unfolding credited_def list_all2_conv_all_nth
    by (metis in_set_conv_nth)
  have "cond_balance ?t"
    unfolding cond_balance_def delivered_effect [OF t old] gain_is_delivered [OF t old fill]
  proof
    fix r assume "r \<in> set (customers ?t)"
    then have "r \<in> set cs" by (simp add: delivery_effect_def)
    from row [OF this] obtain r0 where r0: "r0 \<in> set (customers t)" "c_key r = c_key r0"
      "c_balance r = c_balance r0 + gain w os [0..<10] (c_key r0)" "c_ytd_payment r = c_ytd_payment r0"
      by blast
    have "c_balance r0 = delivered (orders t) (order_lines t) (c_key r0) - paid_by (histories t) (c_key r0) \<and>
       c_balance r0 + c_ytd_payment r0 = delivered (orders t) (order_lines t) (c_key r0)"
      using t r0(1) unfolding consistent_def cond_balance_def by blast
    moreover have "histories ?t = histories t" by (simp add: delivery_effect_def)
    ultimately show "c_balance r = delivered (orders t) (order_lines t) (c_key r) + gain w os [0..<10] (c_key r) -
        paid_by (histories ?t) (c_key r) \<and>
      c_balance r + c_ytd_payment r = delivered (orders t) (order_lines t) (c_key r) + gain w os [0..<10] (c_key r)"
      by (simp add: r0)
  qed
  moreover have "cond_values ?t"
    using t row unfolding consistent_def cond_values_def delivery_effect_def by fastforce
  moreover have "cond_ytd ?t = cond_ytd t" by (simp add: cond_ytd_def delivery_effect_def)
  ultimately show ?thesis
    using t delivery_ids [OF t old] delivery_carrier delivery_lines delivery_delivered delivery_keys
    by (simp add: consistent_def)
qed

subsection \<open>The body\<close>

lemma orders_rows_in_range:
  assumes "x \<in> set [(o_d_id r, o_c_id r). r \<leftarrow> rs, o_key r \<in> set (triples w os)]"
  shows "1 \<le> fst x \<and> fst x \<le> 10"
  using assms by (auto simp: triples_mem key_at_def o_key_def)

text \<open>The rows of both queries fill the places.\<close>

lemma filled_from_rows:
  assumes t: "consistent t" and old: "oldest t w os"
    and os': "\<forall>i < 10. do_oID (os' ! i) = do_oID (os ! i) \<and>
        ((int i + 1, do_cID (os' ! i)) \<in> set [(o_d_id r, o_c_id r). r \<leftarrow> orders t, o_key r \<in> set (triples w os)] \<or>
         int i + 1 \<notin> fst ` set [(o_d_id r, o_c_id r). r \<leftarrow> orders t, o_key r \<in> set (triples w os)])"
    and os2: "\<forall>i < 10. do_oID (os2 ! i) = do_oID (os' ! i) \<and> do_cID (os2 ! i) = do_cID (os' ! i) \<and>
        ((int i + 1, do_amount (os2 ! i)) \<in> set rows \<or> int i + 1 \<notin> fst ` set rows \<and> do_amount (os2 ! i) = 0)"
    and rows: "rows = (let ls = filter (\<lambda>r. ol_order r \<in> set (triples w os)) (order_lines t)
      in map (\<lambda>d. (d, sum_list (map ol_amount (filter (\<lambda>r. ol_d_id r = d) ls)))) (remdups (map ol_d_id ls)))"
  shows "filled t w os2"
  unfolding filled_def
proof (intro allI impI conjI)
  fix i :: nat assume i: "i < 10" and nz: "do_oID (os2 ! i) \<noteq> 0"
  have key: "key_at w os2 i = key_at w os i" and oid: "do_oID (os ! i) \<noteq> 0"
    using os' os2 i nz by (simp_all add: key_at_def)
  have k: "key_at w os i \<in> set (triples w os)" using i by (auto simp: triples_mem)
  have only: "x \<in> set (triples w os) \<and> fst (snd x) = int i + 1 \<longleftrightarrow> x = key_at w os i" for x
    using i by (auto simp: triples_mem key_at_def)
  obtain r where r: "r \<in> set (orders t)" "o_key r = key_at w os i"
    using oldest_key(1) [OF t old i] oid by auto
  have "o_d_id r = int i + 1" using r(2) by (simp add: o_key_def key_at_def)
  then have "int i + 1 \<in> fst ` set [(o_d_id r, o_c_id r). r \<leftarrow> orders t, o_key r \<in> set (triples w os)]"
    using r k by (force simp: image_iff)
  then have "(int i + 1, do_cID (os' ! i)) \<in> set [(o_d_id r, o_c_id r). r \<leftarrow> orders t, o_key r \<in> set (triples w os)]"
    using os' i by blast
  then obtain q where q: "q \<in> set (orders t)" "o_key q \<in> set (triples w os)" "o_d_id q = int i + 1"
    "o_c_id q = do_cID (os' ! i)"
    by auto
  have "o_key q = key_at w os i" using only [of "o_key q"] q by (simp add: o_key_def)
  then show "\<exists>r \<in> set (orders t). o_key r = key_at w os2 i \<and> o_c_id r = do_cID (os2 ! i)"
    using q os2 i key by auto
  let ?ls = "filter (\<lambda>r. ol_order r \<in> set (triples w os)) (order_lines t)"
  have "filter (\<lambda>r. ol_d_id r = int i + 1) ?ls = filter (\<lambda>l. ol_order l = key_at w os i) (order_lines t)"
    unfolding filter_filter by (rule filter_cong [OF refl]) (metis only fst_conv ol_order_def snd_conv)
  then have s: "sum_list (map ol_amount (filter (\<lambda>r. ol_d_id r = int i + 1) ?ls)) =
      sum_where (\<lambda>l. ol_order l = key_at w os i) ol_amount (order_lines t)"
    by (simp add: sum_where_def)
  show "do_amount (os2 ! i) = sum_where (\<lambda>l. ol_order l = key_at w os2 i) ol_amount (order_lines t)"
  proof (cases "int i + 1 \<in> fst ` set rows")
    case True
    then have "(int i + 1, do_amount (os2 ! i)) \<in> set rows" using os2 i by auto
    then show ?thesis using s unfolding rows key by (auto simp: Let_def)
  next
    case False
    then have a: "do_amount (os2 ! i) = 0"
      using spec [OF os2, of i] i imageI [of "(int i + 1, do_amount (os2 ! i))" "set rows" fst] by auto
    have "int i + 1 \<notin> ol_d_id ` set ?ls" using False by (force simp: rows Let_def)
    then have "filter (\<lambda>r. ol_d_id r = int i + 1) ?ls = []"
      unfolding filter_empty_conv by (metis image_eqI)
    then show ?thesis using s a key by simp
  qed
qed

lemma oldest_cong:
  "oldest t w os \<Longrightarrow> length os2 = 10 \<Longrightarrow> \<forall>i < 10. do_oID (os2 ! i) = do_oID (os ! i) \<Longrightarrow> oldest t w os2"
  by (simp add: oldest_def)

lemma triples_cong: "\<forall>i < 10. do_oID (os2 ! i) = do_oID (os ! i) \<Longrightarrow> triples w os2 = triples w os"
  by (simp add: triples_def)

lemma delivery_rest_ensures:
  assumes t: "consistent t" and old: "oldest t w os"
    and zero: "\<forall>i < 10. do_amount (os ! i) = 0"
  shows "ensures (delivery_rest Z w carrier os) t consistent"
proof -
  let ?ks = "set (triples w os)"
  let ?t1 = "t\<lparr>new_orders := filter (\<lambda>r. no_key r \<notin> ?ks) (new_orders t)\<rparr>"
  let ?os = "set_where (\<lambda>r. o_key r \<in> ?ks) (\<lambda>r. r\<lparr>o_carrier_id := Some carrier\<rparr>) (orders t)"
  let ?ls = "set_where (\<lambda>r. ol_order r \<in> ?ks) (\<lambda>r. r\<lparr>ol_delivery_d := Some (now Z)\<rparr>) (order_lines t)"
  let ?t2 = "?t1\<lparr>orders := ?os\<rparr>"
  let ?t3 = "?t2\<lparr>order_lines := ?ls\<rparr>"
  define rows1 where "rows1 = [(o_d_id r, o_c_id r). r \<leftarrow> orders t, o_key r \<in> ?ks]"
  have rows1: "[(o_d_id r, o_c_id r). r \<leftarrow> ?os, o_key r \<in> ?ks] = rows1"
  proof -
    have "[(o_d_id r, o_c_id r). r \<leftarrow> set_where (\<lambda>r. o_key r \<in> ?ks) (\<lambda>r. r\<lparr>o_carrier_id := Some carrier\<rparr>) rs, o_key r \<in> ?ks] =
        [(o_d_id r, o_c_id r). r \<leftarrow> rs, o_key r \<in> ?ks]" for rs
      by (induction rs) (simp_all add: set_where_def o_key_def)
    then show ?thesis by (simp add: rows1_def)
  qed
  define rows2 where "rows2 = (let ls = filter (\<lambda>r. ol_order r \<in> ?ks) (order_lines t)
      in map (\<lambda>d. (d, sum_list (map ol_amount (filter (\<lambda>r. ol_d_id r = d) ls)))) (remdups (map ol_d_id ls)))"
  have rows2: "(let ls = filter (\<lambda>r. ol_order r \<in> ?ks) ?ls
      in map (\<lambda>d. (d, sum_list (map ol_amount (filter (\<lambda>r. ol_d_id r = d) ls)))) (remdups (map ol_d_id ls))) = rows2"
  proof -
    let ?u = "\<lambda>r. if ol_order r \<in> ?ks then r\<lparr>ol_delivery_d := Some (now Z)\<rparr> else r"
    have f: "filter (\<lambda>r. ol_order r \<in> ?ks) (map ?u ls) = map ?u (filter (\<lambda>r. ol_order r \<in> ?ks) ls)" for ls
      by (induction ls) (simp_all add: ol_order_def)
    have g: "filter (\<lambda>r. ol_d_id r = d) (map ?u ls) = map ?u (filter (\<lambda>r. ol_d_id r = d) ls)" for d ls
      by (induction ls) simp_all
    have am: "map ol_amount (map ?u ls) = map ol_amount ls" "map ol_d_id (map ?u ls) = map ol_d_id ls" for ls
      by (induction ls) simp_all
    show ?thesis unfolding rows2_def Let_def set_where_def f g am by (rule refl)
  qed
  have len: "length os = 10" using old by (simp add: oldest_def)
  have in1: "\<forall>x \<in> set rows1. 1 \<le> fst x \<and> fst x \<le> 10"
    unfolding rows1_def using orders_rows_in_range by blast
  obtain os1 where os1: "delivery_customers rows1 os = Some os1" "length os1 = 10"
    "\<forall>i < 10. do_oID (os1 ! i) = do_oID (os ! i) \<and> do_amount (os1 ! i) = do_amount (os ! i) \<and>
        ((int i + 1, do_cID (os1 ! i)) \<in> set rows1 \<or>
         int i + 1 \<notin> fst ` set rows1 \<and> do_cID (os1 ! i) = do_cID (os ! i))"
    using delivery_customers_ok [OF len in1] by blast
  have in2: "\<forall>x \<in> set rows2. 1 \<le> fst x \<and> fst x \<le> 10"
    by (auto simp: rows2_def Let_def triples_mem key_at_def ol_order_def)
  obtain os2 where os2: "delivery_amounts rows2 os1 = Some os2" "length os2 = 10"
    "\<forall>i < 10. do_oID (os2 ! i) = do_oID (os1 ! i) \<and> do_cID (os2 ! i) = do_cID (os1 ! i) \<and>
        ((int i + 1, do_amount (os2 ! i)) \<in> set rows2 \<or>
         int i + 1 \<notin> fst ` set rows2 \<and> do_amount (os2 ! i) = do_amount (os1 ! i))"
    using delivery_amounts_ok [OF os1(2) in2] by blast
  have tr: "triples w os1 = triples w os" "triples w os2 = triples w os"
    using os1(3) os2(3) by (intro triples_cong; simp)+
  have fill: "filled t w os2"
    by (rule filled_from_rows [OF t old _ _ rows2_def, of os1])
      (use os1(3) os2(3) zero in \<open>auto simp: rows1_def\<close>)
  have old2: "oldest t w os2" using oldest_cong [OF old os2(2)] os1(3) os2(3) by simp
  have fin: "ensures (delivery_update [0..<10] w os2 commit) ?t3 consistent"
  proof (rule ensures_update, rule ensures_commit)
    fix cs assume "credited (gain w os2 [0..<10]) (customers ?t3) cs"
    then have "credited (gain w os2 [0..<10]) (customers t) cs" by simp
    from delivery_effect_consistent [OF t old2 fill this, of carrier "now Z"]
    show "consistent (?t3\<lparr>customers := cs\<rparr>)" by (simp add: delivery_effect_def tr)
  qed
  show ?thesis unfolding delivery_rest_def
  proof (rule ensures_exec, goal_cases)
    case (1 x1 t1)
    then have t1: "t1 = ?t1" by (simp add: do_deliveryDeleteNewOrder_def update_Inr)
    show ?case unfolding t1
    proof (rule ensures_exec, goal_cases)
      case (1 x2 t2)
      then have t2: "t2 = ?t2" by (simp add: do_deliveryUpdateOrder_def update_Inr)
      show ?case unfolding t2
      proof (rule ensures_exec, goal_cases)
        case (1 x3 t3)
        then have t3: "t3 = ?t2" "x3 = rows1" using rows1 by (simp_all add: do_deliverySelectOrders_def select_Inr)
        show ?case unfolding t3
        proof (rule ensures_or_panic [OF os1(1)], rule ensures_exec, unfold no_change_Inr tr, goal_cases)
          case (1 x4 t4)
          show ?case unfolding 1
          proof (rule ensures_exec, goal_cases)
            case (1 x5 t5)
            then have t5: "t5 = ?t3" by (simp add: do_deliveryUpdateOrderLine_def update_Inr)
            show ?case unfolding t5
            proof (rule ensures_exec, goal_cases)
              case (1 x6 t6)
              then have t6: "t6 = ?t3" "x6 = rows2"
                using rows2 by (simp_all add: do_deliverySelectSumAmount_def select_Inr)
              show ?case unfolding t6
                by (rule ensures_or_panic [OF os2(1)], rule ensures_exec, unfold no_change_Inr)
                  (simp add: fin)
            qed
          qed
        qed
      qed
    qed
  qed
qed

lemma delivery_ensures:
  assumes t: "consistent t"
  shows "ensures (delivery_body Z w carrier) t consistent"
proof -
  have "ensures (delivery_oldest [0..<10] w os (delivery_rest Z w carrier)) t consistent"
    if "oldest t w os" "\<forall>i < 10. do_amount (os ! i) = 0" for os
    using that by (rule ensures_oldest) (auto intro: delivery_rest_ensures [OF t])
  moreover have "oldest t w (replicate 10 \<lparr>do_oID = 0, do_cID = 0, do_amount = 0\<rparr>)"
    by (simp add: oldest_def)
  ultimately show ?thesis unfolding delivery_body_def by simp
qed

end
