(* ===== verification/TpccSafe.thy ===== *)
theory TpccSafe
  imports TpccPayInv TpccNewInv TpccDelInv
begin

text \<open>
  The five transactions together.  The inputs that New-Order draws are well formed; the two
  read-only transactions keep every predicate; so any history of transactions, whatever is drawn
  and whatever the driver replies, keeps the consistency conditions and never panics.
\<close>

subsection \<open>The inputs of New-Order\<close>

text \<open>Drawn item numbers are new and in range.\<close>

lemma uniqueItemID_new:
  assumes "good_vars G" "uniqueItemID G m R = Some (iid, R')"
  shows "m iid = None \<and> 1 \<le> iid \<and> iid \<le> 100000"
proof -
  have "good_vars G \<longrightarrow> m (fst (iid, R')) = None \<and> 1 \<le> fst (iid, R') \<and> fst (iid, R') \<le> 100000"
  proof (rule uniqueItemID.raw_induct
      [where P = "\<lambda>G m R r. good_vars G \<longrightarrow> m (fst r) = None \<and> 1 \<le> fst r \<and> fst r \<le> 100000", OF _ assms(2)])
    fix f G m R r
    assume IH: "\<And>G m R r. f G m R = Some r \<Longrightarrow>
        good_vars G \<longrightarrow> m (fst r) = None \<and> 1 \<le> fst r \<and> fst r \<le> 100000"
      and step: "(case randItemID G R of None \<Rightarrow> None
        | Some (iid, R) \<Rightarrow> if m iid \<noteq> None then f G m R else Some (iid, R)) = Some r"
    show "good_vars G \<longrightarrow> m (fst r) = None \<and> 1 \<le> fst r \<and> fst r \<le> 100000"
    proof
      assume "good_vars G"
      from yields_randItemID [OF this, of R] step IH [of G m "stl (stl R)" r] \<open>good_vars G\<close>
      show "m (fst r) = None \<and> 1 \<le> fst r \<and> fst r \<le> 100000"
        by (auto simp: yields_def split: if_splits)
    qed
  qed
  then show ?thesis using assms(1) by simp
qed

text \<open>Draws that were made are in range.\<close>

lemma randInt_range: "randInt lo hi R = Some (x, R') \<Longrightarrow> lo \<le> hi \<Longrightarrow> lo \<le> x \<and> x \<le> hi"
  using yields_randInt [of lo hi R] by (simp add: yields_def)

lemma otherWarehouse_loop_Some:
  assumes "otherWarehouse_loop W w R = Some (x, R')"
  shows "1 \<le> W \<longrightarrow> 1 \<le> x \<and> x \<le> W \<and> x \<noteq> w"
proof -
  have "1 \<le> W \<longrightarrow> 1 \<le> fst (x, R') \<and> fst (x, R') \<le> W \<and> fst (x, R') \<noteq> w"
  proof (rule otherWarehouse_loop.raw_induct
      [where P = "\<lambda>W w R r. 1 \<le> W \<longrightarrow> 1 \<le> fst r \<and> fst r \<le> W \<and> fst r \<noteq> w", OF _ assms])
    fix f W w R r
    assume IH: "\<And>W w R r. f W w R = Some r \<Longrightarrow> 1 \<le> W \<longrightarrow> 1 \<le> fst r \<and> fst r \<le> W \<and> fst r \<noteq> w"
      and step: "(case randInt 1 W R of None \<Rightarrow> None
        | Some (other, R) \<Rightarrow> if other \<noteq> w then Some (other, R) else f W w R) = Some r"
    show "1 \<le> W \<longrightarrow> 1 \<le> fst r \<and> fst r \<le> W \<and> fst r \<noteq> w"
    proof
      assume W: "1 \<le> W"
      obtain y R' where y: "randInt 1 W R = Some (y, R')" "1 \<le> y" "y \<le> W"
        using yields_randInt [OF W, of R] by (auto simp: yields_def)
      show "1 \<le> fst r \<and> fst r \<le> W \<and> fst r \<noteq> w"
        using step IH [of W w R' r] W y by (auto split: if_splits)
    qed
  qed
  then show ?thesis by simp
qed

lemma otherWarehouse_Some:
  "otherWarehouse W w R = Some (x, R') \<Longrightarrow> 1 \<le> W \<Longrightarrow> W \<noteq> 1 \<Longrightarrow> 1 \<le> x \<and> x \<le> W \<and> x \<noteq> w"
  by (simp add: otherWarehouse_def otherWarehouse_loop_Some)

text \<open>The line that is drawn, by cases of the wrong item.\<close>

lemma newOrder_item_cases:
  assumes "good_vars G" "1 \<le> W" "newOrder_item G W w rollback n m R = Some ((item, m', home), R')"
  shows "\<not> foundInItems item \<and> \<not> foundInStock item \<and> 1 \<le> olQuantity item \<and> olQuantity item \<le> 10 \<and>
    olNumber item = int n + 1 \<and> (home \<longleftrightarrow> remoteWarehouse item = 0) \<and>
    (home \<longleftrightarrow> olSupplyWID item = w) \<and> (home \<or> 1 \<le> olSupplyWID item \<and> olSupplyWID item \<le> W) \<and>
    (if rollback then olIID item = - 1 \<and> m' = m
     else m (olIID item) = None \<and> 1 \<le> olIID item \<and> olIID item \<le> 100000 \<and> m' = m(olIID item \<mapsto> n))"
proof -
  have ow: "otherWarehouse W w R = Some (x, R') \<Longrightarrow> W = 1 \<or> 1 \<le> x \<and> x \<le> W \<and> x \<noteq> w" for x R R'
    using otherWarehouse_Some assms(2) by blast
  show ?thesis
    using assms(3) uniqueItemID_new [OF assms(1), of m R]
    by (auto simp: newOrder_item_def zeroItem_def Let_def
        dest!: randInt_range [where lo = 1 and hi = 10] ow
        split: if_splits bind_splits option.splits)
qed

text \<open>What the loop over the lines keeps of the lines, of the map and of \<open>allLocal\<close>.\<close>

definition drawn :: "int \<Rightarrow> int \<Rightarrow> orderItem list \<Rightarrow> (int \<rightharpoonup> nat) \<Rightarrow> int \<Rightarrow> bool" where
  "drawn W w its m al \<longleftrightarrow>
     (\<forall>i \<in> set its. \<not> foundInItems i \<and> \<not> foundInStock i \<and> 1 \<le> olQuantity i \<and> olQuantity i \<le> 10 \<and>
       1 \<le> olSupplyWID i \<and> olSupplyWID i \<le> W \<and> (olIID i = - 1 \<or> m (olIID i) \<noteq> None)) \<and>
     (\<forall>iid i. m iid = Some i \<longrightarrow>
       i < length its \<and> olIID (its ! i) = iid \<and> 1 \<le> iid \<and> iid \<le> 100000) \<and>
     distinct (map olIID its) \<and> map olNumber its = map (\<lambda>j. int j + 1) [0..<length its] \<and>
     al = (if \<forall>i \<in> set its. olSupplyWID i = w then 1 else 0)"

lemma drawn_step:
  assumes "good_vars G" "1 \<le> w" "w \<le> W" "drawn W w its m al" "\<forall>i \<in> set its. olIID i \<noteq> - 1"
    "newOrder_item G W w rollback (length its) m R = Some ((item, m', home), R')"
  shows "drawn W w (its @ [item]) m' (if home then al else 0) \<and> (olIID item = - 1 \<longleftrightarrow> rollback)"
proof -
  have W: "1 \<le> W" using assms(2,3) by simp
  note c = newOrder_item_cases [OF assms(1) W assms(6)]
  have dom: "m (olIID i) \<noteq> None" if "i \<in> set its" for i
    using assms(4,5) that by (auto simp: drawn_def)
  have new: "olIID item \<notin> olIID ` set its"
    using c dom assms(5) by (force split: if_splits)
  have map: "i < length (its @ [item]) \<and> olIID ((its @ [item]) ! i) = iid \<and> 1 \<le> iid \<and> iid \<le> 100000"
    if "m' iid = Some i" for iid i
  proof (cases "m iid = Some i")
    case True
    then have "i < length its \<and> olIID (its ! i) = iid \<and> 1 \<le> iid \<and> iid \<le> 100000"
      using assms(4) unfolding drawn_def by blast
    then show ?thesis by (simp add: nth_append)
  next
    case False
    then show ?thesis using that c by (auto split: if_splits)
  qed
  have old: "m' (olIID i) \<noteq> None" if "i \<in> set its" for i
    using dom [OF that] c by (auto split: if_splits)
  have lines: "\<forall>i \<in> set (its @ [item]). \<not> foundInItems i \<and> \<not> foundInStock i \<and> 1 \<le> olQuantity i \<and>
      olQuantity i \<le> 10 \<and> 1 \<le> olSupplyWID i \<and> olSupplyWID i \<le> W \<and> (olIID i = - 1 \<or> m' (olIID i) \<noteq> None)"
  proof
    fix i assume "i \<in> set (its @ [item])"
    then consider "i \<in> set its" | "i = item" by auto
    then show "\<not> foundInItems i \<and> \<not> foundInStock i \<and> 1 \<le> olQuantity i \<and>
      olQuantity i \<le> 10 \<and> 1 \<le> olSupplyWID i \<and> olSupplyWID i \<le> W \<and> (olIID i = - 1 \<or> m' (olIID i) \<noteq> None)"
    proof cases
      case 1
      then show ?thesis using assms(4) old unfolding drawn_def by metis
    next
      case 2
      then show ?thesis using c assms(2,3) by (auto split: if_splits)
    qed
  qed
  have al: "(if home then al else 0) = (if \<forall>i \<in> set (its @ [item]). olSupplyWID i = w then 1 else 0)"
    using assms(4) c by (auto simp: drawn_def)
  have num: "distinct (map olIID (its @ [item]))"
    "map olNumber (its @ [item]) = map (\<lambda>j. int j + 1) [0..<length (its @ [item])]"
    using assms(4) new c by (auto simp: drawn_def)
  have "olIID item = - 1 \<longleftrightarrow> rollback" using c by (auto split: if_splits)
  then show ?thesis unfolding drawn_def using lines map al num by blast
qed

lemma newOrder_items_drawn:
  assumes "good_vars G" "1 \<le> w" "w \<le> W"
  shows "drawn W w its m al \<Longrightarrow> \<forall>i \<in> set its. olIID i \<noteq> - 1 \<Longrightarrow>
    newOrder_items k G W w rbk its m al R = Some ((its', m', al'), R') \<Longrightarrow>
    drawn W w its' m' al' \<and> length its' = length its + k \<and>
    (0 < k \<longrightarrow> map (\<lambda>i. olIID i = - 1) its' = replicate (length its + k - 1) False @ [rbk = 1])"
proof (induction k arbitrary: its m al R)
  case (Suc k)
  let ?rb = "k = 0 \<and> rbk = 1"
  from Suc.prems(3) obtain item m1 home R1 where
    i: "newOrder_item G W w ?rb (length its) m R = Some ((item, m1, home), R1)"
    and r: "newOrder_items k G W w rbk (its @ [item]) m1 (if home then al else 0) R1 = Some ((its', m', al'), R')"
    by (auto split: bind_splits)
  note d = drawn_step [OF assms Suc.prems(1,2) i]
  have old: "map (\<lambda>i. olIID i = - 1) its = replicate (length its) False"
    using Suc.prems(2) by (simp add: map_replicate_const [symmetric] cong: map_cong)
  show ?case
  proof (cases "k = 0")
    case True
    then show ?thesis using r d old by auto
  next
    case False
    then show ?thesis using Suc.IH [OF _ _ r] d Suc.prems(2) by auto
  qed
qed simp

text \<open>The whole input.\<close>

definition newOrder_drawn :: "int \<Rightarrow> newOrderData \<Rightarrow> bool" where
  "newOrder_drawn W d \<longleftrightarrow>
     1 \<le> wID d \<and> wID d \<le> W \<and> 1 \<le> dID d \<and> dID d \<le> 10 \<and> 1 \<le> cID d \<and> cID d \<le> 3000 \<and>
     5 \<le> oOlCnt d \<and> oOlCnt d \<le> 15 \<and> int (length (no_items d)) = oOlCnt d \<and>
     drawn W (wID d) (no_items d) (no_itemsMap d) (no_allLocal d) \<and>
     (\<forall>i \<in> set (butlast (no_items d)). olIID i \<noteq> - 1)"

lemma newOrder_input_drawn:
  assumes "good_vars G" "newOrder_input G W R = Some (d, R')" "1 \<le> W"
  shows "newOrder_drawn W d"
proof -
  from assms(2) obtain w d' c n rbk its m al R1 R2 R3 R4 R5 R6 where
    r: "randInt 1 W R = Some (w, R1)" "randInt 1 districtPerWarehouse R1 = Some (d', R2)"
      "randCustomerID G R2 = Some (c, R3)" "randInt 5 15 R3 = Some (n, R4)"
    and its: "newOrder_items (nat n) G W w rbk [] Map.empty 1 R5 = Some ((its, m, al), R6)"
    and d: "d = \<lparr>wID = w, dID = d', cID = c, oOlCnt = n, no_items = its, no_itemsMap = m, no_allLocal = al\<rparr>"
    by (auto simp: newOrder_input_def Option.bind_eq_Some_conv)
  have b: "1 \<le> w" "w \<le> W" "1 \<le> d'" "d' \<le> 10" "5 \<le> n" "n \<le> 15" "1 \<le> c" "c \<le> 3000"
    using r(1,2,4) [THEN randInt_range] assms(3) r(3) yields_randCustomerID [OF assms(1), of R2]
    by (auto simp: districtPerWarehouse_def yields_def)
  have e: "drawn W w [] Map.empty 1" by (simp add: drawn_def)
  have n: "drawn W w its m al" "length its = nat n"
    and bad: "map (\<lambda>i. olIID i = - 1) its = replicate (nat n - 1) False @ [rbk = 1]"
    using newOrder_items_drawn [OF assms(1) b(1,2) e _ its] b(5) by simp_all
  have "map (\<lambda>i. olIID i = - 1) (butlast its) = replicate (nat n - 1) False"
    using arg_cong [OF bad, of butlast] by (simp add: map_butlast)
  then have "\<forall>x \<in> set (map (\<lambda>i. olIID i = - 1) (butlast its)). \<not> x" by simp
  then have "olIID i \<noteq> - 1" if "i \<in> set (butlast its)" for i
    using that by simp
  then show ?thesis using b n by (auto simp: newOrder_drawn_def d)
qed

lemma newOrder_drawn_ok: "newOrder_drawn W d \<Longrightarrow> input_ok d"
  by (auto simp: newOrder_drawn_def drawn_def input_ok_def)

subsection \<open>The read-only transactions\<close>

lemma orderStatus_lines_ensures: "P t \<Longrightarrow> ensures (orderStatus_lines d c) t P"
  unfolding orderStatus_lines_def do_orderStatusSelectLatestOrder_def
    do_orderStatusSelectOrderLine_def
  by (intro ensures_intros; drule select_row_Inr, simp add: select_Inr no_change_Inr)

lemma orderStatus_ensures: "P t \<Longrightarrow> ensures (orderStatus_body d) t P"
  unfolding orderStatus_body_def do_orderStatusSelectCustomerCntByLast_def
    do_orderStatusSelectCustomerByLast_def do_orderStatusSelectCustomerByID_def Let_def
  by (auto intro!: ensures_exec ensures_exec_raw orderStatus_lines_ensures
      simp: select_Inr no_change_Inr dest!: select_row_Inr)

lemma stockLevel_ensures: "P t \<Longrightarrow> ensures (stockLevel_body w d n) t P"
  unfolding stockLevel_body_def do_stockLevelSelectDistrict_def do_stockLevelCount_def
  by (auto intro!: ensures_intros simp: select_Inr dest!: select_row_Inr)

subsection \<open>Histories\<close>

text \<open>The five entries of the table \<open>txns\<close> of the workload, by name.\<close>

datatype action = NewOrder | Payment | OrderStatus | Delivery | StockLevel

definition run_action ::
  "World \<Rightarrow> RandVars \<Rightarrow> int \<Rightarrow> action \<Rightarrow> rnd \<Rightarrow> session \<Rightarrow> (result \<times> session \<times> rnd) option" where
  "run_action Z G W a R s =
     (case a of
        NewOrder \<Rightarrow> runNewOrder Z G W R s
      | Payment \<Rightarrow> runPayment Z G W R s
      | OrderStatus \<Rightarrow> runOrderStatus G W R s
      | Delivery \<Rightarrow> runDelivery Z W R s
      | StockLevel \<Rightarrow> runStockLevel W R s)"

text \<open>
  A history of transactions of any threads, one after another: each draws from its own source and
  meets its own replies.
\<close>

inductive history :: "World \<Rightarrow> RandVars \<Rightarrow> int \<Rightarrow> db \<Rightarrow> result list \<Rightarrow> db \<Rightarrow> bool"
  for Z G W t where
  history_start: "history Z G W t [] t"
| history_step: "history Z G W t rs t' \<Longrightarrow> run_action Z G W a R (t', q) = Some (r, (t'', q'), R') \<Longrightarrow>
    history Z G W t (rs @ [r]) t''"

lemma finish_ensures:
  assumes "ensures b t P" "finish t (b (t, q)) = (r, (t', q'))"
  shows "r \<noteq> Panicked \<and> (t' = t \<or> P t')"
proof -
  obtain en t2 q2 where b: "b (t, q) = (en, (t2, q2))" by (metis prod.exhaust)
  have e: "case (en, (t2, q2)) of (CommitTx, (t', q')) \<Rightarrow> P t' | (PanicTx, s) \<Rightarrow> False | (Return e, s) \<Rightarrow> True"
    using assms(1) b unfolding ensures_def by metis
  show ?thesis
    using assms(2) e b by (cases en; cases "shd q2") (auto simp: finish_def)
qed

lemma run_result:
  "(case x of (r, s) \<Rightarrow> Some (r, s, R)) = Some (r', s', R') \<longleftrightarrow> x = (r', s') \<and> R = R'"
  by (cases x) simp

lemma runStockLevel_safe:
  assumes "runStockLevel W R (t, q) = Some (r, (t', q'), R')"
  shows "r \<noteq> Panicked \<and> t' = t"
proof -
  have "ensures (stockLevel_body w d n) t (\<lambda>x. x = t)" for w d n
    by (rule stockLevel_ensures) simp
  then show ?thesis
    using assms by (cases "shd q")
      (auto simp: runStockLevel_def call_def no_change_def Let_def run_result Option.bind_eq_Some_conv
        dest!: finish_ensures)
qed

lemma run_action_safe:
  assumes "good_vars G" "1 \<le> W" "consistent t"
    "run_action Z G W a R (t, q) = Some (r, (t', q'), R')"
  shows "r \<noteq> Panicked \<and> consistent t'"
proof (cases a)
  case NewOrder
  then obtain d R1 where d: "newOrder_input G W R = Some (d, R1)"
    and x: "transaction (newOrder_body Z d) (t, q) = (r, (t', q'))"
    using assms(4) by (auto simp: run_action_def runNewOrder_def run_result Option.bind_eq_Some_conv)
  have "input_ok d" using newOrder_input_drawn [OF assms(1) d assms(2)] newOrder_drawn_ok by blast
  then show ?thesis
    using transaction_ensures [OF newOrder_ensures x] assms(3) by blast
next
  case Payment
  then obtain p where x: "transaction (payment_body Z p) (t, q) = (r, (t', q'))"
    using assms(4) by (auto simp: run_action_def runPayment_def run_result Option.bind_eq_Some_conv)
  show ?thesis using transaction_ensures [OF payment_ensures x] assms(3) by blast
next
  case OrderStatus
  then obtain d where x: "transaction (orderStatus_body d) (t, q) = (r, (t', q'))"
    using assms(4) by (auto simp: run_action_def runOrderStatus_def run_result Option.bind_eq_Some_conv)
  show ?thesis using transaction_ensures [OF orderStatus_ensures x] assms(3) by blast
next
  case Delivery
  then obtain w c where x: "transaction (delivery_body Z w c) (t, q) = (r, (t', q'))"
    using assms(4) by (auto simp: run_action_def runDelivery_def run_result Option.bind_eq_Some_conv)
  show ?thesis using transaction_ensures [OF delivery_ensures x] assms(3) by blast
next
  case StockLevel
  then show ?thesis using assms(3,4) runStockLevel_safe [of W R t q r t' q' R'] by (auto simp: run_action_def)
qed

lemma history_safe:
  assumes "good_vars G" "1 \<le> W" "history Z G W t rs t'" "consistent t"
  shows "consistent t' \<and> Panicked \<notin> set rs"
  using assms(3)
proof induction
  case history_start
  then show ?case using assms(4) by simp
next
  case (history_step rs t' a R q r t'' q' R')
  then show ?case using run_action_safe [OF assms(1,2)] by simp metis
qed

text \<open>A small database: one warehouse, one district and one customer, the number 62.\<close>

definition sample_db :: db where
  "sample_db = \<lparr>warehouses = [\<lparr>w_id = 1, w_name = ''W'', w_street_1 = [], w_street_2 = [], w_city = [],
       w_state = ''CA'', w_zip = ''123411111'', w_tax = 1000, w_ytd = 0\<rparr>],
     districts = [\<lparr>d_id = 1, d_w_id = 1, d_name = ''D'', d_street_1 = [], d_street_2 = [], d_city = [],
       d_state = ''CA'', d_zip = ''123411111'', d_tax = 1000, d_ytd = 0, d_next_o_id = 1\<rparr>],
     customers = [\<lparr>c_id = 62, c_d_id = 1, c_w_id = 1, c_first = ''A'', c_middle = ''OE'',
       c_last = ''BARBARBAR'', c_street_1 = [], c_street_2 = [], c_city = [], c_state = ''CA'',
       c_zip = ''123411111'', c_phone = [], c_since = [], c_credit = ''GC'', c_credit_lim = 5000000,
       c_discount = 1000, c_balance = 0, c_ytd_payment = 0, c_payment_cnt = 0, c_delivery_cnt = 0,
       c_data = replicate 300 (CHR ''x'')\<rparr>],
     histories = [], new_orders = [], orders = [], order_lines = [], items = [], stocks = []\<rparr>"

lemma sample_consistent: "consistent sample_db"
  by (simp add: consistent_def sample_db_def cond_ytd_def cond_ids_def cond_carrier_def cond_lines_def
      cond_delivered_def cond_balance_def cond_keys_def cond_values_def sum_where_def count_where_def
      delivered_def paid_by_def order_ids_def new_order_ids_def d_key_def exI [of _ 1])

text \<open>A payment of that customer, every draw of which is 60 and every reply good.\<close>

definition sample_world :: World where
  "sample_world = \<lparr>now = ''t'', to_cents = (\<lambda>x. 0)\<rparr>"

definition sample_vars :: RandVars where
  "sample_vars = \<lparr>cLoad = 0, cCustomerID = 0, cItemID = 0\<rparr>"

definition sample_paid :: db where
  "sample_paid = sample_db
     \<lparr>warehouses := map (\<lambda>r. r\<lparr>w_ytd := 160\<rparr>) (warehouses sample_db),
      districts := map (\<lambda>r. r\<lparr>d_ytd := 160\<rparr>) (districts sample_db),
      customers := map (paid 160) (customers sample_db),
      histories := [\<lparr>h_c_id = 62, h_c_d_id = 1, h_c_w_id = 1, h_d_id = 1, h_w_id = 1, h_date = ''t'',
        h_amount = 160, h_data = ''         W             D''\<rparr>]\<rparr>"

lemma sample_payment_input:
  "payment_input sample_vars 1 (sconst 60) =
   Some (\<lparr>p_wID = 1, p_dID = 1, p_cWID = 1, p_cDID = 1, p_hAmount = 160, p_cID = 62, p_cLast = []\<rparr>, sconst 60)"
  by (simp add: payment_input_def randInt_def Intn_def districtPerWarehouse_def randCustomerID_def
      sample_vars_def go_arith)

lemmas sample_steps = exec_def exec_raw_def call_def update_def select_def select_row_def
  set_where_def commit_def no_change_def transaction_def finish_def

lemma sample_payment:
  "run_action sample_world sample_vars 1 Payment (sconst 60) (sample_db, sconst Done) =
   Some (Returned None, (sample_paid, sconst Done), sconst 60)"
  by (simp add: run_action_def runPayment_def sample_payment_input payment_body_def
      do_paymentUpdateDistrict_def do_paymentSelectDistrict_def do_paymentUpdateWarehouse_def
      do_paymentSelectWarehouse_def payment_choose_def payment_customer_def payment_history_def
      do_paymentSelectCustomerForUpdate_def do_paymentUpdateCustomer_def do_paymentInsertHistory_def
      sample_steps sample_paid_def sample_db_def sample_world_def customer_is_def paid_def pad_def)
    (simp add: numeral_eq_Suc)

text \<open>
  C1. Consistency of any history.  Whatever transactions the threads run, whatever they draw, and
  whichever calls of the driver fail, are lost or go through, the tables stay consistent in the
  sense of clause 3.3.2 and no transaction panics.
\<close>

theorem history_consistent:
  assumes "good_vars G" "1 \<le> W" "consistent t" "history Z G W t rs t'"
  shows "consistent t' \<and> Panicked \<notin> set rs"
  using history_safe [OF assms(1,2,4,3)] .

lemma history_consistent_witness:
  "history sample_world sample_vars 1 sample_db [Returned None] sample_paid \<and> consistent sample_paid"
proof -
  have h: "history sample_world sample_vars 1 sample_db ([] @ [Returned None]) sample_paid"
    by (rule history_step [OF history_start sample_payment])
  have "good_vars sample_vars" by (simp add: good_vars_def sample_vars_def)
  from history_consistent [OF this _ sample_consistent h] h show ?thesis by simp
qed

text \<open>
  C10. The input of New-Order.  The warehouse, district and customer are in range; there are
  between 5 and 15 lines numbered from 1, of quantities from 1 to 10 and of different items from 1
  to 100000, only the last of which may be the wrong item -1; the order is marked local exactly if
  every line is supplied by the home warehouse.
\<close>

theorem newOrder_input_valid:
  assumes "good_vars G" "1 \<le> W" "newOrder_input G W R = Some (d, R')"
  shows "wID d \<in> {1..W} \<and> dID d \<in> {1..10} \<and> cID d \<in> {1..3000} \<and>
    length (no_items d) \<in> {5..15} \<and> oOlCnt d = int (length (no_items d)) \<and>
    map olNumber (no_items d) = map (\<lambda>j. int j + 1) [0..<length (no_items d)] \<and>
    distinct (map olIID (no_items d)) \<and>
    (\<forall>i \<in> set (butlast (no_items d)). olIID i \<in> {1..100000}) \<and>
    olIID (last (no_items d)) \<in> insert (- 1) {1..100000} \<and>
    (\<forall>i \<in> set (no_items d). olQuantity i \<in> {1..10} \<and> olSupplyWID i \<in> {1..W}) \<and>
    (no_allLocal d = 1 \<longleftrightarrow> (\<forall>i \<in> set (no_items d). olSupplyWID i = wID d))"
proof -
  note d = newOrder_input_drawn [OF assms(1,3,2)]
  have n: "no_items d \<noteq> []" "5 \<le> length (no_items d)" "length (no_items d) \<le> 15"
    using d by (auto simp: newOrder_drawn_def)
  have r: "olIID i = - 1 \<or> 1 \<le> olIID i \<and> olIID i \<le> 100000" if "i \<in> set (no_items d)" for i
  proof (cases "no_itemsMap d (olIID i)")
    case None
    then show ?thesis using d that unfolding newOrder_drawn_def drawn_def by blast
  next
    case (Some j)
    then show ?thesis using d unfolding newOrder_drawn_def drawn_def by blast
  qed
  have "\<forall>i \<in> set (butlast (no_items d)). olIID i \<in> {1..100000}"
    using d r in_set_butlastD unfolding newOrder_drawn_def by fastforce
  moreover have "olIID (last (no_items d)) \<in> insert (- 1) {1..100000}"
    using r [OF last_in_set [OF n(1)]] by auto
  ultimately show ?thesis using d n by (simp add: newOrder_drawn_def drawn_def)
qed

text \<open>An input of five lines that is drawn from the multiples of 11.\<close>

definition sample_rnd :: rnd where
  "sample_rnd = siterate (\<lambda>x. x + 11) 0"

lemma sample_randItemID:
  "randItemID sample_vars (siterate f x) =
   Some (or (int x mod 8192) (int (f x) mod 100000 + 1) smod 100000 + 1, siterate f (f (f x)))"
  by (simp add: randItemID_def Intn_def sample_vars_def)

lemma sample_randInt:
  "lo < hi \<Longrightarrow> randInt lo hi (siterate f x) = Some (int x mod (hi - lo + 1) + lo, siterate f (f x))"
  "randInt lo lo R = Some (lo, R)"
  by (simp_all add: randInt_def Intn_def)

lemma sample_uniqueItemID:
  "m (or (int x mod 8192) (int (f x) mod 100000 + 1) smod 100000 + 1) = None \<Longrightarrow>
   uniqueItemID sample_vars m (siterate f x) =
   Some (or (int x mod 8192) (int (f x) mod 100000 + 1) smod 100000 + 1, siterate f (f (f x)))"
  by (subst uniqueItemID.simps) (simp add: sample_randItemID)

lemma sample_five: "newOrder_items 5 = newOrder_items (Suc (Suc (Suc (Suc (Suc 0)))))"
  by (simp add: numeral_eq_Suc)

lemma sample_newOrder_input:
  "map_option (\<lambda>(d, R). (wID d, dID d, cID d, map olIID (no_items d), map olQuantity (no_items d)))
     (newOrder_input sample_vars 1 sample_rnd) =
   Some (1, 1, 32, [120, 125, 254, 191, 256], [8, 1, 4, 7, 10])"
  by (simp add: newOrder_input_def sample_randInt sample_rnd_def districtPerWarehouse_def
      randCustomerID_def Intn_def sample_five newOrder_item_def zeroItem_def Let_def
      sample_uniqueItemID go_arith)
    (simp add: sample_vars_def)

lemma newOrder_input_valid_witness:
  "\<exists>d R'. newOrder_input sample_vars 1 sample_rnd = Some (d, R') \<and>
     map olNumber (no_items d) = [1, 2, 3, 4, 5] \<and> distinct (map olIID (no_items d))"
proof -
  obtain d R' where d: "newOrder_input sample_vars 1 sample_rnd = Some (d, R')"
    and i: "map olIID (no_items d) = [120, 125, 254, 191, 256]"
    using sample_newOrder_input by (cases "newOrder_input sample_vars 1 sample_rnd") auto
  have "good_vars sample_vars" by (simp add: good_vars_def sample_vars_def)
  note v = newOrder_input_valid [OF this _ d]
  have "length (no_items d) = 5" using arg_cong [OF i, of length] by simp
  then have "[0..<length (no_items d)] = [0, 1, 2, 3, 4]" by (simp add: upt_rec)
  then show ?thesis using v d by auto
qed

subsection \<open>The customer in the middle\<close>

lemma scan_names_nth: "0 < k \<Longrightarrow> k \<le> length rows \<Longrightarrow> scan_names k rows c = rows ! (k - 1)"
proof (induction k rows c rule: scan_names.induct)
  case (3 k r rows c)
  then show ?case by (cases k) auto
qed simp_all

lemma middle_same:
  assumes "rows \<noteq> []"
  defines "n \<equiv> int (length rows)"
  shows "go_index rows ((n + 1) div 2 - 1) =
    Some (scan_names (nat ((if n mod 2 = 1 then n + 1 else n) div 2)) rows 0)"
proof -
  have n: "1 \<le> n" using assms(1) by (simp add: n_def Suc_le_eq flip: length_greater_0_conv)
  have m: "(if n mod 2 = 1 then n + 1 else n) div 2 = (n + 1) div 2" by presburger
  have b: "1 \<le> (n + 1) div 2" "(n + 1) div 2 \<le> n" using n by auto
  then have "scan_names (nat ((n + 1) div 2)) rows 0 = rows ! (nat ((n + 1) div 2) - 1)"
    by (intro scan_names_nth) (auto simp: n_def)
  moreover have "nat ((n + 1) div 2 - 1) = nat ((n + 1) div 2) - 1" by (simp add: nat_diff_distrib')
  ultimately show ?thesis using b unfolding m by (simp add: go_index_def n_def)
qed

text \<open>
  C11. Payment and Order-Status agree on the customer: on the same data and for the same last name,
  both continue with the customer in the middle (rounded up) of those of that name ordered by
  first name.
\<close>

theorem same_middle_customer:
  assumes "p_cID p = 0" "os_cID d = 0" "p_cWID p = os_wID d" "p_cDID p = os_dID d"
    "p_cLast p = os_cLast d" "by_last (os_wID d) (os_dID d) (os_cLast d) t \<noteq> []"
  defines "names \<equiv> order_by_first (by_last (os_wID d) (os_dID d) (os_cLast d) t)"
  defines "c \<equiv> c_id (names ! ((length names + 1) div 2 - 1))"
  shows "payment_choose Z p wName dName (t, sconst Done) =
      payment_customer Z p wName dName c (t, sconst Done) \<and>
    orderStatus_body d (t, sconst Done) = orderStatus_lines d c (t, sconst Done)"
proof -
  have len: "length (insert_by_first r rs) = Suc (length rs)" for r rs by (induction rs) auto
  have "length (order_by_first rs) = length rs" for rs
    by (induction rs) (simp_all add: order_by_first_def len)
  then have ne: "map c_id names \<noteq> []" using assms(6) by (auto simp: names_def simp flip: length_greater_0_conv)
  have cnt: "length (by_last (os_wID d) (os_dID d) (os_cLast d) t) = length names"
    using \<open>\<And>rs. length (order_by_first rs) = length rs\<close> by (simp add: names_def)
  have c: "go_index (map c_id names) ((int (length names) + 1) div 2 - 1) = Some c"
  proof -
    have "nat ((int (length names) + 1) div 2 - 1) = (length names + 1) div 2 - 1" by simp
    moreover have "(length names + 1) div 2 - 1 < length names" "0 < length names"
      using ne by (cases names; simp)+
    ultimately show ?thesis by (auto simp: go_index_def c_def)
  qed
  have m: "scan_names (nat ((if int (length names) mod 2 = 1 then int (length names) + 1
      else int (length names)) div 2)) (map c_id names) 0 = c"
    using middle_same [OF ne] c by simp
  show ?thesis
    using assms(1-5) ne c m cnt
    by (simp add: payment_choose_def do_paymentSelectCustomerListByLast_def orderStatus_body_def
        do_orderStatusSelectCustomerCntByLast_def do_orderStatusSelectCustomerByLast_def
        exec_def exec_raw_def call_def select_def no_change_def or_panic_def names_def [symmetric] Let_def)
qed

lemma same_middle_customer_witness:
  "payment_choose sample_world \<lparr>p_wID = 1, p_dID = 1, p_cWID = 1, p_cDID = 1, p_hAmount = 160, p_cID = 0,
      p_cLast = ''BARBARBAR''\<rparr> ''W'' ''D'' (sample_db, sconst Done) =
   payment_customer sample_world \<lparr>p_wID = 1, p_dID = 1, p_cWID = 1, p_cDID = 1, p_hAmount = 160, p_cID = 0,
      p_cLast = ''BARBARBAR''\<rparr> ''W'' ''D'' 62 (sample_db, sconst Done)"
  using same_middle_customer [of
      "\<lparr>p_wID = 1, p_dID = 1, p_cWID = 1, p_cDID = 1, p_hAmount = 160, p_cID = 0, p_cLast = ''BARBARBAR''\<rparr>"
      "\<lparr>os_wID = 1, os_dID = 1, os_cID = 0, os_cLast = ''BARBARBAR''\<rparr>" sample_db]
  by (simp add: by_last_def sample_db_def order_by_first_def)

end
