(* ===== verification/TpccProc.thy ===== *)
theory TpccProc
  imports TpccSafe
begin

text \<open>
  The transactions of \<open>--stored-procs\<close>: each draws its inputs and sends one \<open>CALL\<close>.  What the
  procedure does runs in the server and is a parameter, a statement for the arguments of the call.
  The error of a failed call is reported with \<open>%v\<close>, which keeps its text and drops its chain.
\<close>

definition tpccCallNewOrder :: string where
  "tpccCallNewOrder = ''CALL tpcc_new_order($1,$2,$3,$4,$5,$6,$7,$8,$9)''"

definition tpccCallPayment :: string where
  "tpccCallPayment = ''CALL tpcc_payment($1,$2,$3,$4,$5,$6,$7,$8)''"

definition tpccCallOrderStatus :: string where
  "tpccCallOrderStatus = ''CALL tpcc_order_status($1,$2,$3,$4)''"

definition tpccCallDelivery :: string where
  "tpccCallDelivery = ''CALL tpcc_delivery($1,$2,$3)''"

definition tpccCallStockLevel :: string where
  "tpccCallStockLevel = ''CALL tpcc_stock_level($1,$2,$3)''"

subsection \<open>Arguments\<close>

datatype procArgs =
    NewOrderArgs int int int int "int list" "int list" "int list" string int
  | PaymentArgs int int int int int "int option" "string option" string
  | OrderStatusArgs int int "int option" "string option"
  | DeliveryArgs int int string
  | StockLevelArgs int int int

text \<open>The loop over the lines; \<open>seen\<close> are the items drawn so far.\<close>

fun newOrderProc_items ::
  "nat \<Rightarrow> RandVars \<Rightarrow> int \<Rightarrow> int \<Rightarrow> int \<Rightarrow> (int \<rightharpoonup> nat) \<Rightarrow> int list \<Rightarrow> int list \<Rightarrow> int list \<Rightarrow> int \<Rightarrow> rnd \<Rightarrow>
   ((int list \<times> int list \<times> int list \<times> int) \<times> rnd) option" where
  "newOrderProc_items 0 G W w rbk seen supplyW itemIDs quantities allLocal R =
     Some ((supplyW, itemIDs, quantities, allLocal), R)"
| "newOrderProc_items (Suc k) G W w rbk seen supplyW itemIDs quantities allLocal R = do {
     ((iID, seen), R) \<leftarrow>
       (if k = 0 \<and> rbk = 1 then Some ((- 1, seen), R)
        else do {
          (iid, R) \<leftarrow> uniqueItemID G seen R;
          Some ((iid, seen(iid \<mapsto> 0)), R)
        });
     (home, R) \<leftarrow> (if W = 1 then Some (True, R)
        else do { (r, R) \<leftarrow> randInt 1 100 R; Some (r \<noteq> 1, R) });
     ((supply, allLocal), R) \<leftarrow>
       (if home then Some ((w, allLocal), R)
        else do {
          (other, R) \<leftarrow> otherWarehouse W w R;
          Some ((other, 0), R)
        });
     (quantity, R) \<leftarrow> randInt 1 10 R;
     newOrderProc_items k G W w rbk seen (supplyW @ [wrap32 supply]) (itemIDs @ [wrap32 iID])
       (quantities @ [wrap32 quantity]) allLocal R
   }"

definition newOrderProc_input :: "World \<Rightarrow> RandVars \<Rightarrow> int \<Rightarrow> rnd \<Rightarrow> (procArgs \<times> rnd) option" where
  "newOrderProc_input Z G W R = do {
     (w, R) \<leftarrow> randInt 1 W R;
     (d, R) \<leftarrow> randInt 1 districtPerWarehouse R;
     (c, R) \<leftarrow> randCustomerID G R;
     (n, R) \<leftarrow> randInt 5 15 R;
     (rbk, R) \<leftarrow> randInt 1 100 R;
     ((supplyW, itemIDs, quantities, allLocal), R) \<leftarrow>
       newOrderProc_items (nat n) G W w rbk Map.empty [] [] [] 1 R;
     Some (NewOrderArgs w d c n supplyW itemIDs quantities (now Z) allLocal, R)
   }"

text \<open>\<open>NULL\<close> is passed for the lookup key that was not picked.\<close>

definition paymentProc_args :: "World \<Rightarrow> paymentData \<Rightarrow> procArgs" where
  "paymentProc_args Z p =
     (let (cIDArg, cLastArg) = (if p_cID p = 0 then (None, Some (p_cLast p)) else (Some (p_cID p), None))
      in PaymentArgs (p_wID p) (p_dID p) (p_cWID p) (p_cDID p) (p_hAmount p) cIDArg cLastArg (now Z))"

definition orderStatusProc_args :: "orderStatusData \<Rightarrow> procArgs" where
  "orderStatusProc_args d =
     (let (cIDArg, cLastArg) = (if os_cID d = 0 then (None, Some (os_cLast d)) else (Some (os_cID d), None))
      in OrderStatusArgs (os_wID d) (os_dID d) cIDArg cLastArg)"

definition paymentProc_input :: "World \<Rightarrow> RandVars \<Rightarrow> int \<Rightarrow> rnd \<Rightarrow> (procArgs \<times> rnd) option" where
  "paymentProc_input Z G W R = do { (p, R) \<leftarrow> payment_input G W R; Some (paymentProc_args Z p, R) }"

definition orderStatusProc_input :: "RandVars \<Rightarrow> int \<Rightarrow> rnd \<Rightarrow> (procArgs \<times> rnd) option" where
  "orderStatusProc_input G W R = do { (d, R) \<leftarrow> orderStatus_input G W R; Some (orderStatusProc_args d, R) }"

definition deliveryProc_input :: "World \<Rightarrow> int \<Rightarrow> rnd \<Rightarrow> (procArgs \<times> rnd) option" where
  "deliveryProc_input Z W R = do {
     (w, R) \<leftarrow> randInt 1 W R;
     (carrier, R) \<leftarrow> randInt 1 10 R;
     Some (DeliveryArgs w carrier (now Z), R)
   }"

definition stockLevelProc_input :: "int \<Rightarrow> rnd \<Rightarrow> (procArgs \<times> rnd) option" where
  "stockLevelProc_input W R = do {
     (w, R) \<leftarrow> randInt 1 W R;
     (d, R) \<leftarrow> randInt 1 10 R;
     (threshold, R) \<leftarrow> randInt 10 20 R;
     Some (StockLevelArgs w d threshold, R)
   }"

definition procInput :: "World \<Rightarrow> RandVars \<Rightarrow> int \<Rightarrow> action \<Rightarrow> rnd \<Rightarrow> (procArgs \<times> rnd) option" where
  "procInput Z G W a R =
     (case a of
        NewOrder \<Rightarrow> newOrderProc_input Z G W R
      | Payment \<Rightarrow> paymentProc_input Z G W R
      | OrderStatus \<Rightarrow> orderStatusProc_input G W R
      | Delivery \<Rightarrow> deliveryProc_input Z W R
      | StockLevel \<Rightarrow> stockLevelProc_input W R)"

fun call_failed :: "action \<Rightarrow> string" where
  "call_failed NewOrder = ''CALL tpcc_new_order failed''"
| "call_failed Payment = ''CALL tpcc_payment failed''"
| "call_failed OrderStatus = ''CALL tpcc_order_status failed''"
| "call_failed Delivery = ''CALL tpcc_delivery failed''"
| "call_failed StockLevel = ''CALL tpcc_stock_level failed''"

definition run_proc ::
  "(procArgs \<Rightarrow> unit stmt) \<Rightarrow> World \<Rightarrow> RandVars \<Rightarrow> int \<Rightarrow> action \<Rightarrow> rnd \<Rightarrow> session \<Rightarrow>
   (result \<times> session \<times> rnd) option" where
  "run_proc P Z G W a R s = do {
     (args, R) \<leftarrow> procInput Z G W a R;
     (case call (P args) s of
        (Inl e, s) \<Rightarrow> Some (Returned (Some [Plain (call_failed a)]), s, R)
      | (Inr u, s) \<Rightarrow> Some (Returned None, s, R))
   }"

subsection \<open>The same inputs\<close>

lemma uniqueItemID_cong1:
  assumes "uniqueItemID G m R = Some r" "\<And>i. m i = None \<longleftrightarrow> m' i = None"
  shows "uniqueItemID G m' R = Some r"
proof -
  have "(\<forall>i. m i = None \<longleftrightarrow> m' i = None) \<longrightarrow> uniqueItemID G m' R = Some r"
  proof (rule uniqueItemID.raw_induct
      [where P = "\<lambda>G m R r. (\<forall>i. m i = None \<longleftrightarrow> m' i = None) \<longrightarrow> uniqueItemID G m' R = Some r", OF _ assms(1)])
    fix f G m R r
    assume IH: "\<And>G m R r. f G m R = Some r \<Longrightarrow>
        (\<forall>i. m i = None \<longleftrightarrow> m' i = None) \<longrightarrow> uniqueItemID G m' R = Some r"
      and step: "(case randItemID G R of None \<Rightarrow> None
        | Some (iid, R) \<Rightarrow> if m iid \<noteq> None then f G m R else Some (iid, R)) = Some r"
    show "(\<forall>i. m i = None \<longleftrightarrow> m' i = None) \<longrightarrow> uniqueItemID G m' R = Some r"
    proof
      assume same: "\<forall>i. m i = None \<longleftrightarrow> m' i = None"
      obtain iid R1 where d: "randItemID G R = Some (iid, R1)"
        using step by (cases "randItemID G R") auto
      show "uniqueItemID G m' R = Some r"
      proof (cases "m iid = None")
        case True
        then have "m' iid = None" using same by blast
        then show ?thesis using step d True by (subst uniqueItemID.simps) auto
      next
        case False
        then have "m' iid \<noteq> None" "f G m R1 = Some r" using same step d by auto
        then show ?thesis using IH [of G m R1 r] same d by (subst uniqueItemID.simps) simp
      qed
    qed
  qed
  then show ?thesis using assms(2) by blast
qed

lemma uniqueItemID_cong:
  assumes "\<And>i. m i = None \<longleftrightarrow> m' i = None"
  shows "uniqueItemID G m R = uniqueItemID G m' R"
  using uniqueItemID_cong1 [of G m R _ m'] uniqueItemID_cong1 [of G m' R _ m] assms
  by (cases "uniqueItemID G m R"; cases "uniqueItemID G m' R") force+

text \<open>The lists of arguments are the columns of the lines.\<close>

definition columns :: "orderItem list \<Rightarrow> int \<Rightarrow> int list \<times> int list \<times> int list \<times> int" where
  "columns its al = (map (\<lambda>i. wrap32 (olSupplyWID i)) its, map (\<lambda>i. wrap32 (olIID i)) its,
     map (\<lambda>i. wrap32 (olQuantity i)) its, al)"

lemma newOrderProc_items_eq:
  assumes "\<And>i. m i = None \<longleftrightarrow> seen i = None"
  shows "newOrderProc_items k G W w rbk seen (map (\<lambda>i. wrap32 (olSupplyWID i)) its)
      (map (\<lambda>i. wrap32 (olIID i)) its) (map (\<lambda>i. wrap32 (olQuantity i)) its) al R =
    map_option (\<lambda>((its, m, al), R). (columns its al, R)) (newOrder_items k G W w rbk its m al R)"
  using assms
proof (induction k arbitrary: its m seen al R)
  case 0
  then show ?case by (simp add: columns_def)
next
  case (Suc k)
  have u: "uniqueItemID G seen R' = uniqueItemID G m R'" for R'
    using uniqueItemID_cong Suc.prems by metis
  have nxt: "newOrderProc_items k G W w rbk seen' (map (\<lambda>i. wrap32 (olSupplyWID i)) its @ [wrap32 (olSupplyWID i)])
      (map (\<lambda>i. wrap32 (olIID i)) its @ [wrap32 (olIID i)]) (map (\<lambda>i. wrap32 (olQuantity i)) its @ [wrap32 (olQuantity i)]) al' R' =
    map_option (\<lambda>((its, m, al), R). (columns its al, R)) (newOrder_items k G W w rbk (its @ [i]) m' al' R')"
    if "\<And>i. m' i = None \<longleftrightarrow> seen' i = None" for m' seen' i al' R'
    using Suc.IH [of m' seen' "its @ [i]" al' R'] that by simp
  have rest: "(do {
       (home, R) \<leftarrow> (if W = 1 then Some (True, R)
          else do { (r, R) \<leftarrow> randInt 1 100 R; Some (r \<noteq> 1, R) });
       ((supply, allLocal), R) \<leftarrow>
         (if home then Some ((w, al), R)
          else do { (other, R) \<leftarrow> otherWarehouse W w R; Some ((other, 0), R) });
       (quantity, R) \<leftarrow> randInt 1 10 R;
       newOrderProc_items k G W w rbk seen' (map (\<lambda>i. wrap32 (olSupplyWID i)) its @ [wrap32 supply])
         (map (\<lambda>i. wrap32 (olIID i)) its @ [wrap32 (olIID i)])
         (map (\<lambda>i. wrap32 (olQuantity i)) its @ [wrap32 quantity]) allLocal R }) =
    map_option (\<lambda>((its, m, al), R). (columns its al, R)) (do {
       ((item, itemsMap, home), R) \<leftarrow> do {
         (home, R) \<leftarrow> (if W = 1 then Some (True, R)
            else do { (r, R) \<leftarrow> randInt 1 100 R; Some (r \<noteq> 1, R) });
         (item, R) \<leftarrow>
           (if home then Some (i\<lparr>olSupplyWID := w\<rparr>, R)
            else do {
              (other, R) \<leftarrow> otherWarehouse W w R;
              Some (i\<lparr>olSupplyWID := other, remoteWarehouse := 1\<rparr>, R)
            });
         (quantity, R) \<leftarrow> randInt 1 10 R;
         Some ((item\<lparr>olQuantity := quantity\<rparr>, m', home), R) };
       newOrder_items k G W w rbk (its @ [item]) itemsMap (if home then al else 0) R })"
    if same: "\<And>i. m' i = None \<longleftrightarrow> seen' i = None" for m' seen' i R
  proof -
    have q: "(do {
         (quantity, R) \<leftarrow> randInt 1 10 R;
         newOrderProc_items k G W w rbk seen' (map (\<lambda>i. wrap32 (olSupplyWID i)) its @ [wrap32 (olSupplyWID j)])
           (map (\<lambda>i. wrap32 (olIID i)) its @ [wrap32 (olIID i)])
           (map (\<lambda>i. wrap32 (olQuantity i)) its @ [wrap32 quantity]) al' R }) =
      map_option (\<lambda>((its, m, al), R). (columns its al, R)) (do {
         (quantity, R) \<leftarrow> randInt 1 10 R;
         newOrder_items k G W w rbk (its @ [j\<lparr>olQuantity := quantity\<rparr>]) m' al' R })"
      if j: "olIID j = olIID i" for j al' R
    proof (cases "randInt 1 10 R")
      case None
      then show ?thesis by simp
    next
      case (Some a)
      obtain y R' where "a = (y, R')" by (cases a)
      then show ?thesis using nxt [where m' = m' and seen' = seen' and i = "j\<lparr>olQuantity := y\<rparr>" and al' = al' and R' = R'] same Some j by simp
    qed
    note qh = q [where j = "i\<lparr>olSupplyWID := w\<rparr>" and al' = al]
    have qr: "(do {
         (quantity, R) \<leftarrow> randInt 1 10 R;
         newOrderProc_items k G W w rbk seen' (map (\<lambda>i. wrap32 (olSupplyWID i)) its @ [wrap32 y])
           (map (\<lambda>i. wrap32 (olIID i)) its @ [wrap32 (olIID i)])
           (map (\<lambda>i. wrap32 (olQuantity i)) its @ [wrap32 quantity]) 0 R }) =
      map_option (\<lambda>((its, m, al), R). (columns its al, R)) (do {
         (quantity, R) \<leftarrow> randInt 1 10 R;
         newOrder_items k G W w rbk
           (its @ [i\<lparr>olSupplyWID := y, remoteWarehouse := 1, olQuantity := quantity\<rparr>]) m' 0 R })" for y R
      using q [where j = "i\<lparr>olSupplyWID := y, remoteWarehouse := 1\<rparr>" and al' = 0 and R = R] by simp
    show ?thesis
    proof (cases "W = 1")
      case True
      then show ?thesis using qh [where R = R] by (simp add: bind_assoc split_def)
    next
      case False
      show ?thesis
      proof (cases "randInt 1 100 R")
        case None
        then show ?thesis using False by simp
      next
        case (Some a)
        obtain r R1 where a: "a = (r, R1)" by (cases a)
        show ?thesis
        proof (cases "r = 1")
          case True
          then show ?thesis using False Some a qr
            by (cases "otherWarehouse W w R1") (auto simp: bind_assoc split_def)
        next
          case r: False
          then show ?thesis using False Some a qh [where R = R1] by (simp add: bind_assoc split_def)
        qed
      qed
    qed
  qed
  define b where "b \<longleftrightarrow> k = 0 \<and> rbk = 1"
  note b = b_def [symmetric]
  show ?case
  proof (cases b)
    case True
    then show ?thesis
      using rest [where m' = m and seen' = seen and R = R
          and i = "zeroItem\<lparr>olNumber := int (length its) + 1, olIID := - 1\<rparr>"] Suc.prems
      by (simp add: newOrder_item_def Let_def b)
  next
    case False
    show ?thesis
    proof (cases "uniqueItemID G m R")
      case None
      then show ?thesis using False u [of R] by (simp add: newOrder_item_def Let_def b)
    next
      case (Some a)
      obtain iid R1 where a: "a = (iid, R1)" by (cases a)
      have same: "(m(iid \<mapsto> length its)) i = None \<longleftrightarrow> (seen(iid \<mapsto> 0)) i = None" for i
        using Suc.prems by simp
      show ?thesis
        using rest [where m' = "m(iid \<mapsto> length its)" and seen' = "seen(iid \<mapsto> 0)" and R = R1
            and i = "zeroItem\<lparr>olNumber := int (length its) + 1, olIID := iid\<rparr>"] same False Some a u [of R]
        by (simp add: newOrder_item_def Let_def b)
    qed
  qed
qed

definition newOrder_args :: "World \<Rightarrow> newOrderData \<Rightarrow> procArgs" where
  "newOrder_args Z d = NewOrderArgs (wID d) (dID d) (cID d) (oOlCnt d) (map olSupplyWID (no_items d))
     (map olIID (no_items d)) (map olQuantity (no_items d)) (now Z) (no_allLocal d)"

lemma newOrderProc_columns:
  "newOrderProc_items (nat n) G W w rbk Map.empty [] [] [] al R =
   map_option (\<lambda>((its, m, al), R). (columns its al, R)) (newOrder_items (nat n) G W w rbk [] Map.empty al R)"
  using newOrderProc_items_eq [of Map.empty Map.empty "nat n" G W w rbk "[]" al R] by simp

lemma newOrderProc_input_eq:
  "newOrderProc_input Z G W R = map_option (\<lambda>(d, R).
     (NewOrderArgs (wID d) (dID d) (cID d) (oOlCnt d) (map (\<lambda>i. wrap32 (olSupplyWID i)) (no_items d))
        (map (\<lambda>i. wrap32 (olIID i)) (no_items d)) (map (\<lambda>i. wrap32 (olQuantity i)) (no_items d))
        (now Z) (no_allLocal d), R)) (newOrder_input G W R)"
  by (simp add: newOrderProc_input_def newOrder_input_def newOrderProc_columns columns_def split_def
      map_option_bind option.map_comp comp_def bind_map_option split: option.splits
      del: option.map_comp)

lemma newOrder_input_valid_fits:
  assumes "good_vars G" "1 \<le> W" "W < 2 ^ 31" "newOrder_input G W R = Some (d, R')" "i \<in> set (no_items d)"
  shows "wrap32 (olSupplyWID i) = olSupplyWID i \<and> wrap32 (olIID i) = olIID i \<and> wrap32 (olQuantity i) = olQuantity i"
proof -
  have d: "drawn W (wID d) (no_items d) (no_itemsMap d) (no_allLocal d)"
    using newOrder_input_drawn [OF assms(1,4,2)] by (simp add: newOrder_drawn_def)
  then have "- 1 \<le> olIID i" "olIID i \<le> 100000"
    using assms(5) unfolding drawn_def by (force, force)
  moreover have "1 \<le> olSupplyWID i" "olSupplyWID i \<le> W" "1 \<le> olQuantity i" "olQuantity i \<le> 10"
    using d assms(5) unfolding drawn_def by blast+
  ultimately show ?thesis using assms(3) by (simp add: wrap32_id)
qed

text \<open>
  C14. The stored procedure gets what the client-side transaction would have used.  From the same
  source both modes of New-Order draw the same warehouse, district, customer, lines and local flag
  and leave the source in the same state; the conversions to 32 bits lose nothing.
\<close>

theorem newOrderProc_same_input:
  assumes "good_vars G" "1 \<le> W" "W < 2 ^ 31" "newOrder_input G W R = Some (d, R')"
  shows "newOrderProc_input Z G W R = Some (newOrder_args Z d, R')"
proof -
  note v = newOrder_input_valid_fits [OF assms]
  show ?thesis
    using v assms(4) by (simp add: newOrderProc_input_eq newOrder_args_def cong: map_cong)
qed

lemma newOrderProc_same_input_witness:
  "map_option fst (newOrderProc_input sample_world sample_vars 1 sample_rnd) =
   map_option (\<lambda>(d, R). newOrder_args sample_world d) (newOrder_input sample_vars 1 sample_rnd) \<and>
   newOrder_input sample_vars 1 sample_rnd \<noteq> None"
proof -
  obtain d R' where d: "newOrder_input sample_vars 1 sample_rnd = Some (d, R')"
    using sample_newOrder_input by (cases "newOrder_input sample_vars 1 sample_rnd") auto
  have "good_vars sample_vars" by (simp add: good_vars_def sample_vars_def)
  from newOrderProc_same_input [OF this _ _ d, of sample_world] d show ?thesis by simp
qed

subsection \<open>Errors of the calls\<close>



end
