(* ===== verification/TpccRun.thy ===== *)
theory TpccRun
  imports TpccProc "HOL-Library.AList"
begin

text \<open>
  The workload of TPC-C: \<open>tpcc/workload.go\<close> with \<open>pkg/workload/base.go\<close>.  A worker owns one
  connection and the statements prepared on it.  The world gives a reply to every call of the
  driver, the times read from the clock, and keeps the log of what happened to connections and
  statements.
\<close>

subsection \<open>Configuration\<close>

record Config =
  cf_Driver :: string
  cf_Parts :: int
  cf_PartitionType :: int
  cf_Warehouses :: int
  cf_Weight :: "int list"
  cf_OutputType :: string
  cf_StoredProcs :: bool
  cf_ConnRefreshInterval :: int

definition PartitionTypeHash :: int where "PartitionTypeHash = 1"
definition PartitionTypeRange :: int where "PartitionTypeRange = 2"
definition PartitionTypeListAsHash :: int where "PartitionTypeListAsHash = 3"
definition PartitionTypeListAsRange :: int where "PartitionTypeListAsRange = 4"

record txn =
  tx_action :: action
  tx_weight :: int
  tx_keyingTime :: int
  tx_thinkingTime :: int

text \<open>The checks of the constructor panic, which is \<open>None\<close>; \<open>noDb\<close> is the missing database.\<close>

definition checkWeights :: "int list \<Rightarrow> int list option" where
  "checkWeights ws =
     (if length ws = 0 then Some [45, 43, 4, 4, 4]
      else if length ws = 5 then (if sum_list ws \<noteq> 100 then None else Some ws)
      else None)"

definition newTxns :: "int list \<Rightarrow> txn list" where
  "newTxns ws =
     [\<lparr>tx_action = NewOrder, tx_weight = ws ! 0, tx_keyingTime = 18, tx_thinkingTime = 12\<rparr>,
      \<lparr>tx_action = Payment, tx_weight = ws ! 1, tx_keyingTime = 3, tx_thinkingTime = 12\<rparr>,
      \<lparr>tx_action = OrderStatus, tx_weight = ws ! 2, tx_keyingTime = 2, tx_thinkingTime = 10\<rparr>,
      \<lparr>tx_action = Delivery, tx_weight = ws ! 3, tx_keyingTime = 2, tx_thinkingTime = 5\<rparr>,
      \<lparr>tx_action = StockLevel, tx_weight = ws ! 4, tx_keyingTime = 2, tx_thinkingTime = 5\<rparr>]"

definition NewWorkloader :: "bool \<Rightarrow> Config \<Rightarrow> (Config \<times> txn list) option" where
  "NewWorkloader noDb cfg =
     (if noDb \<and> cf_OutputType cfg = [] then None
      else if cf_StoredProcs cfg \<and> cf_Driver cfg \<noteq> ''postgres'' then None
      else if cf_Parts cfg > cf_Warehouses cfg then None
      else if cf_PartitionType cfg < PartitionTypeHash \<or> cf_PartitionType cfg > PartitionTypeListAsRange then None
      else do {
        ws \<leftarrow> checkWeights (cf_Weight cfg);
        Some (cfg\<lparr>cf_Weight := ws\<rparr>, newTxns ws)
      })"

subsection \<open>Decks\<close>

definition deck_of :: "txn list \<Rightarrow> int list" where
  "deck_of txns = concat (map (\<lambda>(i, t). replicate (nat (tx_weight t)) (int i)) (enumerate 0 txns))"

subsection \<open>The world of a worker\<close>

text \<open>
  Connections and prepared statements are numbered as they are made.  \<open>Executes\<close> is the start of a
  transaction on a connection with the handles of its statements.
\<close>

datatype runEvent =
    ConnOpened nat
  | ConnClosed nat
  | StmtPrepared nat string nat \<comment> \<open>handle, text, connection\<close>
  | StmtClosed nat
  | Executes action nat "(string \<times> nat) list"

record runWorld =
  wd_session :: session
  wd_times :: "int stream"
  wd_conns :: nat
  wd_stmts :: nat
  wd_procs :: "goerr option option" \<comment> \<open>what \<open>installProcsOnce\<close> has left, if it has run\<close>
  wd_log :: "runEvent list"

definition is_closed :: "runWorld \<Rightarrow> nat \<Rightarrow> bool" where
  "is_closed w c \<longleftrightarrow> ConnClosed c \<in> set (wd_log w)"

definition log_event :: "runEvent \<Rightarrow> runWorld \<Rightarrow> runWorld" where
  "log_event e w = w\<lparr>wd_log := wd_log w @ [e]\<rparr>"

definition time_now :: "runWorld \<Rightarrow> int \<times> runWorld" where
  "time_now w = (shd (wd_times w), w\<lparr>wd_times := stl (wd_times w)\<rparr>)"

text \<open>A call that changes no table, and one on a connection, which may have been closed.\<close>

definition driver_call :: "runWorld \<Rightarrow> goerr option \<times> runWorld" where
  "driver_call w =
     (case call no_change (wd_session w) of
        (Inl e, s) \<Rightarrow> (Some e, w\<lparr>wd_session := s\<rparr>)
      | (Inr u, s) \<Rightarrow> (None, w\<lparr>wd_session := s\<rparr>))"

definition conn_call :: "nat \<Rightarrow> runWorld \<Rightarrow> goerr option \<times> runWorld" where
  "conn_call c w = (if is_closed w c then (Some [ConnDone], w) else driver_call w)"

definition DB_Conn :: "runWorld \<Rightarrow> (goerr + nat) \<times> runWorld" where
  "DB_Conn w =
     (case driver_call w of
        (Some e, w) \<Rightarrow> (Inl e, w)
      | (None, w) \<Rightarrow> (Inr (wd_conns w), log_event (ConnOpened (wd_conns w)) (w\<lparr>wd_conns := wd_conns w + 1\<rparr>)))"

subsection \<open>The state of a worker\<close>

text \<open>The six maps of statements of the state, in the order in which they are prepared and closed.\<close>

datatype group = NewOrderStmts | PaymentStmts | OrderStatusStmts | DeliveryStmts | StockLevelStmt | ProcStmts

record tpccState =
  ts_conn :: nat
  ts_R :: rnd
  ts_index :: int
  ts_decks :: "int list"
  ts_stmts :: "group \<Rightarrow> (string \<times> nat) list"
  ts_stmtsReady :: bool
  ts_lastConnRefresh :: int

text \<open>\<open>NewTpcState\<close> and \<open>InitThread\<close>; \<open>None\<close> is the panic when no connection can be opened.\<close>

definition InitThread :: "txn list \<Rightarrow> rnd \<Rightarrow> runWorld \<Rightarrow> (tpccState \<times> runWorld) option" where
  "InitThread txns R w =
     (case DB_Conn w of
        (Inl e, w) \<Rightarrow> None
      | (Inr c, w) \<Rightarrow>
          (let (t, w) = time_now w; deck = deck_of txns in
           Some (\<lparr>ts_conn = c, ts_R = R, ts_index = int (length deck) - 1, ts_decks = deck,
             ts_stmts = (\<lambda>g. []), ts_stmtsReady = False, ts_lastConnRefresh = t\<rparr>, w)))"

text \<open>A connection that is closed again only answers that it is.\<close>

definition Conn_Close :: "nat \<Rightarrow> runWorld \<Rightarrow> runWorld" where
  "Conn_Close c w = (if is_closed w c then w else log_event (ConnClosed c) w)"

definition RefreshConn :: "tpccState \<Rightarrow> runWorld \<Rightarrow> goerr option \<times> tpccState \<times> runWorld" where
  "RefreshConn s w =
     (case DB_Conn (Conn_Close (ts_conn s) w) of
        (Inl e, w) \<Rightarrow> (Some e, s, w)
      | (Inr c, w) \<Rightarrow> (None, s\<lparr>ts_conn := c\<rparr>, w))"

subsection \<open>Prepared statements\<close>

text \<open>The keys of the maps: those of the literals, and those the loop from 5 to 15 adds.\<close>

fun group_literal :: "group \<Rightarrow> string list" where
  "group_literal NewOrderStmts =
     [newOrderSelectCustomer, newOrderSelectDistrict, newOrderUpdateDistrict, newOrderInsertOrder,
      newOrderInsertNewOrder, newOrderUpdateStock]"
| "group_literal PaymentStmts =
     [paymentUpdateWarehouse, paymentSelectWarehouse, paymentUpdateDistrict, paymentSelectDistrict,
      paymentSelectCustomerListByLast, paymentSelectCustomerForUpdate, paymentSelectCustomerData,
      paymentUpdateCustomerWithData, paymentUpdateCustomer, paymentInsertHistory]"
| "group_literal OrderStatusStmts =
     [orderStatusSelectCustomerCntByLast, orderStatusSelectCustomerByLast,
      orderStatusSelectCustomerByID, orderStatusSelectLatestOrder, orderStatusSelectOrderLine]"
| "group_literal DeliveryStmts =
     [deliverySelectNewOrder, deliveryDeleteNewOrder, deliveryUpdateOrder, deliverySelectOrders,
      deliveryUpdateOrderLine, deliverySelectSumAmount, deliveryUpdateCustomer]"
| "group_literal StockLevelStmt = [stockLevelSelectDistrict, stockLevelCount]"
| "group_literal ProcStmts =
     [tpccCallNewOrder, tpccCallPayment, tpccCallOrderStatus, tpccCallDelivery, tpccCallStockLevel]"

definition newOrder_batches :: "string list" where
  "newOrder_batches = concat (map (\<lambda>i. [newOrderSelectItemSQLs ! i, newOrderSelectStockSQLs ! i,
     newOrderInsertOrderLineSQLs ! i]) [5..<16])"

text \<open>\<open>prepareStmt\<close>: the error is the value it panics with.\<close>

definition prepareStmt :: "string \<Rightarrow> nat \<Rightarrow> string \<Rightarrow> runWorld \<Rightarrow> ((goerr + nat) \<times> runWorld) option" where
  "prepareStmt driver c query w = do {
     text \<leftarrow> convertToPQ query driver;
     (case conn_call c w of
        (Some e, w) \<Rightarrow> Some (Inl e, w)
      | (None, w) \<Rightarrow> Some (Inr (wd_stmts w),
          log_event (StmtPrepared (wd_stmts w) text c) (w\<lparr>wd_stmts := wd_stmts w + 1\<rparr>)))
   }"

text \<open>A map literal, which is only assigned when all its values are there, and the loop.\<close>

fun prepare_all ::
  "string \<Rightarrow> nat \<Rightarrow> string list \<Rightarrow> (string \<times> nat) list \<Rightarrow> runWorld \<Rightarrow>
   ((goerr option \<times> (string \<times> nat) list) \<times> runWorld) option" where
  "prepare_all driver c [] m w = Some ((None, m), w)"
| "prepare_all driver c (q # qs) m w = do {
     (r, w) \<leftarrow> prepareStmt driver c q w;
     (case r of
        Inl e \<Rightarrow> Some ((Some e, m), w)
      | Inr h \<Rightarrow> prepare_all driver c qs (AList.update q h m) w)
   }"

definition set_stmts :: "group \<Rightarrow> (string \<times> nat) list \<Rightarrow> tpccState \<Rightarrow> tpccState" where
  "set_stmts g m s = s\<lparr>ts_stmts := (ts_stmts s)(g := m)\<rparr>"

type_synonym prepStep = "tpccState \<Rightarrow> runWorld \<Rightarrow> (goerr option \<times> tpccState \<times> runWorld) option"

definition prepare_literal :: "string \<Rightarrow> group \<Rightarrow> prepStep" where
  "prepare_literal driver g s w = do {
     ((r, m), w) \<leftarrow> prepare_all driver (ts_conn s) (group_literal g) [] w;
     Some (r, (case r of None \<Rightarrow> set_stmts g m s | Some e \<Rightarrow> s), w)
   }"

definition prepare_loop :: "string \<Rightarrow> prepStep" where
  "prepare_loop driver s w = do {
     ((r, m), w) \<leftarrow> prepare_all driver (ts_conn s) newOrder_batches (ts_stmts s NewOrderStmts) w;
     Some (r, set_stmts NewOrderStmts m s, w)
   }"

text \<open>One step after the other, up to the first that panics.\<close>

fun prepare_steps :: "prepStep list \<Rightarrow> prepStep" where
  "prepare_steps [] s w = Some (None, s, w)"
| "prepare_steps (f # fs) s w = do {
     (r, s, w) \<leftarrow> f s w;
     (case r of Some e \<Rightarrow> Some (Some e, s, w) | None \<Rightarrow> prepare_steps fs s w)
   }"

definition prepareTxnStmts :: "string \<Rightarrow> prepStep" where
  "prepareTxnStmts driver = prepare_steps
     [prepare_literal driver NewOrderStmts, prepare_loop driver, prepare_literal driver PaymentStmts,
      prepare_literal driver OrderStatusStmts, prepare_literal driver DeliveryStmts,
      prepare_literal driver StockLevelStmt]"

definition prepareProcStmts :: "string \<Rightarrow> prepStep" where
  "prepareProcStmts driver = prepare_literal driver ProcStmts"

text \<open>The order in which Go ranges over a map is open; here it is the order of insertion.\<close>

definition closeStmts :: "(string \<times> nat) list \<Rightarrow> runWorld \<Rightarrow> runWorld" where
  "closeStmts m w = fold (\<lambda>(q, h). log_event (StmtClosed h)) m w"

definition closeAllStmts :: "tpccState \<Rightarrow> runWorld \<Rightarrow> tpccState \<times> runWorld" where
  "closeAllStmts s w =
     (s\<lparr>ts_stmts := (\<lambda>g. []), ts_stmtsReady := False\<rparr>,
      fold (\<lambda>g. closeStmts (ts_stmts s g))
        [NewOrderStmts, PaymentStmts, OrderStatusStmts, DeliveryStmts, StockLevelStmt, ProcStmts] w)"

subsection \<open>Run\<close>

text \<open>\<open>installStoredProcsPG\<close> of \<open>procs_pg.go\<close>, once for all workers.\<close>

fun installStoredProcsPG :: "nat \<Rightarrow> nat \<Rightarrow> runWorld \<Rightarrow> goerr option \<times> runWorld" where
  "installStoredProcsPG 0 c w = (None, w)"
| "installStoredProcsPG (Suc n) c w =
     (case conn_call c w of
        (Some e, w) \<Rightarrow> (Some (Plain ''install stored procedure failed'' # e), w)
      | (None, w) \<Rightarrow> installStoredProcsPG n c w)"

definition allStoredProcs :: nat where
  "allStoredProcs = 5"

definition installProcsOnce :: "nat \<Rightarrow> runWorld \<Rightarrow> goerr option \<times> runWorld" where
  "installProcsOnce c w =
     (case wd_procs w of
        Some r \<Rightarrow> (r, w)
      | None \<Rightarrow> (let (r, w) = installStoredProcsPG allStoredProcs c w in (r, w\<lparr>wd_procs := Some r\<rparr>)))"

text \<open>The map that a transaction takes its statements from.\<close>

fun stmts_of :: "action \<Rightarrow> group" where
  "stmts_of NewOrder = NewOrderStmts"
| "stmts_of Payment = PaymentStmts"
| "stmts_of OrderStatus = OrderStatusStmts"
| "stmts_of Delivery = DeliveryStmts"
| "stmts_of StockLevel = StockLevelStmt"

definition mode_stmts :: "Config \<Rightarrow> action \<Rightarrow> group" where
  "mode_stmts cfg a = (if cf_StoredProcs cfg then ProcStmts else stmts_of a)"

text \<open>The transaction on the connection of the worker; on a closed one every call is refused.\<close>

definition run_txn ::
  "(procArgs \<Rightarrow> unit stmt) \<Rightarrow> World \<Rightarrow> RandVars \<Rightarrow> Config \<Rightarrow> action \<Rightarrow> tpccState \<Rightarrow> runWorld \<Rightarrow>
   (result \<times> tpccState \<times> runWorld) option" where
  "run_txn P Z G cfg a s w = do {
     let w = log_event (Executes a (ts_conn s) (ts_stmts s (mode_stmts cfg a))) w;
     let (t, q) = wd_session w;
     let q' = (if is_closed w (ts_conn s) then sconst (Refused [ConnDone]) else q);
     (r, (t, q'), R) \<leftarrow>
       (if cf_StoredProcs cfg then run_proc P Z G (cf_Warehouses cfg) a (ts_R s) (t, q')
        else run_action Z G (cf_Warehouses cfg) a (ts_R s) (t, q'));
     Some (r, s\<lparr>ts_R := R\<rparr>, w\<lparr>wd_session := (t, if is_closed w (ts_conn s) then q else q')\<rparr>)
   }"

definition panic_in_Run :: goerr where
  "panic_in_Run = [Plain ''panic in TPC-C Run'']"

text \<open>The refresh by time; the clock is read only when there is an interval.\<close>

definition auto_refresh :: "Config \<Rightarrow> tpccState \<Rightarrow> runWorld \<Rightarrow> goerr option \<times> tpccState \<times> runWorld" where
  "auto_refresh cfg s w =
     (if cf_ConnRefreshInterval cfg > 0
      then (let (t, w) = time_now w in
        if t - ts_lastConnRefresh s \<ge> cf_ConnRefreshInterval cfg
        then (let (s, w) = closeAllStmts s w in
          case RefreshConn s w of
            (Some e, s, w) \<Rightarrow> (Some (Plain ''automatic connection refresh failed'' # e), s, w)
          | (None, s, w) \<Rightarrow> (let (t, w) = time_now w in (None, s\<lparr>ts_lastConnRefresh := t\<rparr>, w)))
        else (None, s, w))
      else (None, s, w))"

definition make_ready :: "Config \<Rightarrow> prepStep" where
  "make_ready cfg s w =
     (if ts_stmtsReady s then Some (None, s, w)
      else do {
        (r, s, w) \<leftarrow> (if cf_StoredProcs cfg then prepareProcStmts else prepareTxnStmts) (cf_Driver cfg) s w;
        (case r of
           Some e \<Rightarrow> Some (Some panic_in_Run, s, w)
         | None \<Rightarrow> Some (None, s\<lparr>ts_stmtsReady := True\<rparr>, w))
      })"

definition maybe_shuffle :: "tpccState \<Rightarrow> tpccState option" where
  "maybe_shuffle s =
     (if ts_index s = int (length (ts_decks s))
      then do {
        (deck, R) \<leftarrow> Shuffle (ts_decks s) (ts_R s);
        Some (s\<lparr>ts_index := 0, ts_decks := deck, ts_R := R\<rparr>)
      }
      else Some s)"

definition pick_txn :: "txn list \<Rightarrow> tpccState \<Rightarrow> (txn \<times> tpccState) option" where
  "pick_txn txns s = do {
     (i, R) \<leftarrow> Intn (int (length (ts_decks s))) (ts_R s);
     txnIndex \<leftarrow> go_index (ts_decks s) i;
     tx \<leftarrow> go_index txns txnIndex;
     Some (tx, s\<lparr>ts_R := R\<rparr>)
   }"

definition after_txn ::
  "bool \<Rightarrow> result \<Rightarrow> tpccState \<Rightarrow> runWorld \<Rightarrow> goerr option \<times> tpccState \<times> runWorld" where
  "after_txn alive r s w =
     (case r of
        Panicked \<Rightarrow> (Some panic_in_Run, s, w)
      | Returned None \<Rightarrow> (None, s, w)
      | Returned (Some e) \<Rightarrow>
          if IsTransactionConflict e then (None, s, w)
          else if alive \<and> IsConnectionError (Some e)
          then (let (s, w) = closeAllStmts s w in
            case RefreshConn s w of
              (Some re, s, w) \<Rightarrow>
                (Some (Plain ''connection refresh after connection error failed'' # re), s, w)
            | (None, s, w) \<Rightarrow> (let (t, w) = time_now w in (None, s\<lparr>ts_lastConnRefresh := t\<rparr>, w)))
          else (Some e, s, w))"

text \<open>
  One call of \<open>Run\<close>; \<open>alive\<close> says that the context has not ended when the transaction returns.
  A panic is caught and reported, so \<open>None\<close> is left for a call that does not return.
\<close>

definition Run ::
  "(procArgs \<Rightarrow> unit stmt) \<Rightarrow> World \<Rightarrow> RandVars \<Rightarrow> Config \<Rightarrow> txn list \<Rightarrow> bool \<Rightarrow> tpccState \<Rightarrow> runWorld \<Rightarrow>
   (goerr option \<times> tpccState \<times> runWorld) option" where
  "Run P Z G cfg txns alive s w =
     (case auto_refresh cfg s w of
        (Some e, s, w) \<Rightarrow> Some (Some e, s, w)
      | (None, s, w) \<Rightarrow>
          (case (if cf_StoredProcs cfg then installProcsOnce (ts_conn s) w else (None, w)) of
             (Some e, w) \<Rightarrow> Some (Some (Plain ''install stored procs'' # e), s, w)
           | (None, w) \<Rightarrow> do {
               (r, s, w) \<leftarrow> make_ready cfg s w;
               (case r of
                  Some e \<Rightarrow> Some (Some e, s, w)
                | None \<Rightarrow> do {
                    s \<leftarrow> maybe_shuffle s;
                    (case pick_txn txns s of
                       None \<Rightarrow> Some (Some panic_in_Run, s, w)
                     | Some (tx, s) \<Rightarrow> do {
                         (r, s, w) \<leftarrow> run_txn P Z G cfg (tx_action tx) s w;
                         Some (after_txn alive r s w)
                       })
                  })
             }))"

definition CleanupThread :: "tpccState \<Rightarrow> runWorld \<Rightarrow> tpccState \<times> runWorld" where
  "CleanupThread s w = (let (s, w) = closeAllStmts s w in (s, Conn_Close (ts_conn s) w))"

end
