(* ===== verification/TpccLoad.thy ===== *)
theory TpccLoad
  imports TpccInv
begin

text \<open>
  The initial population of TPC-C: \<open>tpcc/load.go\<close> and \<open>tpcc/prepare.go\<close>.  A loader draws row after
  row and hands it to a sink; every call of a sink takes one reply and may fail (batching and
  retrying are the subject of \<open>SqlSink\<close>).  The state of a thread has its source, the global source,
  the replies to come, and the rows it has handed over, table by table.
\<close>

record loadState =
  ls_R :: rnd
  ls_global :: rnd
  ls_sink :: "goerr option stream"
  ls_db :: db

definition maxItems :: nat where "maxItems = 100000"
definition stockPerWarehouse :: nat where "stockPerWarehouse = 100000"
definition customerPerDistrict :: nat where "customerPerDistrict = 3000"
definition orderPerDistrict :: nat where "orderPerDistrict = 3000"
definition newOrderPerDistrict :: nat where "newOrderPerDistrict = 900"

text \<open>A call of \<open>WriteRow\<close> or \<open>Flush\<close>.\<close>

definition sink_call :: "loadState \<Rightarrow> goerr option \<times> loadState" where
  "sink_call s = (shd (ls_sink s), s\<lparr>ls_sink := stl (ls_sink s)\<rparr>)"

text \<open>
  The loop of a loader over its indices: draw a row, write it, stop at the first error; flush at
  the end.  \<open>put\<close> adds the row to its table.
\<close>

fun load_rows ::
  "('i \<Rightarrow> rnd \<Rightarrow> ('r \<times> rnd) option) \<Rightarrow> ('r \<Rightarrow> db \<Rightarrow> db) \<Rightarrow> 'i list \<Rightarrow> loadState \<Rightarrow>
   (goerr option \<times> loadState) option" where
  "load_rows row put [] s = Some (sink_call s)"
| "load_rows row put (i # is) s = do {
     (r, R) \<leftarrow> row i (ls_R s);
     (case sink_call (s\<lparr>ls_R := R\<rparr>) of
        (Some e, s) \<Rightarrow> Some (Some e, s)
      | (None, s) \<Rightarrow> load_rows row put is (s\<lparr>ls_db := put r (ls_db s)\<rparr>))
   }"

subsection \<open>Items, warehouses, stock and districts\<close>

text \<open>A tax is a number of ten-thousandths, an amount a number of cents.\<close>

definition randTax :: "rnd \<Rightarrow> (int \<times> rnd) option" where
  "randTax R = randInt 0 2000 R"

definition item_draw :: "nat \<Rightarrow> rnd \<Rightarrow> (item_row \<times> rnd) option" where
  "item_draw i R = do {
     (iImID, R) \<leftarrow> randInt 1 10000 R;
     (iPrice, R) \<leftarrow> randInt 100 10000 R;
     (iName, R) \<leftarrow> randChars 14 24 R;
     (iData, R) \<leftarrow> randOriginalString R;
     Some (\<lparr>i_id = int i + 1, i_im_id = iImID, i_name = iName, i_price = iPrice, i_data = iData\<rparr>, R)
   }"

definition loadItem :: "loadState \<Rightarrow> (goerr option \<times> loadState) option" where
  "loadItem = load_rows item_draw (\<lambda>r t. t\<lparr>items := items t @ [r]\<rparr>) [0..<maxItems]"

definition warehouse_draw :: "int \<Rightarrow> rnd \<Rightarrow> (warehouse_row \<times> rnd) option" where
  "warehouse_draw w R = do {
     (wName, R) \<leftarrow> randChars 6 10 R;
     (wStree1, R) \<leftarrow> randChars 10 20 R;
     (wStree2, R) \<leftarrow> randChars 10 20 R;
     (wCity, R) \<leftarrow> randChars 10 20 R;
     (wState, R) \<leftarrow> randState R;
     (wZip, R) \<leftarrow> randZip R;
     (wTax, R) \<leftarrow> randTax R;
     Some (\<lparr>w_id = w, w_name = wName, w_street_1 = wStree1, w_street_2 = wStree2, w_city = wCity,
       w_state = wState, w_zip = wZip, w_tax = wTax, w_ytd = 30000000\<rparr>, R)
   }"

definition loadWarehouse :: "int \<Rightarrow> loadState \<Rightarrow> (goerr option \<times> loadState) option" where
  "loadWarehouse w = load_rows warehouse_draw (\<lambda>r t. t\<lparr>warehouses := warehouses t @ [r]\<rparr>) [w]"

text \<open>The ten texts of a stock row.\<close>

fun draw_dists :: "nat \<Rightarrow> rnd \<Rightarrow> (string list \<times> rnd) option" where
  "draw_dists 0 R = Some ([], R)"
| "draw_dists (Suc k) R = do {
     (d, R) \<leftarrow> randLetters 24 24 R;
     (ds, R) \<leftarrow> draw_dists k R;
     Some (d # ds, R)
   }"

definition stock_draw :: "int \<Rightarrow> nat \<Rightarrow> rnd \<Rightarrow> (stock_row \<times> rnd) option" where
  "stock_draw w i R = do {
     (sQuantity, R) \<leftarrow> randInt 10 100 R;
     (sDist, R) \<leftarrow> draw_dists 10 R;
     (sData, R) \<leftarrow> randOriginalString R;
     Some (\<lparr>s_i_id = int i + 1, s_w_id = w, s_quantity = sQuantity, s_dist = sDist, s_ytd = 0,
       s_order_cnt = 0, s_remote_cnt = 0, s_data = sData\<rparr>, R)
   }"

definition loadStock :: "int \<Rightarrow> loadState \<Rightarrow> (goerr option \<times> loadState) option" where
  "loadStock w = load_rows (stock_draw w) (\<lambda>r t. t\<lparr>stocks := stocks t @ [r]\<rparr>) [0..<stockPerWarehouse]"

definition district_draw :: "int \<Rightarrow> nat \<Rightarrow> rnd \<Rightarrow> (district_row \<times> rnd) option" where
  "district_draw w i R = do {
     (dName, R) \<leftarrow> randChars 6 10 R;
     (dStreet1, R) \<leftarrow> randChars 10 20 R;
     (dStreet2, R) \<leftarrow> randChars 10 20 R;
     (dCity, R) \<leftarrow> randChars 10 20 R;
     (dState, R) \<leftarrow> randState R;
     (dZip, R) \<leftarrow> randZip R;
     (dTax, R) \<leftarrow> randTax R;
     Some (\<lparr>d_id = int i + 1, d_w_id = w, d_name = dName, d_street_1 = dStreet1, d_street_2 = dStreet2,
       d_city = dCity, d_state = dState, d_zip = dZip, d_tax = dTax, d_ytd = 3000000, d_next_o_id = 3001\<rparr>, R)
   }"

definition loadDistrict :: "int \<Rightarrow> loadState \<Rightarrow> (goerr option \<times> loadState) option" where
  "loadDistrict w = load_rows (district_draw w) (\<lambda>r t. t\<lparr>districts := districts t @ [r]\<rparr>)
     [0..<nat districtPerWarehouse]"

subsection \<open>Customers and their history\<close>

definition customer_draw ::
  "string \<Rightarrow> RandVars \<Rightarrow> int \<Rightarrow> int \<Rightarrow> nat \<Rightarrow> rnd \<Rightarrow> (customer_row \<times> rnd) option" where
  "customer_draw initLoadTime G w d i R = do {
     (cLast, R) \<leftarrow>
       (if i < 1000 then do { s \<leftarrow> randCLastSyllables (int i); Some (s, R) } else randCLast G R);
     (cFirst, R) \<leftarrow> randChars 8 16 R;
     (cStreet1, R) \<leftarrow> randChars 10 20 R;
     (cStreet2, R) \<leftarrow> randChars 10 20 R;
     (cCity, R) \<leftarrow> randChars 10 20 R;
     (cState, R) \<leftarrow> randState R;
     (cZip, R) \<leftarrow> randZip R;
     (cPhone, R) \<leftarrow> randNumbers 16 16 R;
     (bad, R) \<leftarrow> Intn 10 R;
     (cDisCount, R) \<leftarrow> randInt 0 5000 R;
     (cData, R) \<leftarrow> randChars 300 500 R;
     Some (\<lparr>c_id = int i + 1, c_d_id = d, c_w_id = w, c_first = cFirst, c_middle = ''OE'', c_last = cLast,
       c_street_1 = cStreet1, c_street_2 = cStreet2, c_city = cCity, c_state = cState, c_zip = cZip,
       c_phone = cPhone, c_since = initLoadTime, c_credit = (if bad = 0 then ''BC'' else ''GC''),
       c_credit_lim = 5000000, c_discount = cDisCount, c_balance = - 1000, c_ytd_payment = 1000,
       c_payment_cnt = 1, c_delivery_cnt = 0, c_data = cData\<rparr>, R)
   }"

definition loadCustomer ::
  "string \<Rightarrow> RandVars \<Rightarrow> int \<Rightarrow> int \<Rightarrow> loadState \<Rightarrow> (goerr option \<times> loadState) option" where
  "loadCustomer initLoadTime G w d =
     load_rows (customer_draw initLoadTime G w d) (\<lambda>r t. t\<lparr>customers := customers t @ [r]\<rparr>)
       [0..<customerPerDistrict]"

definition history_draw :: "string \<Rightarrow> int \<Rightarrow> int \<Rightarrow> nat \<Rightarrow> rnd \<Rightarrow> (history_row \<times> rnd) option" where
  "history_draw initLoadTime w d i R = do {
     (hData, R) \<leftarrow> randChars 12 24 R;
     Some (\<lparr>h_c_id = int i + 1, h_c_d_id = d, h_c_w_id = w, h_d_id = d, h_w_id = w,
       h_date = initLoadTime, h_amount = 1000, h_data = hData\<rparr>, R)
   }"

definition loadHistory :: "string \<Rightarrow> int \<Rightarrow> int \<Rightarrow> loadState \<Rightarrow> (goerr option \<times> loadState) option" where
  "loadHistory initLoadTime w d =
     load_rows (history_draw initLoadTime w d) (\<lambda>r t. t\<lparr>histories := histories t @ [r]\<rparr>)
       [0..<customerPerDistrict]"

subsection \<open>Orders and their lines\<close>

text \<open>\<open>rand.Perm\<close> of the standard library, which uses the global source.\<close>

fun Perm_loop :: "nat \<Rightarrow> nat \<Rightarrow> int list \<Rightarrow> rnd \<Rightarrow> (int list \<times> rnd) option" where
  "Perm_loop 0 i m R = Some (m, R)"
| "Perm_loop (Suc k) i m R = do {
     (j, R) \<leftarrow> Intn (int i + 1) R;
     Perm_loop k (i + 1) ((m[i := m ! nat j])[nat j := int i]) R
   }"

definition Perm :: "nat \<Rightarrow> rnd \<Rightarrow> (int list \<times> rnd) option" where
  "Perm n R = Perm_loop n 0 (replicate n 0) R"

definition order_draw ::
  "string \<Rightarrow> int \<Rightarrow> int \<Rightarrow> int list \<Rightarrow> nat \<Rightarrow> rnd \<Rightarrow> (orders_row \<times> rnd) option" where
  "order_draw initLoadTime w d cids i R = do {
     c \<leftarrow> go_index cids (int i);
     let oID = int i + 1;
     (oCarrierID, R) \<leftarrow>
       (if oID < 2101 then do { (x, R) \<leftarrow> randInt 1 10 R; Some (Some x, R) } else Some (None, R));
     (oOLCnt, R) \<leftarrow> randInt 5 15 R;
     Some (\<lparr>o_id = oID, o_d_id = d, o_w_id = w, o_c_id = c + 1, o_entry_d = initLoadTime,
       o_carrier_id = oCarrierID, o_ol_cnt = oOLCnt, o_all_local = 1\<rparr>, R)
   }"

text \<open>The result \<open>olCnts\<close> has the line counts of the rows; they are those of the rows just added.\<close>

definition loadOrder ::
  "string \<Rightarrow> int \<Rightarrow> int \<Rightarrow> loadState \<Rightarrow> (goerr option \<times> int list \<times> loadState) option" where
  "loadOrder initLoadTime w d s = do {
     (cids, Q) \<leftarrow> Perm orderPerDistrict (ls_global s);
     (cids, R) \<leftarrow> Shuffle cids (ls_R s);
     let n = length (orders (ls_db s));
     (e, s) \<leftarrow> load_rows (order_draw initLoadTime w d cids) (\<lambda>r t. t\<lparr>orders := orders t @ [r]\<rparr>)
       [0..<orderPerDistrict] (s\<lparr>ls_global := Q, ls_R := R\<rparr>);
     Some (e, map o_ol_cnt (drop n (orders (ls_db s))), s)
   }"

definition newOrder_draw :: "int \<Rightarrow> int \<Rightarrow> nat \<Rightarrow> rnd \<Rightarrow> (new_order_row \<times> rnd) option" where
  "newOrder_draw w d i R = Some (\<lparr>no_o_id = 2101 + int i, no_d_id = d, no_w_id = w\<rparr>, R)"

definition loadNewOrder :: "int \<Rightarrow> int \<Rightarrow> loadState \<Rightarrow> (goerr option \<times> loadState) option" where
  "loadNewOrder w d =
     load_rows (newOrder_draw w d) (\<lambda>r t. t\<lparr>new_orders := new_orders t @ [r]\<rparr>) [0..<newOrderPerDistrict]"

definition line_draw ::
  "string \<Rightarrow> int \<Rightarrow> int \<Rightarrow> nat \<times> nat \<Rightarrow> rnd \<Rightarrow> (order_line_row \<times> rnd) option" where
  "line_draw initLoadTime w d = (\<lambda>(i, j) R. do {
     let olOID = int i + 1;
     (olIID, R) \<leftarrow> randInt 1 100000 R;
     ((olDeliveryD, olAmount), R) \<leftarrow>
       (if olOID < 2101 then Some ((Some initLoadTime, 0), R)
        else do { (a, R) \<leftarrow> randInt 1 999999 R; Some ((None, a), R) });
     (olDistInfo, R) \<leftarrow> randChars 24 24 R;
     Some (\<lparr>ol_o_id = olOID, ol_d_id = d, ol_w_id = w, ol_number = int j + 1, ol_i_id = olIID,
       ol_supply_w_id = w, ol_delivery_d = olDeliveryD, ol_quantity = 5, ol_amount = olAmount,
       ol_dist_info = olDistInfo\<rparr>, R)
   })"

text \<open>The two nested loops; an order without a count is an index out of range.\<close>

definition loadOrderLine ::
  "string \<Rightarrow> int \<Rightarrow> int \<Rightarrow> int list \<Rightarrow> loadState \<Rightarrow> (goerr option \<times> loadState) option" where
  "loadOrderLine initLoadTime w d olCnts s =
     (if length olCnts < orderPerDistrict then None
      else load_rows (line_draw initLoadTime w d) (\<lambda>r t. t\<lparr>order_lines := order_lines t @ [r]\<rparr>)
        (concat (map (\<lambda>i. map (Pair i) [0..<nat (olCnts ! i)]) [0..<orderPerDistrict])) s)"

subsection \<open>A thread of prepare\<close>

text \<open>
  One step of the loop bodies: on an error it is reported, otherwise the rest goes on.  Of a message
  the model has the words, without the numbers of the warehouse and the district and the inner error.
\<close>

definition and_then ::
  "string \<Rightarrow> (loadState \<Rightarrow> (goerr option \<times> loadState) option) \<Rightarrow>
   (loadState \<Rightarrow> (goerr option \<times> loadState) option) \<Rightarrow> loadState \<Rightarrow> (goerr option \<times> loadState) option" where
  "and_then msg f k s = do {
     (e, s) \<leftarrow> f s;
     (case e of Some e \<Rightarrow> Some (Some [Plain msg], s) | None \<Rightarrow> k s)
   }"

definition done_load :: "loadState \<Rightarrow> (goerr option \<times> loadState) option" where
  "done_load s = Some (None, s)"

text \<open>The indices of a thread; for a number of threads that is not positive the loops fail or do not end.\<close>

function stride :: "int \<Rightarrow> int \<Rightarrow> int \<Rightarrow> int list option" where
  "stride threads n i =
     (if threads \<le> 0 then None
      else if i < n then map_option (Cons i) (stride threads n (i + threads))
      else Some [])"
  by pat_completeness auto
termination
  by (relation "measure (\<lambda>(threads, n, i). nat (n - i))") auto

declare stride.simps [simp del]

fun for_each ::
  "('i \<Rightarrow> loadState \<Rightarrow> (goerr option \<times> loadState) option) \<Rightarrow> 'i list \<Rightarrow> loadState \<Rightarrow>
   (goerr option \<times> loadState) option" where
  "for_each f [] s = Some (None, s)"
| "for_each f (i # is) s = do {
     (e, s) \<leftarrow> f i s;
     (case e of Some e \<Rightarrow> Some (Some e, s) | None \<Rightarrow> for_each f is s)
   }"

definition prepare_warehouse :: "int \<Rightarrow> int \<Rightarrow> loadState \<Rightarrow> (goerr option \<times> loadState) option" where
  "prepare_warehouse W i =
     (let w = i smod W + 1 in
      and_then ''load warehouse failed'' (loadWarehouse w)
      (and_then ''load stock failed'' (loadStock w)
      (and_then ''load district failed'' (loadDistrict w) done_load)))"

definition prepare_district ::
  "string \<Rightarrow> RandVars \<Rightarrow> int \<Rightarrow> int \<Rightarrow> loadState \<Rightarrow> (goerr option \<times> loadState) option" where
  "prepare_district initLoadTime G W i =
     (let w = (i sdiv districtPerWarehouse) smod W + 1; d = i smod districtPerWarehouse + 1 in
      and_then ''load customer failed'' (loadCustomer initLoadTime G w d)
      (and_then ''load history failed'' (loadHistory initLoadTime w d)
      (\<lambda>s. do {
         (e, olCnts, s) \<leftarrow> loadOrder initLoadTime w d s;
         (case e of
            Some e \<Rightarrow> Some (Some [Plain ''load orders failed''], s)
          | None \<Rightarrow>
              and_then ''load new_order failed'' (loadNewOrder w d)
              (and_then ''load order_line failed'' (loadOrderLine initLoadTime w d olCnts) done_load) s)
       })))"

definition prepareWorkload ::
  "string \<Rightarrow> RandVars \<Rightarrow> int \<Rightarrow> int \<Rightarrow> int \<Rightarrow> loadState \<Rightarrow> (goerr option \<times> loadState) option" where
  "prepareWorkload initLoadTime G threads W threadID s = do {
     ws \<leftarrow> stride threads W (threadID smod threads);
     ds \<leftarrow> stride threads (W * districtPerWarehouse) (threadID smod threads);
     and_then ''load item faield'' (if threadID = 0 then loadItem else done_load)
       (\<lambda>s. do {
          (e, s) \<leftarrow> for_each (prepare_warehouse W) ws s;
          (case e of
             Some e \<Rightarrow> Some (Some e, s)
           | None \<Rightarrow> for_each (prepare_district initLoadTime G W) ds s)
        }) s
   }"

end
