(* ===== verification/TpccLoadInv.thy ===== *)
theory TpccLoadInv
  imports TpccLoad "HOL-Library.Multiset"
begin

text \<open>
  What \<open>prepare\<close> leaves: the rows of every thread, and that the tables of all threads together are
  consistent.
\<close>

subsection \<open>The loop of a loader\<close>

text \<open>Reading and replacing one table.\<close>

definition lens :: "('t \<Rightarrow> 'r) \<Rightarrow> ('r \<Rightarrow> 't \<Rightarrow> 't) \<Rightarrow> bool" where
  "lens get put \<longleftrightarrow> (\<forall>x t. get (put x t) = x) \<and> (\<forall>x y t. put x (put y t) = put x t) \<and> (\<forall>t. put (get t) t = t)"

text \<open>The rows are those of the indices, in order, and nothing else changes.\<close>

definition loaded ::
  "(db \<Rightarrow> 'r list) \<Rightarrow> ('r list \<Rightarrow> db \<Rightarrow> db) \<Rightarrow> ('i \<Rightarrow> 'r \<Rightarrow> bool) \<Rightarrow> 'i list \<Rightarrow> loadState \<Rightarrow> loadState \<Rightarrow> bool" where
  "loaded get put P is s s' \<longleftrightarrow> (\<exists>rs. ls_db s' = put (get (ls_db s) @ rs) (ls_db s) \<and> list_all2 P is rs)"

definition accepts :: "goerr option stream \<Rightarrow> bool" where
  "accepts q \<longleftrightarrow> (\<forall>n. snth q n = None)"

lemma acceptsD: "accepts q \<Longrightarrow> shd q = None \<and> accepts (stl q)"
  unfolding accepts_def by (metis snth.simps)

lemma accepts_sconst: "accepts (sconst None)"
  by (simp add: accepts_def)

lemma load_rows_done:
  assumes "load_rows row (\<lambda>r t. put (get t @ [r]) t) is s = Some (None, s')"
    and row: "\<And>i R. i \<in> set is \<Longrightarrow> yields (row i R) (\<lambda>r R'. P i r)"
    and l: "lens get put"
  shows "loaded get put P is s s'"
  using assms(1,2) unfolding loaded_def
proof (induction "is" arbitrary: s)
  case Nil
  then have "ls_db s' = put (get (ls_db s) @ []) (ls_db s) \<and> list_all2 P [] []"
    using l by (auto simp: sink_call_def lens_def)
  then show ?case by blast
next
  case (Cons i "is")
  obtain r R where r: "row i (ls_R s) = Some (r, R)" and P: "P i r"
    using Cons.prems(2) [of i "ls_R s"] by (auto simp: yields_def)
  define s1 where "s1 = snd (sink_call (s\<lparr>ls_R := R\<rparr>))"
  have n: "load_rows row (\<lambda>r t. put (get t @ [r]) t) is (s1\<lparr>ls_db := put (get (ls_db s1) @ [r]) (ls_db s1)\<rparr>) = Some (None, s')"
    using Cons.prems r by (auto simp: s1_def sink_call_def split: option.splits)
  have s1: "ls_db s1 = ls_db s" by (simp add: s1_def sink_call_def)
  obtain rs where "ls_db s' = put (get (put (get (ls_db s) @ [r]) (ls_db s)) @ rs) (put (get (ls_db s) @ [r]) (ls_db s))"
    "list_all2 P is rs"
    using Cons.IH [OF n] Cons.prems(2) s1 by auto
  then have "ls_db s' = put (get (ls_db s) @ (r # rs)) (ls_db s) \<and> list_all2 P (i # is) (r # rs)"
    using P l by (simp add: lens_def)
  then show ?case by blast
qed

text \<open>
  A loader returns, whatever the sink replies: it stops at the first error, and it fails exactly if a
  reply that it took was an error.
\<close>

definition reports :: "(loadState \<Rightarrow> (goerr option \<times> loadState) option) \<Rightarrow> bool" where
  "reports f \<longleftrightarrow> (\<forall>s. \<exists>e s' rs. f s = Some (e, s') \<and> ls_sink s = rs @- ls_sink s' \<and>
     set (butlast rs) \<subseteq> {None} \<and> (e = None \<longleftrightarrow> set rs \<subseteq> {None}))"

lemma reportsE:
  assumes "reports f"
  obtains e s' rs where "f s = Some (e, s')" "ls_sink s = rs @- ls_sink s'" "set (butlast rs) \<subseteq> {None}"
    "e = None \<longleftrightarrow> set rs \<subseteq> {None}"
  using assms [unfolded reports_def, THEN spec, of s] by (elim exE conjE) (rule that)

lemma reports_done: "reports done_load"
  unfolding reports_def done_load_def by (auto intro!: exI [of _ "[]"])

lemma reports_seq:
  assumes f: "reports f" and g: "\<And>s s'. f s = Some (None, s') \<Longrightarrow> \<exists>h. reports h \<and> k s s' = h s'"
    and h: "\<And>s. h s = (case f s of None \<Rightarrow> None | Some (Some e, s') \<Rightarrow> Some (Some (m e), s') | Some (None, s') \<Rightarrow> k s s')"
  shows "reports h"
  unfolding reports_def
proof
  fix s
  obtain e s1 rs where 1: "f s = Some (e, s1)" "ls_sink s = rs @- ls_sink s1" "set (butlast rs) \<subseteq> {None}"
    "e = None \<longleftrightarrow> set rs \<subseteq> {None}" by (rule reportsE [OF f, of s])
  show "\<exists>e s' rs. h s = Some (e, s') \<and> ls_sink s = rs @- ls_sink s' \<and> set (butlast rs) \<subseteq> {None} \<and>
      (e = None \<longleftrightarrow> set rs \<subseteq> {None})"
  proof (cases e)
    case (Some e')
    then have "h s = Some (Some (m e'), s1)" using 1(1) by (simp add: h)
    then show ?thesis using 1(2-4) Some by (intro exI [of _ "Some (m e')"] exI [of _ s1] exI [of _ rs]) simp
  next
    case None
    then have fs: "f s = Some (None, s1)" using 1(1) by simp
    obtain g where g: "reports g" "k s s1 = g s1" using g [OF fs] by blast
    have hs: "h s = g s1" unfolding h fs g(2) [symmetric] by simp
    obtain e' s' rs' where 2: "g s1 = Some (e', s')" "ls_sink s1 = rs' @- ls_sink s'" "set (butlast rs') \<subseteq> {None}"
      "e' = None \<longleftrightarrow> set rs' \<subseteq> {None}" by (rule reportsE [OF g(1), of s1])
    have n: "set rs \<subseteq> {None}" using 1(4) None by simp
    have b: "set (butlast (rs @ rs')) \<subseteq> {None}" using n 1(3) 2(3) by (auto simp: butlast_append)
    have l: "ls_sink s = (rs @ rs') @- ls_sink s'" unfolding 1(2) 2(2) shift_append ..
    have e: "e' = None \<longleftrightarrow> set (rs @ rs') \<subseteq> {None}" unfolding 2(4) set_append using n by blast
    show ?thesis
      by (rule exI [of _ e'], rule exI [of _ s'], rule exI [of _ "rs @ rs'"], intro conjI) (use hs 2(1) l b e in \<open>simp_all only:\<close>)
  qed
qed

lemma reports_sink: "reports (\<lambda>s. Some (sink_call (s\<lparr>ls_R := F s\<rparr>)))"
  unfolding reports_def
proof
  fix s
  show "\<exists>e s' rs. Some (sink_call (s\<lparr>ls_R := F s\<rparr>)) = Some (e, s') \<and> ls_sink s = rs @- ls_sink s' \<and>
      set (butlast rs) \<subseteq> {None} \<and> (e = None \<longleftrightarrow> set rs \<subseteq> {None})"
    by (rule exI [of _ "shd (ls_sink s)"], rule exI [of _ "s\<lparr>ls_R := F s, ls_sink := stl (ls_sink s)\<rparr>"],
        rule exI [of _ "[shd (ls_sink s)]"]) (simp add: sink_call_def)
qed

lemma reports_load_rows:
  "(\<And>i R. i \<in> set is \<Longrightarrow> \<exists>r R'. row i R = Some (r, R')) \<Longrightarrow> reports (load_rows row put is)"
proof (induction "is")
  case Nil
  show ?case using reports_sink [of ls_R] by simp
next
  case (Cons i "is")
  have IH: "reports (load_rows row put is)" using Cons by simp
  have "\<exists>r R'. \<forall>R. row i R = Some (r R, R' R)" using Cons.prems [of i] by (simp only: list.set_intros) metis
  then obtain r R' where r: "row i R = Some (r R, R' R)" for R by blast
  let ?f = "\<lambda>s. Some (sink_call (s\<lparr>ls_R := R' (ls_R s)\<rparr>))"
  let ?h = "\<lambda>x s'. load_rows row put is (s'\<lparr>ls_db := put x (ls_db s')\<rparr>)"
  have g: "reports (?h x)" for x
    unfolding reports_def
  proof
    fix s
    show "\<exists>e s' rs. ?h x s = Some (e, s') \<and> ls_sink s = rs @- ls_sink s' \<and>
        set (butlast rs) \<subseteq> {None} \<and> (e = None \<longleftrightarrow> set rs \<subseteq> {None})"
      using IH [unfolded reports_def, rule_format, of "s\<lparr>ls_db := put x (ls_db s)\<rparr>"] by simp
  qed
  show ?case
  proof (rule reports_seq [where f = ?f and k = "\<lambda>s. ?h (r (ls_R s))" and m = "\<lambda>e. e"])
    show "reports ?f" by (rule reports_sink)
  next
    fix s s'
    show "\<exists>h. reports h \<and> ?h (r (ls_R s)) s' = h s'" using g by blast
  next
    fix s
    show "load_rows row put (i # is) s = (case ?f s of None \<Rightarrow> None | Some (Some e, s') \<Rightarrow> Some (Some e, s')
        | Some (None, s') \<Rightarrow> ?h (r (ls_R s)) s')"
      by (simp add: r split: prod.split option.split)
  qed
qed

lemma reports_and_then: "reports f \<Longrightarrow> reports g \<Longrightarrow> reports (and_then msg f g)"
  by (rule reports_seq [where f = f and k = "\<lambda>s. g" and m = "\<lambda>e. [Plain msg]"])
    (auto simp: and_then_def split: option.splits)

lemma reports_for_each: "(\<And>i. i \<in> set is \<Longrightarrow> reports (f i)) \<Longrightarrow> reports (for_each f is)"
proof (induction "is")
  case Nil
  show ?case using reports_done unfolding done_load_def reports_def by simp
next
  case (Cons i "is")
  have "reports (f i)" "reports (for_each f is)" using Cons by simp_all
  then show ?case
    by (elim reports_seq [where k = "\<lambda>s. for_each f is" and m = "\<lambda>e. e"]) (auto split: option.splits)
qed

subsection \<open>The rows drawn\<close>

lemma yields_Intn' [steps]: "0 < n \<Longrightarrow> yields (Intn n R) (\<lambda>i R'. 0 \<le> i \<and> i < n)"
  by (rule yields_mono [OF yields_Intn]) auto

lemma yields_randTax [steps]: "yields (randTax R) (\<lambda>x R'. 0 \<le> x \<and> x \<le> 2000)"
  unfolding randTax_def by (rule yields_randInt) simp

text \<open>What the conditions need to know of each row.\<close>

definition item_ok :: "nat \<Rightarrow> item_row \<Rightarrow> bool" where
  "item_ok i r \<longleftrightarrow> i_id r = int i + 1"

definition warehouse_ok :: "int \<Rightarrow> warehouse_row \<Rightarrow> bool" where
  "warehouse_ok w r \<longleftrightarrow> w_id r = w \<and> w_ytd r = 30000000"

definition stock_row_ok :: "int \<Rightarrow> nat \<Rightarrow> stock_row \<Rightarrow> bool" where
  "stock_row_ok w i r \<longleftrightarrow> s_key r = (w, int i + 1) \<and> length (s_dist r) = 10 \<and> 10 \<le> s_quantity r \<and> s_quantity r \<le> 100"

definition district_ok :: "int \<Rightarrow> nat \<Rightarrow> district_row \<Rightarrow> bool" where
  "district_ok w i r \<longleftrightarrow> d_key r = (w, int i + 1) \<and> d_ytd r = 3000000 \<and> d_next_o_id r = 3001"

definition customer_row_ok :: "int \<Rightarrow> int \<Rightarrow> nat \<Rightarrow> customer_row \<Rightarrow> bool" where
  "customer_row_ok w d i r \<longleftrightarrow> c_key r = (w, d, int i + 1) \<and> c_balance r = - 1000 \<and> c_ytd_payment r = 1000 \<and>
     300 \<le> length (c_data r) \<and> length (c_data r) \<le> 500"

definition history_ok :: "int \<Rightarrow> int \<Rightarrow> nat \<Rightarrow> history_row \<Rightarrow> bool" where
  "history_ok w d i r \<longleftrightarrow> (h_c_w_id r, h_c_d_id r, h_c_id r) = (w, d, int i + 1) \<and>
     (h_w_id r, h_d_id r) = (w, d) \<and> h_amount r = 1000"

definition order_row_ok :: "int \<Rightarrow> int \<Rightarrow> nat \<Rightarrow> orders_row \<Rightarrow> bool" where
  "order_row_ok w d i r \<longleftrightarrow> o_key r = (w, d, int i + 1) \<and> (o_carrier_id r = None \<longleftrightarrow> 2100 \<le> i) \<and>
     5 \<le> o_ol_cnt r \<and> o_ol_cnt r \<le> 15"

definition new_order_ok :: "int \<Rightarrow> int \<Rightarrow> nat \<Rightarrow> new_order_row \<Rightarrow> bool" where
  "new_order_ok w d i r \<longleftrightarrow> no_key r = (w, d, 2101 + int i)"

definition line_row_ok :: "int \<Rightarrow> int \<Rightarrow> nat \<times> nat \<Rightarrow> order_line_row \<Rightarrow> bool" where
  "line_row_ok w d ij r \<longleftrightarrow> ol_key r = ((w, d, int (fst ij) + 1), int (snd ij) + 1) \<and>
     (ol_delivery_d r = None \<longleftrightarrow> 2100 \<le> fst ij) \<and> (ol_delivery_d r \<noteq> None \<longrightarrow> ol_amount r = 0)"

lemma yields_item: "yields (item_draw i R) (\<lambda>r R'. item_ok i r)"
  unfolding item_draw_def by ((rule yields_bind, (rule steps; simp))+) (simp add: item_ok_def)

lemma yields_warehouse: "yields (warehouse_draw w R) (\<lambda>r R'. warehouse_ok w r)"
  unfolding warehouse_draw_def by ((rule yields_bind, (rule steps; simp))+) (simp add: warehouse_ok_def)

lemma yields_dists: "yields (draw_dists k R) (\<lambda>ds R'. length ds = k)"
proof (induction k arbitrary: R)
  case (Suc k)
  show ?case unfolding draw_dists.simps
    by (rule yields_bind, (rule steps; simp), rule yields_bind, rule Suc.IH) simp
qed simp

lemma yields_stock: "yields (stock_draw w i R) (\<lambda>r R'. stock_row_ok w i r)"
  unfolding stock_draw_def
  by (rule yields_bind, (rule steps; simp), rule yields_bind, rule yields_dists,
      (rule yields_bind, (rule steps; simp))+) (simp add: stock_row_ok_def s_key_def)

lemma yields_district: "yields (district_draw w i R) (\<lambda>r R'. district_ok w i r)"
  unfolding district_draw_def
  by ((rule yields_bind, (rule steps; simp))+) (simp add: district_ok_def d_key_def)

lemma yields_cLast:
  assumes "good_vars G"
  shows "yields (if i < 1000 then do { s \<leftarrow> randCLastSyllables (int i); Some (s, R) } else randCLast G R) (\<lambda>s R'. True)"
proof (cases "i < 1000")
  case True
  then show ?thesis by (simp add: randCLastSyllables_Some)
next
  case False
  then show ?thesis using yields_randCLast [OF assms, of R] by (auto simp: yields_def)
qed

lemma yields_customer:
  assumes "good_vars G"
  shows "yields (customer_draw lt G w d i R) (\<lambda>r R'. customer_row_ok w d i r)"
  unfolding customer_draw_def
  by (rule yields_bind, rule yields_cLast [OF assms], (rule yields_bind, (rule steps; simp))+)
    (simp add: customer_row_ok_def c_key_def)

lemma yields_history: "yields (history_draw lt w d i R) (\<lambda>r R'. history_ok w d i r)"
  unfolding history_draw_def by ((rule yields_bind, (rule steps; simp))+) (simp add: history_ok_def)

lemma yields_order:
  assumes "i < length cids"
  shows "yields (order_draw lt w d cids i R) (\<lambda>r R'. order_row_ok w d i r \<and> o_c_id r = cids ! i + 1)"
proof -
  have c: "yields (if int i + 1 < 2101 then do { (x, R) \<leftarrow> randInt 1 10 R; Some (Some x, R) } else Some (None, R))
      (\<lambda>x R'. x = None \<longleftrightarrow> 2100 \<le> i)" for R
    by (auto intro!: yields_bind [OF yields_randInt])
  have "yields (do {
      (oCarrierID, R) \<leftarrow> (if int i + 1 < 2101 then do { (x, R) \<leftarrow> randInt 1 10 R; Some (Some x, R) } else Some (None, R));
      (oOLCnt, R) \<leftarrow> randInt 5 15 R;
      Some (\<lparr>o_id = int i + 1, o_d_id = d, o_w_id = w, o_c_id = cids ! i + 1, o_entry_d = lt,
        o_carrier_id = oCarrierID, o_ol_cnt = oOLCnt, o_all_local = 1\<rparr>, R) }) (\<lambda>r R'. order_row_ok w d i r \<and> o_c_id r = cids ! i + 1)"
    by (rule yields_bind, rule c, (rule yields_bind, (rule steps; simp))+) (simp add: order_row_ok_def o_key_def)
  then show ?thesis using assms by (simp add: order_draw_def go_index_def Let_def)
qed

lemma yields_new_order: "yields (newOrder_draw w d i R) (\<lambda>r R'. new_order_ok w d i r)"
  by (simp add: newOrder_draw_def new_order_ok_def no_key_def)

lemma yields_line: "yields (line_draw lt w d ij R) (\<lambda>r R'. line_row_ok w d ij r)"
proof -
  obtain i j where ij: "ij = (i, j)" by (cases ij)
  have c: "yields (if int i + 1 < 2101 then Some ((Some lt, 0), R)
       else do { (a, R) \<leftarrow> randInt 1 999999 R; Some ((None, a), R) })
      (\<lambda>x R'. (fst x = None \<longleftrightarrow> 2100 \<le> i) \<and> (fst x \<noteq> None \<longrightarrow> snd x = 0))" for R
    by (auto intro!: yields_bind [OF yields_randInt])
  show ?thesis unfolding ij line_draw_def prod.case Let_def
    apply (rule yields_bind, (rule steps; simp))
    apply (rule yields_bind [where P = "\<lambda>x R'. (fst x = None \<longleftrightarrow> 2100 \<le> i) \<and> (fst x \<noteq> None \<longrightarrow> snd x = 0)"])
     apply (rule c)
    apply (simp add: split_beta)
    apply (rule yields_bind, (rule steps; simp))
    apply (simp add: line_row_ok_def ol_key_def ol_order_def)
    done
qed

subsection \<open>Permutations\<close>

lemma take_swap:
  assumes "i < length m" "j \<le> i"
  shows "mset (take (Suc i) ((m[i := m ! j])[j := x])) = add_mset x (mset (take i m))"
proof (cases "j = i")
  case True
  then show ?thesis using assms by (simp add: take_Suc_conv_app_nth)
next
  case False
  then have j: "j < i" using assms by simp
  have "take (Suc i) ((m[i := m ! j])[j := x]) = (take i m)[j := x] @ [take i m ! j]"
    using assms j by (simp add: take_Suc_conv_app_nth take_update_swap list_update_append)
  moreover have "take i m ! j \<in># mset (take i m)" using assms j by (simp add: in_set_conv_nth) force
  ultimately show ?thesis using assms j by (simp add: mset_update)
qed

lemma Perm_loop_perm:
  assumes "i + k = length m" "mset (take i m) = mset (map int [0..<i])"
  shows "yields (Perm_loop k i m R) (\<lambda>p R'. mset p = mset (map int [0..<i + k]))"
  using assms
proof (induction k arbitrary: i m R)
  case 0
  then show ?case by simp
next
  case (Suc k)
  show ?case unfolding Perm_loop.simps
  proof (rule yields_bind [OF yields_Intn'])
    fix j R1 assume j: "0 \<le> j \<and> j < int i + 1"
    let ?m = "(m[i := m ! nat j])[nat j := int i]"
    have nj: "nat j \<le> i" using j by linarith
    have "mset (take (Suc i) ?m) = add_mset (int i) (mset (take i m))"
      using take_swap [of i m "nat j" "int i"] Suc.prems(1) nj by simp
    then have "mset (take (i + 1) ?m) = mset (map int [0..<i + 1])" using Suc.prems(2) by simp
    moreover have "(i + 1) + k = length ?m" using Suc.prems(1) by simp
    ultimately show "yields (Perm_loop k (i + 1) ?m R1) (\<lambda>p R'. mset p = mset (map int [0..<i + Suc k]))"
      using Suc.IH [of "i + 1" ?m R1] by simp
  qed simp
qed

lemma yields_Perm: "yields (Perm n R) (\<lambda>p R'. mset p = mset (map int [0..<n]))"
  unfolding Perm_def using Perm_loop_perm [of 0 n "replicate n 0"] by simp

lemma Shuffle_loop_perm:
  "i < length xs \<or> i = 0 \<Longrightarrow> yields (Shuffle_loop i xs R) (\<lambda>ys R'. mset ys = mset xs)"
proof (induction i arbitrary: xs R)
  case (Suc i)
  show ?case unfolding Shuffle_loop.simps
  proof (rule yields_bind [OF yields_Intn'])
    fix j R1 assume j: "0 \<le> j \<and> j < int i + 2"
    let ?x = "xs[Suc i := xs ! nat j, nat j := xs ! Suc i]"
    have "mset ?x = mset xs" by (rule mset_swap) (use Suc.prems j in auto)
    then show "yields (Shuffle_loop i ?x R1) (\<lambda>ys R'. mset ys = mset xs)"
      using Suc.IH [of ?x R1] Suc.prems by simp
  qed simp
qed simp

lemma yields_Shuffle: "yields (Shuffle xs R) (\<lambda>ys R'. mset ys = mset xs)"
  unfolding Shuffle_def by (rule Shuffle_loop_perm) (cases xs; simp)

subsection \<open>The parts of the tables\<close>

definition db_append :: "db \<Rightarrow> db \<Rightarrow> db" where
  "db_append t u = \<lparr>warehouses = warehouses t @ warehouses u, districts = districts t @ districts u,
     customers = customers t @ customers u, histories = histories t @ histories u,
     new_orders = new_orders t @ new_orders u, orders = orders t @ orders u,
     order_lines = order_lines t @ order_lines u, items = items t @ items u, stocks = stocks t @ stocks u\<rparr>"

definition empty_db :: db where
  "empty_db = \<lparr>warehouses = [], districts = [], customers = [], histories = [], new_orders = [],
     orders = [], order_lines = [], items = [], stocks = []\<rparr>"

definition db_concat :: "db list \<Rightarrow> db" where
  "db_concat ps = foldr db_append ps empty_db"

lemma db_append_empty [simp]: "db_append empty_db t = t" "db_append t empty_db = t"
  by (simp_all add: db_append_def empty_db_def)

lemma db_append_assoc: "db_append (db_append t u) v = db_append t (db_append u v)"
  by (simp add: db_append_def)

lemma db_concat_simps [simp]:
  "db_concat [] = empty_db" "db_concat (p # ps) = db_append p (db_concat ps)"
  by (simp_all add: db_concat_def)

lemma db_concat_append: "db_concat (ps @ qs) = db_append (db_concat ps) (db_concat qs)"
  by (induction ps) (simp_all add: db_append_assoc)

definition items_part :: "db \<Rightarrow> bool" where
  "items_part p \<longleftrightarrow> (\<exists>rs. list_all2 item_ok [0..<maxItems] rs \<and> p = empty_db\<lparr>items := rs\<rparr>)"

definition warehouse_part :: "int \<Rightarrow> db \<Rightarrow> bool" where
  "warehouse_part w p \<longleftrightarrow> (\<exists>r ss ds. warehouse_ok w r \<and> list_all2 (stock_row_ok w) [0..<stockPerWarehouse] ss \<and>
     list_all2 (district_ok w) [0..<10] ds \<and>
     p = empty_db\<lparr>warehouses := [r], stocks := ss, districts := ds\<rparr>)"

definition line_indices :: "orders_row list \<Rightarrow> (nat \<times> nat) list" where
  "line_indices os = concat (map (\<lambda>i. map (Pair i) [0..<nat (o_ol_cnt (os ! i))]) [0..<orderPerDistrict])"

definition each_customer :: "orders_row list \<Rightarrow> bool" where
  "each_customer os \<longleftrightarrow> mset (map o_c_id os) = mset (map (\<lambda>j. int j + 1) [0..<customerPerDistrict])"

definition district_part :: "int \<Rightarrow> int \<Rightarrow> db \<Rightarrow> bool" where
  "district_part w d p \<longleftrightarrow> (\<exists>cs hs os ns ls.
     list_all2 (customer_row_ok w d) [0..<customerPerDistrict] cs \<and>
     list_all2 (history_ok w d) [0..<customerPerDistrict] hs \<and>
     list_all2 (order_row_ok w d) [0..<orderPerDistrict] os \<and> each_customer os \<and>
     list_all2 (new_order_ok w d) [0..<newOrderPerDistrict] ns \<and>
     list_all2 (line_row_ok w d) (line_indices os) ls \<and>
     p = empty_db\<lparr>customers := cs, histories := hs, new_orders := ns, orders := os, order_lines := ls\<rparr>)"

lemma and_then_None:
  "and_then msg f k s = Some (None, s') \<longleftrightarrow> (\<exists>s1. f s = Some (None, s1) \<and> k s1 = Some (None, s'))"
  by (auto simp: and_then_def Option.bind_eq_Some_conv split: option.splits)

lemma loadItem_done:
  assumes "loadItem s = Some (None, s')"
  shows "\<exists>p. items_part p \<and> ls_db s' = db_append (ls_db s) p"
proof -
  have "loaded items (\<lambda>x t. t\<lparr>items := x\<rparr>) item_ok [0..<maxItems] s s'"
    by (rule load_rows_done [OF assms [unfolded loadItem_def] yields_item]) (simp add: lens_def)
  then obtain rs where "list_all2 item_ok [0..<maxItems] rs"
    "ls_db s' = (ls_db s)\<lparr>items := items (ls_db s) @ rs\<rparr>" by (auto simp: loaded_def)
  then have "items_part (empty_db\<lparr>items := rs\<rparr>) \<and> ls_db s' = db_append (ls_db s) (empty_db\<lparr>items := rs\<rparr>)"
    by (auto simp: items_part_def db_append_def empty_db_def)
  then show ?thesis by blast
qed

lemma prepare_warehouse_done:
  assumes "prepare_warehouse W i s = Some (None, s')"
  shows "\<exists>p. warehouse_part (i smod W + 1) p \<and> ls_db s' = db_append (ls_db s) p"
proof -
  let ?w = "i smod W + 1"
  obtain s1 s2 where l: "loadWarehouse ?w s = Some (None, s1)" "loadStock ?w s1 = Some (None, s2)"
    "loadDistrict ?w s2 = Some (None, s')"
    using assms by (auto simp: prepare_warehouse_def Let_def and_then_None done_load_def)
  have "loaded warehouses (\<lambda>x t. t\<lparr>warehouses := x\<rparr>) warehouse_ok [?w] s s1"
    by (rule load_rows_done [OF l(1) [unfolded loadWarehouse_def] yields_warehouse]) (simp add: lens_def)
  then obtain rs where "list_all2 warehouse_ok [?w] rs" "ls_db s1 = (ls_db s)\<lparr>warehouses := warehouses (ls_db s) @ rs\<rparr>"
    by (auto simp: loaded_def)
  then obtain r where r: "warehouse_ok ?w r" "ls_db s1 = (ls_db s)\<lparr>warehouses := warehouses (ls_db s) @ [r]\<rparr>"
    by (auto simp: list_all2_Cons1)
  have "loaded stocks (\<lambda>x t. t\<lparr>stocks := x\<rparr>) (stock_row_ok ?w) [0..<stockPerWarehouse] s1 s2"
    by (rule load_rows_done [OF l(2) [unfolded loadStock_def] yields_stock]) (simp add: lens_def)
  then obtain ss where ss: "list_all2 (stock_row_ok ?w) [0..<stockPerWarehouse] ss"
    "ls_db s2 = (ls_db s1)\<lparr>stocks := stocks (ls_db s1) @ ss\<rparr>" by (auto simp: loaded_def)
  have "loaded districts (\<lambda>x t. t\<lparr>districts := x\<rparr>) (district_ok ?w) [0..<nat districtPerWarehouse] s2 s'"
    by (rule load_rows_done [OF l(3) [unfolded loadDistrict_def] yields_district]) (simp add: lens_def)
  then obtain ds where ds: "list_all2 (district_ok ?w) [0..<10] ds"
    "ls_db s' = (ls_db s2)\<lparr>districts := districts (ls_db s2) @ ds\<rparr>" by (auto simp: loaded_def districtPerWarehouse_def)
  let ?p = "empty_db\<lparr>warehouses := [r], stocks := ss, districts := ds\<rparr>"
  have "warehouse_part ?w ?p" using r(1) ss(1) ds(1) unfolding warehouse_part_def by blast
  moreover have "ls_db s' = db_append (ls_db s) ?p" using r(2) ss(2) ds(2) by (simp add: db_append_def empty_db_def)
  ultimately show ?thesis by blast
qed

lemma loadOrder_done:
  assumes "loadOrder lt w d s = Some (None, cnts, s')"
  shows "\<exists>os. list_all2 (order_row_ok w d) [0..<orderPerDistrict] os \<and> each_customer os \<and>
    ls_db s' = (ls_db s)\<lparr>orders := orders (ls_db s) @ os\<rparr> \<and> cnts = map o_ol_cnt os"
proof -
  obtain cids Q where p: "Perm orderPerDistrict (ls_global s) = Some (cids, Q)" "mset cids = mset (map int [0..<orderPerDistrict])"
    using yields_Perm [of orderPerDistrict "ls_global s"] by (auto elim: yieldsE)
  obtain cids' R where q: "Shuffle cids (ls_R s) = Some (cids', R)" "mset cids' = mset cids"
    using yields_Shuffle [of cids "ls_R s"] by (auto elim: yieldsE)
  let ?s = "s\<lparr>ls_global := Q, ls_R := R\<rparr>"
  have l: "load_rows (order_draw lt w d cids') (\<lambda>r t. t\<lparr>orders := orders t @ [r]\<rparr>) [0..<orderPerDistrict] ?s = Some (None, s')"
    and c: "cnts = map o_ol_cnt (drop (length (orders (ls_db s))) (orders (ls_db s')))"
    using assms p q by (auto simp: loadOrder_def Let_def Option.bind_eq_Some_conv)
  have len: "length cids' = orderPerDistrict" using p(2) q(2) by (metis length_map length_upt minus_nat.diff_0 mset_eq_length)
  have "loaded orders (\<lambda>x t. t\<lparr>orders := x\<rparr>) (\<lambda>i r. order_row_ok w d i r \<and> o_c_id r = cids' ! i + 1) [0..<orderPerDistrict] ?s s'"
    by (rule load_rows_done [OF l yields_order]) (simp_all add: len lens_def)
  then obtain os where os: "list_all2 (\<lambda>i r. order_row_ok w d i r \<and> o_c_id r = cids' ! i + 1) [0..<orderPerDistrict] os"
    and db: "ls_db s' = (ls_db s)\<lparr>orders := orders (ls_db s) @ os\<rparr>" by (auto simp: loaded_def)
  have "list_all2 (order_row_ok w d) [0..<orderPerDistrict] os" using os by (rule list_all2_mono) simp
  moreover have "map o_c_id os = map (\<lambda>c. c + 1) cids'"
    using os by (intro nth_equalityI) (auto simp: len list_all2_conv_all_nth)
  then have "mset (map o_c_id os) = image_mset (\<lambda>c. c + 1) (mset (map int [0..<orderPerDistrict]))"
    using p(2) q(2) by (simp only: mset_map)
  then have "each_customer os"
    by (simp add: each_customer_def customerPerDistrict_def orderPerDistrict_def comp_def multiset.map_comp)
  ultimately show ?thesis using c db by auto
qed

lemma prepare_district_done:
  assumes "good_vars G" "prepare_district lt G W i s = Some (None, s')"
  shows "\<exists>p. district_part ((i sdiv 10) smod W + 1) (i smod 10 + 1) p \<and> ls_db s' = db_append (ls_db s) p"
proof -
  let ?w = "(i sdiv 10) smod W + 1" and ?d = "i smod 10 + 1"
  obtain s1 s2 cnts s3 s4 where l: "loadCustomer lt G ?w ?d s = Some (None, s1)" "loadHistory lt ?w ?d s1 = Some (None, s2)"
    "loadOrder lt ?w ?d s2 = Some (None, cnts, s3)" "loadNewOrder ?w ?d s3 = Some (None, s4)"
    "loadOrderLine lt ?w ?d cnts s4 = Some (None, s')"
    using assms(2)
    by (auto simp: prepare_district_def Let_def and_then_None done_load_def districtPerWarehouse_def Option.bind_eq_Some_conv
        split: option.splits)
  have "loaded customers (\<lambda>x t. t\<lparr>customers := x\<rparr>) (customer_row_ok ?w ?d) [0..<customerPerDistrict] s s1"
    by (rule load_rows_done [OF l(1) [unfolded loadCustomer_def] yields_customer [OF assms(1)]]) (simp add: lens_def)
  then obtain cs where cs: "list_all2 (customer_row_ok ?w ?d) [0..<customerPerDistrict] cs"
    "ls_db s1 = (ls_db s)\<lparr>customers := customers (ls_db s) @ cs\<rparr>" by (auto simp: loaded_def)
  have "loaded histories (\<lambda>x t. t\<lparr>histories := x\<rparr>) (history_ok ?w ?d) [0..<customerPerDistrict] s1 s2"
    by (rule load_rows_done [OF l(2) [unfolded loadHistory_def] yields_history]) (simp add: lens_def)
  then obtain hs where hs: "list_all2 (history_ok ?w ?d) [0..<customerPerDistrict] hs"
    "ls_db s2 = (ls_db s1)\<lparr>histories := histories (ls_db s1) @ hs\<rparr>" by (auto simp: loaded_def)
  obtain os where os: "list_all2 (order_row_ok ?w ?d) [0..<orderPerDistrict] os"
    "ls_db s3 = (ls_db s2)\<lparr>orders := orders (ls_db s2) @ os\<rparr>" "cnts = map o_ol_cnt os" "each_customer os"
    using loadOrder_done [OF l(3)] by blast
  have "loaded new_orders (\<lambda>x t. t\<lparr>new_orders := x\<rparr>) (new_order_ok ?w ?d) [0..<newOrderPerDistrict] s3 s4"
    by (rule load_rows_done [OF l(4) [unfolded loadNewOrder_def] yields_new_order]) (simp add: lens_def)
  then obtain ns where ns: "list_all2 (new_order_ok ?w ?d) [0..<newOrderPerDistrict] ns"
    "ls_db s4 = (ls_db s3)\<lparr>new_orders := new_orders (ls_db s3) @ ns\<rparr>" by (auto simp: loaded_def)
  have len: "length os = orderPerDistrict" using os(1) by (auto dest: list_all2_lengthD)
  have ix: "concat (map (\<lambda>i. map (Pair i) [0..<nat (cnts ! i)]) [0..<orderPerDistrict]) = line_indices os"
    unfolding line_indices_def by (intro arg_cong [where f = concat] map_cong refl) (simp add: os(3) len)
  have "load_rows (line_draw lt ?w ?d) (\<lambda>r t. t\<lparr>order_lines := order_lines t @ [r]\<rparr>) (line_indices os) s4 = Some (None, s')"
    using l(5) len ix by (simp add: loadOrderLine_def os(3))
  then have "loaded order_lines (\<lambda>x t. t\<lparr>order_lines := x\<rparr>) (line_row_ok ?w ?d) (line_indices os) s4 s'"
    by (rule load_rows_done [OF _ yields_line]) (simp add: lens_def)
  then obtain ls where ls: "list_all2 (line_row_ok ?w ?d) (line_indices os) ls"
    "ls_db s' = (ls_db s4)\<lparr>order_lines := order_lines (ls_db s4) @ ls\<rparr>" by (auto simp: loaded_def)
  let ?p = "empty_db\<lparr>customers := cs, histories := hs, new_orders := ns, orders := os, order_lines := ls\<rparr>"
  have "district_part ?w ?d ?p" using cs(1) hs(1) os(1,4) ns(1) ls(1) unfolding district_part_def by blast
  moreover have "ls_db s' = db_append (ls_db s) ?p"
    using cs(2) hs(2) os(2) ns(2) ls(2) by (simp add: db_append_def empty_db_def)
  ultimately show ?thesis by blast
qed

lemma for_each_done:
  assumes "for_each f is s = Some (None, s')"
    and "\<And>i s s'. f i s = Some (None, s') \<Longrightarrow> \<exists>p. P i p \<and> ls_db s' = db_append (ls_db s) p"
  shows "\<exists>ps. list_all2 P is ps \<and> ls_db s' = db_append (ls_db s) (db_concat ps)"
  using assms(1)
proof (induction "is" arbitrary: s)
  case (Cons i "is")
  obtain s1 where s1: "f i s = Some (None, s1)" "for_each f is s1 = Some (None, s')"
    using Cons.prems by (auto simp: Option.bind_eq_Some_conv split: option.splits)
  obtain p where p: "P i p" "ls_db s1 = db_append (ls_db s) p" using assms(2) [OF s1(1)] by blast
  obtain ps where "list_all2 P is ps" "ls_db s' = db_append (ls_db s1) (db_concat ps)" using Cons.IH [OF s1(2)] by blast
  then have "list_all2 P (i # is) (p # ps) \<and> ls_db s' = db_append (ls_db s) (db_concat (p # ps))"
    using p by (simp add: db_append_assoc)
  then show ?case by blast
qed simp

text \<open>The indices of a thread.\<close>

lemma stride_eq:
  assumes "0 < n" "0 \<le> i"
  shows "stride n m i = Some (filter (\<lambda>x. i \<le> x \<and> x mod n = i mod n) (map int [0..<nat m]))"
  using assms(2)
proof (induction "nat (m - i)" arbitrary: i rule: less_induct)
  case less
  show ?case
  proof (cases "i < m")
    case False
    have "filter (\<lambda>x. i \<le> x \<and> x mod n = i mod n) (map int [0..<nat m]) = []"
      using False by (auto simp: filter_empty_conv)
    then show ?thesis using False assms(1) by (simp add: stride.simps)
  next
    case True
    let ?Q = "\<lambda>i x. i \<le> x \<and> x mod n = i mod n"
    have IH: "stride n m (i + n) = Some (filter (?Q (i + n)) (map int [0..<nat m]))"
      by (rule less.hyps) (use True assms(1) less.prems in auto)
    have split: "map int [0..<nat m] = map int [0..<nat i] @ i # map int [Suc (nat i)..<nat m]"
    proof -
      have "[0..<nat m] = [0..<nat i] @ [nat i..<nat m]"
        using True less.prems by (metis le0 le_add_diff_inverse nat_less_le nat_mono order_less_imp_le upt_add_eq_append)
      also have "[nat i..<nat m] = nat i # [Suc (nat i)..<nat m]" using True less.prems by (simp add: upt_conv_Cons)
      finally show ?thesis using less.prems by simp
    qed
    have low: "filter (?Q i) (map int [0..<nat i]) = []" "filter (?Q (i + n)) (map int [0..<nat i]) = []"
      using assms(1) by (auto simp: filter_empty_conv)
    have "filter (?Q i) (map int [Suc (nat i)..<nat m]) = filter (?Q (i + n)) (map int [Suc (nat i)..<nat m])"
    proof (rule filter_cong [OF refl])
      fix x assume "x \<in> set (map int [Suc (nat i)..<nat m])"
      then have x: "i < x" using less.prems by auto
      have "i + n \<le> x" if "x mod n = i mod n"
      proof -
        have "n dvd x - i" using that by (simp add: mod_eq_dvd_iff)
        then show ?thesis using x zdvd_imp_le [of n "x - i"] by simp
      qed
      then show "?Q i x \<longleftrightarrow> ?Q (i + n) x" using x assms(1) by auto
    qed
    then have "filter (?Q i) (map int [0..<nat m]) = i # filter (?Q (i + n)) (map int [0..<nat m])"
      using assms(1) unfolding split filter_append low by simp
    then show ?thesis using True assms(1) IH by (simp add: stride.simps)
  qed
qed

subsection \<open>The threads together\<close>

definition idx :: "int \<Rightarrow> int list" where
  "idx m = map int [0..<nat m]"

lemma set_idx [simp]: "set (idx m) = {0..<m}"
proof -
  have "x \<in> int ` {0..<nat m}" if "0 \<le> x" "x < m" for x
    using that by (intro image_eqI [of _ _ "nat x"]) auto
  then show ?thesis by (auto simp: idx_def)
qed

lemma distinct_idx [simp]: "distinct (idx m)"
  by (simp add: idx_def distinct_map)

lemma prepareWorkload_done:
  assumes "good_vars G" "0 < threads" "0 \<le> k" "k < threads" "ls_db s = empty_db"
    "prepareWorkload lt G threads W k s = Some (None, s')"
  shows "\<exists>ips wps dps. list_all2 (\<lambda>i p. items_part p) (if k = 0 then [0::nat] else []) ips \<and>
    list_all2 (\<lambda>i p. warehouse_part (i smod W + 1) p) (filter (\<lambda>x. x mod threads = k) (idx W)) wps \<and>
    list_all2 (\<lambda>i p. district_part ((i sdiv 10) smod W + 1) (i smod 10 + 1) p)
      (filter (\<lambda>x. x mod threads = k) (idx (W * 10))) dps \<and>
    ls_db s' = db_concat (ips @ wps @ dps)"
proof -
  have k: "k smod threads = k" using assms(2-4) by (simp add: go_arith)
  have st: "stride threads m k = Some (filter (\<lambda>x. x mod threads = k) (idx m))" for m
  proof -
    have "filter (\<lambda>x. k \<le> x \<and> x mod threads = k mod threads) (idx m) = filter (\<lambda>x. x mod threads = k) (idx m)"
    proof (rule filter_cong [OF refl])
      fix x assume "x \<in> set (idx m)"
      then have "x mod threads \<le> x" by (simp add: zmod_le_nonneg_dividend)
      then show "(k \<le> x \<and> x mod threads = k mod threads) \<longleftrightarrow> x mod threads = k" using assms(2-4) by auto
    qed
    then show ?thesis using stride_eq [OF assms(2,3), of m] by (simp add: idx_def)
  qed
  obtain s1 s2 where l: "(if k = 0 then loadItem else done_load) s = Some (None, s1)"
    "for_each (prepare_warehouse W) (filter (\<lambda>x. x mod threads = k) (idx W)) s1 = Some (None, s2)"
    "for_each (prepare_district lt G W) (filter (\<lambda>x. x mod threads = k) (idx (W * 10))) s2 = Some (None, s')"
    using assms(6) unfolding prepareWorkload_def k st districtPerWarehouse_def
    by (auto simp: and_then_None Option.bind_eq_Some_conv split: option.splits)
  have "\<exists>ips. list_all2 (\<lambda>i p. items_part p) (if k = 0 then [0::nat] else []) ips \<and>
      ls_db s1 = db_append (ls_db s) (db_concat ips)"
  proof (cases "k = 0")
    case True
    then obtain p where "items_part p" "ls_db s1 = db_append (ls_db s) p" using l(1) loadItem_done by auto
    then show ?thesis using True by (intro exI [of _ "[p]"]) simp
  next
    case False
    then show ?thesis using l(1) by (simp add: done_load_def)
  qed
  then obtain ips where ips: "list_all2 (\<lambda>i p. items_part p) (if k = 0 then [0::nat] else []) ips"
    "ls_db s1 = db_append (ls_db s) (db_concat ips)" by blast
  obtain wps where wps: "list_all2 (\<lambda>i p. warehouse_part (i smod W + 1) p) (filter (\<lambda>x. x mod threads = k) (idx W)) wps"
    "ls_db s2 = db_append (ls_db s1) (db_concat wps)"
    using for_each_done [OF l(2), of "\<lambda>i p. warehouse_part (i smod W + 1) p"] prepare_warehouse_done by blast
  obtain dps where dps: "list_all2 (\<lambda>i p. district_part ((i sdiv 10) smod W + 1) (i smod 10 + 1) p)
      (filter (\<lambda>x. x mod threads = k) (idx (W * 10))) dps" "ls_db s' = db_append (ls_db s2) (db_concat dps)"
    using for_each_done [OF l(3), of "\<lambda>i p. district_part ((i sdiv 10) smod W + 1) (i smod 10 + 1) p"]
      prepare_district_done [OF assms(1)] by blast
  have "ls_db s' = db_concat (ips @ wps @ dps)"
    using ips(2) wps(2) dps(2) assms(5) by (simp add: db_concat_append db_append_assoc)
  then show ?thesis using ips(1) wps(1) dps(1) by blast
qed

text \<open>The same rows, in any order.\<close>

definition same_rows :: "db \<Rightarrow> db \<Rightarrow> bool" where
  "same_rows t u \<longleftrightarrow> mset (warehouses t) = mset (warehouses u) \<and> mset (districts t) = mset (districts u) \<and>
     mset (customers t) = mset (customers u) \<and> mset (histories t) = mset (histories u) \<and>
     mset (new_orders t) = mset (new_orders u) \<and> mset (orders t) = mset (orders u) \<and>
     mset (order_lines t) = mset (order_lines u) \<and> mset (items t) = mset (items u) \<and>
     mset (stocks t) = mset (stocks u)"

lemma db_concat_fields:
  "warehouses (db_concat ps) = concat (map warehouses ps)" "districts (db_concat ps) = concat (map districts ps)"
  "customers (db_concat ps) = concat (map customers ps)" "histories (db_concat ps) = concat (map histories ps)"
  "new_orders (db_concat ps) = concat (map new_orders ps)" "orders (db_concat ps) = concat (map orders ps)"
  "order_lines (db_concat ps) = concat (map order_lines ps)" "items (db_concat ps) = concat (map items ps)"
  "stocks (db_concat ps) = concat (map stocks ps)"
  by (induction ps) (simp_all add: db_append_def empty_db_def)

lemma mset_concat_map: "mset ps = mset qs \<Longrightarrow> mset (concat (map f ps)) = mset (concat (map f qs))"
  by (simp add: mset_concat) (metis mset_map sum_mset_sum_list)

lemma same_rows_parts: "mset ps = mset qs \<Longrightarrow> same_rows (db_concat ps) (db_concat qs)"
  unfolding same_rows_def db_concat_fields by (intro conjI mset_concat_map)

lemma same_rows_trans: "same_rows t u \<Longrightarrow> same_rows u v \<Longrightarrow> same_rows t v"
  by (simp add: same_rows_def)

lemma db_concat_concat: "db_concat (map db_concat pss) = db_concat (concat pss)"
  by (induction pss) (simp_all add: db_concat_append)

lemma list_all2_function:
  assumes "distinct xs" "list_all2 P xs ys"
  shows "\<exists>f. ys = map f xs \<and> (\<forall>x \<in> set xs. P x (f x))"
  using assms
proof (induction xs arbitrary: ys)
  case (Cons x xs)
  then obtain y ys' where ys: "ys = y # ys'" "P x y" "list_all2 P xs ys'" by (auto simp: list_all2_Cons1)
  obtain f where f: "ys' = map f xs" "\<forall>x \<in> set xs. P x (f x)" using Cons ys(3) by auto
  have "map (f(x := y)) xs = map f xs" using Cons.prems(1) by auto
  then show ?case using ys f Cons.prems(1) by (intro exI [of _ "f(x := y)"]) auto
qed simp

text \<open>Each index belongs to exactly one thread.\<close>

lemma mset_by_class:
  "(\<forall>x \<in> set xs. 0 \<le> c x \<and> c x < n) \<Longrightarrow> mset (concat (map (\<lambda>k. filter (\<lambda>x. c x = k) xs) (idx n))) = mset xs"
proof (induction xs)
  case Nil
  have "concat (map (\<lambda>k. []) ks) = []" for ks :: "int list" by (induction ks) simp_all
  then show ?case by simp
next
  case (Cons x xs)
  have "mset (concat (map (\<lambda>k. filter (\<lambda>x. c x = k) (x # xs)) (idx n))) =
    (\<Sum>k\<leftarrow>idx n. (if c x = k then {#x#} else {#}) + mset (filter (\<lambda>x. c x = k) xs))"
    unfolding mset_concat map_map by (intro arg_cong [where f = sum_list] map_cong refl) simp
  also have "\<dots> = (\<Sum>k\<leftarrow>idx n. if c x = k then {#x#} else {#}) + mset (concat (map (\<lambda>k. filter (\<lambda>x. c x = k) xs) (idx n)))"
    by (simp add: sum_list_addf mset_concat comp_def)
  also have "(\<Sum>k\<leftarrow>idx n. if c x = k then {#x#} else {#}) = {#x#}"
    using Cons.prems by (simp add: sum_list_distinct_conv_sum_set)
  finally show ?case using Cons by simp
qed

lemma thread_parts:
  assumes "good_vars G" "0 < threads" "0 \<le> k" "k < threads" "ls_db s = empty_db"
    "prepareWorkload lt G threads W k s = Some (None, s')"
  shows "\<exists>ips fw df. length ips = (if k = 0 then 1 else 0) \<and> (\<forall>p \<in> set ips. items_part p) \<and>
    (\<forall>x \<in> {0..<W}. x mod threads = k \<longrightarrow> warehouse_part (x + 1) (fw x)) \<and>
    (\<forall>x \<in> {0..<W * 10}. x mod threads = k \<longrightarrow> district_part (x div 10 + 1) (x mod 10 + 1) (df x)) \<and>
    ls_db s' = db_concat (ips @ map fw (filter (\<lambda>x. x mod threads = k) (idx W)) @
      map df (filter (\<lambda>x. x mod threads = k) (idx (W * 10))))"
proof -
  obtain ips wps dps where p: "list_all2 (\<lambda>i p. items_part p) (if k = 0 then [0::nat] else []) ips"
    "list_all2 (\<lambda>i p. warehouse_part (i smod W + 1) p) (filter (\<lambda>x. x mod threads = k) (idx W)) wps"
    "list_all2 (\<lambda>i p. district_part ((i sdiv 10) smod W + 1) (i smod 10 + 1) p)
      (filter (\<lambda>x. x mod threads = k) (idx (W * 10))) dps"
    "ls_db s' = db_concat (ips @ wps @ dps)"
    using prepareWorkload_done [OF assms] by blast
  have i: "length ips = (if k = 0 then 1 else 0)" "\<forall>p \<in> set ips. items_part p"
    using p(1) by (auto simp: list_all2_Cons1 split: if_splits)
  obtain fw where w: "wps = map fw (filter (\<lambda>x. x mod threads = k) (idx W))"
    "\<forall>x \<in> set (filter (\<lambda>x. x mod threads = k) (idx W)). warehouse_part (x smod W + 1) (fw x)"
    using list_all2_function [OF distinct_filter [OF distinct_idx] p(2)] by blast
  obtain df where d: "dps = map df (filter (\<lambda>x. x mod threads = k) (idx (W * 10)))"
    "\<forall>x \<in> set (filter (\<lambda>x. x mod threads = k) (idx (W * 10))).
       district_part ((x sdiv 10) smod W + 1) (x smod 10 + 1) (df x)"
    using list_all2_function [OF distinct_filter [OF distinct_idx] p(3)] by blast
  have "warehouse_part (x + 1) (fw x)" if "x \<in> {0..<W}" "x mod threads = k" for x
    using w(2) that by (force simp: go_arith)
  moreover have "district_part (x div 10 + 1) (x mod 10 + 1) (df x)" if x: "x \<in> {0..<W * 10}" "x mod threads = k" for x
  proof -
    have "0 \<le> x div 10" "x div 10 < W" using x by auto
    then have "(x sdiv 10) smod W = x div 10" "x smod 10 = x mod 10" using x by (simp_all add: go_arith)
    then show ?thesis using d(2) x by force
  qed
  ultimately show ?thesis using i p(4) unfolding w(1) d(1) by blast
qed

definition populated :: "int \<Rightarrow> db \<Rightarrow> bool" where
  "populated W u \<longleftrightarrow> (\<exists>ip wp dp. items_part ip \<and> (\<forall>i \<in> {0..<W}. warehouse_part (i + 1) (wp i)) \<and>
     (\<forall>i \<in> {0..<W * 10}. district_part (i div 10 + 1) (i mod 10 + 1) (dp i)) \<and>
     u = db_concat (ip # map wp (idx W) @ map dp (idx (W * 10))))"

lemma concat_same: "(\<And>x. x \<in> set xs \<Longrightarrow> f x = g x) \<Longrightarrow> concat (map f xs) = concat (map g xs)"
  by (metis map_cong)

lemma mset_concat_split:
  "mset (concat (map (\<lambda>k. a k @ map f (b k) @ map g (c k)) ks)) =
   mset (concat (map a ks)) + mset (map f (concat (map b ks))) + mset (map g (concat (map c ks)))"
  by (induction ks) simp_all

lemma threads_populated:
  assumes "good_vars G" "0 < threads"
    and run: "\<forall>k \<in> {0..<threads}. ls_db (st k) = empty_db \<and> prepareWorkload lt G threads W k (st k) = Some (None, st' k)"
  shows "\<exists>u. populated W u \<and> same_rows (db_concat (map (\<lambda>k. ls_db (st' k)) (idx threads))) u"
proof -
  let ?cl = "\<lambda>k xs. filter (\<lambda>x. x mod threads = k) xs"
  define Q where "Q k q \<longleftrightarrow> (case q of (ips, fw, df) \<Rightarrow>
    length ips = (if k = 0 then 1 else 0) \<and> (\<forall>p \<in> set ips. items_part p) \<and>
    (\<forall>x \<in> {0..<W}. x mod threads = k \<longrightarrow> warehouse_part (x + 1) (fw x)) \<and>
    (\<forall>x \<in> {0..<W * 10}. x mod threads = k \<longrightarrow> district_part (x div 10 + 1) (x mod 10 + 1) (df x)) \<and>
    ls_db (st' k) = db_concat (ips @ map fw (?cl k (idx W)) @ map df (?cl k (idx (W * 10)))))" for k q
  have "\<exists>q. Q k q" if k: "k \<in> {0..<threads}" for k
  proof -
    have r: "ls_db (st k) = empty_db" "prepareWorkload lt G threads W k (st k) = Some (None, st' k)"
      and b: "0 \<le> k" "k < threads" using run k by auto
    obtain ips fw df where "length ips = (if k = 0 then 1 else 0)" "\<forall>p \<in> set ips. items_part p"
      "\<forall>x \<in> {0..<W}. x mod threads = k \<longrightarrow> warehouse_part (x + 1) (fw x)"
      "\<forall>x \<in> {0..<W * 10}. x mod threads = k \<longrightarrow> district_part (x div 10 + 1) (x mod 10 + 1) (df x)"
      "ls_db (st' k) = db_concat (ips @ map fw (?cl k (idx W)) @ map df (?cl k (idx (W * 10))))"
      using thread_parts [OF assms(1,2) b r] by blast
    then have "Q k (ips, fw, df)" unfolding Q_def prod.case by blast
    then show ?thesis by blast
  qed
  then obtain q where q: "\<forall>k \<in> {0..<threads}. Q k (q k)" by metis
  define ips where "ips k = fst (q k)" for k
  define wp where "wp x = fst (snd (q (x mod threads))) x" for x
  define dp where "dp x = snd (snd (q (x mod threads))) x" for x
  have k: "length (ips k) = (if k = 0 then 1 else 0)" "\<forall>p \<in> set (ips k). items_part p"
    "ls_db (st' k) = db_concat (ips k @ map wp (?cl k (idx W)) @ map dp (?cl k (idx (W * 10))))"
    if "k \<in> {0..<threads}" for k
  proof -
    obtain a fw df where e: "q k = (a, fw, df)" by (cases "q k")
    have m: "map wp (?cl k xs) = map fw (?cl k xs)" "map dp (?cl k xs) = map df (?cl k xs)" for xs
      by (auto simp: wp_def dp_def e)
    note Qk = bspec [OF q that]
    show "length (ips k) = (if k = 0 then 1 else 0)" "\<forall>p \<in> set (ips k). items_part p"
      using Qk by (simp_all add: Q_def e ips_def)
    show "ls_db (st' k) = db_concat (ips k @ map wp (?cl k (idx W)) @ map dp (?cl k (idx (W * 10))))"
      unfolding m using Qk by (simp add: Q_def e ips_def)
  qed
  have mods: "x mod threads \<in> {0..<threads}" for x using assms(2) by simp
  have wp: "warehouse_part (x + 1) (wp x)" if "x \<in> {0..<W}" for x
    using bspec [OF q mods [of x]] that by (simp add: Q_def wp_def split_beta)
  have dp: "district_part (x div 10 + 1) (x mod 10 + 1) (dp x)" if "x \<in> {0..<W * 10}" for x
    using bspec [OF q mods [of x]] that by (simp add: Q_def dp_def split_beta)
  obtain ip where ip: "ips 0 = [ip]" "items_part ip"
    using k(1,2) [of 0] assms(2) by (cases "ips 0") auto
  have rest: "ips (int n) = []" if "1 \<le> n" "n < nat threads" for n
    using k(1) [of "int n"] that by auto
  have i0: "idx threads = 0 # map int [1..<nat threads]"
    using assms(2) by (simp add: idx_def upt_conv_Cons)
  have "concat (map ips (map int [1..<nat threads])) = []"
    using rest by (auto simp: concat_eq_Nil_conv)
  then have ii: "concat (map ips (idx threads)) = [ip]"
    unfolding i0 list.map concat.simps ip(1) by simp
  have cls: "mset (concat (map (\<lambda>k. ?cl k xs) (idx threads))) = mset xs" for xs
    by (rule mset_by_class) (simp add: assms(2))
  let ?u = "db_concat (ip # map wp (idx W) @ map dp (idx (W * 10)))"
  have "db_concat (map (\<lambda>k. ls_db (st' k)) (idx threads)) =
      db_concat (concat (map (\<lambda>k. ips k @ map wp (?cl k (idx W)) @ map dp (?cl k (idx (W * 10)))) (idx threads)))"
    unfolding db_concat_concat [symmetric] map_map by (intro arg_cong [where f = db_concat] map_cong refl) (simp add: k(3))
  moreover have "mset (concat (map (\<lambda>k. ips k @ map wp (?cl k (idx W)) @ map dp (?cl k (idx (W * 10)))) (idx threads))) =
      mset (ip # map wp (idx W) @ map dp (idx (W * 10)))"
    unfolding mset_concat_split ii mset_map cls by simp
  note same_rows_parts [OF this]
  ultimately have s: "same_rows (db_concat (map (\<lambda>k. ls_db (st' k)) (idx threads))) ?u" by simp
  have "populated W ?u" unfolding populated_def
    by (rule exI [of _ ip], rule exI [of _ wp], rule exI [of _ dp]) (intro conjI ballI refl ip(2) wp dp)
  with s show ?thesis by blast
qed

subsection \<open>A thread returns\<close>

lemma draw_Some: "yields m P \<Longrightarrow> \<exists>r R. m = Some (r, R)"
  by (auto simp: yields_def)

lemmas draws_Some = draw_Some [OF yields_item] draw_Some [OF yields_warehouse] draw_Some [OF yields_stock]
  draw_Some [OF yields_district] draw_Some [OF yields_history] draw_Some [OF yields_new_order] draw_Some [OF yields_line]

lemma reports_loadItem: "reports loadItem"
  unfolding loadItem_def by (rule reports_load_rows) (rule draws_Some)

lemma reports_prepare_warehouse: "reports (prepare_warehouse W i)"
  unfolding prepare_warehouse_def Let_def loadWarehouse_def loadStock_def loadDistrict_def
  by (intro reports_and_then reports_done reports_load_rows draws_Some)

text \<open>A loader of orders, whose result also has the counts.\<close>

definition without_counts :: "(goerr option \<times> int list \<times> loadState) option \<Rightarrow> (goerr option \<times> loadState) option" where
  "without_counts x = map_option (\<lambda>(e, cnts, s). (e, s)) x"

lemma reports_loadOrder: "reports (\<lambda>s. without_counts (loadOrder lt w d s))"
  unfolding reports_def
proof
  fix s :: loadState
  obtain cids Q where p: "Perm orderPerDistrict (ls_global s) = Some (cids, Q)" "mset cids = mset (map int [0..<orderPerDistrict])"
    using yields_Perm [of orderPerDistrict "ls_global s"] by (auto elim: yieldsE)
  obtain cids' R where q: "Shuffle cids (ls_R s) = Some (cids', R)" "mset cids' = mset cids"
    using yields_Shuffle [of cids "ls_R s"] by (auto elim: yieldsE)
  have len: "length cids' = orderPerDistrict" using p(2) q(2) by (metis length_map length_upt minus_nat.diff_0 mset_eq_length)
  let ?s = "s\<lparr>ls_global := Q, ls_R := R\<rparr>"
  have "reports (load_rows (order_draw lt w d cids') (\<lambda>r t. t\<lparr>orders := orders t @ [r]\<rparr>) [0..<orderPerDistrict])"
    by (rule reports_load_rows) (rule draw_Some [OF yields_order], simp add: len)
  then obtain e s' rs where r: "load_rows (order_draw lt w d cids') (\<lambda>r t. t\<lparr>orders := orders t @ [r]\<rparr>) [0..<orderPerDistrict] ?s = Some (e, s')"
    "ls_sink ?s = rs @- ls_sink s'" "set (butlast rs) \<subseteq> {None}" "e = None \<longleftrightarrow> set rs \<subseteq> {None}"
    by (rule reportsE [where s = ?s])
  have "without_counts (loadOrder lt w d s) = Some (e, s')"
    by (simp add: loadOrder_def p(1) q(1) r(1) Let_def without_counts_def)
  moreover have "ls_sink s = rs @- ls_sink s'" using r(2) by simp
  ultimately show "\<exists>e s' rs. without_counts (loadOrder lt w d s) = Some (e, s') \<and> ls_sink s = rs @- ls_sink s' \<and>
      set (butlast rs) \<subseteq> {None} \<and> (e = None \<longleftrightarrow> set rs \<subseteq> {None})"
    using r(3,4) by blast
qed

lemma reports_lines:
  assumes "orderPerDistrict \<le> length cnts"
  shows "reports (loadOrderLine lt w d cnts)"
proof -
  have "loadOrderLine lt w d cnts = load_rows (line_draw lt w d) (\<lambda>r t. t\<lparr>order_lines := order_lines t @ [r]\<rparr>)
      (concat (map (\<lambda>i. map (Pair i) [0..<nat (cnts ! i)]) [0..<orderPerDistrict]))"
    using assms by (simp add: fun_eq_iff loadOrderLine_def)
  then show ?thesis by (simp add: reports_load_rows draws_Some)
qed

lemma reports_prepare_district:
  assumes "good_vars G"
  shows "reports (prepare_district lt G W i)"
proof -
  define w d where "w = (i sdiv districtPerWarehouse) smod W + 1" and "d = i smod districtPerWarehouse + 1"
  define rest where "rest = (\<lambda>s. do {
      (e, olCnts, s) \<leftarrow> loadOrder lt w d s;
      (case e of
         Some e \<Rightarrow> Some (Some [Plain ''load orders failed''], s)
       | None \<Rightarrow>
           and_then ''load new_order failed'' (loadNewOrder w d)
           (and_then ''load order_line failed'' (loadOrderLine lt w d olCnts) done_load) s)
    })"
  have "reports rest"
  proof (rule reports_seq [OF reports_loadOrder [of lt w d], where m = "\<lambda>e. [Plain ''load orders failed'']"
      and k = "\<lambda>s s'. and_then ''load new_order failed'' (loadNewOrder w d)
          (and_then ''load order_line failed'' (loadOrderLine lt w d (fst (snd (the (loadOrder lt w d s))))) done_load) s'"])
    fix s s' assume "without_counts (loadOrder lt w d s) = Some (None, s')"
    then obtain cnts where c: "loadOrder lt w d s = Some (None, cnts, s')" by (auto simp: without_counts_def)
    then have "orderPerDistrict \<le> length cnts" using loadOrder_done [OF c] by (auto dest: list_all2_lengthD)
    then have "reports (and_then ''load new_order failed'' (loadNewOrder w d)
        (and_then ''load order_line failed'' (loadOrderLine lt w d cnts) done_load))"
      unfolding loadNewOrder_def
      by (intro reports_and_then reports_done reports_load_rows reports_lines draws_Some)
    then show "\<exists>h. reports h \<and> and_then ''load new_order failed'' (loadNewOrder w d) (and_then ''load order_line failed''
        (loadOrderLine lt w d (fst (snd (the (loadOrder lt w d s))))) done_load) s' = h s'"
      unfolding c by auto
  next
    fix s
    show "rest s = (case without_counts (loadOrder lt w d s) of None \<Rightarrow> None
        | Some (Some e, s') \<Rightarrow> Some (Some [Plain ''load orders failed''], s')
        | Some (None, s') \<Rightarrow> and_then ''load new_order failed'' (loadNewOrder w d) (and_then ''load order_line failed''
            (loadOrderLine lt w d (fst (snd (the (loadOrder lt w d s))))) done_load) s')"
      by (simp add: rest_def without_counts_def split: option.split prod.split)
  qed
  moreover have "prepare_district lt G W i = and_then ''load customer failed'' (loadCustomer lt G w d)
      (and_then ''load history failed'' (loadHistory lt w d) rest)"
    unfolding prepare_district_def Let_def w_def [symmetric] d_def [symmetric] rest_def ..
  ultimately show ?thesis
    unfolding loadCustomer_def loadHistory_def
    by (auto intro!: reports_and_then reports_load_rows draws_Some draw_Some [OF yields_customer [OF assms]])
qed

lemma reports_prepareWorkload:
  assumes "good_vars G" "0 < threads" "0 \<le> threadID"
  shows "reports (prepareWorkload lt G threads W threadID)"
proof -
  have p: "0 \<le> threadID smod threads" using assms(2,3) by (cases "threadID = 0") (simp_all add: signed_modulo_int_def)
  obtain ws where ws: "stride threads W (threadID smod threads) = Some ws" using stride_eq [OF assms(2) p] by blast
  obtain ds where ds: "stride threads (W * districtPerWarehouse) (threadID smod threads) = Some ds"
    using stride_eq [OF assms(2) p] by blast
  define rest where "rest = (\<lambda>s. do {
      (e, s) \<leftarrow> for_each (prepare_warehouse W) ws s;
      (case e of
         Some e \<Rightarrow> Some (Some e, s)
       | None \<Rightarrow> for_each (prepare_district lt G W) ds s)
    })"
  have "reports rest"
    by (rule reports_seq [OF reports_for_each [of ws "prepare_warehouse W"],
          where m = "\<lambda>e. e" and k = "\<lambda>s. for_each (prepare_district lt G W) ds"])
      (auto simp: rest_def split: option.split intro: reports_prepare_warehouse reports_for_each
        reports_prepare_district [OF assms(1)])
  then have "reports (and_then ''load item faield'' (if threadID = 0 then loadItem else done_load) rest)"
    by (intro reports_and_then) (simp_all add: reports_loadItem reports_done)
  moreover have "prepareWorkload lt G threads W threadID =
      and_then ''load item faield'' (if threadID = 0 then loadItem else done_load) rest"
    by (simp add: fun_eq_iff prepareWorkload_def ws ds rest_def)
  ultimately show ?thesis by simp
qed

end
