(* ===== verification/TpccDdl.thy ===== *)
theory TpccDdl
  imports TpccRun TpccLoadInv
begin

text \<open>
  Partitioning of the TPC-C tables: \<open>appendPartition\<close> of \<open>tpcc/ddl.go\<close>, with its loops over the text,
  and which warehouses the partitions hold.
\<close>

record ddlManager =
  dm_parts :: int
  dm_warehouses :: int
  dm_partitionType :: int
  dm_useFK :: bool
  dm_useClusteredIndex :: bool

definition newDDLManager :: "int \<Rightarrow> bool \<Rightarrow> int \<Rightarrow> int \<Rightarrow> bool \<Rightarrow> ddlManager" where
  "newDDLManager parts useFK W partitionType useClusteredIndex =
     \<lparr>dm_parts = parts, dm_warehouses = W, dm_partitionType = partitionType,
      dm_useFK = useFK, dm_useClusteredIndex = useClusteredIndex\<rparr>"

definition nl :: string where "nl = [CHR 0x0A]"

definition part_in :: "int \<Rightarrow> string \<Rightarrow> string" where
  "part_in i part = ''PARTITION p'' @ fmt_d i @ '' VALUES IN ('' @ part @ '')''"

definition part_less :: "int \<Rightarrow> int \<Rightarrow> string" where
  "part_less i b = ''PARTITION p'' @ fmt_d i @ '' VALUES LESS THAN ('' @ fmt_d b @ '')''"

text \<open>The inner loops: every \<open>parts\<close>-th warehouse from \<open>i\<close> on, and the next \<open>k\<close> warehouses.\<close>

function hash_part :: "int \<Rightarrow> int \<Rightarrow> int \<Rightarrow> int \<Rightarrow> string \<Rightarrow> string" where
  "hash_part parts W i j part =
     (if 0 < parts \<and> j < W then
        hash_part parts W i (j + parts) ((if j > i then part @ '','' else part) @ fmt_d (j + 1))
      else part)"
  by pat_completeness auto
termination
  by (relation "measure (\<lambda>(parts, W, i, j, part). nat (W - j))") auto

declare hash_part.simps [simp del]

fun range_part :: "nat \<Rightarrow> nat \<Rightarrow> int \<Rightarrow> string \<Rightarrow> string \<times> int" where
  "range_part 0 j added part = (part, added)"
| "range_part (Suc k) j added part =
     (let part = (if j > 0 then part @ '','' else part);
          added = added + 1
      in range_part k (j + 1) added (part @ fmt_d added))"

definition comma :: "nat \<Rightarrow> string \<Rightarrow> string" where
  "comma i s = (if i > 0 then s @ '','' @ nl @ '' '' else s)"

text \<open>The loops over the partitions.\<close>

fun list_as_hash :: "int \<Rightarrow> int \<Rightarrow> nat list \<Rightarrow> string \<Rightarrow> string" where
  "list_as_hash parts W [] s = s"
| "list_as_hash parts W (i # is) s =
     list_as_hash parts W is (comma i s @ part_in (int i) (hash_part parts W (int i) (int i) []))"

text \<open>The number of warehouses of the next partition.\<close>

definition next_block :: "int \<Rightarrow> int \<Rightarrow> int \<Rightarrow> int \<Rightarrow> int" where
  "next_block parts W i added =
     (let toAdd = W - added; left = parts - i
      in toAdd sdiv left + (if toAdd smod left \<noteq> 0 then 1 else 0))"

fun list_as_range :: "int \<Rightarrow> int \<Rightarrow> nat list \<Rightarrow> int \<Rightarrow> string \<Rightarrow> string" where
  "list_as_range parts W [] added s = s"
| "list_as_range parts W (i # is) added s =
     (let (part, added') = range_part (nat (next_block parts W (int i) added)) 0 added []
      in list_as_range parts W is added' (comma i s @ part_in (int i) part))"

fun by_range :: "int \<Rightarrow> int \<Rightarrow> nat list \<Rightarrow> string \<Rightarrow> string" where
  "by_range parts W [] s = s"
| "by_range parts W (i # is) s =
     (let per = W sdiv parts + (if W smod parts \<noteq> 0 then 1 else 0)
      in by_range parts W is (comma i s @ part_less (int i) (1 + (int i + 1) * per)))"

definition appendPartition :: "ddlManager \<Rightarrow> string \<Rightarrow> string \<Rightarrow> string" where
  "appendPartition m query partKeys =
     (let parts = dm_parts m; W = dm_warehouses m in
      if parts \<le> 1 then query
      else if dm_partitionType m = PartitionTypeListAsHash then
        list_as_hash parts W [0..<nat parts] (query @ nl @ ''PARTITION BY LIST ('' @ partKeys @ '')'' @ nl @ ''('') @ '')''
      else if dm_partitionType m = PartitionTypeListAsRange then
        list_as_range parts W [0..<nat parts] 0 (query @ nl @ ''PARTITION BY LIST ('' @ partKeys @ '')'' @ nl @ ''('') @ '')''
      else if dm_partitionType m = PartitionTypeRange then
        by_range parts W [0..<nat parts] (query @ nl @ ''PARTITION BY RANGE ('' @ partKeys @ '')'' @ nl @ ''('') @ '')''
      else query @ nl @ ''PARTITION BY HASH('' @ partKeys @ '')'' @ nl @ ''PARTITIONS '' @ fmt_d parts)"

subsection \<open>Lists of warehouses\<close>

fun joined :: "string \<Rightarrow> string list \<Rightarrow> string" where
  "joined sep [] = []"
| "joined sep [x] = x"
| "joined sep (x # y # xs) = x @ sep @ joined sep (y # xs)"

definition numbers :: "int list \<Rightarrow> string" where
  "numbers ws = joined '','' (map fmt_d ws)"

lemma joined_snoc: "joined sep (xs @ [x]) = (if xs = [] then x else joined sep xs @ sep @ x)"
  by (induction sep xs rule: joined.induct) auto

lemma numbers_snoc: "numbers (ws @ [x]) = (if ws = [] then fmt_d x else numbers ws @ '','' @ fmt_d x)"
  by (simp add: numbers_def joined_snoc)

lemma range_part_numbers:
  "range_part k (length ws) added (numbers ws) =
     (numbers (ws @ map (\<lambda>x. added + 1 + int x) [0..<k]), added + int k)"
proof (induction k arbitrary: ws added)
  case (Suc k)
  have n: "(if length ws > 0 then numbers ws @ '','' else numbers ws) @ fmt_d (added + 1) = numbers (ws @ [added + 1])"
    by (simp add: numbers_snoc) (simp add: numbers_def)
  have "[0..<Suc k] = 0 # map Suc [0..<k]" by (simp add: map_Suc_upt upt_conv_Cons)
  then have u: "map (\<lambda>x. added + 1 + int x) [0..<Suc k] = (added + 1) # map (\<lambda>x. added + 1 + 1 + int x) [0..<k]"
    by (simp add: comp_def add.commute add.left_commute)
  have "range_part (Suc k) (length ws) added (numbers ws) = range_part k (length (ws @ [added + 1])) (added + 1) (numbers (ws @ [added + 1]))"
    using n by (simp add: Let_def)
  also have "\<dots> = (numbers ((ws @ [added + 1]) @ map (\<lambda>x. added + 1 + 1 + int x) [0..<k]), added + 1 + int k)"
    by (rule Suc.IH)
  finally show ?case unfolding u by simp
qed simp

text \<open>Every \<open>parts\<close>-th warehouse from \<open>i\<close> on, and blocks whose sizes differ by at most one.\<close>

definition hash_class :: "int \<Rightarrow> int \<Rightarrow> int \<Rightarrow> int list" where
  "hash_class parts W i = map (\<lambda>x. x + 1) (filter (\<lambda>x. x mod parts = i) (idx W))"

definition block_start :: "int \<Rightarrow> int \<Rightarrow> int \<Rightarrow> int" where
  "block_start parts W i = i * (W div parts) + min i (W mod parts)"

definition range_class :: "int \<Rightarrow> int \<Rightarrow> int \<Rightarrow> int list" where
  "range_class parts W i = map (\<lambda>x. block_start parts W i + 1 + int x)
     [0..<nat (block_start parts W (i + 1) - block_start parts W i)]"

lemma hash_part_stride:
  assumes "0 < parts" "0 \<le> i" "i \<le> j" "i < j \<longleftrightarrow> ws \<noteq> []"
  shows "hash_part parts W i j (numbers ws) = numbers (ws @ map (\<lambda>x. x + 1) (the (stride parts W j)))"
  using assms(3,4)
proof (induction "nat (W - j)" arbitrary: j ws rule: less_induct)
  case less
  show ?case
  proof (cases "j < W")
    case False
    then show ?thesis using assms(1) by (simp add: hash_part.simps stride.simps)
  next
    case True
    have n: "(if j > i then numbers ws @ '','' else numbers ws) @ fmt_d (j + 1) = numbers (ws @ [j + 1])"
      using less.prems by (auto simp: numbers_snoc) (simp add: numbers_def)
    obtain r where r: "stride parts W (j + parts) = Some r"
      using stride_eq [OF assms(1), of "j + parts" W] assms(1,2) less.prems(1) by simp
    have "hash_part parts W i j (numbers ws) = hash_part parts W i (j + parts) (numbers (ws @ [j + 1]))"
      using True assms(1) n by (subst hash_part.simps) simp
    also have "\<dots> = numbers ((ws @ [j + 1]) @ map (\<lambda>x. x + 1) (the (stride parts W (j + parts))))"
      by (rule less.hyps) (use True assms(1) less.prems in auto)
    finally show ?thesis using True assms(1) r by (simp add: stride.simps [of parts W j])
  qed
qed

lemma hash_part_class:
  assumes "0 < parts" "0 \<le> i" "i < parts"
  shows "hash_part parts W i i [] = numbers (hash_class parts W i)"
proof -
  have "filter (\<lambda>x. i \<le> x \<and> x mod parts = i mod parts) (map int [0..<nat W]) = filter (\<lambda>x. x mod parts = i) (idx W)"
    unfolding idx_def
  proof (rule filter_cong [OF refl])
    fix x assume "x \<in> set (map int [0..<nat W])"
    then have "x mod parts \<le> x" using assms(1) by (auto simp: zmod_le_nonneg_dividend)
    then show "(i \<le> x \<and> x mod parts = i mod parts) = (x mod parts = i)" using assms by auto
  qed
  then show ?thesis
    using hash_part_stride [OF assms(1,2) order_refl, of "[]" W] stride_eq [OF assms(1,2), of W]
    by (simp add: numbers_def hash_class_def)
qed

lemma joined_comma:
  "(if i > 0 then joined ('','' @ nl @ '' '') (map f [0..<i]) @ '','' @ nl @ '' '' else joined ('','' @ nl @ '' '') (map f [0..<i])) @ f i =
   joined ('','' @ nl @ '' '') (map f [0..<Suc i])"
  by (simp add: joined_snoc)

lemma comma_joined:
  "comma i (s @ joined ('','' @ nl @ '' '') (map f [0..<i])) @ f i = s @ joined ('','' @ nl @ '' '') (map f [0..<Suc i])"
  using joined_comma [of i f] by (cases "i > 0") (simp_all add: comma_def)

lemma upt_split: "i \<le> n \<Longrightarrow> i < n \<Longrightarrow> [i..<n] = i # [Suc i..<n]"
  by (simp add: upt_conv_Cons)

lemma list_as_hash_text:
  assumes "i \<le> nat parts" "0 < parts" "\<And>i. f i = part_in (int i) (numbers (hash_class parts W (int i)))"
  shows "list_as_hash parts W [i..<nat parts] (s @ joined ('','' @ nl @ '' '') (map f [0..<i])) =
    s @ joined ('','' @ nl @ '' '') (map f [0..<nat parts])"
  using assms(1)
proof (induction rule: inc_induct)
  case (step k)
  have "hash_part parts W (int k) (int k) [] = numbers (hash_class parts W (int k))"
    using step(2) assms(2) by (intro hash_part_class) auto
  then have "comma k (s @ joined ('','' @ nl @ '' '') (map f [0..<k])) @ part_in (int k) (hash_part parts W (int k) (int k) []) =
      s @ joined ('','' @ nl @ '' '') (map f [0..<Suc k])"
    using comma_joined [of k s f] by (simp add: assms(3))
  then show ?case using step(2,3) by (simp add: upt_split del: upt_Suc)
qed simp

lemma next_block_size:
  assumes "0 < parts" "0 \<le> W" "0 \<le> i" "i < parts"
  shows "next_block parts W i (block_start parts W i) = block_start parts W (i + 1) - block_start parts W i"
proof -
  define q r where "q = W div parts" and "r = W mod parts"
  have W: "W = parts * q + r" "0 \<le> r" "r < parts" "0 \<le> q"
    using assms by (simp_all add: q_def r_def pos_imp_zdiv_nonneg_iff)
  have b: "block_start parts W k = k * q + min k r" for k by (simp add: block_start_def q_def r_def)
  have left: "0 < parts - i" using assms(4) by simp
  show ?thesis
  proof (cases "i < r")
    case True
    have t: "W - block_start parts W i = (parts - i) * q + (r - i)" unfolding b using True W(1) by (simp add: algebra_simps)
    have "(W - block_start parts W i) div (parts - i) = q + (r - i) div (parts - i)"
      unfolding t using left by simp
    moreover have "(r - i) div (parts - i) = 0" using True W(3) by simp
    moreover have "(W - block_start parts W i) mod (parts - i) = r - i"
      unfolding t using True W(3) by simp
    moreover have "0 \<le> W - block_start parts W i" unfolding t using True W(4) left by simp
    ultimately show ?thesis using True left by (simp add: next_block_def Let_def b go_arith) (simp add: algebra_simps)
  next
    case False
    have t: "W - block_start parts W i = (parts - i) * q" unfolding b using False W(1) by (simp add: algebra_simps)
    have "0 \<le> W - block_start parts W i" unfolding t using W(4) left by simp
    moreover have "(W - block_start parts W i) div (parts - i) = q" "(W - block_start parts W i) mod (parts - i) = 0"
      unfolding t using left by simp_all
    ultimately show ?thesis using False left by (simp add: next_block_def Let_def b go_arith) (simp add: algebra_simps)
  qed
qed

lemma block_mono:
  assumes "0 < parts" "0 \<le> W"
  shows "block_start parts W (i + 1) - block_start parts W i = W div parts + (if i < W mod parts then 1 else 0)"
  by (auto simp: block_start_def algebra_simps)

lemma list_as_range_text:
  assumes "i \<le> nat parts" "0 < parts" "0 \<le> W" "\<And>i. f i = part_in (int i) (numbers (range_class parts W (int i)))"
  shows "list_as_range parts W [i..<nat parts] (block_start parts W (int i)) (s @ joined ('','' @ nl @ '' '') (map f [0..<i])) =
    s @ joined ('','' @ nl @ '' '') (map f [0..<nat parts])"
  using assms(1)
proof (induction rule: inc_induct)
  case (step k)
  let ?n = "nat (next_block parts W (int k) (block_start parts W (int k)))"
  have size: "next_block parts W (int k) (block_start parts W (int k)) = block_start parts W (int k + 1) - block_start parts W (int k)"
    using step(2) assms(2,3) by (intro next_block_size) auto
  have "0 \<le> next_block parts W (int k) (block_start parts W (int k))"
    unfolding size block_mono [OF assms(2,3)] using assms(2,3) by (simp add: pos_imp_zdiv_nonneg_iff)
  then have "range_part ?n 0 (block_start parts W (int k)) [] = (numbers (range_class parts W (int k)), block_start parts W (int k + 1))"
    using range_part_numbers [of ?n "[]" "block_start parts W (int k)"] size by (simp add: numbers_def range_class_def)
  then have "list_as_range parts W (k # [Suc k..<nat parts]) (block_start parts W (int k)) (s @ joined ('','' @ nl @ '' '') (map f [0..<k])) =
      list_as_range parts W [Suc k..<nat parts] (block_start parts W (int (Suc k)))
        (comma k (s @ joined ('','' @ nl @ '' '') (map f [0..<k])) @ f k)"
    by (simp add: assms(4) [of k] add.commute)
  then show ?case using step(2) unfolding step(3) [symmetric] comma_joined by (simp add: upt_conv_Cons)
qed simp

lemma by_range_text:
  assumes "i \<le> nat parts" "0 < parts" "\<And>i. f i = part_less (int i) (1 + (int i + 1) * per)"
    "per = W sdiv parts + (if W smod parts \<noteq> 0 then 1 else 0)"
  shows "by_range parts W [i..<nat parts] (s @ joined ('','' @ nl @ '' '') (map f [0..<i])) =
    s @ joined ('','' @ nl @ '' '') (map f [0..<nat parts])"
  using assms(1)
proof (induction rule: inc_induct)
  case (step k)
  have "by_range parts W (k # [Suc k..<nat parts]) (s @ joined ('','' @ nl @ '' '') (map f [0..<k])) =
      by_range parts W [Suc k..<nat parts] (comma k (s @ joined ('','' @ nl @ '' '') (map f [0..<k])) @ f k)"
    unfolding by_range.simps assms(4) [symmetric] Let_def assms(3) [of k] ..
  then show ?case using step(2) unfolding step(3) [symmetric] comma_joined by (simp add: upt_conv_Cons)
qed simp

text \<open>Where a warehouse is.\<close>

lemma hash_class_unique:
  assumes "0 < parts" "w \<in> {1..W}"
  shows "\<exists>!i. i \<in> {0..<parts} \<and> w \<in> set (hash_class parts W i)"
proof (rule ex1I)
  show "(w - 1) mod parts \<in> {0..<parts} \<and> w \<in> set (hash_class parts W ((w - 1) mod parts))"
    using assms unfolding hash_class_def by (auto simp: image_iff intro!: exI [of _ "w - 1"])
next
  fix i assume "i \<in> {0..<parts} \<and> w \<in> set (hash_class parts W i)"
  then show "i = (w - 1) mod parts" by (auto simp: hash_class_def)
qed

lemma range_class_mem:
  "w \<in> set (range_class parts W i) \<longleftrightarrow> block_start parts W i < w \<and> w \<le> block_start parts W (i + 1)"
proof
  assume "w \<in> set (range_class parts W i)"
  then show "block_start parts W i < w \<and> w \<le> block_start parts W (i + 1)" by (auto simp: range_class_def)
next
  assume w: "block_start parts W i < w \<and> w \<le> block_start parts W (i + 1)"
  then have "nat (w - block_start parts W i - 1) < nat (block_start parts W (i + 1) - block_start parts W i)" by auto
  then show "w \<in> set (range_class parts W i)"
    using w unfolding range_class_def by (auto simp: image_iff intro!: bexI [of _ "nat (w - block_start parts W i - 1)"])
qed

lemma block_start_mono:
  assumes "0 < parts" "0 \<le> W" "0 \<le> i" "i \<le> j"
  shows "block_start parts W i \<le> block_start parts W j"
proof -
  have "i * (W div parts) \<le> j * (W div parts)"
    using assms by (intro mult_right_mono) (simp_all add: pos_imp_zdiv_nonneg_iff)
  then show ?thesis using assms(4) by (simp add: block_start_def)
qed

lemma range_class_unique:
  assumes "0 < parts" "w \<in> {1..W}"
  shows "\<exists>!i. i \<in> {0..<parts} \<and> w \<in> set (range_class parts W i)"
proof -
  have W: "0 \<le> W" using assms(2) by simp
  have start: "block_start parts W 0 = 0" using assms(1) by (simp add: block_start_def min_def)
  have "W mod parts < parts" using assms(1) by simp
  then have last: "block_start parts W parts = W" by (simp add: block_start_def min_def)
  have "\<exists>i. 0 \<le> i \<and> i < parts \<and> block_start parts W i < w \<and> w \<le> block_start parts W (i + 1)"
  proof -
    have "\<exists>n. w \<le> block_start parts W (int n)" using assms last by (intro exI [of _ "nat parts"]) simp
    define n where "n = (LEAST n. w \<le> block_start parts W (int n))"
    have n: "w \<le> block_start parts W (int n)" unfolding n_def by (rule LeastI_ex) fact
    have le: "n \<le> nat parts" unfolding n_def by (rule Least_le) (use assms last in simp)
    have pos: "0 < n" using n start assms(2) by (cases n) auto
    have "block_start parts W (int (n - 1)) < w"
      using not_less_Least [of "n - 1" "\<lambda>n. w \<le> block_start parts W (int n)"] pos unfolding n_def [symmetric] by simp
    then show ?thesis using n le pos by (intro exI [of _ "int (n - 1)"]) auto
  qed
  then obtain i where i: "0 \<le> i" "i < parts" "block_start parts W i < w" "w \<le> block_start parts W (i + 1)" by blast
  show ?thesis
  proof (rule ex1I [of _ i])
    show "i \<in> {0..<parts} \<and> w \<in> set (range_class parts W i)" using i by (simp add: range_class_mem)
  next
    fix j assume j: "j \<in> {0..<parts} \<and> w \<in> set (range_class parts W j)"
    then have "\<not> i < j" "\<not> j < i"
      using i block_start_mono [OF assms(1) W, of "i + 1" j] block_start_mono [OF assms(1) W, of "j + 1" i]
      by (auto simp: range_class_mem)
    then show "j = i" by simp
  qed
qed

text \<open>
  C38. Partitioning by list.  With more than one partition the text lists for each partition the
  warehouses it holds; every warehouse is in exactly one of them, in the hash form by its remainder
  and in the range form in consecutive blocks whose sizes differ by at most one.  The last bound of
  the range partitions lies above the last warehouse.
\<close>

theorem partitions_cover:
  assumes "1 < dm_parts m" "parts = dm_parts m" "W = dm_warehouses m" "0 \<le> W"
    and "list_text = (\<lambda>cls. query @ nl @ ''PARTITION BY LIST ('' @ keys @ '')'' @ nl @ ''('' @
      joined ('','' @ nl @ '' '') (map (\<lambda>i. part_in (int i) (numbers (cls parts W (int i)))) [0..<nat parts]) @ '')'')"
  shows "(dm_partitionType m = PartitionTypeListAsHash \<longrightarrow> appendPartition m query keys = list_text hash_class) \<and>
    (dm_partitionType m = PartitionTypeListAsRange \<longrightarrow> appendPartition m query keys = list_text range_class) \<and>
    (\<forall>w \<in> {1..W}. (\<exists>!i. i \<in> {0..<parts} \<and> w \<in> set (hash_class parts W i)) \<and>
       (\<exists>!i. i \<in> {0..<parts} \<and> w \<in> set (range_class parts W i))) \<and>
    (\<forall>i \<in> {0..<parts}. int (length (range_class parts W i)) = W div parts + (if i < W mod parts then 1 else 0)) \<and>
    (dm_partitionType m = PartitionTypeRange \<longrightarrow> (\<exists>per. W < 1 + parts * per \<and>
       appendPartition m query keys = query @ nl @ ''PARTITION BY RANGE ('' @ keys @ '')'' @ nl @ ''('' @
         joined ('','' @ nl @ '' '') (map (\<lambda>i. part_less (int i) (1 + (int i + 1) * per)) [0..<nat parts]) @ '')''))"
proof -
  have pos: "0 < parts" using assms(1,2) by simp
  have hash: "appendPartition m query keys = list_text hash_class" if "dm_partitionType m = PartitionTypeListAsHash"
    using list_as_hash_text [of 0 parts "\<lambda>i. part_in (int i) (numbers (hash_class parts W (int i)))" W
        "query @ nl @ ''PARTITION BY LIST ('' @ keys @ '')'' @ nl @ ''(''"] pos assms(1-3,5) that
    by (simp add: appendPartition_def Let_def)
  have start: "block_start parts W 0 = 0" using pos by (simp add: block_start_def min_def)
  have range: "appendPartition m query keys = list_text range_class" if "dm_partitionType m = PartitionTypeListAsRange"
    using list_as_range_text [of 0 parts W "\<lambda>i. part_in (int i) (numbers (range_class parts W (int i)))"
        "query @ nl @ ''PARTITION BY LIST ('' @ keys @ '')'' @ nl @ ''(''"] pos assms(1-5) that start
    by (simp add: appendPartition_def Let_def PartitionTypeListAsRange_def PartitionTypeListAsHash_def)
  have size: "int (length (range_class parts W i)) = W div parts + (if i < W mod parts then 1 else 0)" for i
    using block_mono [OF pos assms(4), of i] pos assms(4) by (simp add: range_class_def pos_imp_zdiv_nonneg_iff)
  define per where "per = W sdiv parts + (if W smod parts \<noteq> 0 then 1 else 0)"
  have bounds: "appendPartition m query keys = query @ nl @ ''PARTITION BY RANGE ('' @ keys @ '')'' @ nl @ ''('' @
      joined ('','' @ nl @ '' '') (map (\<lambda>i. part_less (int i) (1 + (int i + 1) * per)) [0..<nat parts]) @ '')''"
    if "dm_partitionType m = PartitionTypeRange"
    using by_range_text [of 0 parts "\<lambda>i. part_less (int i) (1 + (int i + 1) * per)" per W
        "query @ nl @ ''PARTITION BY RANGE ('' @ keys @ '')'' @ nl @ ''(''"] pos assms(1-3) that per_def
    by (simp add: appendPartition_def Let_def PartitionTypeListAsRange_def PartitionTypeListAsHash_def PartitionTypeRange_def)
  have bound: "W < 1 + parts * per"
  proof -
    have "W mod parts < parts" using pos by simp
    then have "W < parts * (W div parts + (if W mod parts \<noteq> 0 then 1 else 0)) + 1"
    proof (cases "W mod parts = 0")
      case False
      then show ?thesis
        using mult_div_mod_eq [of parts W] \<open>W mod parts < parts\<close> by (simp only: distrib_left simp_thms if_True mult_1_right)
    next
      case True
      then have "parts * (W div parts) = W" using mult_div_mod_eq [of parts W] by simp
      then show ?thesis using True by simp
    qed
    then show ?thesis using pos assms(4) by (simp add: per_def go_arith)
  qed
  show ?thesis
    using hash range size bounds bound hash_class_unique [OF pos] range_class_unique [OF pos] by blast
qed

definition sample_ddl :: ddlManager where
  "sample_ddl = newDDLManager 4 False 10 PartitionTypeListAsRange False"

lemma partitions_cover_witness:
  "appendPartition sample_ddl ''t'' ''w_id'' =
     ''t'' @ nl @ ''PARTITION BY LIST (w_id)'' @ nl @ ''('' @
     joined ('','' @ nl @ '' '') [part_in 0 ''1,2,3'', part_in 1 ''4,5,6'', part_in 2 ''7,8'', part_in 3 ''9,10''] @ '')'' \<and>
   appendPartition (newDDLManager 4 False 10 PartitionTypeRange False) ''t'' ''w_id'' =
     ''t'' @ nl @ ''PARTITION BY RANGE (w_id)'' @ nl @ ''('' @
     joined ('','' @ nl @ '' '') [part_less 0 4, part_less 1 7, part_less 2 10, part_less 3 13] @ '')''"
proof
  have t: "dm_parts sample_ddl = 4" "dm_warehouses sample_ddl = 10" "dm_partitionType sample_ddl = PartitionTypeListAsRange"
    by (simp_all add: sample_ddl_def newDDLManager_def)
  have c: "range_class 4 10 0 = [1, 2, 3]" "range_class 4 10 1 = [4, 5, 6]" "range_class 4 10 2 = [7, 8]" "range_class 4 10 3 = [9, 10]"
    by (simp_all add: range_class_def block_start_def upt_rec)
  have n: "numbers [1, 2, 3] = ''1,2,3''" "numbers [4, 5, 6] = ''4,5,6''" "numbers [7, 8] = ''7,8''" "numbers [9, 10] = ''9,10''"
    by code_simp+
  have u: "[0..<nat 4] = [0, 1, 2, 3]" by (simp add: upt_rec)
  show "appendPartition sample_ddl ''t'' ''w_id'' = ''t'' @ nl @ ''PARTITION BY LIST (w_id)'' @ nl @ ''('' @
     joined ('','' @ nl @ '' '') [part_in 0 ''1,2,3'', part_in 1 ''4,5,6'', part_in 2 ''7,8'', part_in 3 ''9,10''] @ '')''"
  proof -
    have "appendPartition sample_ddl ''t'' ''w_id'' = ''t'' @ nl @ ''PARTITION BY LIST ('' @ ''w_id'' @ '')'' @ nl @ ''('' @
        joined ('','' @ nl @ '' '') (map (\<lambda>i. part_in (int i) (numbers (range_class 4 10 (int i)))) [0..<nat 4]) @ '')''"
      by (rule partitions_cover [where m = sample_ddl and parts = 4 and W = 10 and query = "''t''" and keys = "''w_id''",
            OF _ _ _ _ refl, THEN conjunct2, THEN conjunct1, rule_format]) (simp_all add: t)
    then show ?thesis unfolding u by (simp add: c n)
  qed
  show "appendPartition (newDDLManager 4 False 10 PartitionTypeRange False) ''t'' ''w_id'' =
     ''t'' @ nl @ ''PARTITION BY RANGE (w_id)'' @ nl @ ''('' @
     joined ('','' @ nl @ '' '') [part_less 0 4, part_less 1 7, part_less 2 10, part_less 3 13] @ '')''"
    by (simp add: appendPartition_def newDDLManager_def Let_def PartitionTypeListAsRange_def PartitionTypeListAsHash_def
        PartitionTypeRange_def upt_rec comma_def go_arith)
qed

end
