(* ===== verification/TpccCheck.thy ===== *)
theory TpccCheck
  imports TpccSafe
begin

text \<open>
  The consistency checks of \<open>tpcc/check.go\<close>: the query of each condition over the tables, the
  loops of \<open>check\<close>, and how the conditions relate to the invariant \<open>consistent\<close>.  A query is the
  list of the rows it returns; \<open>SUM\<close> and a join without a partner give \<open>NULL\<close>, which is \<open>None\<close>.
\<close>

subsection \<open>Grouping\<close>

definition group_by :: "('a \<Rightarrow> 'k) \<Rightarrow> 'a list \<Rightarrow> ('k \<times> 'a list) list" where
  "group_by key xs = map (\<lambda>k. (k, filter (\<lambda>x. key x = k) xs)) (remdups (map key xs))"

definition max_of :: "int list \<Rightarrow> int" where
  "max_of xs = Max (set xs)"

definition min_of :: "int list \<Rightarrow> int" where
  "min_of xs = Min (set xs)"

definition sum_null :: "int list \<Rightarrow> int option" where
  "sum_null xs = (if xs = [] then None else Some (sum_list xs))"

subsection \<open>The queries\<close>

definition query1 :: "int \<Rightarrow> db \<Rightarrow> int list" where
  "query1 w t =
     (let rows = [(r, v). r \<leftarrow> districts t, v \<leftarrow> warehouses t, d_w_id r = w_id v \<and> w_id v = w]
      in [sum_list (map (\<lambda>(r, v). d_ytd r) g) - max_of (map (\<lambda>(r, v). w_ytd v) g).
          (k, g) \<leftarrow> group_by (\<lambda>(r, v). d_w_id r) rows])"

definition query2 :: "int \<Rightarrow> db \<Rightarrow> int list" where
  "query2 w t =
     [(d_next_o_id dis - 1 - max_of (map o_id os)) ^ 2 + (d_next_o_id dis - 1 - max_of (map no_o_id ns)) ^ 2.
        dis \<leftarrow> districts t,
        (q, os) \<leftarrow> group_by o_d_id (filter (\<lambda>r. o_w_id r = w) (orders t)),
        (no, ns) \<leftarrow> group_by no_d_id (filter (\<lambda>r. no_w_id r = w) (new_orders t)),
        d_w_id dis = w \<and> q = d_id dis \<and> no = d_id dis]"

definition query3 :: "int \<Rightarrow> db \<Rightarrow> int list" where
  "query3 w t =
     [max_of (map no_o_id g) - min_of (map no_o_id g) + 1 - int (length g).
        (k, g) \<leftarrow> group_by no_d_id (filter (\<lambda>r. no_w_id r = w) (new_orders t))]"

definition query4 :: "int \<Rightarrow> db \<Rightarrow> int list" where
  "query4 w t =
     (let rows = [(r, cn). r \<leftarrow> orders t,
            (d, cn) \<leftarrow> map (\<lambda>(d, g). (d, int (length g)))
              (group_by ol_d_id (filter (\<lambda>l. ol_w_id l = w) (order_lines t))),
            o_w_id r = w \<and> d = o_d_id r];
          t1 = [(sum_list (map (\<lambda>(r, cn). o_ol_cnt r) g), max_of (map (\<lambda>(r, cn). cn) g)).
            (k, g) \<leftarrow> group_by (\<lambda>(r, cn). o_d_id r) rows]
      in [int (length (filter (\<lambda>(sm1, cn). sm1 \<noteq> cn) t1))])"

text \<open>\<open>LEFT JOIN\<close>: a row without a partner is joined with \<open>NULL\<close>.\<close>

definition left_join :: "('a \<Rightarrow> 'b \<Rightarrow> bool) \<Rightarrow> 'a list \<Rightarrow> 'b list \<Rightarrow> ('a \<times> 'b option) list" where
  "left_join on as bs = concat (map (\<lambda>a.
     (case filter (on a) bs of [] \<Rightarrow> [(a, None)] | ms \<Rightarrow> map (\<lambda>b. (a, Some b)) ms)) as)"

definition query5 :: "int \<Rightarrow> db \<Rightarrow> int list" where
  "query5 w t = [int (length (filter
     (\<lambda>(r, n). o_w_id r = w \<and> (o_carrier_id r = None \<and> n = None \<or> o_carrier_id r \<noteq> None \<and> n \<noteq> None))
     (left_join (\<lambda>r n. no_w_id n = o_w_id r \<and> o_d_id r = no_d_id n \<and> o_id r = no_o_id n)
        (orders t) (new_orders t))))]"

definition query6 :: "int \<Rightarrow> db \<Rightarrow> int list" where
  "query6 w t =
     (let counts = group_by (\<lambda>l. (ol_w_id l, ol_d_id l, ol_o_id l)) (filter (\<lambda>l. ol_w_id l = w) (order_lines t));
          rows = filter (\<lambda>(r, g). o_w_id r = w)
            (left_join (\<lambda>r g. fst g = (o_w_id r, o_d_id r, o_id r)) (orders t) counts)
      in [int (length (filter
        (\<lambda>(r, g). case g of None \<Rightarrow> False | Some (k, ls) \<Rightarrow> o_ol_cnt r \<noteq> int (length ls)) rows))])"

definition query7 :: "int \<Rightarrow> db \<Rightarrow> int list" where
  "query7 w t = [int (length
     [(r, l). r \<leftarrow> orders t, l \<leftarrow> order_lines t,
        o_id r = ol_o_id l \<and> o_d_id r = ol_d_id l \<and> ol_w_id l = o_w_id r \<and> o_w_id r = w \<and>
        (ol_delivery_d l = None \<and> o_carrier_id r \<noteq> None \<or> o_carrier_id r = None \<and> ol_delivery_d l \<noteq> None)])]"

definition query8 :: "int \<Rightarrow> db \<Rightarrow> int list" where
  "query8 w t =
     (let rows = [(h, v). h \<leftarrow> histories t, v \<leftarrow> warehouses t, h_w_id h = w_id v \<and> w_id v = w];
          t1 = [(w_ytd (snd (hd g)), sum_list (map (\<lambda>(h, v). h_amount h) g)).
            (k, g) \<leftarrow> group_by (\<lambda>(h, v). w_id v) rows]
      in [int (length (filter (\<lambda>(ytd, sm). ytd \<noteq> sm) t1))])"

definition query9 :: "int \<Rightarrow> db \<Rightarrow> int list" where
  "query9 w t = [int (length
     [(d, h). (d, rs) \<leftarrow> group_by (\<lambda>r. (d_id r, d_w_id r)) (districts t),
        (h, hs) \<leftarrow> group_by (\<lambda>h. (h_d_id h, h_w_id h)) (filter (\<lambda>h. h_w_id h = w) (histories t)),
        fst h = fst d \<and> snd d = snd h \<and> snd d = w \<and> sum_list (map d_ytd rs) \<noteq> sum_list (map h_amount hs)])]"

text \<open>The subqueries of conditions 10 and 12.\<close>

definition delivered_null :: "int \<Rightarrow> db \<Rightarrow> customer_row \<Rightarrow> int option" where
  "delivered_null w t c = sum_null
     [ol_amount l. r \<leftarrow> orders t, l \<leftarrow> order_lines t,
        ol_w_id l = o_w_id r \<and> ol_d_id l = o_d_id r \<and> ol_o_id l = o_id r \<and> ol_delivery_d l \<noteq> None \<and>
        o_w_id r = w \<and> o_d_id r = c_d_id c \<and> o_c_id r = c_id c]"

definition paid_null :: "int \<Rightarrow> db \<Rightarrow> customer_row \<Rightarrow> int option" where
  "paid_null w t c = sum_null
     [h_amount h. h \<leftarrow> histories t, h_c_w_id h = w \<and> h_c_d_id h = c_d_id c \<and> h_c_id h = c_id c]"

definition query10 :: "int \<Rightarrow> db \<Rightarrow> int list" where
  "query10 w t = [int (length (filter
     (\<lambda>c. c_w_id c = w \<and> (case (delivered_null w t c, paid_null w t c) of
        (Some sm, Some smh) \<Rightarrow> c_balance c \<noteq> sm - smh | _ \<Rightarrow> False)) (customers t)))]"

definition query11 :: "bool \<Rightarrow> int \<Rightarrow> db \<Rightarrow> (int \<times> int \<times> int) list" where
  "query11 freshlyLoaded w t =
     [(d, int (length os), int (length ns)).
        (d, os) \<leftarrow> group_by o_d_id (filter (\<lambda>r. o_w_id r = w) (orders t)),
        (d', ns) \<leftarrow> group_by no_d_id (filter (\<lambda>r. no_w_id r = w) (new_orders t)),
        (d'', cs) \<leftarrow> group_by c_d_id (filter (\<lambda>c. c_w_id c = w) (customers t)),
        d = d' \<and> d = d'' \<and>
        (if freshlyLoaded then int (length os) - int (length ns) \<noteq> 2100
         else int (length os) - int (length ns) < 2100)]"

definition query12 :: "int \<Rightarrow> db \<Rightarrow> int list" where
  "query12 w t = [int (length (filter
     (\<lambda>c. c_w_id c = w \<and> (case delivered_null w t c of
        Some sm \<Rightarrow> c_balance c + c_ytd_payment c \<noteq> sm | None \<Rightarrow> False)) (customers t)))]"

subsection \<open>The checks\<close>

type_synonym checkFunc = "int \<Rightarrow> session \<Rightarrow> goerr option \<times> session"

text \<open>A check runs its query, complains of a difference, and then asks whether reading failed.\<close>

definition checkCondition :: "(int \<Rightarrow> db \<Rightarrow> int list) \<Rightarrow> string \<Rightarrow> checkFunc" where
  "checkCondition query msg w s =
     (case call (select (query w)) s of
        (Inl e, s) \<Rightarrow> (Some [Plain ''exec failed''], s)
      | (Inr rows, s) \<Rightarrow>
          if \<exists>diff \<in> set rows. diff \<noteq> 0 then (Some [Plain msg], s)
          else (case call no_change s of
              (Inl e, s) \<Rightarrow> (Some e, s)
            | (Inr u, s) \<Rightarrow> (None, s)))"

definition checkCondition11 :: "bool \<Rightarrow> checkFunc" where
  "checkCondition11 freshlyLoaded w s =
     (case call (select (query11 freshlyLoaded w)) s of
        (Inl e, s) \<Rightarrow> (Some [Plain ''exec failed''], s)
      | (Inr violations, s) \<Rightarrow>
          (case call no_change s of
             (Inl e, s) \<Rightarrow> (Some e, s)
           | (Inr u, s) \<Rightarrow>
               if violations \<noteq> []
               then (Some [Plain ''(count(*) from ORDER) - (count(*) from NEW-ORDER)''], s)
               else (None, s)))"

definition checkCondition1 :: checkFunc where
  "checkCondition1 = checkCondition query1 ''sum(d_ytd) - max(w_ytd) should be 0''"

definition checkCondition2 :: checkFunc where
  "checkCondition2 = checkCondition query2 ''POWER((d_next_o_id -1 - mo), 2) + POWER((d_next_o_id -1 - mno),2) != 0''"

definition checkCondition3 :: checkFunc where
  "checkCondition3 = checkCondition query3 ''max(no_o_id)-min(no_o_id)+1 - count(*)''"

definition checkCondition4 :: checkFunc where
  "checkCondition4 = checkCondition query4 ''count(*)''"

definition checkCondition5 :: checkFunc where
  "checkCondition5 = checkCondition query5 ''count(*)''"

definition checkCondition6 :: checkFunc where
  "checkCondition6 = checkCondition query6 ''all of O_OL_CNT - count(order_line) should be 0''"

definition checkCondition7 :: checkFunc where
  "checkCondition7 = checkCondition query7 ''count(*)''"

definition checkCondition8 :: checkFunc where
  "checkCondition8 = checkCondition query8 ''count(*)''"

definition checkCondition9 :: checkFunc where
  "checkCondition9 = checkCondition query9 ''count(*)''"

definition checkCondition10 :: checkFunc where
  "checkCondition10 = checkCondition query10 ''count(*)''"

definition checkCondition12 :: checkFunc where
  "checkCondition12 = checkCondition query12 ''count(*)''"

lemmas checkCondition_defs = checkCondition1_def checkCondition2_def checkCondition3_def checkCondition4_def checkCondition5_def checkCondition6_def checkCondition7_def
  checkCondition8_def checkCondition9_def checkCondition10_def checkCondition12_def

definition checks :: "bool \<Rightarrow> bool \<Rightarrow> (string \<times> checkFunc) list" where
  "checks checkAll freshlyLoaded =
     [(''3.3.2.1'', checkCondition1),
      (''3.3.2.2'', checkCondition2),
      (''3.3.2.3'', checkCondition3),
      (''3.3.2.4'', checkCondition4),
      (''3.3.2.5'', checkCondition5),
      (''3.3.2.6'', checkCondition6),
      (''3.3.2.7'', checkCondition7),
      (''3.3.2.8'', checkCondition8),
      (''3.3.2.9'', checkCondition9),
      (''3.3.2.10'', checkCondition10),
      (''3.3.2.12'', checkCondition12)] @
     (if checkAll then [(''3.3.2.11'', checkCondition11 freshlyLoaded)] else [])"

text \<open>
  The loops of \<open>check\<close>.  Iterating over the map of checks takes them in an arbitrary order, given by
  \<open>order\<close> for each round.  \<open>None\<close> is a thread count that is not positive: the division fails or the
  loop does not advance.
\<close>

fun check_warehouse :: "(string \<times> checkFunc) list \<Rightarrow> int \<Rightarrow> session \<Rightarrow> goerr option \<times> session" where
  "check_warehouse [] w s = (None, s)"
| "check_warehouse ((idx, c) # cs) w s =
     (case c w s of
        (Some e, s) \<Rightarrow> (Some [Plain (''check warehouse at condition '' @ idx @ '' failed'')], s)
      | (None, s) \<Rightarrow> check_warehouse cs w s)"

function check_loop :: "(int \<Rightarrow> (string \<times> checkFunc) list) \<Rightarrow> int \<Rightarrow> int \<Rightarrow> int \<Rightarrow> session \<Rightarrow>
    (goerr option \<times> session) option" where
  "check_loop order threads W i s =
     (if threads \<le> 0 then None
      else if i < W then
        (case check_warehouse (order i) (i smod W + 1) s of
           (Some e, s) \<Rightarrow> Some (Some e, s)
         | (None, s) \<Rightarrow> check_loop order threads W (i + threads) s)
      else Some (None, s))"
  by pat_completeness auto
termination
  by (relation "measure (\<lambda>(order, threads, W, i, s). nat (W - i))") auto

declare check_loop.simps [simp del]

definition check :: "((string \<times> checkFunc) list \<Rightarrow> int \<Rightarrow> (string \<times> checkFunc) list) \<Rightarrow>
    int \<Rightarrow> int \<Rightarrow> bool \<Rightarrow> bool \<Rightarrow> int \<Rightarrow> session \<Rightarrow> (goerr option \<times> session) option" where
  "check order threads W checkAll freshlyLoaded threadID s =
     check_loop (order (checks checkAll freshlyLoaded)) threads W (threadID smod threads) s"

text \<open>\<open>CheckPrepare\<close> and \<open>Check\<close>.\<close>

definition CheckPrepare :: "((string \<times> checkFunc) list \<Rightarrow> int \<Rightarrow> (string \<times> checkFunc) list) \<Rightarrow>
    int \<Rightarrow> int \<Rightarrow> int \<Rightarrow> session \<Rightarrow> (goerr option \<times> session) option" where
  "CheckPrepare order threads W threadID s = check order threads W True True threadID s"

definition Check :: "((string \<times> checkFunc) list \<Rightarrow> int \<Rightarrow> (string \<times> checkFunc) list) \<Rightarrow>
    int \<Rightarrow> int \<Rightarrow> bool \<Rightarrow> int \<Rightarrow> session \<Rightarrow> (goerr option \<times> session) option" where
  "Check order threads W checkAll threadID s = check order threads W checkAll False threadID s"

subsection \<open>Joins and groups\<close>

lemma comp_filter: "concat (map (\<lambda>x. if P x then [f x] else []) xs) = map f (filter P xs)"
  by (induction xs) auto

lemma max_of_same: "xs \<noteq> [] \<Longrightarrow> max_of (map (\<lambda>x. c) xs) = c"
  by (cases xs) (auto simp: max_of_def image_constant_conv)

lemma comp2_empty:
  "(\<And>d rs h hs. (d, rs) \<in> set A \<Longrightarrow> (h, hs) \<in> set B \<Longrightarrow> \<not> C d rs h hs) \<Longrightarrow>
   concat (map (\<lambda>(d, rs). concat (map (\<lambda>(h, hs). if C d rs h hs then [f d h] else []) B)) A) = []"
  by auto

lemma sum_list_filter: "sum_list (map f (filter P xs)) = sum_where P f xs"
  by (simp add: sum_where_def)

lemma group_by_mem:
  "(k, g) \<in> set (group_by key xs) \<longleftrightarrow> k \<in> key ` set xs \<and> g = filter (\<lambda>x. key x = k) xs"
  by (auto simp: group_by_def)

lemma group_hd: "(k, g) \<in> set (group_by key xs) \<Longrightarrow> hd g \<in> set xs \<and> key (hd g) = k \<and> g \<noteq> []"
proof -
  assume "(k, g) \<in> set (group_by key xs)"
  then have g: "g = filter (\<lambda>x. key x = k) xs" and "k \<in> key ` set xs" by (auto simp: group_by_mem)
  then have "g \<noteq> []" by (auto simp: filter_empty_conv)
  then have "hd g \<in> set g" by (rule hd_in_set)
  then show ?thesis using g \<open>g \<noteq> []\<close> by simp
qed

lemma left_join_mem:
  "(a, m) \<in> set (left_join on as bs) \<longleftrightarrow>
   a \<in> set as \<and> (case m of None \<Rightarrow> \<forall>b \<in> set bs. \<not> on a b | Some b \<Rightarrow> b \<in> set bs \<and> on a b)"
proof -
  have "(a, m) \<in> set (case filter (on c) bs of [] \<Rightarrow> [(c, None)] | ms \<Rightarrow> map (\<lambda>b. (c, Some b)) ms) \<longleftrightarrow>
      c = a \<and> (case m of None \<Rightarrow> \<forall>b \<in> set bs. \<not> on a b | Some b \<Rightarrow> b \<in> set bs \<and> on a b)" for c
  proof (cases "filter (on c) bs")
    case Nil
    then show ?thesis by (auto simp: filter_empty_conv split: option.split)
  next
    case (Cons b ms)
    then have "\<exists>b \<in> set bs. on c b" using filter_empty_conv [of "on c" bs] by auto
    moreover have "set (b # ms) = {b \<in> set bs. on c b}" unfolding Cons [symmetric] by simp
    ultimately have "set (map (\<lambda>b. (c, Some b)) (b # ms)) = (\<lambda>b. (c, Some b)) ` {b \<in> set bs. on c b}"
      by (simp only: list.set_map)
    then show ?thesis using \<open>\<exists>b \<in> set bs. on c b\<close>
      by (simp add: Cons del: list.set list.map) (auto split: option.split)
  qed
  then show ?thesis by (auto simp: left_join_def)
qed

text \<open>A join whose right side has at most one partner \<open>b\<close>.\<close>

lemma join_one:
  assumes "\<And>a. a \<in> set as \<Longrightarrow> filter (P a) bs = (if Q a then [b] else [])"
  shows "concat (map (\<lambda>a. concat (map (\<lambda>x. if P a x then [(a, x)] else []) bs)) as) = map (\<lambda>a. (a, b)) (filter Q as)"
  using assms by (induction as) (auto simp: comp_filter)

lemma warehouse_filter:
  assumes "cond_keys t" "v \<in> set (warehouses t)"
  shows "filter (\<lambda>x. w_id x = w_id v) (warehouses t) = [v]"
  using assms by (intro filter_key [where key = w_key]) (auto simp: cond_keys_def w_key_def)

lemma warehouse_join:
  assumes u: "cond_keys t" and v: "v \<in> set (warehouses t)" "w_id v = w"
  shows "concat (map (\<lambda>a. concat (map (\<lambda>x. if f a = w_id x \<and> w_id x = w then [(a, x)] else [])
     (warehouses t))) as) = map (\<lambda>a. (a, v)) (filter (\<lambda>a. f a = w) as)"
proof (rule join_one)
  fix a
  have "filter (\<lambda>x. f a = w_id x \<and> w_id x = w) (warehouses t) =
      (if f a = w then filter (\<lambda>x. w_id x = w_id v) (warehouses t) else [])"
    using v(2) by (auto intro: filter_cong)
  then show "filter (\<lambda>x. f a = w_id x \<and> w_id x = w) (warehouses t) = (if f a = w then [v] else [])"
    by (simp add: warehouse_filter [OF u v(1)])
qed

lemma warehouse_join_none:
  assumes "w \<notin> w_id ` set (warehouses t)"
  shows "concat (map (\<lambda>a. concat (map (\<lambda>x. if f a = w_id x \<and> w_id x = w then [(a, x)] else [])
     (warehouses t))) as) = []"
  using assms by auto

subsection \<open>No false alarms\<close>

lemma query1_zero:
  assumes "cond_keys t" "cond_ytd t" "x \<in> set (query1 w t)"
  shows "x = 0"
proof (cases "w \<in> w_id ` set (warehouses t)")
  case True
  then obtain v where v: "v \<in> set (warehouses t)" "w_id v = w" by auto
  note j = warehouse_join [OF assms(1) v, of d_w_id "districts t"]
  let ?rows = "map (\<lambda>a. (a, v)) (filter (\<lambda>a. d_w_id a = w) (districts t))"
  obtain k g where g: "(k, g) \<in> set (group_by (\<lambda>(r, v). d_w_id r) ?rows)"
    and x: "x = sum_list (map (\<lambda>(r, v). d_ytd r) g) - max_of (map (\<lambda>(r, v). w_ytd v) g)"
    using assms(3) by (auto simp: query1_def j Let_def)
  have "k = w" using group_hd [OF g] by auto
  then have all: "g = ?rows" using g by (auto simp: group_by_mem filter_map o_def)
  have ne: "g \<noteq> []" using group_hd [OF g] by simp
  then have "max_of (map (\<lambda>(r, v). w_ytd v) g) = w_ytd v" by (simp add: all o_def max_of_same)
  moreover have "sum_list (map (\<lambda>(r, v). d_ytd r) g) = w_ytd v"
    using assms(2) v by (auto simp: all o_def sum_list_filter cond_ytd_def)
  ultimately show ?thesis by (simp add: x)
next
  case False
  then show ?thesis using assms(3)
    by (simp add: query1_def warehouse_join_none group_by_def)
qed

lemma query8_zero:
  assumes "cond_keys t" "cond_ytd t" "x \<in> set (query8 w t)"
  shows "x = 0"
proof (cases "w \<in> w_id ` set (warehouses t)")
  case True
  then obtain v where v: "v \<in> set (warehouses t)" "w_id v = w" by auto
  note j = warehouse_join [OF assms(1) v, of h_w_id "histories t"]
  let ?rows = "map (\<lambda>a. (a, v)) (filter (\<lambda>a. h_w_id a = w) (histories t))"
  have "w_ytd (snd (hd g)) = sum_list (map (\<lambda>(h, v). h_amount h) g)"
    if g: "(k, g) \<in> set (group_by (\<lambda>(h, v). w_id v) ?rows)" for k g
  proof -
    have "k = w" using group_hd [OF g] v by auto
    then have all: "g = ?rows" using g v by (auto simp: group_by_mem filter_map o_def)
    have "snd (hd g) = v" using group_hd [OF g] by auto
    then show ?thesis using assms(2) v by (auto simp: all o_def sum_list_filter cond_ytd_def)
  qed
  then show ?thesis using assms(3) by (auto simp: query8_def j Let_def filter_empty_conv)
next
  case False
  then show ?thesis using assms(3)
    by (simp add: query8_def warehouse_join_none group_by_def)
qed

lemma max_of_ids: "f ` set xs = {m..<n} \<Longrightarrow> m < n \<Longrightarrow> max_of (map f xs) = n - (1 :: int)"
  unfolding max_of_def by (simp add: Max_eq_iff)

lemma min_of_ids: "f ` set xs = {m..<n} \<Longrightarrow> m < n \<Longrightarrow> min_of (map f xs) = (m :: int)"
  unfolding min_of_def by (simp add: Min_eq_iff)

text \<open>The orders and new orders of a district, as the queries select them.\<close>

lemma district_orders:
  "o_id ` {x \<in> set os. o_w_id x = w \<and> o_d_id x = d} = order_ids os (w, d)"
  by (auto simp: order_ids_def o_key_def image_iff)

lemma district_new_orders:
  "no_o_id ` {x \<in> set ns. no_w_id x = w \<and> no_d_id x = d} = new_order_ids ns (w, d)"
  by (auto simp: new_order_ids_def no_key_def image_iff)

lemma query2_zero:
  assumes "cond_ids t" "x \<in> set (query2 w t)"
  shows "x = 0"
proof -
  obtain r q os ns where r: "r \<in> set (districts t)" "d_w_id r = w"
    and os: "(d_id r, os) \<in> set (group_by o_d_id (filter (\<lambda>r. o_w_id r = w) (orders t)))"
    and ns: "(d_id r, ns) \<in> set (group_by no_d_id (filter (\<lambda>r. no_w_id r = w) (new_orders t)))"
    and x: "x = (d_next_o_id r - 1 - max_of (map o_id os)) ^ 2 + (d_next_o_id r - 1 - max_of (map no_o_id ns)) ^ 2"
    using assms(2) by (auto simp: query2_def split: if_splits)
  have k: "d_key r = (w, d_id r)" using r(2) by (simp add: d_key_def)
  obtain m where ids: "order_ids (orders t) (w, d_id r) = {1..<d_next_o_id r}"
    "new_order_ids (new_orders t) (w, d_id r) = {m..<d_next_o_id r}"
    using assms(1) r(1) by (auto simp: cond_ids_def k)
  have e: "o_id ` set os = {1..<d_next_o_id r}" "no_o_id ` set ns = {m..<d_next_o_id r}"
    using os ns ids by (simp_all add: group_by_mem district_orders district_new_orders)
  have "os \<noteq> []" "ns \<noteq> []" using group_hd [OF os] group_hd [OF ns] by simp_all
  then have "1 < d_next_o_id r" "m < d_next_o_id r" using e by (auto simp flip: set_empty)
  then show ?thesis using max_of_ids [OF e(1)] max_of_ids [OF e(2)] by (simp add: x)
qed

lemma query3_zero:
  assumes "cond_keys t" "cond_ids t" "x \<in> set (query3 w t)"
  shows "x = 0"
proof -
  obtain k g where g: "(k, g) \<in> set (group_by no_d_id (filter (\<lambda>r. no_w_id r = w) (new_orders t)))"
    and x: "x = max_of (map no_o_id g) - min_of (map no_o_id g) + 1 - int (length g)"
    using assms(3) by (auto simp: query3_def)
  have n: "hd g \<in> set (new_orders t)" "no_w_id (hd g) = w" "no_d_id (hd g) = k" "g \<noteq> []"
    using group_hd [OF g] by auto
  then obtain o' where o': "o' \<in> set (orders t)" "o_key o' = no_key (hd g)"
    using assms(1) by (force simp: cond_keys_def)
  then obtain r where r: "r \<in> set (districts t)" "d_key r = (w, k)"
    using assms(1) n by (force simp: cond_keys_def o_key_def no_key_def)
  obtain m where ids: "new_order_ids (new_orders t) (w, k) = {m..<d_next_o_id r}"
    using assms(2) r by (auto simp: cond_ids_def)
  have gs: "g = filter (\<lambda>r. no_w_id r = w \<and> no_d_id r = k) (new_orders t)"
    using g by (simp add: group_by_mem)
  have e: "no_o_id ` set g = {m..<d_next_o_id r}" using ids by (simp add: gs district_new_orders)
  have "distinct (map no_key g)"
    using assms(1) by (simp add: gs cond_keys_def distinct_map_filter)
  then have "distinct (map no_o_id g)"
    by (simp add: gs distinct_map inj_on_def no_key_def)
  then have "length g = card (no_o_id ` set g)"
    using distinct_card [of "map no_o_id g"] by simp
  moreover have "m < d_next_o_id r" using e n(4) by (auto simp flip: set_empty)
  ultimately show ?thesis using max_of_ids [OF e] min_of_ids [OF e] by (simp add: x e)
qed

lemma query5_zero:
  assumes "cond_carrier t" "x \<in> set (query5 w t)"
  shows "x = 0"
proof -
  let ?on = "\<lambda>r n. no_w_id n = o_w_id r \<and> o_d_id r = no_d_id n \<and> o_id r = no_o_id n"
  have "\<not> (o_carrier_id r = None \<and> n = None \<or> o_carrier_id r \<noteq> None \<and> n \<noteq> None)"
    if "(r, n) \<in> set (left_join ?on (orders t) (new_orders t))" for r n
  proof -
    have "n \<noteq> None \<longleftrightarrow> o_key r \<in> no_key ` set (new_orders t)"
      using that by (cases n) (auto simp: left_join_mem o_key_def no_key_def image_iff intro!: bexI)
    then show ?thesis using assms(1) that by (auto simp: cond_carrier_def left_join_mem)
  qed
  then have "filter (\<lambda>(r, n). o_w_id r = w \<and> (o_carrier_id r = None \<and> n = None \<or>
      o_carrier_id r \<noteq> None \<and> n \<noteq> None)) (left_join ?on (orders t) (new_orders t)) = []"
    unfolding filter_empty_conv by blast
  then show ?thesis using assms(2) by (simp add: query5_def)
qed

lemma query6_zero:
  assumes "cond_lines t" "x \<in> set (query6 w t)"
  shows "x = 0"
proof -
  let ?counts = "group_by (\<lambda>l. (ol_w_id l, ol_d_id l, ol_o_id l)) (filter (\<lambda>l. ol_w_id l = w) (order_lines t))"
  let ?join = "left_join (\<lambda>r g. fst g = (o_w_id r, o_d_id r, o_id r)) (orders t) ?counts"
  have "o_ol_cnt r = int (length ls)"
    if "(r, Some (k, ls)) \<in> set ?join" "o_w_id r = w" for r k ls
  proof -
    have r: "r \<in> set (orders t)" "k = (o_w_id r, o_d_id r, o_id r)" "(k, ls) \<in> set ?counts"
      using that(1) unfolding left_join_mem by auto
    have "ls = filter (\<lambda>l. ol_order l = o_key r) (order_lines t)"
      using r(2,3) that(2) by (auto simp: group_by_mem ol_order_def o_key_def intro: filter_cong)
    then show ?thesis using assms(1) r(1) by (simp add: cond_lines_def count_where_def)
  qed
  then have "filter (\<lambda>(r, g). case g of None \<Rightarrow> False | Some (k, ls) \<Rightarrow> o_ol_cnt r \<noteq> int (length ls))
      (filter (\<lambda>(r, g). o_w_id r = w) ?join) = []"
    by (auto simp: filter_empty_conv split: option.splits prod.splits)
  then show ?thesis using assms(2) by (simp add: query6_def Let_def)
qed

lemma query7_zero: "cond_delivered t \<Longrightarrow> x \<in> set (query7 w t) \<Longrightarrow> x = 0"
  by (auto simp: query7_def cond_delivered_def ol_order_def o_key_def)

lemma query9_zero:
  assumes "cond_ytd t" "cond_keys t" "x \<in> set (query9 w t)"
  shows "x = 0"
proof -
  have "sum_list (map d_ytd rs) = sum_list (map h_amount hs)"
    if rs: "(d, rs) \<in> set (group_by (\<lambda>r. (d_id r, d_w_id r)) (districts t))"
      and hs: "(h, hs) \<in> set (group_by (\<lambda>h. (h_d_id h, h_w_id h)) (filter (\<lambda>h. h_w_id h = w) (histories t)))"
      and eq: "fst h = fst d" "snd d = snd h" "snd d = w" for d rs h hs
  proof -
    obtain r where r: "r \<in> set (districts t)" "d = (d_id r, d_w_id r)"
      using group_hd [OF rs] by blast
    have "rs = filter (\<lambda>x. (d_id x, d_w_id x) = (d_id r, d_w_id r)) (districts t)"
      using conjunct2 [OF rs [unfolded group_by_mem]] r(2) by simp
    also have "\<dots> = [r]"
      using r(1) assms(2) by (intro filter_key [where key = d_key]) (auto simp: cond_keys_def d_key_def)
    finally have "rs = [r]" .
    moreover have "hs = filter (\<lambda>x. (h_w_id x, h_d_id x) = d_key r) (histories t)"
      using conjunct2 [OF hs [unfolded group_by_mem]] eq r(2)
      by (cases h) (simp, intro filter_cong, auto simp: d_key_def)
    ultimately show ?thesis using assms(1) r(1) by (simp add: cond_ytd_def sum_where_def)
  qed
  then show ?thesis using assms(3) by (subst (asm) query9_def, subst (asm) comp2_empty) auto
qed

text \<open>Condition 4: the lines of a district are those of its orders.\<close>

lemma count_by_order:
  assumes "distinct (map o_key os)"
    and "\<And>l. l \<in> set ls \<Longrightarrow> P l \<Longrightarrow> \<exists>r \<in> set os. Q r \<and> o_key r = ol_order l"
    and "\<And>l r. l \<in> set ls \<Longrightarrow> r \<in> set os \<Longrightarrow> Q r \<Longrightarrow> o_key r = ol_order l \<Longrightarrow> P l"
  shows "sum_where Q (\<lambda>r. count_where (\<lambda>l. ol_order l = o_key r) ls) os = count_where P ls"
  using assms(2,3)
proof (induction ls)
  case Nil
  then show ?case by (simp add: count_where_def sum_where_none)
next
  case (Cons l ls)
  have c: "count_where R (l # ls) = (if R l then 1 else 0) + count_where R ls" for R
    by (simp add: count_where_def)
  have "sum_where Q (\<lambda>r. count_where (\<lambda>l. ol_order l = o_key r) (l # ls)) os =
      sum_where Q (\<lambda>r. if ol_order l = o_key r then 1 else 0) os +
      sum_where Q (\<lambda>r. count_where (\<lambda>l. ol_order l = o_key r) ls) os"
    by (simp add: c sum_where_def sum_list_addf)
  also have "sum_where Q (\<lambda>r. count_where (\<lambda>l. ol_order l = o_key r) ls) os = count_where P ls"
    using Cons by simp
  also have "sum_where Q (\<lambda>r. if ol_order l = o_key r then 1 else 0) os = (if P l then 1 else 0)"
  proof (cases "P l")
    case True
    then obtain r where r: "r \<in> set os" "Q r" "o_key r = ol_order l" using Cons.prems(1) by auto
    have "sum_where Q (\<lambda>r. if ol_order l = o_key r then 1 else 0) os =
        sum_where (\<lambda>x. o_key x = o_key r) (\<lambda>x. 1) os"
    proof -
      have "Q x" if "x \<in> set os" "o_key x = o_key r" for x
        using that r assms(1) by (metis distinct_map inj_onD)
      then have "filter (\<lambda>x. Q x \<and> ol_order l = o_key x) os = filter (\<lambda>x. o_key x = o_key r) os"
        using r(3) by (intro filter_cong) auto
      moreover have "sum_where Q (\<lambda>r. if ol_order l = o_key r then 1 else 0) os =
          sum_list (map (\<lambda>x. 1) (filter (\<lambda>x. Q x \<and> ol_order l = o_key x) os))"
        unfolding sum_where_def by (induction os) auto
      ultimately show ?thesis by (simp add: sum_where_def)
    qed
    then show ?thesis using True sum_where_key [of o_key os r "\<lambda>x. o_key x = o_key r" "\<lambda>x. 1"] assms(1) r(1)
      by simp
  next
    case False
    then show ?thesis using Cons.prems(2) by (auto intro!: sum_where_none)
  qed
  finally show ?case by (simp add: c)
qed

lemma filter_remdups_eq: "filter (\<lambda>k. k = d) (remdups ys) = (if d \<in> set ys then [d] else [])"
  by (induction ys) auto

lemma group_by_lookup:
  "filter (\<lambda>p. fst p = d) (group_by key xs) =
   (if d \<in> key ` set xs then [(d, filter (\<lambda>x. key x = d) xs)] else [])"
  by (simp add: group_by_def filter_map o_def filter_remdups_eq)

lemma comp_groups:
  "concat (map (\<lambda>(d, cn). if A \<and> d = e then [(r, cn)] else [])
     (map (\<lambda>(d, g). (d, int (length g))) (group_by key xs))) =
   (if A \<and> e \<in> key ` set xs then [(r, int (length (filter (\<lambda>x. key x = e) xs)))] else [])"
proof -
  have "concat (map (\<lambda>(d, cn). if A \<and> d = e then [(r, cn)] else [])
      (map (\<lambda>(d, g). (d, int (length g))) ps)) =
      (if A then map (\<lambda>p. (r, int (length (snd p)))) (filter (\<lambda>p. fst p = e) ps) else [])" for ps :: "('b \<times> 'c list) list"
    by (induction ps) auto
  then show ?thesis by (simp add: group_by_lookup)
qed

lemma query4_zero:
  assumes "cond_lines t" "cond_keys t" "x \<in> set (query4 w t)"
  shows "x = 0"
proof -
  let ?ls = "filter (\<lambda>l. ol_w_id l = w) (order_lines t)"
  let ?n = "\<lambda>k. int (length (filter (\<lambda>l. ol_d_id l = k) ?ls))"
  let ?Q = "\<lambda>r. o_w_id r = w \<and> o_d_id r \<in> ol_d_id ` set ?ls"
  let ?rows = "[(r, cn). r \<leftarrow> orders t, (d, cn) \<leftarrow> map (\<lambda>(d, g). (d, int (length g))) (group_by ol_d_id ?ls),
    o_w_id r = w \<and> d = o_d_id r]"
  have rows: "?rows = map (\<lambda>r. (r, ?n (o_d_id r))) (filter ?Q (orders t))"
    unfolding comp_groups by (rule comp_filter)
  have "sum_list (map (\<lambda>(r, cn). o_ol_cnt r) g) = max_of (map (\<lambda>(r, cn). cn) g)"
    if g: "(k, g) \<in> set (group_by (\<lambda>(r, cn). o_d_id r) (map (\<lambda>r. (r, ?n (o_d_id r))) (filter ?Q (orders t))))" for k g
  proof -
    let ?os = "filter (\<lambda>r. o_w_id r = w \<and> o_d_id r = k) (orders t)"
    have k: "k \<in> ol_d_id ` set ?ls" and ne: "g \<noteq> []" using group_hd [OF g] by auto
    have "g = map (\<lambda>r. (r, ?n (o_d_id r))) (filter (\<lambda>r. o_d_id r = k) (filter ?Q (orders t)))"
      using conjunct2 [OF g [unfolded group_by_mem]] by (simp add: filter_map o_def)
    also have "filter (\<lambda>r. o_d_id r = k) (filter ?Q (orders t)) = ?os"
      unfolding filter_filter by (rule filter_cong [OF refl]) (use k in blast)
    also have "map (\<lambda>r. (r, ?n (o_d_id r))) ?os = map (\<lambda>r. (r, ?n k)) ?os"
      by (rule map_cong) simp_all
    finally have all: "g = map (\<lambda>r. (r, ?n k)) ?os" .
    have "sum_list (map (\<lambda>(r, cn). o_ol_cnt r) g) = sum_where (\<lambda>r. o_w_id r = w \<and> o_d_id r = k) o_ol_cnt (orders t)"
      by (simp add: all o_def sum_where_def)
    also have "\<dots> = sum_where (\<lambda>r. o_w_id r = w \<and> o_d_id r = k)
        (\<lambda>r. count_where (\<lambda>l. ol_order l = o_key r) (order_lines t)) (orders t)"
      using assms(1) by (intro sum_where_cong) (auto simp: cond_lines_def)
    also have "\<dots> = count_where (\<lambda>l. ol_w_id l = w \<and> ol_d_id l = k) (order_lines t)"
    proof (rule count_by_order)
      show "distinct (map o_key (orders t))" using assms(2) by (simp add: cond_keys_def)
      fix l assume l: "l \<in> set (order_lines t)" "ol_w_id l = w \<and> ol_d_id l = k"
      then obtain r where "r \<in> set (orders t)" "o_key r = ol_order l"
        using assms(2) unfolding cond_keys_def by (metis imageE image_subset_iff)
      then show "\<exists>r \<in> set (orders t). (o_w_id r = w \<and> o_d_id r = k) \<and> o_key r = ol_order l"
        using l by (auto simp: o_key_def ol_order_def)
    qed (auto simp: o_key_def ol_order_def)
    also have "\<dots> = ?n k" by (simp add: count_where_def)
    also have "\<dots> = max_of (map (\<lambda>(r, cn). cn) g)"
    proof -
      have "?os \<noteq> []" using ne by (simp only: all map_is_Nil_conv not_False_eq_True)
      then show ?thesis unfolding all map_map o_def prod.case by (rule max_of_same [symmetric])
    qed
    finally show ?thesis .
  qed
  then have "filter (\<lambda>(sm1, cn). sm1 \<noteq> cn) [(sum_list (map (\<lambda>(r, cn). o_ol_cnt r) g), max_of (map (\<lambda>(r, cn). cn) g)).
      (k, g) \<leftarrow> group_by (\<lambda>(r, cn). o_d_id r) (map (\<lambda>r. (r, ?n (o_d_id r))) (filter ?Q (orders t)))] = []"
    by (auto simp: filter_empty_conv)
  then show ?thesis using assms(3) unfolding query4_def rows Let_def by simp
qed

text \<open>Conditions 10 and 12: the sums are those of the invariant where they are not \<open>NULL\<close>.\<close>

lemma sum_list_if: "sum_list (map (\<lambda>r. if Q r then f r else 0) os) = sum_where Q f os"
  by (induction os) (simp_all add: rows)

lemma delivered_null_sum:
  assumes "delivered_null w t c = Some sm" "c_w_id c = w"
  shows "sm = delivered (orders t) (order_lines t) (c_key c)"
proof -
  have s: "sum_list (concat (map (\<lambda>r. concat (map (\<lambda>l. if C r l then [f l] else []) ls)) os)) =
      sum_list (map (\<lambda>r. sum_where (C r) f ls) os)" for C :: "orders_row \<Rightarrow> order_line_row \<Rightarrow> bool" and f :: "_ \<Rightarrow> int" and ls os
    by (induction os) (simp_all add: comp_filter sum_where_def)
  have "sm = sum_list (map (\<lambda>r. sum_where (\<lambda>l. ol_w_id l = o_w_id r \<and> ol_d_id l = o_d_id r \<and> ol_o_id l = o_id r \<and>
      ol_delivery_d l \<noteq> None \<and> o_w_id r = w \<and> o_d_id r = c_d_id c \<and> o_c_id r = c_id c) ol_amount (order_lines t)) (orders t))"
    using assms(1) unfolding delivered_null_def sum_null_def by (simp add: s split: if_splits)
  also have "\<dots> = sum_list (map (\<lambda>r. if o_customer r = c_key c
      then lines_sum (\<lambda>l. ol_delivery_d l \<noteq> None) (order_lines t) r else 0) (orders t))"
    using assms(2) by (intro arg_cong [where f = sum_list] map_cong refl)
      (auto simp: lines_sum_def o_customer_def c_key_def o_key_def ol_order_def
        intro!: sum_where_cong sum_where_none)
  also have "\<dots> = delivered (orders t) (order_lines t) (c_key c)"
    by (simp only: delivered_def sum_list_if)
  finally show ?thesis .
qed

lemma paid_null_sum:
  "paid_null w t c = Some sm \<Longrightarrow> c_w_id c = w \<Longrightarrow> sm = paid_by (histories t) (c_key c)"
  by (auto simp: paid_null_def sum_null_def comp_filter paid_by_def c_key_def sum_where_def
      intro!: arg_cong [where f = "\<lambda>xs. sum_list (map h_amount xs)"] filter_cong split: if_splits)

lemma query10_zero: "cond_balance t \<Longrightarrow> x \<in> set (query10 w t) \<Longrightarrow> x = 0"
  by (auto simp: query10_def cond_balance_def filter_empty_conv split: option.splits
      dest!: delivered_null_sum paid_null_sum)

lemma query12_zero: "cond_balance t \<Longrightarrow> x \<in> set (query12 w t) \<Longrightarrow> x = 0"
  by (auto simp: query12_def cond_balance_def filter_empty_conv split: option.splits
      dest!: delivered_null_sum)

subsection \<open>The runs of the checks\<close>

lemma call_good: "call st (t, sconst Done) = (case st t of
     Inl e \<Rightarrow> (Inl e, (t, sconst Done)) | Inr (x, t') \<Rightarrow> (Inr x, (t', sconst Done)))"
  by (simp add: call_def split: sum.split prod.split)

lemma checkCondition_good:
  "checkCondition query msg w (t, sconst Done) =
   (if set (query w t) \<subseteq> {0} then None else Some [Plain msg], (t, sconst Done))"
  by (auto simp: checkCondition_def call_good select_def no_change_def)

lemma check_warehouse_good:
  "\<forall>p \<in> set cs. snd p w s = (None, s) \<Longrightarrow> check_warehouse cs w s = (None, s)"
  by (induction cs) auto

lemma check_loop_good:
  assumes "\<And>i w. check_warehouse (ord i) w s = (None, s)" "0 < threads"
  shows "check_loop ord threads W i s = Some (None, s)"
proof (induction "nat (W - i)" arbitrary: i rule: less_induct)
  case less
  show ?case using less [of "i + threads"] assms by (subst check_loop.simps) simp
qed

lemma checks_good:
  assumes "consistent t" "(idx, c) \<in> set (checks False fresh)"
  shows "c w (t, sconst Done) = (None, (t, sconst Done))"
proof -
  note z = query1_zero query2_zero query3_zero query4_zero query5_zero query6_zero query7_zero
    query8_zero query9_zero query10_zero query12_zero
  have "checkCondition query msg w (t, sconst Done) = (None, (t, sconst Done))"
    if "query \<in> {query1, query2, query3, query4, query5, query6, query7, query8, query9, query10, query12}"
    for query msg
  proof -
    have "set (query w t) \<subseteq> {0}"
      using that assms(1) z [of t _ w] by (auto simp: consistent_def)
    then show ?thesis by (simp add: checkCondition_good)
  qed
  then show ?thesis using assms(2) by (auto simp: checks_def checkCondition_defs)
qed

text \<open>
  C5. The checks raise no false alarm: after any history of transactions on a consistent database,
  every thread's check of the default conditions succeeds, in whatever order the map of conditions
  is visited, and it reads only.
\<close>

theorem check_no_false_alarm:
  assumes "good_vars G" "1 \<le> W" "consistent t" "history Z G W t rs t'" "0 < threads"
    and "\<And>i. set (ord (checks False fresh) i) \<subseteq> set (checks False fresh)"
  shows "check ord threads W False fresh threadID (t', sconst Done) = Some (None, (t', sconst Done))"
proof -
  have c: "consistent t'" using history_safe [OF assms(1,2,4,3)] by simp
  have "snd p w (t', sconst Done) = (None, (t', sconst Done))"
    if "p \<in> set (ord (checks False fresh) i)" for p i w
  proof (rule checks_good [OF c])
    show "(fst p, snd p) \<in> set (checks False fresh)" using that assms(6) by auto
  qed
  then show ?thesis
    unfolding check_def by (intro check_loop_good check_warehouse_good assms(5)) blast
qed

lemma check_no_false_alarm_witness:
  "check (\<lambda>cs i. rev cs) 2 1 False True 0 (sample_paid, sconst Done) = Some (None, (sample_paid, sconst Done))"
proof (rule check_no_false_alarm [OF _ _ sample_consistent])
  show "good_vars sample_vars" by (simp add: good_vars_def sample_vars_def)
  show "history sample_world sample_vars 1 sample_db ([] @ [Returned None]) sample_paid"
    by (rule history_step [OF history_start sample_payment])
qed simp_all

text \<open>
  Conditions 5 and 7 are exact: their queries find nothing in any warehouse if and only if the
  orders without a carrier are the new orders, and the lines without a delivery date are those of
  the orders without a carrier.
\<close>

theorem conditions_exact:
  "((\<forall>w. set (query5 w t) \<subseteq> {0}) \<longleftrightarrow> cond_carrier t) \<and>
   ((\<forall>w. set (query7 w t) \<subseteq> {0}) \<longleftrightarrow> cond_delivered t)"
proof (intro conjI iffI)
  assume z: "\<forall>w. set (query5 w t) \<subseteq> {0}"
  show "cond_carrier t" unfolding cond_carrier_def
  proof
    fix r assume r: "r \<in> set (orders t)"
    let ?on = "\<lambda>r n. no_w_id n = o_w_id r \<and> o_d_id r = no_d_id n \<and> o_id r = no_o_id n"
    have none: "\<not> (o_carrier_id r = None \<and> n = None \<or> o_carrier_id r \<noteq> None \<and> n \<noteq> None)"
      if "(r, n) \<in> set (left_join ?on (orders t) (new_orders t))" for n
      using z [rule_format, of "o_w_id r"] that by (auto simp: query5_def filter_empty_conv)
    show "o_carrier_id r = None \<longleftrightarrow> o_key r \<in> no_key ` set (new_orders t)"
    proof (cases "\<exists>n \<in> set (new_orders t). ?on r n")
      case True
      then obtain n where n: "n \<in> set (new_orders t)" "?on r n" by blast
      then have "(r, Some n) \<in> set (left_join ?on (orders t) (new_orders t))"
        using r by (simp add: left_join_mem)
      from none [OF this] have "o_carrier_id r = None" by simp
      moreover have "o_key r = no_key n" using n(2) by (simp add: o_key_def no_key_def)
      ultimately show ?thesis using n(1) by simp
    next
      case False
      then have "(r, None) \<in> set (left_join ?on (orders t) (new_orders t))"
        using r by (simp add: left_join_mem)
      from none [OF this] False show ?thesis by (auto simp: o_key_def no_key_def)
    qed
  qed
next
  assume z: "\<forall>w. set (query7 w t) \<subseteq> {0}"
  show "cond_delivered t" unfolding cond_delivered_def
  proof (intro ballI impI)
    fix r l assume r: "r \<in> set (orders t)" "l \<in> set (order_lines t)" "ol_order l = o_key r"
    let ?w = "o_w_id r"
    have "[(r, l). r \<leftarrow> orders t, l \<leftarrow> order_lines t,
        o_id r = ol_o_id l \<and> o_d_id r = ol_d_id l \<and> ol_w_id l = o_w_id r \<and> o_w_id r = ?w \<and>
        (ol_delivery_d l = None \<and> o_carrier_id r \<noteq> None \<or> o_carrier_id r = None \<and> ol_delivery_d l \<noteq> None)] = []"
      (is "?X = []")
      using z [rule_format, of ?w] unfolding query7_def
      by (simp only: list.set insert_subset singleton_iff of_nat_eq_0_iff length_0_conv)
    then have "(r, l) \<notin> set ?X" by (simp only: list.set empty_iff not_False_eq_True)
    then show "ol_delivery_d l = None \<longleftrightarrow> o_carrier_id r = None"
      using r by (auto simp: ol_order_def o_key_def)
  qed
qed (use query5_zero query7_zero in blast)+

text \<open>A database whose only order has no line at all, though it says five.\<close>

definition orphan_db :: db where
  "orphan_db = sample_db
     \<lparr>districts := map (\<lambda>r. r\<lparr>d_next_o_id := 2\<rparr>) (districts sample_db),
      customers := map (\<lambda>r. r\<lparr>c_balance := 12345\<rparr>) (customers sample_db),
      orders := [\<lparr>o_id = 1, o_d_id = 1, o_w_id = 1, o_c_id = 62, o_entry_d = ''t'', o_carrier_id = Some 3,
        o_ol_cnt = 5, o_all_local = 1\<rparr>]\<rparr>"


end
