(* ===== verification/RunLoop.thy ===== *)
theory RunLoop
  imports TpccRand SqlErr
begin

text \<open>
  The workers of a command: \<open>cmd/go-tpc/misc.go\<close>.  A worker repeats transactions until its share of
  \<open>--count\<close> is done, an error ends it, or the benchmark deadline passes; after a failure it waits.
  The workload is a parameter with the operations of \<open>pkg/workload/workload.go\<close> on a world of any
  type.  Each look at the context and each race between a timer and the context takes one answer of
  a stream; the log keeps what the worker did.
\<close>

subsection \<open>Interface and state\<close>

text \<open>
  \<open>Run\<close> also tells whether the time for one transaction had passed when it returned.
\<close>

record 'w workloader =
  wl_Name :: string
  wl_InitThread :: "int \<Rightarrow> 'w \<Rightarrow> 'w"
  wl_CleanupThread :: "int \<Rightarrow> 'w \<Rightarrow> 'w"
  wl_Prepare :: "int \<Rightarrow> 'w \<Rightarrow> goerr option \<times> 'w"
  wl_CheckPrepare :: "int \<Rightarrow> 'w \<Rightarrow> goerr option \<times> 'w"
  wl_Run :: "int \<Rightarrow> 'w \<Rightarrow> (bool \<times> goerr option) \<times> 'w"
  wl_Cleanup :: "int \<Rightarrow> 'w \<Rightarrow> goerr option \<times> 'w"
  wl_Check :: "int \<Rightarrow> 'w \<Rightarrow> goerr option \<times> 'w"

record flags =
  totalCount :: int
  fl_threads :: int
  ignoreError :: bool
  txnTimeout :: int
  dropData :: bool

datatype loopEvent = Ran bool "goerr option" | Waited int

record 'w loopState =
  lo_world :: 'w
  lo_ended :: "bool stream"
  lo_woke :: "bool stream"
  lo_rand :: rnd
  lo_log :: "loopEvent list"

text \<open>Whether the context of the worker has ended.\<close>

definition ctx_ended :: "'w loopState \<Rightarrow> bool \<times> 'w loopState" where
  "ctx_ended s = (shd (lo_ended s), s\<lparr>lo_ended := stl (lo_ended s)\<rparr>)"

subsection \<open>Waiting\<close>

text \<open>Durations are nanoseconds.\<close>

definition backoffBase :: int where "backoffBase = 100 * 10 ^ 6"
definition backoffMax :: int where "backoffMax = 5 * 10 ^ 9"

text \<open>A shift by a negative number panics; \<open>rand.N\<close> panics if its bound is not positive.\<close>

definition backoffDelay :: "int \<Rightarrow> rnd \<Rightarrow> (int \<times> rnd) option" where
  "backoffDelay consecutiveFailures R =
     (let shift = consecutiveFailures - 1;
          shift = (if shift > 10 then 10 else shift) in
      if shift < 0 then None
      else let d = wrap64 (backoffBase * 2 ^ nat shift);
               d = (if d > backoffMax then backoffMax else d) in
           Intn (wrap64 (d + 1)) R)"

definition waitForBackoff :: "int \<Rightarrow> 'w loopState \<Rightarrow> (bool \<times> 'w loopState) option" where
  "waitForBackoff consecutiveFailures s = do {
     (d, R) \<leftarrow> backoffDelay consecutiveFailures (lo_rand s);
     Some (shd (lo_woke s), s\<lparr>lo_rand := R, lo_woke := stl (lo_woke s), lo_log := lo_log s @ [Waited d]\<rparr>)
   }"

subsection \<open>The loop\<close>

definition runTransaction ::
  "'w workloader \<Rightarrow> flags \<Rightarrow> int \<Rightarrow> 'w loopState \<Rightarrow> (bool \<times> goerr option) \<times> 'w loopState" where
  "runTransaction w fl index s =
     (let ((expired, err), x) = wl_Run w index (lo_world s);
          timedOut = (txnTimeout fl > 0 \<and> expired)
      in ((timedOut, err), s\<lparr>lo_world := x, lo_log := lo_log s @ [Ran timedOut err]\<rparr>))"

text \<open>
  From iteration \<open>i\<close> on, after \<open>fails\<close> consecutive failures; \<open>None\<close> is a loop that does not end, or a
  panic.
\<close>

partial_function (option) runLoop_from ::
  "'w workloader \<Rightarrow> flags \<Rightarrow> int \<Rightarrow> int \<Rightarrow> int \<Rightarrow> int \<Rightarrow> 'w loopState \<Rightarrow> (goerr option \<times> 'w loopState) option" where
  "runLoop_from w fl index count i fails s =
     (if i < count \<or> count \<le> 0 then
        (case ctx_ended s of (ended, s) \<Rightarrow>
           if ended then Some (None, s)
           else (case runTransaction w fl index s of ((timedOut, err), s) \<Rightarrow>
             (case err of
                None \<Rightarrow> runLoop_from w fl index count (i + 1) 0 s
              | Some e \<Rightarrow>
                  (case ctx_ended s of (ended, s) \<Rightarrow>
                     if ended then Some (None, s)
                     else if \<not> timedOut \<and> \<not> ignoreError fl then Some (Some e, s)
                     else Option.bind (waitForBackoff (fails + 1) s) (\<lambda>(woke, s).
                       if \<not> woke then Some (None, s)
                       else runLoop_from w fl index count (i + 1) (fails + 1) s)))))
      else Some (None, s))"

definition runLoop :: "'w workloader \<Rightarrow> flags \<Rightarrow> int \<Rightarrow> int \<Rightarrow> 'w loopState \<Rightarrow> (goerr option \<times> 'w loopState) option" where
  "runLoop w fl index count s = runLoop_from w fl index count 0 0 s"

subsection \<open>A worker and a command\<close>

text \<open>An operation of the workload on the world of the state.\<close>

definition on_world ::
  "('w \<Rightarrow> goerr option \<times> 'w) \<Rightarrow> 'w loopState \<Rightarrow> goerr option \<times> 'w loopState" where
  "on_world f s = (let (e, x) = f (lo_world s) in (e, s\<lparr>lo_world := x\<rparr>))"

text \<open>\<open>totalCount/threads\<close> divides by the number of threads, and panics if it is 0.\<close>

definition execute ::
  "'w workloader \<Rightarrow> flags \<Rightarrow> string \<Rightarrow> int \<Rightarrow> 'w loopState \<Rightarrow> (goerr option \<times> 'w loopState) option" where
  "execute w fl action index s =
     (let s = s\<lparr>lo_world := wl_InitThread w index (lo_world s)\<rparr> in do {
        (e, s) \<leftarrow>
          (if action = ''prepare'' then
             Some (if dropData fl then
                (case on_world (wl_Cleanup w index) s of
                   (Some e, s) \<Rightarrow> (Some e, s)
                 | (None, s) \<Rightarrow> on_world (wl_Prepare w index) s)
              else on_world (wl_Prepare w index) s)
           else if action = ''cleanup'' then Some (on_world (wl_Cleanup w index) s)
           else if action = ''check'' then Some (on_world (wl_Check w index) s)
           else if fl_threads fl = 0 then None
           else runLoop w fl index (totalCount fl sdiv fl_threads fl) s);
        Some (e, s\<lparr>lo_world := wl_CleanupThread w index (lo_world s)\<rparr>)
      })"

text \<open>
  The results of the workers meet in a channel: the first one that failed, in the order in which the
  workers end, is the error.  \<open>fin\<close> has the errors in that order, \<open>None\<close> for a worker without one.
\<close>

definition first_error :: "goerr option list \<Rightarrow> goerr option" where
  "first_error fin = (case filter (\<lambda>e. e \<noteq> None) fin of [] \<Rightarrow> None | e # es \<Rightarrow> e)"

text \<open>\<open>checked\<close> are the results of \<open>CheckPrepare\<close> in the workers, \<open>analyzed\<close> that of \<open>AnalyzeTables\<close>.\<close>

definition checkPrepare :: "string \<Rightarrow> bool \<Rightarrow> goerr option list \<Rightarrow> goerr option" where
  "checkPrepare name NoCheck checked =
     (if name = ''tpcc-csv'' then None
      else if name = ''tpcc'' \<and> NoCheck then None
      else first_error checked)"

definition analyzePrepared :: "string \<Rightarrow> bool \<Rightarrow> goerr option \<Rightarrow> goerr option" where
  "analyzePrepared name Analyze analyzed =
     (if name \<noteq> ''tpcc'' \<or> \<not> Analyze then None else analyzed)"

definition executeWorkload ::
  "string \<Rightarrow> string \<Rightarrow> bool \<Rightarrow> bool \<Rightarrow> goerr option list \<Rightarrow> goerr option \<Rightarrow> goerr option list \<Rightarrow> goerr option" where
  "executeWorkload name action NoCheck Analyze fin analyzed checked =
     (let workerErr = first_error fin;
          postPrepareErr =
            (if action = ''prepare'' \<and> workerErr = None then
               (case analyzePrepared name Analyze analyzed of
                  Some e \<Rightarrow> Some e
                | None \<Rightarrow> checkPrepare name NoCheck checked)
             else None)
      in if workerErr \<noteq> None then workerErr else postPrepareErr)"

subsection \<open>Delays\<close>

text \<open>The bound of a delay grows with the number of failures, up to five seconds.\<close>

definition delay_bound :: "int \<Rightarrow> int" where
  "delay_bound n = min backoffMax (backoffBase * 2 ^ nat (n - 1))"

lemma backoffDelay_bounds:
  assumes "1 \<le> n"
  shows "yields (backoffDelay n R) (\<lambda>d R'. 0 \<le> d \<and> d \<le> delay_bound n)"
proof -
  let ?shift = "if n - 1 > 10 then 10 else n - 1"
  let ?x = "backoffBase * 2 ^ nat ?shift"
  have s: "0 \<le> ?shift" "?shift \<le> 10" using assms by simp_all
  then have p: "1 \<le> (2 :: int) ^ nat ?shift" "(2 :: int) ^ nat ?shift \<le> 2 ^ 10" by (simp, intro power_increasing, simp_all)
  have fit: "wrap64 (backoffBase * y) = backoffBase * y" if "1 \<le> y" "y \<le> 2 ^ 10" for y
    using that by (intro wrap64_id) (auto simp: backoffBase_def)
  have w: "wrap64 ?x = ?x" by (rule fit [OF p])
  have big: "backoffMax \<le> backoffBase * 2 ^ nat (n - 1)" if "n - 1 > 10"
  proof -
    have "(2 :: int) ^ 10 \<le> 2 ^ nat (n - 1)" using that by (intro power_increasing) auto
    then show ?thesis by (simp add: backoffMax_def backoffBase_def)
  qed
  have d: "(if ?x > backoffMax then backoffMax else ?x) = delay_bound n"
  proof (cases "n - 1 > 10")
    case True
    then show ?thesis using big by (simp add: delay_bound_def backoffMax_def backoffBase_def)
  next
    case False
    then show ?thesis by (auto simp: delay_bound_def)
  qed
  have b: "0 \<le> delay_bound n" "delay_bound n \<le> backoffMax" using p by (auto simp: delay_bound_def backoffMax_def backoffBase_def)
  have ns: "(?shift < 0) = False" using s(1) by (simp only: simp_thms not_less)
  from b have w1: "wrap64 (delay_bound n + 1) = delay_bound n + 1" by (intro wrap64_id) (auto simp: backoffMax_def)
  have "backoffDelay n R = Intn (delay_bound n + 1) R"
    unfolding backoffDelay_def Let_def ns w d w1 if_False ..
  then show ?thesis using yields_mono [OF yields_Intn [of "delay_bound n + 1" R]] b(1) by auto
qed

subsection \<open>What a worker does\<close>

fun runs :: "loopEvent list \<Rightarrow> (bool \<times> goerr option) list" where
  "runs [] = []"
| "runs (Ran t err # evs) = (t, err) # runs evs"
| "runs (Waited d # evs) = runs evs"

text \<open>
  Every failure but one that ends the loop is followed by a wait, bounded by the number of failures
  in a row.
\<close>

fun paced :: "int \<Rightarrow> loopEvent list \<Rightarrow> bool" where
  "paced n [] \<longleftrightarrow> True"
| "paced n (Ran t None # evs) \<longleftrightarrow> paced 0 evs"
| "paced n [Ran t (Some e)] \<longleftrightarrow> True"
| "paced n (Ran t (Some e) # Waited d # evs) \<longleftrightarrow> 0 \<le> d \<and> d \<le> delay_bound (n + 1) \<and> paced (n + 1) evs"
| "paced n (Ran t (Some e) # Ran t' e' # evs) \<longleftrightarrow> False"
| "paced n (Waited d # evs) \<longleftrightarrow> False"

text \<open>A failure after which the loop goes on if the context has not ended.\<close>

definition goes_on :: "flags \<Rightarrow> bool \<times> goerr option \<Rightarrow> bool" where
  "goes_on fl r \<longleftrightarrow> snd r = None \<or> fst r \<or> ignoreError fl"

definition loop_result ::
  "flags \<Rightarrow> int \<Rightarrow> int \<Rightarrow> 'w loopState \<Rightarrow> goerr option \<Rightarrow> 'w loopState \<Rightarrow> loopEvent list \<Rightarrow> bool list \<Rightarrow> bool list \<Rightarrow> bool" where
  "loop_result fl k fails s e s' evs ends wakes \<longleftrightarrow>
     lo_log s' = lo_log s @ evs \<and> lo_ended s = ends @- lo_ended s' \<and> lo_woke s = wakes @- lo_woke s' \<and>
     int (length (runs evs)) \<le> k \<and> paced fails evs \<and>
     (e = None \<and> True \<notin> set ends \<and> False \<notin> set wakes \<longrightarrow> int (length (runs evs)) = k \<and> (\<forall>r \<in> set (runs evs). goes_on fl r)) \<and>
     (e \<noteq> None \<longrightarrow> True \<notin> set ends \<and> False \<notin> set wakes \<and>
        (\<exists>rs. runs evs = rs @ [(False, e)] \<and> (\<forall>r \<in> set rs. goes_on fl r)) \<and> \<not> ignoreError fl)"

lemma loop_result_done: "k = 0 \<Longrightarrow> loop_result fl k fails s None s [] [] []"
  by (simp add: loop_result_def)

lemma stream_head: "q = x ## r \<longleftrightarrow> shd q = x \<and> stl q = r"
  by (cases q) auto

lemma loop_result_success:
  assumes "loop_result fl k 0 s2 e s' evs ends wakes"
    and "lo_log s2 = lo_log s @ [Ran t None]" "lo_ended s = False ## lo_ended s2" "lo_woke s2 = lo_woke s"
  shows "loop_result fl (k + 1) fails s e s' (Ran t None # evs) (False # ends) wakes"
proof -
  have "goes_on fl (t, None)" by (simp add: goes_on_def)
  moreover have "\<exists>rs. (t, None) # runs evs = rs @ [(False, e)] \<and> (\<forall>r \<in> set rs. goes_on fl r)"
    if "runs evs = rs @ [(False, e)]" "\<forall>r \<in> set rs. goes_on fl r" for rs
    using that \<open>goes_on fl (t, None)\<close> by (intro exI [of _ "(t, None) # rs"]) simp
  ultimately show ?thesis using assms unfolding loop_result_def by (elim conjE) (intro conjI impI; force)
qed

lemma loop_result_failure:
  assumes "loop_result fl k (fails + 1) s2 e s' evs ends wakes"
    and "lo_log s2 = lo_log s @ [Ran t (Some x), Waited d]" "lo_ended s = False ## False ## lo_ended s2"
    "lo_woke s = True ## lo_woke s2" and d: "0 \<le> d" "d \<le> delay_bound (fails + 1)" and on: "goes_on fl (t, Some x)"
  shows "loop_result fl (k + 1) fails s e s' (Ran t (Some x) # Waited d # evs) (False # False # ends) (True # wakes)"
proof -
  have "\<exists>rs. (t, Some x) # runs evs = rs @ [(False, e)] \<and> (\<forall>r \<in> set rs. goes_on fl r)"
    if "runs evs = rs @ [(False, e)]" "\<forall>r \<in> set rs. goes_on fl r" for rs
    using that on by (intro exI [of _ "(t, Some x) # rs"]) simp
  then show ?thesis using assms unfolding loop_result_def by (elim conjE) (intro conjI impI; force)
qed

lemma runLoop_from_ended:
  assumes "i < count" "shd (lo_ended s)"
  shows "runLoop_from w fl index count i fails s = Some (None, s\<lparr>lo_ended := stl (lo_ended s)\<rparr>)"
  using assms by (subst runLoop_from.simps) (simp add: ctx_ended_def)

lemma runLoop_from_success:
  assumes "i < count" "\<not> shd (lo_ended s)"
    "runTransaction w fl index (s\<lparr>lo_ended := stl (lo_ended s)\<rparr>) = ((t, None), s2)"
  shows "runLoop_from w fl index count i fails s = runLoop_from w fl index count (i + 1) 0 s2"
  using assms by (subst runLoop_from.simps) (simp add: ctx_ended_def)

lemma runLoop_from_failure:
  assumes "i < count" "\<not> shd (lo_ended s)"
    "runTransaction w fl index (s\<lparr>lo_ended := stl (lo_ended s)\<rparr>) = ((t, Some e), s2)"
  shows "runLoop_from w fl index count i fails s =
    (if shd (lo_ended s2) then Some (None, s2\<lparr>lo_ended := stl (lo_ended s2)\<rparr>)
     else if \<not> t \<and> \<not> ignoreError fl then Some (Some e, s2\<lparr>lo_ended := stl (lo_ended s2)\<rparr>)
     else Option.bind (waitForBackoff (fails + 1) (s2\<lparr>lo_ended := stl (lo_ended s2)\<rparr>)) (\<lambda>(woke, s).
       if \<not> woke then Some (None, s) else runLoop_from w fl index count (i + 1) (fails + 1) s))"
  using assms by (subst runLoop_from.simps) (simp add: ctx_ended_def)

lemma runLoop_from_result:
  assumes "0 < count" "i \<le> count" "0 \<le> fails"
  shows "\<exists>e s' evs ends wakes. runLoop_from w fl index count i fails s = Some (e, s') \<and>
    loop_result fl (count - i) fails s e s' evs ends wakes"
  using assms(2,3)
proof (induction "nat (count - i)" arbitrary: i fails s rule: less_induct)
  case less
  show ?case
  proof (cases "i < count")
    case False
    then have "runLoop_from w fl index count i fails s = Some (None, s)"
      using assms(1) by (subst runLoop_from.simps) simp
    moreover have "loop_result fl (count - i) fails s None s [] [] []" using False less.prems by (intro loop_result_done) simp
    ultimately show ?thesis by blast
  next
    case True
    have dec: "nat (count - (i + 1)) < nat (count - i)" using True by simp
    let ?s1 = "s\<lparr>lo_ended := stl (lo_ended s)\<rparr>"
    obtain timedOut err s2 where run: "runTransaction w fl index ?s1 = ((timedOut, err), s2)"
      using prod.exhaust [of "runTransaction w fl index ?s1"] prod.exhaust by (metis (no_types))
    have s2: "lo_log s2 = lo_log s @ [Ran timedOut err]" "lo_ended s2 = stl (lo_ended s)" "lo_woke s2 = lo_woke s"
      using run by (auto simp: runTransaction_def Let_def split: prod.splits)
    show ?thesis
    proof (cases "shd (lo_ended s)")
      case ended: True
      have "runLoop_from w fl index count i fails s = Some (None, ?s1)"
        by (rule runLoop_from_ended [OF True ended])
      moreover have "loop_result fl (count - i) fails s None ?s1 [] [True] []"
        using True ended by (simp add: loop_result_def stream_head)
      ultimately show ?thesis by blast
    next
      case go: False
      have e1: "lo_ended s = False ## lo_ended s2" using go s2(2) by (simp add: stream_head)
      show ?thesis
      proof (cases err)
        case None
        obtain e s' evs ends wakes where r: "runLoop_from w fl index count (i + 1) 0 s2 = Some (e, s')"
          "loop_result fl (count - (i + 1)) 0 s2 e s' evs ends wakes"
          using less.hyps [OF dec, of 0 s2] True by auto
        have "runLoop_from w fl index count i fails s = Some (e, s')"
          using runLoop_from_success [OF True go run [unfolded None]] r(1) by (simp only:)
        moreover have "loop_result fl (count - i) fails s e s' (Ran timedOut err # evs) (False # ends) wakes"
          using loop_result_success [OF r(2), of s timedOut fails] None s2(1,3) e1 by simp
        ultimately show ?thesis by blast
      next
        case (Some e0)
        note failed = runLoop_from_failure [OF True go run [unfolded Some], where fails = fails]
        let ?s3 = "s2\<lparr>lo_ended := stl (lo_ended s2)\<rparr>"
        show ?thesis
        proof (cases "shd (lo_ended s2)")
          case ended: True
          have "runLoop_from w fl index count i fails s = Some (None, ?s3)"
            using failed ended by (simp only: if_True)
          moreover have "loop_result fl (count - i) fails s None ?s3 [Ran timedOut err] [False, True] []"
            using True ended Some s2(1,3) e1 by (simp add: loop_result_def stream_head)
          ultimately show ?thesis by blast
        next
          case go2: False
          have e2: "lo_ended s = False ## False ## lo_ended ?s3"
            using e1 go2 by (simp add: stream_head)
          show ?thesis
          proof (cases "\<not> timedOut \<and> \<not> ignoreError fl")
            case stop: True
            have "runLoop_from w fl index count i fails s = Some (Some e0, ?s3)"
              using failed go2 stop by (simp only: if_False if_True simp_thms)
            moreover have "loop_result fl (count - i) fails s (Some e0) ?s3 [Ran timedOut err] [False, False] []"
              using True Some s2 e2 stop by (simp add: loop_result_def)
            ultimately show ?thesis by blast
          next
            case cont: False
            have on: "goes_on fl (timedOut, err)" using cont by (auto simp: goes_on_def)
            obtain d R where d: "backoffDelay (fails + 1) (lo_rand ?s3) = Some (d, R)" "0 \<le> d" "d \<le> delay_bound (fails + 1)"
              using backoffDelay_bounds [of "fails + 1" "lo_rand ?s3"] less.prems(2) by (auto elim: yieldsE)
            define s4 where "s4 = ?s3\<lparr>lo_rand := R, lo_woke := stl (lo_woke ?s3), lo_log := lo_log ?s3 @ [Waited d]\<rparr>"
            have wait: "waitForBackoff (fails + 1) ?s3 = Some (shd (lo_woke s), s4)"
              using d(1) s2(3) by (simp add: waitForBackoff_def s4_def)
            have s4: "lo_log s4 = lo_log s @ [Ran timedOut err, Waited d]" "lo_ended s4 = lo_ended ?s3" "lo_woke s4 = stl (lo_woke s)"
              using s2 by (simp_all add: s4_def)
            show ?thesis
            proof (cases "shd (lo_woke s)")
              case False
              have "runLoop_from w fl index count i fails s = Some (None, s4)"
                using failed go2 cont wait False by simp
              moreover have "loop_result fl (count - i) fails s None s4 [Ran timedOut err, Waited d] [False, False] [False]"
                using True Some s4 e2 False d by (simp add: loop_result_def stream_head)
              ultimately show ?thesis by blast
            next
              case woke: True
              obtain e s' evs ends wakes where r: "runLoop_from w fl index count (i + 1) (fails + 1) s4 = Some (e, s')"
                "loop_result fl (count - (i + 1)) (fails + 1) s4 e s' evs ends wakes"
                using less.hyps [OF dec, of "fails + 1" s4] True less.prems by auto
              have "runLoop_from w fl index count i fails s = Some (e, s')"
                using failed go2 cont wait woke r(1) by simp
              moreover have "loop_result fl (count - i) fails s e s' (Ran timedOut err # Waited d # evs) (False # False # ends) (True # wakes)"
                using loop_result_failure [OF r(2), of s timedOut e0 d] Some s4 e2 d(2,3) on woke by (simp add: stream_head)
              ultimately show ?thesis by blast
            qed
          qed
        qed
      qed
    qed
  qed
qed

text \<open>
  C33. A worker with a share of \<open>count\<close> transactions always returns.  It starts at most \<open>count\<close> of
  them, exactly so many if the context does not end and no error stops it; it returns an error only
  if errors are not ignored and the last transaction failed within its time, every failure before
  it having timed out; after every other failure it waits, for at most 100 ms doubled with every
  further failure in a row and never more than five seconds.
\<close>

theorem runLoop_transactions:
  assumes "0 < count"
  shows "\<exists>e s' evs ends wakes. runLoop w fl index count s = Some (e, s') \<and>
    lo_log s' = lo_log s @ evs \<and> lo_ended s = ends @- lo_ended s' \<and> lo_woke s = wakes @- lo_woke s' \<and>
    int (length (runs evs)) \<le> count \<and> paced 0 evs \<and>
    (e = None \<and> True \<notin> set ends \<and> False \<notin> set wakes \<longrightarrow>
       int (length (runs evs)) = count \<and> (\<forall>r \<in> set (runs evs). goes_on fl r)) \<and>
    (e \<noteq> None \<longrightarrow> True \<notin> set ends \<and> False \<notin> set wakes \<and>
       (\<exists>rs. runs evs = rs @ [(False, e)] \<and> (\<forall>r \<in> set rs. goes_on fl r)) \<and> \<not> ignoreError fl)"
  using runLoop_from_result [OF assms, of 0 0 w fl index s] assms by (simp add: runLoop_def loop_result_def)

text \<open>A workload whose transactions fail, once in time and once not.\<close>

definition sample_workload :: "nat workloader" where
  "sample_workload = \<lparr>wl_Name = ''tpcc'', wl_InitThread = (\<lambda>i x. x), wl_CleanupThread = (\<lambda>i x. x),
     wl_Prepare = (\<lambda>i x. (None, x)), wl_CheckPrepare = (\<lambda>i x. (None, x)),
     wl_Run = (\<lambda>i x. (if x = 0 then (True, Some [Plain ''canceled'']) else if x = 1 then (False, None)
        else (False, Some [Plain ''failed'']), x + 1)),
     wl_Cleanup = (\<lambda>i x. (None, x)), wl_Check = (\<lambda>i x. (None, x))\<rparr>"

definition sample_flags :: flags where
  "sample_flags = \<lparr>totalCount = 12, fl_threads = 2, ignoreError = False, txnTimeout = 1, dropData = False\<rparr>"

definition sample_loop :: "nat loopState" where
  "sample_loop = \<lparr>lo_world = 0, lo_ended = sconst False, lo_woke = sconst True, lo_rand = sconst 7, lo_log = []\<rparr>"

lemma runLoop_transactions_witness:
  "\<exists>e s' evs. runLoop sample_workload sample_flags 0 6 sample_loop = Some (e, s') \<and> lo_log s' = evs \<and>
     int (length (runs evs)) \<le> 6 \<and> paced 0 evs"
proof -
  have "lo_log sample_loop = []" by (simp add: sample_loop_def)
  then show ?thesis
    using runLoop_transactions [of 6 sample_workload sample_flags 0 sample_loop] by auto
qed

text \<open>Without a limit, the loop does not end while transactions succeed and the context lasts.\<close>

lemma unlimited_loop:
  assumes "runLoop_from w fl index count i fails s = Some r" "count \<le> 0" "\<forall>n. \<not> snth (lo_ended s) n"
    "\<forall>x. snd (fst (wl_Run w index x)) = None"
  shows False
proof -
  have "count \<le> 0 \<longrightarrow> (\<forall>n. \<not> snth (lo_ended s) n) \<longrightarrow> (\<forall>x. snd (fst (wl_Run w index x)) = None) \<longrightarrow> False"
  proof (rule runLoop_from.raw_induct [where P = "\<lambda>w fl index count i fails s r. count \<le> 0 \<longrightarrow>
      (\<forall>n. \<not> snth (lo_ended s) n) \<longrightarrow> (\<forall>x. snd (fst (wl_Run w index x)) = None) \<longrightarrow> False", OF _ assms(1)], intro impI)
    fix f w fl index count i fails and s :: "'a loopState" and r
    assume IH: "\<And>w fl index count i fails s r. f w fl index count i fails s = Some r \<Longrightarrow> count \<le> 0 \<longrightarrow>
        (\<forall>n. \<not> snth (lo_ended s) n) \<longrightarrow> (\<forall>x. snd (fst (wl_Run w index x)) = None) \<longrightarrow> False"
      and step: "(if i < count \<or> count \<le> 0 then
        (case ctx_ended s of (ended, s) \<Rightarrow>
           if ended then Some (None, s)
           else (case runTransaction w fl index s of ((timedOut, err), s) \<Rightarrow>
             (case err of
                None \<Rightarrow> f w fl index count (i + 1) 0 s
              | Some e \<Rightarrow>
                  (case ctx_ended s of (ended, s) \<Rightarrow>
                     if ended then Some (None, s)
                     else if \<not> timedOut \<and> \<not> ignoreError fl then Some (Some e, s)
                     else Option.bind (waitForBackoff (fails + 1) s) (\<lambda>(woke, s).
                       if \<not> woke then Some (None, s)
                       else f w fl index count (i + 1) (fails + 1) s)))))
        else Some (None, s)) = Some r"
      and c: "count \<le> 0" "\<forall>n. \<not> snth (lo_ended s) n" "\<forall>x. snd (fst (wl_Run w index x)) = None"
    have ended: "\<not> shd (lo_ended s)" using c(2) [rule_format, of 0] by simp
    obtain t s2 where run: "runTransaction w fl index (s\<lparr>lo_ended := stl (lo_ended s)\<rparr>) = ((t, None), s2)"
      and s2: "lo_ended s2 = stl (lo_ended s)"
      using c(3) [rule_format, of "lo_world s"] by (cases "wl_Run w index (lo_world s)") (auto simp: runTransaction_def Let_def)
    have "f w fl index count (i + 1) 0 s2 = Some r" using step c(1) ended run by (simp add: ctx_ended_def)
    moreover have "\<forall>n. \<not> snth (lo_ended s2) n" using c(2) unfolding s2 by (metis snth.simps(2))
    ultimately show False using IH [of w fl index count "i + 1" 0 s2 r] c(1,3) by blast
  qed
  then show False using assms(2-4) by blast
qed

text \<open>
  C39. A count smaller than the number of threads is not a limit.  The share of a worker is then 0,
  which the loop takes for no limit at all: a worker whose transactions succeed goes on for ever,
  unless the context ends.
\<close>

theorem count_below_threads_unlimited:
  assumes "0 < totalCount fl" "totalCount fl < fl_threads fl" "action \<notin> {''prepare'', ''cleanup'', ''check''}"
    and "\<forall>n. \<not> snth (lo_ended s) n" "\<forall>x. snd (fst (wl_Run w index x)) = None"
  shows "execute w fl action index s = None"
proof -
  have share: "totalCount fl sdiv fl_threads fl = 0" using assms(1,2) by (simp add: sdiv_nonneg)
  have "runLoop w fl index 0 s' = None" if "lo_ended s' = lo_ended s" for s'
    using unlimited_loop [of w fl index 0 0 0 s'] assms(4,5) that unfolding runLoop_def
    by (cases "runLoop_from w fl index 0 0 0 s'") auto
  then show ?thesis using assms(2,3) share assms(1) by (simp add: execute_def Let_def)
qed

lemma count_below_threads_unlimited_witness:
  "execute (sample_workload\<lparr>wl_Run := \<lambda>i x. ((False, None), x + 1)\<rparr>) (sample_flags\<lparr>totalCount := 5, fl_threads := 16\<rparr>)
     ''run'' 0 sample_loop = None"
  by (rule count_below_threads_unlimited) (simp_all add: sample_flags_def sample_loop_def sample_workload_def)

end
