(* ===== verification/TpccPopulated.thy ===== *)
theory TpccPopulated
  imports TpccLoadInv TpccCheck RunLoop
begin

text \<open>
  The population is consistent: the conditions only depend on which rows there are, and the rows of
  all threads together are those of one item part, one part for each warehouse and one for each
  district.
\<close>

subsection \<open>The order of the rows does not matter\<close>

lemma sum_where_mset: "mset xs = mset ys \<Longrightarrow> sum_where P f xs = sum_where P f ys"
  unfolding sum_where_def by (metis mset_filter mset_map sum_mset_sum_list)

lemma count_where_mset: "mset xs = mset ys \<Longrightarrow> count_where P xs = count_where P ys"
  unfolding count_where_def by (metis mset_filter size_mset)

lemma distinct_key_mset: "mset xs = mset ys \<Longrightarrow> distinct (map k xs) \<longleftrightarrow> distinct (map k ys)"
  by (metis mset_eq_imp_distinct_iff mset_map)

lemma consistent_same_rows:
  assumes "same_rows t u" "consistent u"
  shows "consistent t"
proof -
  have m: "mset (warehouses t) = mset (warehouses u)" "mset (districts t) = mset (districts u)"
    "mset (customers t) = mset (customers u)" "mset (histories t) = mset (histories u)"
    "mset (new_orders t) = mset (new_orders u)" "mset (orders t) = mset (orders u)"
    "mset (order_lines t) = mset (order_lines u)" "mset (items t) = mset (items u)" "mset (stocks t) = mset (stocks u)"
    using assms(1) by (simp_all add: same_rows_def)
  note sets = m [THEN mset_eq_setD] and sums = m [THEN sum_where_mset] and counts = m [THEN count_where_mset]
    and keys = m [THEN distinct_key_mset]
  have lines: "lines_sum P (order_lines t) = lines_sum P (order_lines u)" for P
    by (rule ext) (simp add: lines_sum_def sums)
  show ?thesis
    using assms(2)
    unfolding consistent_def cond_ytd_def cond_ids_def cond_carrier_def cond_lines_def cond_delivered_def
      cond_balance_def cond_keys_def cond_values_def order_ids_def new_order_ids_def delivered_def paid_by_def
      lines sets sums counts keys .
qed

subsection \<open>Rows of a part\<close>

lemma rows_keys:
  assumes "list_all2 P xs rs" "\<And>x r. P x r \<Longrightarrow> k r = g x"
  shows "map k rs = map g xs"
  using assms(1) by (induction rule: list_all2_induct) (simp_all add: assms(2))

lemma rows_mem: "list_all2 P xs rs \<Longrightarrow> r \<in> set rs \<Longrightarrow> \<exists>x \<in> set xs. P x r"
  by (induction rule: list_all2_induct) auto

lemma sum_where_all: "(\<And>r. r \<in> set rs \<Longrightarrow> P r \<and> f r = c) \<Longrightarrow> sum_where P f rs = c * int (length rs)"
proof (induction rs)
  case (Cons r rs)
  then have "P r" "f r = c" "sum_where P f rs = c * int (length rs)" by auto
  then show ?case by (simp add: rows algebra_simps)
qed (simp add: sum_where_def)

lemma sum_where_concat: "sum_where P f (concat (map F xs)) = sum_list (map (\<lambda>x. sum_where P f (F x)) xs)"
  by (induction xs) (simp_all add: rows)

text \<open>All parts but one have nothing of a key.\<close>

lemma sum_one:
  assumes "distinct xs" "i \<in> set xs" "\<And>x. x \<in> set xs \<Longrightarrow> x \<noteq> i \<Longrightarrow> g x = (0 :: int)"
  shows "sum_list (map g xs) = g i"
proof -
  have "sum_list (map g xs) = sum g (set xs)" by (rule sum_list_distinct_conv_sum_set [OF assms(1)])
  also have "\<dots> = sum g {i}" by (rule sum.mono_neutral_right) (use assms(2,3) in auto)
  finally show ?thesis by simp
qed

lemma concat_keys: "concat (map (\<lambda>i. map (g i) ys) xs) = map (\<lambda>(i, j). g i j) (List.product xs ys)"
  by (simp add: product_concat_map map_concat comp_def)

subsection \<open>The tables of the population\<close>

definition populated_by :: "int \<Rightarrow> db \<Rightarrow> (int \<Rightarrow> db) \<Rightarrow> (int \<Rightarrow> db) \<Rightarrow> db \<Rightarrow> bool" where
  "populated_by W ip wp dp u \<longleftrightarrow> items_part ip \<and> (\<forall>i \<in> {0..<W}. warehouse_part (i + 1) (wp i)) \<and>
     (\<forall>i \<in> {0..<W * 10}. district_part (i div 10 + 1) (i mod 10 + 1) (dp i)) \<and>
     u = db_concat (ip # map wp (idx W) @ map dp (idx (W * 10)))"

lemma warehouse_partD:
  assumes "warehouse_part w p"
  shows "\<exists>r. warehouses p = [r] \<and> warehouse_ok w r" "list_all2 (stock_row_ok w) [0..<stockPerWarehouse] (stocks p)"
    "list_all2 (district_ok w) [0..<10] (districts p)"
    "customers p = []" "histories p = []" "new_orders p = []" "orders p = []" "order_lines p = []" "items p = []"
  using assms by (auto simp: warehouse_part_def empty_db_def)

lemma district_partD:
  assumes "district_part w d p"
  shows "list_all2 (customer_row_ok w d) [0..<3000] (customers p)"
    "list_all2 (history_ok w d) [0..<3000] (histories p)" "list_all2 (order_row_ok w d) [0..<3000] (orders p)"
    "list_all2 (new_order_ok w d) [0..<900] (new_orders p)"
    "list_all2 (line_row_ok w d) (line_indices (orders p)) (order_lines p)" "each_customer (orders p)"
    "warehouses p = []" "districts p = []" "items p = []" "stocks p = []"
  using assms by (auto simp: district_part_def empty_db_def customerPerDistrict_def orderPerDistrict_def newOrderPerDistrict_def)

lemma items_partD:
  assumes "items_part p"
  shows "list_all2 item_ok [0..<maxItems] (items p)" "warehouses p = []" "districts p = []" "customers p = []"
    "histories p = []" "new_orders p = []" "orders p = []" "order_lines p = []" "stocks p = []"
  using assms by (auto simp: items_part_def empty_db_def)

lemma populated_tables:
  assumes "populated_by W ip wp dp u"
  shows "warehouses u = concat (map (\<lambda>i. warehouses (wp i)) (idx W))"
    "districts u = concat (map (\<lambda>i. districts (wp i)) (idx W))" "stocks u = concat (map (\<lambda>i. stocks (wp i)) (idx W))"
    "customers u = concat (map (\<lambda>i. customers (dp i)) (idx (W * 10)))"
    "histories u = concat (map (\<lambda>i. histories (dp i)) (idx (W * 10)))"
    "new_orders u = concat (map (\<lambda>i. new_orders (dp i)) (idx (W * 10)))"
    "orders u = concat (map (\<lambda>i. orders (dp i)) (idx (W * 10)))"
    "order_lines u = concat (map (\<lambda>i. order_lines (dp i)) (idx (W * 10)))" "items u = items ip"
proof -
  have u: "u = db_concat (ip # map wp (idx W) @ map dp (idx (W * 10)))" using assms by (simp add: populated_by_def)
  have w: "warehouse_part (i + 1) (wp i)" if "i \<in> set (idx W)" for i using assms that by (simp add: populated_by_def)
  have d: "district_part (i div 10 + 1) (i mod 10 + 1) (dp i)" if "i \<in> set (idx (W * 10))" for i
    using assms that by (simp add: populated_by_def)
  have e: "concat (map F xs) = []" if "\<And>x. x \<in> set xs \<Longrightarrow> F x = []" for F :: "int \<Rightarrow> 'b list" and xs
    using that by (simp add: concat_eq_Nil_conv)
  have ip: "items_part ip" using assms by (simp add: populated_by_def)
  note ipD = items_partD [OF ip]
  show "warehouses u = concat (map (\<lambda>i. warehouses (wp i)) (idx W))"
    "districts u = concat (map (\<lambda>i. districts (wp i)) (idx W))" "stocks u = concat (map (\<lambda>i. stocks (wp i)) (idx W))"
    "customers u = concat (map (\<lambda>i. customers (dp i)) (idx (W * 10)))"
    "histories u = concat (map (\<lambda>i. histories (dp i)) (idx (W * 10)))"
    "new_orders u = concat (map (\<lambda>i. new_orders (dp i)) (idx (W * 10)))"
    "orders u = concat (map (\<lambda>i. orders (dp i)) (idx (W * 10)))"
    "order_lines u = concat (map (\<lambda>i. order_lines (dp i)) (idx (W * 10)))" "items u = items ip"
    unfolding u db_concat_fields list.map concat.simps map_append concat_append map_map comp_def ipD
    using e [of "idx (W * 10)" "\<lambda>i. warehouses (dp i)"] e [of "idx (W * 10)" "\<lambda>i. districts (dp i)"]
      e [of "idx (W * 10)" "\<lambda>i. stocks (dp i)"] e [of "idx W" "\<lambda>i. customers (wp i)"]
      e [of "idx W" "\<lambda>i. histories (wp i)"] e [of "idx W" "\<lambda>i. new_orders (wp i)"]
      e [of "idx W" "\<lambda>i. orders (wp i)"] e [of "idx W" "\<lambda>i. order_lines (wp i)"]
      e [of "idx W" "\<lambda>i. items (wp i)"] e [of "idx (W * 10)" "\<lambda>i. items (dp i)"]
      warehouse_partD [OF w] district_partD [OF d] by simp_all
qed

text \<open>Rows and keys of each table.\<close>

lemma pop_rows:
  assumes "populated_by W ip wp dp u"
  shows "v \<in> set (warehouses u) \<Longrightarrow> \<exists>i \<in> {0..<W}. warehouses (wp i) = [v] \<and> w_id v = i + 1 \<and> w_ytd v = 30000000"
    "r \<in> set (districts u) \<Longrightarrow> \<exists>i \<in> {0..<W}. \<exists>j < 10. r \<in> set (districts (wp i)) \<and> district_ok (i + 1) j r"
    "s \<in> set (stocks u) \<Longrightarrow> \<exists>i \<in> {0..<W}. \<exists>j. stock_row_ok (i + 1) j s"
    "c \<in> set (customers u) \<Longrightarrow> \<exists>i \<in> {0..<W * 10}. \<exists>j < 3000. c \<in> set (customers (dp i)) \<and>
       customer_row_ok (i div 10 + 1) (i mod 10 + 1) j c"
    "h \<in> set (histories u) \<Longrightarrow> \<exists>i \<in> {0..<W * 10}. \<exists>j < 3000. h \<in> set (histories (dp i)) \<and>
       history_ok (i div 10 + 1) (i mod 10 + 1) j h"
    "n \<in> set (new_orders u) \<Longrightarrow> \<exists>i \<in> {0..<W * 10}. \<exists>j < 900. n \<in> set (new_orders (dp i)) \<and>
       new_order_ok (i div 10 + 1) (i mod 10 + 1) j n"
    "q \<in> set (orders u) \<Longrightarrow> \<exists>i \<in> {0..<W * 10}. \<exists>j < 3000. orders (dp i) ! j = q \<and>
       order_row_ok (i div 10 + 1) (i mod 10 + 1) j q"
    "l \<in> set (order_lines u) \<Longrightarrow> \<exists>i \<in> {0..<W * 10}. \<exists>x \<in> set (line_indices (orders (dp i))). l \<in> set (order_lines (dp i)) \<and>
       line_row_ok (i div 10 + 1) (i mod 10 + 1) x l"
    "y \<in> set (items u) \<Longrightarrow> 1 \<le> i_id y"
proof -
  note T = populated_tables [OF assms]
  have W: "warehouse_part (i + 1) (wp i)" if "i \<in> {0..<W}" for i using assms that by (simp add: populated_by_def)
  have D: "district_part (i div 10 + 1) (i mod 10 + 1) (dp i)" if "i \<in> {0..<W * 10}" for i
    using assms that by (simp add: populated_by_def)
  show "\<exists>i \<in> {0..<W}. warehouses (wp i) = [v] \<and> w_id v = i + 1 \<and> w_ytd v = 30000000" if mem: "v \<in> set (warehouses u)"
  proof -
    obtain i where i: "i \<in> {0..<W}" "v \<in> set (warehouses (wp i))" using mem T(1) by auto
    obtain x where "warehouses (wp i) = [x]" "warehouse_ok (i + 1) x" using warehouse_partD(1) [OF W [OF i(1)]] by blast
    then show ?thesis using i by (auto simp: warehouse_ok_def intro!: bexI [of _ i])
  qed
  show "\<exists>i \<in> {0..<W}. \<exists>j < 10. r \<in> set (districts (wp i)) \<and> district_ok (i + 1) j r" if mem: "r \<in> set (districts u)"
  proof -
    obtain i where i: "i \<in> {0..<W}" "r \<in> set (districts (wp i))" using mem T(2) by auto
    then show ?thesis using rows_mem [OF warehouse_partD(3) [OF W [OF i(1)]] i(2)] by fastforce
  qed
  show "\<exists>i \<in> {0..<W}. \<exists>j. stock_row_ok (i + 1) j s" if mem: "s \<in> set (stocks u)"
  proof -
    obtain i where i: "i \<in> {0..<W}" "s \<in> set (stocks (wp i))" using mem T(3) by auto
    then show ?thesis using rows_mem [OF warehouse_partD(2) [OF W [OF i(1)]] i(2)] by blast
  qed
  show "\<exists>i \<in> {0..<W * 10}. \<exists>j < 3000. c \<in> set (customers (dp i)) \<and> customer_row_ok (i div 10 + 1) (i mod 10 + 1) j c"
    if mem: "c \<in> set (customers u)"
  proof -
    obtain i where i: "i \<in> {0..<W * 10}" "c \<in> set (customers (dp i))" using mem T(4) by auto
    then show ?thesis using rows_mem [OF district_partD(1) [OF D [OF i(1)]] i(2)] by fastforce
  qed
  show "\<exists>i \<in> {0..<W * 10}. \<exists>j < 3000. h \<in> set (histories (dp i)) \<and> history_ok (i div 10 + 1) (i mod 10 + 1) j h"
    if mem: "h \<in> set (histories u)"
  proof -
    obtain i where i: "i \<in> {0..<W * 10}" "h \<in> set (histories (dp i))" using mem T(5) by auto
    then show ?thesis using rows_mem [OF district_partD(2) [OF D [OF i(1)]] i(2)] by fastforce
  qed
  show "\<exists>i \<in> {0..<W * 10}. \<exists>j < 900. n \<in> set (new_orders (dp i)) \<and> new_order_ok (i div 10 + 1) (i mod 10 + 1) j n"
    if mem: "n \<in> set (new_orders u)"
  proof -
    obtain i where i: "i \<in> {0..<W * 10}" "n \<in> set (new_orders (dp i))" using mem T(6) by auto
    then show ?thesis using rows_mem [OF district_partD(4) [OF D [OF i(1)]] i(2)] by fastforce
  qed
  show "\<exists>i \<in> {0..<W * 10}. \<exists>j < 3000. orders (dp i) ! j = q \<and> order_row_ok (i div 10 + 1) (i mod 10 + 1) j q"
    if mem: "q \<in> set (orders u)"
  proof -
    obtain i where i: "i \<in> {0..<W * 10}" "q \<in> set (orders (dp i))" using mem T(7) by auto
    note os = district_partD(3) [OF D [OF i(1)]]
    have "length (orders (dp i)) = 3000" using list_all2_lengthD [OF os] by simp
    then obtain j where j: "j < 3000" "orders (dp i) ! j = q" using i(2) by (metis in_set_conv_nth)
    then have "order_row_ok (i div 10 + 1) (i mod 10 + 1) j q" using list_all2_nthD [OF os, of j] by simp
    then show ?thesis using i(1) j by blast
  qed
  show "\<exists>i \<in> {0..<W * 10}. \<exists>x \<in> set (line_indices (orders (dp i))). l \<in> set (order_lines (dp i)) \<and>
      line_row_ok (i div 10 + 1) (i mod 10 + 1) x l" if mem: "l \<in> set (order_lines u)"
  proof -
    obtain i where i: "i \<in> {0..<W * 10}" "l \<in> set (order_lines (dp i))" using mem T(8) by auto
    then show ?thesis using rows_mem [OF district_partD(5) [OF D [OF i(1)]] i(2)] by blast
  qed
  show "1 \<le> i_id y" if mem: "y \<in> set (items u)"
  proof -
    have "list_all2 item_ok [0..<maxItems] (items ip)" using assms items_partD(1) by (simp add: populated_by_def)
    then show ?thesis using rows_mem [of item_ok _ _ y] mem T(9) by (fastforce simp: item_ok_def)
  qed
qed

lemma concat_map_keys:
  assumes "\<And>i. i \<in> set xs \<Longrightarrow> map k (F i) = map (g i) ys"
  shows "map k (concat (map F xs)) = map (\<lambda>(i, j). g i j) (List.product xs ys)"
proof -
  have "map k (concat (map F xs)) = concat (map (\<lambda>i. map (g i) ys) xs)"
    using assms by (simp add: map_concat comp_def cong: map_cong)
  then show ?thesis by (simp add: concat_keys)
qed

lemma pop_keys:
  assumes "populated_by W ip wp dp u"
  shows "map w_key (warehouses u) = map (\<lambda>(i, j). i + 1) (List.product (idx W) [0::nat])"
    "map d_key (districts u) = map (\<lambda>(i, j). (i + 1, int j + 1)) (List.product (idx W) [0..<10])"
    "map o_key (orders u) = map (\<lambda>(i, j). (i div 10 + 1, i mod 10 + 1, int j + 1)) (List.product (idx (W * 10)) [0..<3000])"
    "map no_key (new_orders u) = map (\<lambda>(i, j). (i div 10 + 1, i mod 10 + 1, 2101 + int j)) (List.product (idx (W * 10)) [0..<900])"
proof -
  note T = populated_tables [OF assms]
  have W: "warehouse_part (i + 1) (wp i)" if "i \<in> set (idx W)" for i using assms that by (simp add: populated_by_def)
  have D: "district_part (i div 10 + 1) (i mod 10 + 1) (dp i)" if "i \<in> set (idx (W * 10))" for i
    using assms that by (simp add: populated_by_def)
  have "map w_key (warehouses (wp i)) = map (\<lambda>j. i + 1) [0::nat]" if "i \<in> set (idx W)" for i
    using warehouse_partD(1) [OF W [OF that]] by (auto simp: w_key_def warehouse_ok_def)
  then show "map w_key (warehouses u) = map (\<lambda>(i, j). i + 1) (List.product (idx W) [0::nat])"
    unfolding T by (rule concat_map_keys)
  have "map d_key (districts (wp i)) = map (\<lambda>j. (i + 1, int j + 1)) [0..<10]" if "i \<in> set (idx W)" for i
    by (rule rows_keys [OF warehouse_partD(3) [OF W [OF that]]]) (simp add: district_ok_def)
  then show "map d_key (districts u) = map (\<lambda>(i, j). (i + 1, int j + 1)) (List.product (idx W) [0..<10])"
    unfolding T by (rule concat_map_keys)
  have "map o_key (orders (dp i)) = map (\<lambda>j. (i div 10 + 1, i mod 10 + 1, int j + 1)) [0..<3000]" if "i \<in> set (idx (W * 10))" for i
    by (rule rows_keys [OF district_partD(3) [OF D [OF that]]]) (simp add: order_row_ok_def)
  then show "map o_key (orders u) = map (\<lambda>(i, j). (i div 10 + 1, i mod 10 + 1, int j + 1)) (List.product (idx (W * 10)) [0..<3000])"
    unfolding T by (rule concat_map_keys)
  have "map no_key (new_orders (dp i)) = map (\<lambda>j. (i div 10 + 1, i mod 10 + 1, 2101 + int j)) [0..<900]" if "i \<in> set (idx (W * 10))" for i
    by (rule rows_keys [OF district_partD(4) [OF D [OF that]]]) (simp add: new_order_ok_def)
  then show "map no_key (new_orders u) = map (\<lambda>(i, j). (i div 10 + 1, i mod 10 + 1, 2101 + int j)) (List.product (idx (W * 10)) [0..<900])"
    unfolding T by (rule concat_map_keys)
qed

lemma div_mod_inj: "i div 10 = x div 10 \<Longrightarrow> i mod 10 = x mod 10 \<Longrightarrow> i = (x :: int)"
  by (metis div_mult_mod_eq)

lemma o_keys:
  assumes "populated_by W ip wp dp u"
  shows "k \<in> o_key ` set (orders u) \<longleftrightarrow> (\<exists>i \<in> {0..<W * 10}. \<exists>j < 3000. k = (i div 10 + 1, i mod 10 + 1, int j + 1))"
    "k \<in> no_key ` set (new_orders u) \<longleftrightarrow> (\<exists>i \<in> {0..<W * 10}. \<exists>j < 900. k = (i div 10 + 1, i mod 10 + 1, 2101 + int j))"
    "c \<in> d_key ` set (districts u) \<longleftrightarrow> (\<exists>i \<in> {0..<W}. \<exists>j < 10. c = (i + 1, int j + 1))"
  using pop_keys(2-4) [OF assms, THEN arg_cong [where f = set]] by (auto simp: set_product)

subsection \<open>The conditions\<close>

lemma pop_parts:
  assumes "populated_by W ip wp dp u"
  shows "i \<in> {0..<W} \<Longrightarrow> warehouse_part (i + 1) (wp i)"
    "i \<in> {0..<W * 10} \<Longrightarrow> district_part (i div 10 + 1) (i mod 10 + 1) (dp i)"
  using assms by (simp_all add: populated_by_def)

lemma history_sum:
  assumes "populated_by W ip wp dp u"
  shows "sum_where P h_amount (histories u) =
    sum_list (map (\<lambda>x. sum_where P h_amount (histories (dp x))) (idx (W * 10)))"
  by (simp add: populated_tables [OF assms] sum_where_concat)

lemma history_district:
  assumes "populated_by W ip wp dp u" "x \<in> {0..<W * 10}"
    "\<And>h. (h_w_id h, h_d_id h) = (x div 10 + 1, x mod 10 + 1) \<Longrightarrow> P h \<longleftrightarrow> b"
  shows "sum_where P h_amount (histories (dp x)) = (if b then 3000000 else 0)"
proof -
  note hs = district_partD(2) [OF pop_parts(2) [OF assms(1,2)]]
  have len: "length (histories (dp x)) = 3000" using list_all2_lengthD [OF hs] by simp
  have r: "(P h \<longleftrightarrow> b) \<and> h_amount h = 1000" if "h \<in> set (histories (dp x))" for h
    using rows_mem [OF hs that] assms(3) [of h] by (auto simp: history_ok_def)
  show ?thesis
  proof (cases b)
    case True
    then have "sum_where P h_amount (histories (dp x)) = 1000 * int (length (histories (dp x)))"
      by (intro sum_where_all) (simp add: r)
    then show ?thesis using True len by simp
  next
    case False
    then show ?thesis using r by (auto intro!: sum_where_none)
  qed
qed

lemma sum_decade: "0 \<le> i \<Longrightarrow> i < W \<Longrightarrow>
  sum_list (map (\<lambda>x. if x div 10 = i then c else 0) (idx (W * 10))) = 10 * (c :: int)"
proof -
  assume i: "0 \<le> i" "i < W"
  have s: "{x \<in> {0..<W * 10}. x div 10 = i} = {i * 10..<i * 10 + 10}" using i by auto
  have "sum_list (map (\<lambda>x. if x div 10 = i then c else 0) (idx (W * 10))) =
      (\<Sum>x \<in> {0..<W * 10}. if x div 10 = i then c else 0)"
    by (simp add: sum_list_distinct_conv_sum_set)
  also have "\<dots> = (\<Sum>x \<in> {x \<in> {0..<W * 10}. x div 10 = i}. c)" by (rule sum.inter_filter [symmetric]) simp
  finally show ?thesis unfolding s by simp
qed

lemma district_index: "i \<in> {0..<W} \<Longrightarrow> j < 10 \<Longrightarrow> \<exists>x \<in> {0..<W * 10}. x div 10 = i \<and> x mod 10 = int j"
  by (rule bexI [of _ "i * 10 + int j"]) auto

lemma pop_ytd:
  assumes "populated_by W ip wp dp u"
  shows "cond_ytd u"
  unfolding cond_ytd_def
proof (intro conjI ballI)
  fix v assume "v \<in> set (warehouses u)"
  then obtain i where i: "i \<in> {0..<W}" "w_id v = i + 1" "w_ytd v = 30000000" using pop_rows(1) [OF assms] by blast
  have d: "district_ok (x + 1) j r \<Longrightarrow> d_w_id r = x + 1 \<and> d_ytd r = 3000000" for x j r
    by (simp add: district_ok_def d_key_def)
  have part: "\<exists>j. district_ok (x + 1) j r" if "x \<in> {0..<W}" "r \<in> set (districts (wp x))" for x r
    using rows_mem [OF warehouse_partD(3) [OF pop_parts(1) [OF assms that(1)]] that(2)] by blast
  have "sum_where (\<lambda>r. d_w_id r = w_id v) d_ytd (districts u) =
      sum_list (map (\<lambda>x. sum_where (\<lambda>r. d_w_id r = w_id v) d_ytd (districts (wp x))) (idx W))"
    by (simp add: populated_tables [OF assms] sum_where_concat)
  also have "\<dots> = sum_where (\<lambda>r. d_w_id r = w_id v) d_ytd (districts (wp i))"
  proof (rule sum_one)
    fix x assume "x \<in> set (idx W)" "x \<noteq> i"
    then show "sum_where (\<lambda>r. d_w_id r = w_id v) d_ytd (districts (wp x)) = 0"
      using part d i(2) by (intro sum_where_none) fastforce
  qed (use i in simp_all)
  also have "\<dots> = 3000000 * int (length (districts (wp i)))"
    using part [OF i(1)] d i(2) by (intro sum_where_all) fastforce
  also have "length (districts (wp i)) = 10"
    using list_all2_lengthD [OF warehouse_partD(3) [OF pop_parts(1) [OF assms i(1)]]] by simp
  finally show "w_ytd v = sum_where (\<lambda>r. d_w_id r = w_id v) d_ytd (districts u)" using i(3) by simp
  have "sum_where (\<lambda>h. h_w_id h = w_id v) h_amount (histories u) =
      sum_list (map (\<lambda>x. if x div 10 = i then 3000000 else 0) (idx (W * 10)))"
    unfolding history_sum [OF assms]
    by (intro arg_cong [where f = sum_list] map_cong refl history_district [OF assms]) (auto simp: i(2))
  then show "w_ytd v = sum_where (\<lambda>h. h_w_id h = w_id v) h_amount (histories u)"
    using sum_decade [of i W 3000000] i by simp
next
  fix r assume "r \<in> set (districts u)"
  then obtain i j where i: "i \<in> {0..<W}" "j < 10" "district_ok (i + 1) j r" using pop_rows(2) [OF assms] by blast
  obtain x where x: "x \<in> {0..<W * 10}" "x div 10 = i" "x mod 10 = int j" using district_index [OF i(1,2)] by blast
  have k: "d_key r = (x div 10 + 1, x mod 10 + 1)" using i(3) x by (simp add: district_ok_def)
  have "sum_where (\<lambda>h. (h_w_id h, h_d_id h) = d_key r) h_amount (histories u) =
      sum_list (map (\<lambda>y. if y = x then 3000000 else 0) (idx (W * 10)))"
    unfolding history_sum [OF assms] k
    by (intro arg_cong [where f = sum_list] map_cong refl history_district [OF assms]) (auto dest: div_mod_inj)
  also have "\<dots> = 3000000" using sum_one [of "idx (W * 10)" x "\<lambda>y. if y = x then 3000000 else 0"] x(1) by simp
  finally show "d_ytd r = sum_where (\<lambda>h. (h_w_id h, h_d_id h) = d_key r) h_amount (histories u)"
    using i(3) by (simp add: district_ok_def)
qed

lemma pop_ids:
  assumes "populated_by W ip wp dp u"
  shows "cond_ids u"
  unfolding cond_ids_def
proof
  fix r assume "r \<in> set (districts u)"
  then obtain i j where i: "i \<in> {0..<W}" "j < 10" "district_ok (i + 1) j r" using pop_rows(2) [OF assms] by blast
  let ?x = "i * 10 + int j"
  have x: "?x \<in> {0..<W * 10}" "?x div 10 = i" "?x mod 10 = int j" using i(1,2) by auto
  have k: "d_key r = (i + 1, int j + 1)" "d_next_o_id r = 3001" using i(3) by (simp_all add: district_ok_def)
  have "n \<in> order_ids (orders u) (d_key r) \<longleftrightarrow> n \<in> {1..<3001}" for n
  proof
    assume "n \<in> order_ids (orders u) (d_key r)"
    then show "n \<in> {1..<3001}" unfolding order_ids_def mem_Collect_eq o_keys(1) [OF assms] by auto
  next
    assume n: "n \<in> {1..<3001}"
    then have "nat (n - 1) < 3000" "int (nat (n - 1)) + 1 = n" by auto
    then show "n \<in> order_ids (orders u) (d_key r)"
      unfolding order_ids_def mem_Collect_eq o_keys(1) [OF assms] using x k
      by (intro bexI [of _ ?x] exI [of _ "nat (n - 1)"]) auto
  qed
  moreover have "n \<in> new_order_ids (new_orders u) (d_key r) \<longleftrightarrow> n \<in> {2101..<3001}" for n
  proof
    assume "n \<in> new_order_ids (new_orders u) (d_key r)"
    then show "n \<in> {2101..<3001}" unfolding new_order_ids_def mem_Collect_eq o_keys(2) [OF assms] by auto
  next
    assume n: "n \<in> {2101..<3001}"
    then have "nat (n - 2101) < 900" "2101 + int (nat (n - 2101)) = n" by auto
    then show "n \<in> new_order_ids (new_orders u) (d_key r)"
      unfolding new_order_ids_def mem_Collect_eq o_keys(2) [OF assms] using x k
      by (intro bexI [of _ ?x] exI [of _ "nat (n - 2101)"]) auto
  qed
  ultimately have "order_ids (orders u) (d_key r) = {1..<3001}" "new_order_ids (new_orders u) (d_key r) = {2101..<3001}"
    by blast+
  then show "order_ids (orders u) (d_key r) = {1..<d_next_o_id r} \<and>
      (\<exists>m. 1 \<le> m \<and> m \<le> d_next_o_id r \<and> new_order_ids (new_orders u) (d_key r) = {m..<d_next_o_id r})"
    using k(2) by (intro conjI exI [of _ 2101]) simp_all
qed

lemma order_at:
  assumes "populated_by W ip wp dp u" "q \<in> set (orders u)"
  shows "\<exists>i j. i \<in> {0..<W * 10} \<and> j < 3000 \<and> orders (dp i) ! j = q \<and> o_key q = (i div 10 + 1, i mod 10 + 1, int j + 1) \<and>
    (o_carrier_id q = None \<longleftrightarrow> 2100 \<le> j) \<and> 5 \<le> o_ol_cnt q"
  using pop_rows(7) [OF assms] by (auto simp: order_row_ok_def)

lemma pop_carrier:
  assumes "populated_by W ip wp dp u"
  shows "cond_carrier u"
  unfolding cond_carrier_def
proof
  fix q assume "q \<in> set (orders u)"
  then obtain i j where i: "i \<in> {0..<W * 10}" "j < 3000" "o_key q = (i div 10 + 1, i mod 10 + 1, int j + 1)"
      "o_carrier_id q = None \<longleftrightarrow> 2100 \<le> j"
    using order_at [OF assms] by blast
  have "o_key q \<in> no_key ` set (new_orders u) \<longleftrightarrow> 2100 \<le> j"
  proof
    assume "o_key q \<in> no_key ` set (new_orders u)"
    then show "2100 \<le> j" unfolding o_keys(2) [OF assms] i(3) by auto
  next
    assume "2100 \<le> j"
    then have "j - 2100 < 900" "2101 + int (j - 2100) = int j + 1" using i(2) by auto
    then show "o_key q \<in> no_key ` set (new_orders u)"
      unfolding o_keys(2) [OF assms] i(3) using i(1) by (metis (lifting))
  qed
  then show "o_carrier_id q = None \<longleftrightarrow> o_key q \<in> no_key ` set (new_orders u)" by (simp add: i(4))
qed

text \<open>The lines of an order are in the part of its district, one for each number.\<close>

lemma line_index: "x \<in> set (line_indices os) \<longleftrightarrow> fst x < orderPerDistrict \<and> snd x < nat (o_ol_cnt (os ! fst x))"
  by (cases x) (force simp: line_indices_def)

lemma line_at:
  assumes "populated_by W ip wp dp u" "l \<in> set (order_lines u)"
  shows "\<exists>i j n. i \<in> {0..<W * 10} \<and> j < 3000 \<and> ol_key l = ((i div 10 + 1, i mod 10 + 1, int j + 1), int n + 1) \<and>
    (ol_delivery_d l = None \<longleftrightarrow> 2100 \<le> j) \<and> (ol_delivery_d l \<noteq> None \<longrightarrow> ol_amount l = 0)"
  using pop_rows(8) [OF assms] by (auto simp: line_index line_row_ok_def orderPerDistrict_def)

lemma count_pairs: "j < n \<Longrightarrow> length (filter (\<lambda>x. fst x = j) (concat (map (\<lambda>i. map (Pair i) [0..<g i]) [0..<n]))) = g j"
proof (induction n)
  case (Suc n)
  have none: "filter (\<lambda>x. fst x = n) (concat (map (\<lambda>i. map (Pair i) [0..<g i]) [0..<n])) = []"
    by (auto simp: filter_empty_conv)
  have own: "filter (\<lambda>x. fst x = j) (map (Pair i) ys) = (if i = j then map (Pair i) ys else [])" for i and ys :: "nat list"
    by (induction ys) auto
  show ?case
  proof (cases "j = n")
    case True
    then show ?thesis by (simp add: none own)
  next
    case False
    then show ?thesis using Suc by (simp add: own)
  qed
qed simp

lemma count_rows:
  assumes "list_all2 P xs rs" "\<And>x r. P x r \<Longrightarrow> Q r \<longleftrightarrow> q x"
  shows "length (filter Q rs) = length (filter q xs)"
  using assms(1) by (induction rule: list_all2_induct) (simp_all add: assms(2))

lemma count_where_concat: "count_where P (concat (map F xs)) = sum_list (map (\<lambda>x. count_where P (F x)) xs)"
  by (induction xs) (simp_all add: rows, simp add: count_where_def)

lemma ol_order_key: "ol_key l = (k, n) \<Longrightarrow> ol_order l = k"
  by (simp add: ol_key_def ol_order_def)

lemma pop_lines:
  assumes "populated_by W ip wp dp u"
  shows "cond_lines u"
  unfolding cond_lines_def
proof
  fix q assume "q \<in> set (orders u)"
  then obtain i j where i: "i \<in> {0..<W * 10}" "j < 3000" "orders (dp i) ! j = q"
      "o_key q = (i div 10 + 1, i mod 10 + 1, int j + 1)" "5 \<le> o_ol_cnt q"
    using order_at [OF assms] by blast
  note rows = district_partD(5) [OF pop_parts(2) [OF assms]]
  have own: "ol_order l = o_key q \<longleftrightarrow> x = i \<and> fst p = j" if "line_row_ok (x div 10 + 1) (x mod 10 + 1) p l" for x p l
    using that div_mod_inj [of x i] by (auto simp: line_row_ok_def i(4) ol_order_key)
  have "count_where (\<lambda>l. ol_order l = o_key q) (order_lines u) =
      sum_list (map (\<lambda>x. count_where (\<lambda>l. ol_order l = o_key q) (order_lines (dp x))) (idx (W * 10)))"
    by (simp add: populated_tables [OF assms] count_where_concat)
  also have "\<dots> = count_where (\<lambda>l. ol_order l = o_key q) (order_lines (dp i))"
  proof (rule sum_one)
    fix x assume x: "x \<in> set (idx (W * 10))" "x \<noteq> i"
    then have "ol_order l \<noteq> o_key q" if "l \<in> set (order_lines (dp x))" for l
      using rows_mem [OF rows [of x] that] own [of x] by auto
    then show "count_where (\<lambda>l. ol_order l = o_key q) (order_lines (dp x)) = 0" by (rule count_where_none)
  qed (use i in simp_all)
  also have "\<dots> = int (length (filter (\<lambda>p. fst p = j) (line_indices (orders (dp i)))))"
    unfolding count_where_def by (intro arg_cong [where f = int] count_rows [OF rows [OF i(1)]]) (simp add: own)
  also have "\<dots> = o_ol_cnt q"
    using count_pairs [of j 3000 "\<lambda>j. nat (o_ol_cnt (orders (dp i) ! j))"] i(2,3,5)
    by (simp add: line_indices_def orderPerDistrict_def)
  finally show "o_ol_cnt q = count_where (\<lambda>l. ol_order l = o_key q) (order_lines u)" by simp
qed

lemma pop_delivered:
  assumes "populated_by W ip wp dp u"
  shows "cond_delivered u"
  unfolding cond_delivered_def
proof (intro ballI impI)
  fix q l assume m: "q \<in> set (orders u)" "l \<in> set (order_lines u)" and eq: "ol_order l = o_key q"
  obtain i j where i: "o_key q = (i div 10 + 1, i mod 10 + 1, int j + 1)" "o_carrier_id q = None \<longleftrightarrow> 2100 \<le> j"
    using order_at [OF assms m(1)] by (elim exE conjE) (rule that)
  obtain i' j' n where l: "ol_key l = ((i' div 10 + 1, i' mod 10 + 1, int j' + 1), int n + 1)"
      "ol_delivery_d l = None \<longleftrightarrow> 2100 \<le> j'"
    using line_at [OF assms m(2)] by (elim exE conjE) (rule that)
  have "j' = j" using eq ol_order_key [OF l(1)] i(1) by simp
  then show "ol_delivery_d l = None \<longleftrightarrow> o_carrier_id q = None" using i(2) l(2) by simp
qed

text \<open>Nothing has been delivered for money, and every customer has paid once.\<close>

lemma pop_no_delivery:
  assumes "populated_by W ip wp dp u"
  shows "delivered (orders u) (order_lines u) k = 0"
proof -
  have "lines_sum (\<lambda>l. ol_delivery_d l \<noteq> None) (order_lines u) r = 0" for r
    unfolding lines_sum_def
  proof (rule sum_where_none)
    fix l assume "l \<in> set (order_lines u)" "ol_order l = o_key r \<and> ol_delivery_d l \<noteq> None"
    then show "ol_amount l = 0" using line_at [OF assms] by blast
  qed
  then show ?thesis unfolding delivered_def by (simp add: sum_where_none)
qed

definition h_customer :: "history_row \<Rightarrow> int \<times> int \<times> int" where
  "h_customer h = (h_c_w_id h, h_c_d_id h, h_c_id h)"

lemma distinct_grid:
  assumes "distinct xs" "distinct ys" "\<And>i j i' j'. g i j = g i' j' \<Longrightarrow> i = i' \<and> j = j'"
  shows "distinct (map (\<lambda>(i, j). g i j) (List.product xs ys))"
  unfolding distinct_map
proof
  show "distinct (List.product xs ys)" by (rule distinct_product [OF assms(1,2)])
  show "inj_on (\<lambda>(i, j). g i j) (set (List.product xs ys))" using assms(3) by (auto intro!: inj_onI)
qed

lemma pop_history_keys:
  assumes "populated_by W ip wp dp u"
  shows "map h_customer (histories u) = map (\<lambda>(i, j). (i div 10 + 1, i mod 10 + 1, int j + 1)) (List.product (idx (W * 10)) [0..<3000])"
  unfolding populated_tables [OF assms]
proof (rule concat_map_keys)
  fix i assume "i \<in> set (idx (W * 10))"
  then have "list_all2 (history_ok (i div 10 + 1) (i mod 10 + 1)) [0..<3000] (histories (dp i))"
    by (intro district_partD(2) pop_parts(2) [OF assms]) simp
  then show "map h_customer (histories (dp i)) = map (\<lambda>j. (i div 10 + 1, i mod 10 + 1, int j + 1)) [0..<3000]"
    by (rule rows_keys) (simp add: history_ok_def h_customer_def)
qed

lemma distinct_numbers:
  "distinct (map (\<lambda>(i, j). (i div 10 + 1, i mod 10 + 1, int j + 1)) (List.product (idx n) ys))"
  "distinct (map (\<lambda>(i, j). (i div 10 + 1, i mod 10 + 1, 2101 + int j)) (List.product (idx n) ys))"
  if "distinct ys"
proof -
  have inj: "i = i' \<and> j = j'" if "i div 10 + 1 = i' div 10 + 1 \<and> i mod 10 + 1 = i' mod 10 + 1 \<and> int j = int j'"
    for i i' :: int and j j' :: nat
    using that div_mod_inj [of i i'] by simp
  show "distinct (map (\<lambda>(i, j). (i div 10 + 1, i mod 10 + 1, int j + 1)) (List.product (idx n) ys))"
    by (rule distinct_grid [OF distinct_idx that], rule inj) simp
  show "distinct (map (\<lambda>(i, j). (i div 10 + 1, i mod 10 + 1, 2101 + int j)) (List.product (idx n) ys))"
    by (rule distinct_grid [OF distinct_idx that], rule inj) simp
qed

lemma pop_paid:
  assumes "populated_by W ip wp dp u" "c \<in> set (customers u)"
  shows "paid_by (histories u) (c_key c) = 1000"
proof -
  obtain i j where i: "i \<in> {0..<W * 10}" "j < 3000" "c_key c = (i div 10 + 1, i mod 10 + 1, int j + 1)"
    using pop_rows(4) [OF assms] by (auto simp: customer_row_ok_def)
  have "set (map h_customer (histories u)) =
      set (map (\<lambda>(i, j). (i div 10 + 1, i mod 10 + 1, int j + 1)) (List.product (idx (W * 10)) [0..<3000]))"
    using pop_history_keys [OF assms(1)] by (rule arg_cong)
  then have "c_key c \<in> h_customer ` set (histories u)" using i by (auto simp: set_product)
  then obtain h where h: "h \<in> set (histories u)" "h_customer h = c_key c" by auto
  have d: "distinct (map h_customer (histories u))"
    unfolding pop_history_keys [OF assms(1)] by (rule distinct_numbers(1)) simp
  have "paid_by (histories u) (c_key c) = h_amount h"
    unfolding paid_by_def by (rule sum_where_key [OF d h(1)]) (use h(2) in \<open>auto simp: h_customer_def\<close>)
  also have "\<dots> = 1000" using pop_rows(5) [OF assms(1) h(1)] by (auto simp: history_ok_def)
  finally show ?thesis .
qed

lemma pop_balance:
  assumes "populated_by W ip wp dp u"
  shows "cond_balance u"
  unfolding cond_balance_def
proof
  fix c assume c: "c \<in> set (customers u)"
  then have "c_balance c = - 1000 \<and> c_ytd_payment c = 1000"
    using pop_rows(4) [OF assms] by (auto simp: customer_row_ok_def)
  then show "c_balance c = delivered (orders u) (order_lines u) (c_key c) - paid_by (histories u) (c_key c) \<and>
      c_balance c + c_ytd_payment c = delivered (orders u) (order_lines u) (c_key c)"
    by (simp add: pop_no_delivery [OF assms] pop_paid [OF assms c])
qed

lemma pop_key_sets:
  assumes "populated_by W ip wp dp u"
  shows "distinct (map w_key (warehouses u))" "distinct (map d_key (districts u))"
    "distinct (map o_key (orders u))" "distinct (map no_key (new_orders u))"
proof -
  note K = pop_keys [OF assms]
  show "distinct (map w_key (warehouses u))"
    unfolding K distinct_map by (auto intro!: distinct_product inj_onI)
  show "distinct (map d_key (districts u))"
    unfolding K distinct_map by (auto intro!: distinct_product inj_onI)
  show "distinct (map o_key (orders u))" unfolding K by (rule distinct_numbers(1)) simp
  show "distinct (map no_key (new_orders u))" unfolding K by (rule distinct_numbers(2)) simp
qed

lemma pop_cond_keys:
  assumes "populated_by W ip wp dp u"
  shows "cond_keys u"
proof -
  have "(o_w_id q, o_d_id q) \<in> d_key ` set (districts u)" if q: "q \<in> set (orders u)" for q
  proof -
    obtain i j where i: "i \<in> {0..<W * 10}" "o_key q = (i div 10 + 1, i mod 10 + 1, int j + 1)"
      using order_at [OF assms q] by (elim exE conjE) (rule that)
    then have "i div 10 \<in> {0..<W}" "nat (i mod 10) < 10" "int (nat (i mod 10)) = i mod 10" by auto
    then show ?thesis unfolding o_keys(3) [OF assms] using i(2)
      by (intro bexI [of _ "i div 10"] exI [of _ "nat (i mod 10)"]) (simp_all add: o_key_def)
  qed
  moreover have "no_key ` set (new_orders u) \<subseteq> o_key ` set (orders u)"
  proof
    fix k assume "k \<in> no_key ` set (new_orders u)"
    then obtain i j where i: "i \<in> {0..<W * 10}" "j < 900" "k = (i div 10 + 1, i mod 10 + 1, 2101 + int j)"
      unfolding o_keys(2) [OF assms] by blast
    then show "k \<in> o_key ` set (orders u)"
      unfolding o_keys(1) [OF assms] by (intro bexI [of _ i] exI [of _ "2100 + j"]) simp_all
  qed
  moreover have "ol_order ` set (order_lines u) \<subseteq> o_key ` set (orders u)"
  proof
    fix k assume "k \<in> ol_order ` set (order_lines u)"
    then obtain l where l: "l \<in> set (order_lines u)" "k = ol_order l" by blast
    obtain i j n where i: "i \<in> {0..<W * 10}" "j < 3000" "ol_key l = ((i div 10 + 1, i mod 10 + 1, int j + 1), int n + 1)"
      using line_at [OF assms l(1)] by (elim exE conjE) (rule that)
    then show "k \<in> o_key ` set (orders u)"
      unfolding o_keys(1) [OF assms] l(2) ol_order_key [OF i(3)] by (intro bexI [of _ i] exI [of _ j]) simp_all
  qed
  ultimately show ?thesis using pop_key_sets [OF assms] unfolding cond_keys_def by blast
qed

lemma pop_values:
  assumes "populated_by W ip wp dp u"
  shows "cond_values u"
  unfolding cond_values_def
proof (intro conjI ballI)
  fix r assume "r \<in> set (items u)"
  then show "1 \<le> i_id r" by (rule pop_rows(9) [OF assms])
next
  fix r assume "r \<in> set (stocks u)"
  then obtain i j where "stock_row_ok (i + 1) j r" using pop_rows(3) [OF assms] by blast
  then show "length (s_dist r) = 10" "10 \<le> s_quantity r" "s_quantity r \<le> 100" by (simp_all add: stock_row_ok_def)
next
  fix r assume "r \<in> set (customers u)"
  then obtain w d j where "customer_row_ok w d j r" using pop_rows(4) [OF assms] by blast
  then show "300 \<le> length (c_data r)" "length (c_data r) \<le> 500" by (simp_all add: customer_row_ok_def)
qed

lemma populated_consistent: "populated W u \<Longrightarrow> consistent u"
  unfolding populated_def consistent_def
  by (elim exE, fold populated_by_def)
    (intro conjI pop_ytd pop_ids pop_carrier pop_lines pop_delivered pop_balance pop_cond_keys pop_values)

subsection \<open>Orders and new orders of a fresh district\<close>

lemma part_size:
  assumes "\<And>x r. x \<in> {0..<n} \<Longrightarrow> r \<in> set (F x) \<Longrightarrow> k r = (x div 10 + 1, x mod 10 + 1)" "i \<in> {0..<n}"
  shows "length (filter (\<lambda>r. k r = (i div 10 + 1, i mod 10 + 1)) (concat (map F (idx n)))) = length (F i)"
proof -
  let ?P = "\<lambda>r. k r = (i div 10 + 1, i mod 10 + 1)"
  have "count_where ?P (concat (map F (idx n))) = sum_list (map (\<lambda>x. count_where ?P (F x)) (idx n))"
    by (rule count_where_concat)
  also have "\<dots> = count_where ?P (F i)"
  proof (rule sum_one)
    fix x assume "x \<in> set (idx n)" "x \<noteq> i"
    then show "count_where ?P (F x) = 0" using assms(1) [of x] div_mod_inj [of x i] by (intro count_where_none) auto
  qed (use assms(2) in simp_all)
  also have "\<dots> = int (length (F i))"
  proof -
    have "filter ?P (F i) = F i" using assms by (auto simp: filter_id_conv)
    then show ?thesis by (simp add: count_where_def)
  qed
  finally show ?thesis by (simp add: count_where_def)
qed

lemma pop_order_counts:
  assumes "populated_by W ip wp dp u" "i \<in> {0..<W * 10}"
  shows "length (filter (\<lambda>r. (o_w_id r, o_d_id r) = (i div 10 + 1, i mod 10 + 1)) (orders u)) = 3000"
    "length (filter (\<lambda>r. (no_w_id r, no_d_id r) = (i div 10 + 1, i mod 10 + 1)) (new_orders u)) = 900"
proof -
  have o: "(o_w_id r, o_d_id r) = (x div 10 + 1, x mod 10 + 1)" if "x \<in> {0..<W * 10}" "r \<in> set (orders (dp x))" for x r
    using rows_mem [OF district_partD(3) [OF pop_parts(2) [OF assms(1) that(1)]] that(2)] by (auto simp: order_row_ok_def o_key_def)
  have n: "(no_w_id r, no_d_id r) = (x div 10 + 1, x mod 10 + 1)" if "x \<in> {0..<W * 10}" "r \<in> set (new_orders (dp x))" for x r
    using rows_mem [OF district_partD(4) [OF pop_parts(2) [OF assms(1) that(1)]] that(2)] by (auto simp: new_order_ok_def no_key_def)
  note D = pop_parts(2) [OF assms]
  show "length (filter (\<lambda>r. (o_w_id r, o_d_id r) = (i div 10 + 1, i mod 10 + 1)) (orders u)) = 3000"
    using part_size [of "W * 10" "\<lambda>i. orders (dp i)", OF o assms(2)] list_all2_lengthD [OF district_partD(3) [OF D]]
    unfolding populated_tables [OF assms(1)] by simp
  show "length (filter (\<lambda>r. (no_w_id r, no_d_id r) = (i div 10 + 1, i mod 10 + 1)) (new_orders u)) = 900"
    using part_size [of "W * 10" "\<lambda>i. new_orders (dp i)", OF n assms(2)] list_all2_lengthD [OF district_partD(4) [OF D]]
    unfolding populated_tables [OF assms(1)] by simp
qed

lemma query11_fresh:
  assumes "populated W u" "same_rows t u"
  shows "query11 True w t = []"
proof -
  obtain ip wp dp where p: "populated_by W ip wp dp u" using assms(1) unfolding populated_def by (fold populated_by_def) blast
  have m: "mset (orders t) = mset (orders u)" "mset (new_orders t) = mset (new_orders u)" using assms(2) by (simp_all add: same_rows_def)
  have "int (length os) - int (length ns) = 2100"
    if os: "(d, os) \<in> set (group_by o_d_id (filter (\<lambda>r. o_w_id r = w) (orders t)))"
      and ns: "(d, ns) \<in> set (group_by no_d_id (filter (\<lambda>r. no_w_id r = w) (new_orders t)))" for d os ns
  proof -
    obtain q where q: "q \<in> set (orders t)" "o_w_id q = w" "o_d_id q = d" using os by (auto simp: group_by_mem)
    then have qu: "q \<in> set (orders u)" using mset_eq_setD [OF m(1)] by simp
    obtain i j where i: "i \<in> {0..<W * 10}" "o_key q = (i div 10 + 1, i mod 10 + 1, int j + 1)"
      using order_at [OF p qu] by blast
    have wd: "(w, d) = (i div 10 + 1, i mod 10 + 1)" using i(2) q by (simp add: o_key_def)
    have "os = filter (\<lambda>r. (o_w_id r, o_d_id r) = (w, d)) (orders t)"
      using conjunct2 [OF os [unfolded group_by_mem]] by (auto intro: filter_cong)
    then have "length os = 3000"
      using pop_order_counts(1) [OF p i(1)] count_where_mset [OF m(1)] unfolding wd by (simp add: count_where_def)
    moreover have "ns = filter (\<lambda>r. (no_w_id r, no_d_id r) = (w, d)) (new_orders t)"
      using conjunct2 [OF ns [unfolded group_by_mem]] by (auto intro: filter_cong)
    then have "length ns = 900"
      using pop_order_counts(2) [OF p i(1)] count_where_mset [OF m(2)] unfolding wd by (simp add: count_where_def)
    ultimately show ?thesis by simp
  qed
  then show ?thesis unfolding query11_def by (fastforce simp: concat_eq_Nil_conv)
qed

lemma count_map: "count (mset (map f xs)) x = length (filter (\<lambda>r. f r = x) xs)"
  by (induction xs) simp_all

lemma one_order:
  assumes "populated_by W ip wp dp u" "c \<in> set (customers u)"
  shows "count_where (\<lambda>r. o_customer r = c_key c) (orders u) = 1"
proof -
  obtain i j where i: "i \<in> {0..<W * 10}" "j < 3000" "c_key c = (i div 10 + 1, i mod 10 + 1, int j + 1)"
    using pop_rows(4) [OF assms] by (auto simp: customer_row_ok_def)
  note D = pop_parts(2) [OF assms(1)]
  have own: "(o_w_id r, o_d_id r) = (x div 10 + 1, x mod 10 + 1)" if "x \<in> {0..<W * 10}" "r \<in> set (orders (dp x))" for x r
    using rows_mem [OF district_partD(3) [OF D [OF that(1)]] that(2)] by (auto simp: order_row_ok_def o_key_def)
  have "count_where (\<lambda>r. o_customer r = c_key c) (orders u) =
      sum_list (map (\<lambda>x. count_where (\<lambda>r. o_customer r = c_key c) (orders (dp x))) (idx (W * 10)))"
    by (simp add: populated_tables [OF assms(1)] count_where_concat)
  also have "\<dots> = count_where (\<lambda>r. o_customer r = c_key c) (orders (dp i))"
  proof (rule sum_one)
    fix x assume "x \<in> set (idx (W * 10))" "x \<noteq> i"
    then show "count_where (\<lambda>r. o_customer r = c_key c) (orders (dp x)) = 0"
      using own [of x] div_mod_inj [of x i] i(3) by (intro count_where_none) (auto simp: o_customer_def)
  qed (use i(1) in simp_all)
  also have "\<dots> = int (length (filter (\<lambda>r. o_c_id r = int j + 1) (orders (dp i))))"
    unfolding count_where_def using own [OF i(1)] i(3)
    by (intro arg_cong [where f = "\<lambda>xs. int (length xs)"] filter_cong refl) (auto simp: o_customer_def)
  also have "\<dots> = int (count (mset (map (\<lambda>j. int j + 1) [0..<3000])) (int j + 1))"
    unfolding count_map [symmetric]
    using district_partD(6) [OF D [OF i(1)]] by (simp only: each_customer_def customerPerDistrict_def)
  also have "\<dots> = 1"
  proof -
    have "distinct (map (\<lambda>j. int j + 1) [0..<3000])" by (simp add: distinct_map inj_on_def)
    moreover have "int j + 1 \<in> set (map (\<lambda>j. int j + 1) [0..<3000])" using i(2) by auto
    ultimately show ?thesis by (simp only: distinct_count_atmost_1 if_True of_nat_1)
  qed
  finally show ?thesis .
qed

subsection \<open>The results\<close>

lemma checkCondition11_good:
  "query11 fresh w t = [] \<Longrightarrow> checkCondition11 fresh w (t, sconst Done) = (None, (t, sconst Done))"
  by (simp add: checkCondition11_def call_good select_def no_change_def)

lemma checks_fresh:
  "q \<in> set (checks True True) \<Longrightarrow> q \<in> set (checks False True) \<or> q = (''3.3.2.11'', checkCondition11 True)"
  unfolding checks_def if_True if_False append_Nil2 set_append by (elim UnE disjI1) (simp only: list.set singleton_iff disj_absorb simp_thms empty_iff insert_iff)

lemma CheckPrepare_good:
  assumes "consistent t" "\<And>w. query11 True w t = []" "0 < threads"
    and "\<And>i. set (ord (checks True True) i) \<subseteq> set (checks True True)"
  shows "CheckPrepare ord threads W threadID (t, sconst Done) = Some (None, (t, sconst Done))"
proof -
  have "snd q w (t, sconst Done) = (None, (t, sconst Done))" if q: "q \<in> set (ord (checks True True) i)" for q i w
    using checks_fresh [OF subsetD [OF assms(4) q]]
  proof
    assume "q \<in> set (checks False True)"
    then show ?thesis using checks_good [OF assms(1), of "fst q" "snd q"] by simp
  next
    assume "q = (''3.3.2.11'', checkCondition11 True)"
    then show ?thesis by (simp add: checkCondition11_good assms(2))
  qed
  then have "check_warehouse (ord (checks True True) i) w (t, sconst Done) = (None, (t, sconst Done))" for i w
    by (intro check_warehouse_good) blast
  then show ?thesis
    unfolding CheckPrepare_def check_def by (rule check_loop_good [OF _ assms(3)])
qed

lemma first_error_None: "first_error fin = None \<longleftrightarrow> set fin \<subseteq> {None}"
proof
  assume f: "first_error fin = None"
  show "set fin \<subseteq> {None}"
  proof (cases "filter (\<lambda>e. e \<noteq> None) fin")
    case Nil
    then show ?thesis by (auto simp: filter_empty_conv)
  next
    case (Cons e es)
    then have "e \<in> set (filter (\<lambda>e. e \<noteq> None) fin)" by (metis list.set_intros(1))
    then show ?thesis using f Cons by (simp add: first_error_def)
  qed
next
  assume "set fin \<subseteq> {None}"
  then have "filter (\<lambda>e. e \<noteq> None) fin = []" unfolding filter_empty_conv by blast
  then show "first_error fin = None" by (simp add: first_error_def)
qed

lemma executeWorkload_success:
  "executeWorkload name action NoCheck Analyze fin analyzed checked = None \<Longrightarrow> first_error fin = None"
  by (auto simp: executeWorkload_def Let_def split: if_splits)

text \<open>
  C3. A preparation that reports success has made a consistent database.  However the warehouses and
  districts are shared among the threads, in whatever order the threads end and their rows arrive:
  if the command returns no error, the rows of all threads together satisfy the consistency
  conditions, every customer has exactly one order, and the check for fresh data, condition 11
  included, succeeds in every thread.
\<close>

theorem prepare_consistent:
  assumes "good_vars G" "0 < threads"
    and run: "\<forall>k \<in> {0..<threads}. ls_db (st k) = empty_db \<and> prepareWorkload lt G threads W k (st k) = Some (res k, st' k)"
    and fin: "mset fin = mset (map res (idx threads))"
    and success: "executeWorkload ''tpcc'' ''prepare'' NoCheck Analyze fin analyzed checked = None"
    and rows: "same_rows t (db_concat (map (\<lambda>k. ls_db (st' k)) (idx threads)))"
    and ord: "\<And>i. set (ord (checks True True) i) \<subseteq> set (checks True True)"
  shows "consistent t \<and> (\<forall>c \<in> set (customers t). count_where (\<lambda>r. o_customer r = c_key c) (orders t) = 1) \<and>
    CheckPrepare ord threads W threadID (t, sconst Done) = Some (None, (t, sconst Done))"
proof -
  have "set fin = res ` {0..<threads}" using mset_eq_setD [OF fin] by simp
  moreover have "set fin \<subseteq> {None}" using executeWorkload_success [OF success] first_error_None by blast
  ultimately have none: "res k = None" if "k \<in> {0..<threads}" for k using that by blast
  then have run': "\<forall>k \<in> {0..<threads}. ls_db (st k) = empty_db \<and> prepareWorkload lt G threads W k (st k) = Some (None, st' k)"
    using run by simp
  obtain u where u: "populated W u" "same_rows t u"
    using threads_populated [OF assms(1,2) run'] by (elim exE conjE) (rule that, assumption, rule same_rows_trans [OF rows])
  have c: "consistent t" by (rule consistent_same_rows [OF u(2) populated_consistent [OF u(1)]])
  obtain ip wp dp where p: "populated_by W ip wp dp u" using u(1) unfolding populated_def by (fold populated_by_def) blast
  have m: "mset (customers t) = mset (customers u)" "mset (orders t) = mset (orders u)" using u(2) by (simp_all add: same_rows_def)
  have one: "count_where (\<lambda>r. o_customer r = c_key c) (orders t) = 1" if "c \<in> set (customers t)" for c
    using one_order [OF p, of c] that unfolding count_where_mset [OF m(2)] mset_eq_setD [OF m(1)] .
  have "CheckPrepare ord threads W threadID (t, sconst Done) = Some (None, (t, sconst Done))"
    by (rule CheckPrepare_good [where ord = ord, OF c query11_fresh [OF u] assms(2) ord])
  then show ?thesis using c one by (intro conjI ballI)
qed

definition sample_load :: loadState where
  "sample_load = \<lparr>ls_R = sample_rnd, ls_global = sample_rnd, ls_sink = sconst None, ls_db = empty_db\<rparr>"

lemma all_none: "accepts (rs @- q) \<Longrightarrow> set rs \<subseteq> {None}"
proof (induction rs)
  case (Cons r rs)
  then show ?case using acceptsD [of "(r # rs) @- q"] by simp
qed simp

lemma sample_prepared:
  "\<exists>s'. prepareWorkload ''2024'' sample_vars 1 1 0 sample_load = Some (None, s')"
proof -
  have "good_vars sample_vars" by (simp add: good_vars_def sample_vars_def)
  then have "reports (prepareWorkload ''2024'' sample_vars 1 1 0)" by (rule reports_prepareWorkload) simp_all
  then obtain e s' rs where r: "prepareWorkload ''2024'' sample_vars 1 1 0 sample_load = Some (e, s')"
    "ls_sink sample_load = rs @- ls_sink s'" "e = None \<longleftrightarrow> set rs \<subseteq> {None}" by (rule reportsE [where s = sample_load])
  have "accepts (ls_sink sample_load)" unfolding sample_load_def loadState.select_convs by (rule accepts_sconst)
  then have "set rs \<subseteq> {None}" unfolding r(2) by (rule all_none)
  then show ?thesis using r(1,3) by simp
qed

lemma prepare_consistent_witness:
  "\<exists>s'. prepareWorkload ''2024'' sample_vars 1 1 0 sample_load = Some (None, s') \<and> consistent (ls_db s') \<and>
     CheckPrepare (\<lambda>cs i. rev cs) 1 1 0 (ls_db s', sconst Done) = Some (None, (ls_db s', sconst Done))"
proof -
  obtain s' where s': "prepareWorkload ''2024'' sample_vars 1 1 0 sample_load = Some (None, s')" using sample_prepared by blast
  have g: "good_vars sample_vars" by (simp add: good_vars_def sample_vars_def)
  have "consistent (ls_db s') \<and> (\<forall>c \<in> set (customers (ls_db s')). count_where (\<lambda>r. o_customer r = c_key c) (orders (ls_db s')) = 1) \<and>
      CheckPrepare (\<lambda>cs i. rev cs) 1 1 0 (ls_db s', sconst Done) = Some (None, (ls_db s', sconst Done))"
  proof (rule prepare_consistent [OF g, where st = "\<lambda>k. sample_load" and st' = "\<lambda>k. s'" and lt = "''2024''"
        and res = "\<lambda>k. None" and fin = "[None]" and NoCheck = False and Analyze = False and analyzed = None and checked = "[None]"])
    show "\<forall>k \<in> {0..<1}. ls_db sample_load = empty_db \<and> prepareWorkload ''2024'' sample_vars 1 1 k sample_load = Some (None, s')"
    proof
      fix k :: int assume "k \<in> {0..<1}"
      then have "k = 0" by simp
      then show "ls_db sample_load = empty_db \<and> prepareWorkload ''2024'' sample_vars 1 1 k sample_load = Some (None, s')"
        using s' by (simp only: sample_load_def loadState.select_convs simp_thms)
    qed
    have one: "idx 1 = [0]" by (simp add: idx_def)
    then show "mset [None] = mset (map (\<lambda>k. None) (idx 1))" by simp
    show "executeWorkload ''tpcc'' ''prepare'' False False [None] None [None] = None"
      by (simp add: executeWorkload_def first_error_def analyzePrepared_def checkPrepare_def)
    show "same_rows (ls_db s') (db_concat (map (\<lambda>k. ls_db s') (idx 1)))"
      using one by (simp add: same_rows_def db_concat_fields)
  qed simp_all
  then show ?thesis using s' by blast
qed

text \<open>
  C13. A thread of the preparation always returns: no draw or index fails, and the loops end.  It
  stops at the first reply of a sink that is an error, and it reports an error exactly if it has
  received one.
\<close>

theorem prepare_reports_errors:
  assumes "good_vars G" "0 < threads" "0 \<le> threadID"
  shows "\<exists>e s' rs. prepareWorkload lt G threads W threadID s = Some (e, s') \<and> ls_sink s = rs @- ls_sink s' \<and>
    set (butlast rs) \<subseteq> {None} \<and> (e = None \<longleftrightarrow> set rs \<subseteq> {None})"
  using reports_prepareWorkload [OF assms] unfolding reports_def by (rule spec)

lemma prepare_reports_errors_witness:
  "\<exists>e s' rs. prepareWorkload ''2024'' sample_vars 4 2 3 sample_load = Some (e, s') \<and> ls_sink sample_load = rs @- ls_sink s' \<and>
    set (butlast rs) \<subseteq> {None} \<and> (e = None \<longleftrightarrow> set rs \<subseteq> {None})"
  by (rule prepare_reports_errors) (simp_all add: good_vars_def sample_vars_def)

end
