(* ===== verification/TpccPrepare.thy ===== *)
theory TpccPrepare
  imports TpccPopulated RunLoop
begin

text \<open>
  \<open>Workloader.Prepare\<close> of \<open>tpcc/workload.go\<close> in all workers at once: worker 0 creates the tables, all
  workers meet at the wait group, then each loads its share.  A step is one operation of one worker,
  so the relation has every interleaving.
\<close>

datatype prepare_pc =
    Started
  | Created
  | Waiting
  | Loading
  | Ended "goerr option"

text \<open>The counter of the wait group, whether the tables exist, and where each worker is.\<close>

record barrier =
  br_count :: int
  br_tables :: bool
  br_pc :: "int \<Rightarrow> prepare_pc"

definition barrier_init :: "int \<Rightarrow> barrier" where
  "barrier_init threads = \<lparr>br_count = threads, br_tables = False, br_pc = (\<lambda>k. Started)\<rparr>"

text \<open>
  \<open>ddl\<close> is the error of \<open>createTables\<close> and \<open>load k\<close> that of \<open>prepareWorkload\<close> in worker \<open>k\<close>.
\<close>

inductive barrier_step ::
  "int \<Rightarrow> goerr option \<Rightarrow> (int \<Rightarrow> goerr option) \<Rightarrow> barrier \<Rightarrow> barrier \<Rightarrow> bool"
  for threads :: int and ddl :: "goerr option" and load :: "int \<Rightarrow> goerr option" where
  createTables_fails:
    "0 < threads \<Longrightarrow> br_pc b 0 = Started \<Longrightarrow> ddl = Some e \<Longrightarrow>
     barrier_step threads ddl load b (b\<lparr>br_pc := (br_pc b)(0 := Ended (Some e))\<rparr>)"
| createTables_done:
    "0 < threads \<Longrightarrow> br_pc b 0 = Started \<Longrightarrow> ddl = None \<Longrightarrow>
     barrier_step threads ddl load b (b\<lparr>br_tables := True, br_pc := (br_pc b)(0 := Created)\<rparr>)"
| others:
    "0 < k \<Longrightarrow> k < threads \<Longrightarrow> br_pc b k = Started \<Longrightarrow>
     barrier_step threads ddl load b (b\<lparr>br_pc := (br_pc b)(k := Created)\<rparr>)"
| Done:
    "0 \<le> k \<Longrightarrow> k < threads \<Longrightarrow> br_pc b k = Created \<Longrightarrow>
     barrier_step threads ddl load b (b\<lparr>br_count := br_count b - 1, br_pc := (br_pc b)(k := Waiting)\<rparr>)"
| Wait:
    "0 \<le> k \<Longrightarrow> k < threads \<Longrightarrow> br_pc b k = Waiting \<Longrightarrow> br_count b = 0 \<Longrightarrow>
     barrier_step threads ddl load b (b\<lparr>br_pc := (br_pc b)(k := Loading)\<rparr>)"
| prepareWorkload_ends:
    "0 \<le> k \<Longrightarrow> k < threads \<Longrightarrow> br_pc b k = Loading \<Longrightarrow>
     barrier_step threads ddl load b (b\<lparr>br_pc := (br_pc b)(k := Ended (load k))\<rparr>)"

inductive_cases barrier_stepE: "barrier_step threads ddl load b b'"

text \<open>The workers that have not been counted down, and those past the barrier.\<close>

definition ahead :: "int \<Rightarrow> goerr option \<Rightarrow> barrier \<Rightarrow> int set" where
  "ahead threads ddl b =
     {k \<in> {0..<threads}. br_pc b k \<in> {Started, Created} \<or> k = 0 \<and> ddl \<noteq> None}"

definition past :: "prepare_pc \<Rightarrow> bool" where
  "past pc \<longleftrightarrow> pc = Loading \<or> (\<exists>e. pc = Ended e)"

definition barrier_inv :: "int \<Rightarrow> goerr option \<Rightarrow> (int \<Rightarrow> goerr option) \<Rightarrow> barrier \<Rightarrow> bool" where
  "barrier_inv threads ddl load b \<longleftrightarrow>
     br_count b = int (card (ahead threads ddl b)) \<and>
     (\<forall>k \<in> {0..<threads}. past (br_pc b k) \<and> (k = 0 \<longrightarrow> ddl = None) \<longrightarrow> ahead threads ddl b = {}) \<and>
     (ddl \<noteq> None \<longrightarrow> br_pc b 0 \<in> {Started, Ended ddl}) \<and>
     (br_pc b 0 \<noteq> Started \<and> ddl = None \<longrightarrow> br_tables b) \<and>
     (\<forall>k \<in> {0..<threads}. \<forall>e. br_pc b k = Ended e \<longrightarrow> e = (if k = 0 \<and> ddl \<noteq> None then ddl else load k))"

lemma finite_ahead: "finite (ahead threads ddl b)"
  unfolding ahead_def by (rule finite_subset [of _ "{0..<threads}"]) auto

lemma barrier_inv_init:
  assumes "0 < threads"
  shows "barrier_inv threads ddl load (barrier_init threads)"
proof -
  have "ahead threads ddl (barrier_init threads) = {0..<threads}" by (auto simp: ahead_def barrier_init_def)
  then show ?thesis using assms by (auto simp: barrier_inv_def barrier_init_def past_def)
qed

lemma barrier_inv_update:
  assumes inv: "barrier_inv threads ddl load b" and k: "k \<in> {0..<threads}"
    and pc: "br_pc b' = (br_pc b)(k := p)" and count: "br_count b' = int (card (ahead threads ddl b'))"
    and sub: "ahead threads ddl b' \<subseteq> ahead threads ddl b"
    and past: "past p \<Longrightarrow> k \<noteq> 0 \<or> ddl = None \<Longrightarrow> ahead threads ddl b' = {}"
    and zero: "k = 0 \<Longrightarrow> ddl \<noteq> None \<Longrightarrow> p \<in> {Started, Ended ddl}"
    and tables: "k = 0 \<Longrightarrow> ddl = None \<Longrightarrow> br_tables b'" "br_tables b \<Longrightarrow> br_tables b'"
    and res: "\<And>e. p = Ended e \<Longrightarrow> e = (if k = 0 \<and> ddl \<noteq> None then ddl else load k)"
  shows "barrier_inv threads ddl load b'"
  unfolding barrier_inv_def
proof (intro conjI ballI impI allI)
  show "br_count b' = int (card (ahead threads ddl b'))" by (rule count)
next
  fix j assume j: "j \<in> {0..<threads}" "past (br_pc b' j) \<and> (j = 0 \<longrightarrow> ddl = None)"
  show "ahead threads ddl b' = {}"
  proof (cases "j = k")
    case True
    then show ?thesis using j(2) pc past by auto
  next
    case False
    then have "past (br_pc b j) \<and> (j = 0 \<longrightarrow> ddl = None)" using j(2) pc by simp
    then have "ahead threads ddl b = {}" using inv j(1) unfolding barrier_inv_def by blast
    then show ?thesis using sub by blast
  qed
next
  assume "ddl \<noteq> None"
  then show "br_pc b' 0 \<in> {Started, Ended ddl}" using inv zero pc unfolding barrier_inv_def by (cases "k = 0") simp_all
next
  assume "br_pc b' 0 \<noteq> Started \<and> ddl = None"
  then show "br_tables b'" using inv tables pc unfolding barrier_inv_def by (cases "k = 0") simp_all
next
  fix j e assume j: "j \<in> {0..<threads}" "br_pc b' j = Ended e"
  then show "e = (if j = 0 \<and> ddl \<noteq> None then ddl else load j)"
  proof (cases "j = k")
    case True
    then have "p = Ended e" using j(2) pc by simp
    then show ?thesis unfolding True by (rule res)
  next
    case False
    then have "br_pc b j = Ended e" using j(2) pc by simp
    then show ?thesis using inv j(1) unfolding barrier_inv_def by blast
  qed
qed

lemma barrier_inv_step:
  assumes "barrier_step threads ddl load b b'" "barrier_inv threads ddl load b"
  shows "barrier_inv threads ddl load b'"
  using assms(1)
proof cases
  case (createTables_fails e)
  have a: "ahead threads ddl b' = ahead threads ddl b" using createTables_fails by (auto simp: ahead_def)
  show ?thesis
    by (rule barrier_inv_update [OF assms(2), of 0 b' "Ended (Some e)"])
      (use createTables_fails assms(2) a in \<open>simp_all add: barrier_inv_def\<close>)
next
  case createTables_done
  have a: "ahead threads ddl b' = ahead threads ddl b" using createTables_done by (auto simp: ahead_def)
  show ?thesis
    by (rule barrier_inv_update [OF assms(2), of 0 b' Created])
      (use createTables_done assms(2) a in \<open>simp_all add: barrier_inv_def past_def\<close>)
next
  case (others k)
  have a: "ahead threads ddl b' = ahead threads ddl b" using others by (auto simp: ahead_def)
  show ?thesis
    by (rule barrier_inv_update [OF assms(2), of k b' Created])
      (use others assms(2) a in \<open>simp_all add: barrier_inv_def past_def\<close>)
next
  case (Done k)
  have nk: "ddl = None" if "k = 0" using assms(2) Done that unfolding barrier_inv_def by auto
  have k: "k \<in> ahead threads ddl b" using Done by (simp add: ahead_def)
  have a: "ahead threads ddl b' = ahead threads ddl b - {k}" using Done nk by (auto simp: ahead_def)
  have "0 < card (ahead threads ddl b)" using k finite_ahead [of threads ddl b] by (auto simp: card_gt_0_iff)
  then have c: "int (card (ahead threads ddl b')) = int (card (ahead threads ddl b)) - 1"
    unfolding a card_Diff_singleton [OF k] by simp
  have t: "br_tables b" if "k = 0" using assms(2) Done nk that unfolding barrier_inv_def by simp
  show ?thesis
  proof (rule barrier_inv_update [OF assms(2), of k b' Waiting])
    show "br_count b' = int (card (ahead threads ddl b'))" using c Done assms(2) by (simp add: barrier_inv_def)
    show "ahead threads ddl b' \<subseteq> ahead threads ddl b" using a by blast
  qed (use Done nk t in \<open>simp_all add: past_def\<close>)
next
  case (Wait k)
  have nk: "ddl = None" if "k = 0" using assms(2) Wait that unfolding barrier_inv_def by auto
  have e: "ahead threads ddl b = {}" using assms(2) Wait finite_ahead [of threads ddl b] unfolding barrier_inv_def by auto
  have a: "ahead threads ddl b' = ahead threads ddl b" using Wait by (auto simp: ahead_def)
  have t: "br_tables b" if "k = 0" using assms(2) Wait nk that unfolding barrier_inv_def by simp
  show ?thesis
    by (rule barrier_inv_update [OF assms(2), of k b' Loading]) (use Wait nk t e a in simp_all)
next
  case (prepareWorkload_ends k)
  have nk: "ddl = None" if "k = 0" using assms(2) prepareWorkload_ends that unfolding barrier_inv_def by auto
  have a: "ahead threads ddl b' = ahead threads ddl b" using prepareWorkload_ends by (auto simp: ahead_def)
  have e: "ahead threads ddl b = {}"
    using assms(2) prepareWorkload_ends nk unfolding barrier_inv_def past_def by auto
  have t: "br_tables b" if "k = 0" using assms(2) prepareWorkload_ends nk that unfolding barrier_inv_def by simp
  have count: "br_count b = 0" using assms(2) e by (simp add: barrier_inv_def)
  show ?thesis
  proof (rule barrier_inv_update [OF assms(2), of k b' "Ended (load k)"])
    fix x assume "Ended (load k) = Ended x"
    then show "x = (if k = 0 \<and> ddl \<noteq> None then ddl else load k)" using nk by auto
  qed (use prepareWorkload_ends nk t e a count in simp_all)
qed

lemma barrier_reach_inv:
  "(barrier_step threads ddl load)\<^sup>*\<^sup>* (barrier_init threads) b \<Longrightarrow> 0 < threads \<Longrightarrow> barrier_inv threads ddl load b"
  by (induction rule: rtranclp_induct) (auto intro: barrier_inv_init barrier_inv_step)

text \<open>With the tables created, some worker can go on as long as one has not ended.\<close>

lemma barrier_progress:
  assumes "0 < threads" "barrier_inv threads None load b" "k \<in> {0..<threads}" "\<nexists>e. br_pc b k = Ended e"
  shows "\<exists>b'. barrier_step threads None load b b'"
proof (cases "ahead threads None b = {}")
  case True
  then have zero: "br_count b = 0" using assms(2) by (simp add: barrier_inv_def)
  have "br_pc b k \<notin> {Started, Created}" using True assms(3) by (auto simp: ahead_def)
  then have "br_pc b k = Waiting \<or> br_pc b k = Loading" using assms(4) by (cases "br_pc b k") auto
  then show ?thesis using assms(3) zero by (auto intro: Wait prepareWorkload_ends)
next
  case False
  then obtain j where j: "0 \<le> j" "j < threads" "br_pc b j \<in> {Started, Created}" by (auto simp: ahead_def)
  then show ?thesis
  proof (cases "br_pc b j = Created")
    case True
    then show ?thesis using Done [OF j(1,2)] by blast
  next
    case False
    then have "br_pc b j = Started" using j(3) by simp
    then show ?thesis
      using createTables_done [OF assms(1), of b None load] others [of j threads b None load] j(1,2)
      by (cases "j = 0") auto
  qed
qed

text \<open>If creating the tables failed, no other worker gets past the barrier.\<close>

lemma barrier_stuck:
  assumes "0 < threads" "(barrier_step threads ddl load)\<^sup>*\<^sup>* (barrier_init threads) b" "ddl \<noteq> None" "k \<in> {1..<threads}"
  shows "\<not> past (br_pc b k)"
proof
  assume "past (br_pc b k)"
  then have "ahead threads ddl b = {}"
    using barrier_reach_inv [OF assms(2,1)] assms(4) unfolding barrier_inv_def by fastforce
  moreover have "0 \<in> ahead threads ddl b" using assms(1,3) by (simp add: ahead_def)
  ultimately show False by blast
qed

text \<open>
  C34. The barrier of the preparation.  No worker loads rows before the tables exist, and while one
  has not ended some worker can go on.  If creating the tables fails, though, worker 0 returns
  without counting down and every other worker waits for ever: the command hangs instead of
  reporting the error.
\<close>

theorem prepare_barrier:
  assumes "0 < threads" "(barrier_step threads ddl load)\<^sup>*\<^sup>* (barrier_init threads) b"
  shows "(ddl = None \<longrightarrow>
      (\<forall>k \<in> {0..<threads}. past (br_pc b k) \<longrightarrow> br_tables b) \<and>
      ((\<forall>k \<in> {0..<threads}. br_pc b k = Ended (load k)) \<or> (\<exists>b'. barrier_step threads ddl load b b'))) \<and>
    (ddl \<noteq> None \<longrightarrow> (\<forall>k \<in> {1..<threads}. \<not> past (br_pc b k)))"
proof -
  have inv: "barrier_inv threads ddl load b" by (rule barrier_reach_inv [OF assms(2,1)])
  have tables: "br_tables b" if "ddl = None" "k \<in> {0..<threads}" "past (br_pc b k)" for k
  proof -
    have "ahead threads ddl b = {}" using inv that unfolding barrier_inv_def by blast
    then have "br_pc b 0 \<noteq> Started" using assms(1) by (auto simp: ahead_def)
    then show ?thesis using inv that(1) by (simp add: barrier_inv_def)
  qed
  have go: "(\<forall>k \<in> {0..<threads}. br_pc b k = Ended (load k)) \<or> (\<exists>b'. barrier_step threads ddl load b b')" if d: "ddl = None"
  proof (cases "\<forall>k \<in> {0..<threads}. \<exists>e. br_pc b k = Ended e")
    case True
    then have "\<forall>k \<in> {0..<threads}. br_pc b k = Ended (load k)" using inv d unfolding barrier_inv_def by fastforce
    then show ?thesis by blast
  next
    case False
    then show ?thesis using barrier_progress [OF assms(1)] inv d by blast
  qed
  show ?thesis using tables go barrier_stuck [OF assms] by blast
qed

text \<open>Two workers after \<open>createTables\<close> failed.\<close>

definition hanging :: "goerr \<Rightarrow> barrier" where
  "hanging e = \<lparr>br_count = 1, br_tables = False, br_pc = ((\<lambda>k. Started)(0 := Ended (Some e)))(1 := Waiting)\<rparr>"

lemma hanging_run: "(barrier_step 2 (Some e) load)\<^sup>*\<^sup>* (barrier_init 2) (hanging e)"
proof -
  let ?s = "barrier_step 2 (Some e) load"
  let ?b1 = "\<lparr>br_count = 2, br_tables = False, br_pc = (\<lambda>k. Started)(0 := Ended (Some e))\<rparr>"
  let ?b2 = "\<lparr>br_count = 2, br_tables = False, br_pc = ((\<lambda>k. Started)(0 := Ended (Some e)))(1 := Created)\<rparr>"
  have "?s (barrier_init 2) ?b1" using createTables_fails [of 2 "barrier_init 2" "Some e"] by (simp add: barrier_init_def)
  moreover have "?s ?b1 ?b2" using others [of 1 2 ?b1] by simp
  moreover have "?s ?b2 (hanging e)" using Done [of 1 2 ?b2] by (simp add: hanging_def)
  ultimately show ?thesis by (meson rtranclp.rtrancl_into_rtrancl rtranclp.rtrancl_refl)
qed

lemma prepare_barrier_witness:
  "\<not> past (br_pc (hanging [Plain ''denied'']) 1) \<and> \<not> (\<exists>b'. barrier_step 2 (Some [Plain ''denied'']) (\<lambda>k. None) (hanging [Plain ''denied'']) b')"
proof -
  have "\<not> past (br_pc (hanging [Plain ''denied'']) 1)"
    using prepare_barrier [OF _ hanging_run [of "[Plain ''denied'']" "\<lambda>k. None"]] by simp
  moreover have "\<not> barrier_step 2 (Some [Plain ''denied'']) (\<lambda>k. None) (hanging [Plain ''denied'']) b'" for b'
  proof
    assume "barrier_step 2 (Some [Plain ''denied'']) (\<lambda>k. None) (hanging [Plain ''denied'']) b'"
    then show False
    proof cases
      case (others k)
      then have "k = 1" by simp
      then show False using others by (simp add: hanging_def)
    qed (auto simp: hanging_def split: if_splits)
  qed
  ultimately show ?thesis by blast
qed

end
