(* ===== verification/TpccSchema.thy ===== *)
theory TpccSchema
  imports TpccDdl TpccPrepare
begin

text \<open>
  The schema of TPC-C: the statements of \<open>createTables\<close> and \<open>dropTable\<close> of \<open>tpcc/ddl.go\<close>, run one after
  another against the catalog of a server, and what preparing, cleaning up and preparing again do.
\<close>

subsection \<open>Texts\<close>

definition tab :: "string \<Rightarrow> string" where "tab s = CHR 0x09 # s"

definition my_warehouse :: "string \<Rightarrow> string" where
  "my_warehouse cl = joined nl
      [[],
       ''CREATE TABLE IF NOT EXISTS warehouse ('',
       tab ''w_id INT NOT NULL,'',
       tab ''w_name VARCHAR(10),'',
       tab ''w_street_1 VARCHAR(20),'',
       tab ''w_street_2 VARCHAR(20),'',
       tab ''w_city VARCHAR(20),'',
       tab ''w_state CHAR(2),'',
       tab ''w_zip CHAR(9),'',
       tab ''w_tax DECIMAL(4, 4),'',
       tab ''w_ytd DECIMAL(12, 2),'',
       tab (''PRIMARY KEY (w_id) /*T![clustered_index] '' @ cl @ '' */''),
       '')'']"

definition my_district :: "string \<Rightarrow> string" where
  "my_district cl = joined nl
      [[],
       ''CREATE TABLE IF NOT EXISTS district ('',
       tab ''d_id INT NOT NULL,'',
       tab ''d_w_id INT NOT NULL,'',
       tab ''d_name VARCHAR(10),'',
       tab ''d_street_1 VARCHAR(20),'',
       tab ''d_street_2 VARCHAR(20),'',
       tab ''d_city VARCHAR(20),'',
       tab ''d_state CHAR(2),'',
       tab ''d_zip CHAR(9),'',
       tab ''d_tax DECIMAL(4, 4),'',
       tab ''d_ytd DECIMAL(12, 2),'',
       tab ''d_next_o_id INT,'',
       tab (''PRIMARY KEY (d_w_id, d_id) /*T![clustered_index] '' @ cl @ '' */''),
       '')'']"

definition my_customer :: "string \<Rightarrow> string" where
  "my_customer cl = joined nl
      [[],
       ''CREATE TABLE IF NOT EXISTS customer ('',
       tab ''c_id INT NOT NULL,'',
       tab ''c_d_id INT NOT NULL,'',
       tab ''c_w_id INT NOT NULL,'',
       tab ''c_first VARCHAR(16),'',
       tab ''c_middle CHAR(2),'',
       tab ''c_last VARCHAR(16),'',
       tab ''c_street_1 VARCHAR(20),'',
       tab ''c_street_2 VARCHAR(20),'',
       tab ''c_city VARCHAR(20),'',
       tab ''c_state CHAR(2),'',
       tab ''c_zip CHAR(9),'',
       tab ''c_phone CHAR(16),'',
       tab ''c_since DATETIME,'',
       tab ''c_credit CHAR(2),'',
       tab ''c_credit_lim DECIMAL(12, 2),'',
       tab ''c_discount DECIMAL(4,4),'',
       tab ''c_balance DECIMAL(12,2),'',
       tab ''c_ytd_payment DECIMAL(12,2),'',
       tab ''c_payment_cnt INT,'',
       tab ''c_delivery_cnt INT,'',
       tab ''c_data VARCHAR(500),'',
       tab (''PRIMARY KEY(c_w_id, c_d_id, c_id) /*T![clustered_index] '' @ cl @ '' */,''),
       tab ''INDEX idx_customer (c_w_id, c_d_id, c_last, c_first)'',
       '')'']"

definition my_history :: string where
  "my_history = joined nl
      [[],
       ''CREATE TABLE IF NOT EXISTS history ('',
       tab ''h_c_id INT NOT NULL,'',
       tab ''h_c_d_id INT NOT NULL,'',
       tab ''h_c_w_id INT NOT NULL,'',
       tab ''h_d_id INT NOT NULL,'',
       tab ''h_w_id INT NOT NULL,'',
       tab ''h_date DATETIME,'',
       tab ''h_amount DECIMAL(6, 2),'',
       tab ''h_data VARCHAR(24),'',
       tab ''INDEX idx_h_w_id (h_w_id),'',
       tab ''INDEX idx_h_c_w_id (h_c_w_id)'',
       '')'']"

definition my_new_order :: "string \<Rightarrow> string" where
  "my_new_order cl = joined nl
      [[],
       ''CREATE TABLE IF NOT EXISTS new_order ('',
       tab ''no_o_id INT NOT NULL,'',
       tab ''no_d_id INT NOT NULL,'',
       tab ''no_w_id INT NOT NULL,'',
       tab (''PRIMARY KEY(no_w_id, no_d_id, no_o_id) /*T![clustered_index] '' @ cl @ '' */''),
       '')'']"

definition my_orders :: "string \<Rightarrow> string" where
  "my_orders cl = joined nl
      [[],
       ''CREATE TABLE IF NOT EXISTS orders ('',
       tab ''o_id INT NOT NULL,'',
       tab ''o_d_id INT NOT NULL,'',
       tab ''o_w_id INT NOT NULL,'',
       tab ''o_c_id INT,'',
       tab ''o_entry_d DATETIME,'',
       tab ''o_carrier_id INT,'',
       tab ''o_ol_cnt INT,'',
       tab ''o_all_local INT,'',
       tab (''PRIMARY KEY(o_w_id, o_d_id, o_id) /*T![clustered_index] '' @ cl @ '' */,''),
       tab ''INDEX idx_order (o_w_id, o_d_id, o_c_id, o_id)'',
       '')'']"

definition my_order_line :: "string \<Rightarrow> string" where
  "my_order_line cl = joined nl
      [[],
       tab ''CREATE TABLE IF NOT EXISTS order_line ('',
       tab (tab ''ol_o_id INT NOT NULL,''),
       tab (tab ''ol_d_id INT NOT NULL,''),
       tab (tab ''ol_w_id INT NOT NULL,''),
       tab (tab ''ol_number INT NOT NULL,''),
       tab (tab ''ol_i_id INT NOT NULL,''),
       tab (tab ''ol_supply_w_id INT,''),
       tab (tab ''ol_delivery_d DATETIME,''),
       tab (tab ''ol_quantity INT,''),
       tab (tab ''ol_amount DECIMAL(6, 2),''),
       tab (tab ''ol_dist_info CHAR(24),''),
       tab (tab (''PRIMARY KEY(ol_w_id, ol_d_id, ol_o_id, ol_number) /*T![clustered_index] '' @ cl @ '' */'')),
       '')'']"

definition my_stock :: "string \<Rightarrow> string" where
  "my_stock cl = joined nl
      [[],
       ''CREATE TABLE IF NOT EXISTS stock ('',
       tab ''s_i_id INT NOT NULL,'',
       tab ''s_w_id INT NOT NULL,'',
       tab ''s_quantity INT,'',
       tab ''s_dist_01 CHAR(24),'',
       tab ''s_dist_02 CHAR(24),'',
       tab ''s_dist_03 CHAR(24),'',
       tab ''s_dist_04 CHAR(24),'',
       tab ''s_dist_05 CHAR(24),'',
       tab ''s_dist_06 CHAR(24),'',
       tab ''s_dist_07 CHAR(24),'',
       tab ''s_dist_08 CHAR(24),'',
       tab ''s_dist_09 CHAR(24),'',
       tab ''s_dist_10 CHAR(24),'',
       tab ''s_ytd INT,'',
       tab ''s_order_cnt INT,'',
       tab ''s_remote_cnt INT,'',
       tab ''s_data VARCHAR(50),'',
       tab (''PRIMARY KEY(s_w_id, s_i_id) /*T![clustered_index] '' @ cl @ '' */''),
       '')'']"

definition my_item :: "string \<Rightarrow> string" where
  "my_item cl = joined nl
      [[],
       ''CREATE TABLE IF NOT EXISTS item ('',
       tab ''i_id INT NOT NULL,'',
       tab ''i_im_id INT,'',
       tab ''i_name VARCHAR(24),'',
       tab ''i_price DECIMAL(5, 2),'',
       tab ''i_data VARCHAR(50),'',
       tab (''PRIMARY KEY(i_id) /*T![clustered_index] '' @ cl @ '' */''),
       '')'']"

definition fk_d_warehouse_fkey :: string where
  "fk_d_warehouse_fkey = joined nl
      [[],
       ''alter table district add constraint d_warehouse_fkey'',
       ''    foreign key (d_w_id)'',
       ''    references warehouse (w_id)'']"

definition fk_c_district_fkey :: string where
  "fk_c_district_fkey = joined nl
      [[],
       ''alter table customer add constraint c_district_fkey'',
       ''    foreign key (c_w_id, c_d_id)'',
       ''    references district (d_w_id, d_id)'']"

definition fk_h_customer_fkey :: string where
  "fk_h_customer_fkey = joined nl
      [[],
       ''alter table history add constraint h_customer_fkey'',
       ''    foreign key (h_c_w_id, h_c_d_id, h_c_id)'',
       ''    references customer (c_w_id, c_d_id, c_id)'']"

definition fk_h_district_fkey :: string where
  "fk_h_district_fkey = joined nl
      [[],
       ''alter table history add constraint h_district_fkey'',
       ''    foreign key (h_w_id, h_d_id)'',
       ''    references district (d_w_id, d_id)'']"

definition fk_no_order_fkey :: string where
  "fk_no_order_fkey = joined nl
      [[],
       ''alter table new_order add constraint no_order_fkey'',
       ''    foreign key (no_w_id, no_d_id, no_o_id)'',
       ''    references orders (o_w_id, o_d_id, o_id)'']"

definition fk_o_customer_fkey :: string where
  "fk_o_customer_fkey = joined nl
      [[],
       ''alter table orders add constraint o_customer_fkey'',
       ''    foreign key (o_w_id, o_d_id, o_c_id)'',
       ''    references customer (c_w_id, c_d_id, c_id)'']"

definition fk_ol_order_fkey :: string where
  "fk_ol_order_fkey = joined nl
      [[],
       ''alter table order_line add constraint ol_order_fkey'',
       ''    foreign key (ol_w_id, ol_d_id, ol_o_id)'',
       ''    references orders (o_w_id, o_d_id, o_id)'']"

definition fk_ol_stock_fkey :: string where
  "fk_ol_stock_fkey = joined nl
      [[],
       ''alter table order_line add constraint ol_stock_fkey'',
       ''    foreign key (ol_supply_w_id, ol_i_id)'',
       ''    references stock (s_w_id, s_i_id)'']"

definition fk_s_warehouse_fkey :: string where
  "fk_s_warehouse_fkey = joined nl
      [[],
       ''alter table stock add constraint s_warehouse_fkey'',
       ''    foreign key (s_w_id)'',
       ''    references warehouse (w_id)'']"

definition fk_s_item_fkey :: string where
  "fk_s_item_fkey = joined nl
      [[],
       ''alter table stock add constraint s_item_fkey'',
       ''    foreign key (s_i_id)'',
       ''    references item (i_id)'']"

definition pg_warehouse :: string where
  "pg_warehouse = joined nl
      [[],
       ''CREATE TABLE IF NOT EXISTS warehouse ('',
       tab ''w_id INT NOT NULL,'',
       tab ''w_name VARCHAR(10),'',
       tab ''w_street_1 VARCHAR(20),'',
       tab ''w_street_2 VARCHAR(20),'',
       tab ''w_city VARCHAR(20),'',
       tab ''w_state CHAR(2),'',
       tab ''w_zip CHAR(9),'',
       tab ''w_tax DECIMAL(4, 4),'',
       tab ''w_ytd DECIMAL(12, 2),'',
       tab ''PRIMARY KEY (w_id)'',
       '')'']"

definition pg_district :: string where
  "pg_district = joined nl
      [[],
       ''CREATE TABLE IF NOT EXISTS district ('',
       tab ''d_id INT NOT NULL,'',
       tab ''d_w_id INT NOT NULL,'',
       tab ''d_name VARCHAR(10),'',
       tab ''d_street_1 VARCHAR(20),'',
       tab ''d_street_2 VARCHAR(20),'',
       tab ''d_city VARCHAR(20),'',
       tab ''d_state CHAR(2),'',
       tab ''d_zip CHAR(9),'',
       tab ''d_tax DECIMAL(4, 4),'',
       tab ''d_ytd DECIMAL(12, 2),'',
       tab ''d_next_o_id INT,'',
       tab ''PRIMARY KEY (d_w_id, d_id)'',
       '')'']"

definition pg_customer :: string where
  "pg_customer = joined nl
      [[],
       ''CREATE TABLE IF NOT EXISTS customer ('',
       tab ''c_id INT NOT NULL,'',
       tab ''c_d_id INT NOT NULL,'',
       tab ''c_w_id INT NOT NULL,'',
       tab ''c_first VARCHAR(16),'',
       tab ''c_middle CHAR(2),'',
       tab ''c_last VARCHAR(16),'',
       tab ''c_street_1 VARCHAR(20),'',
       tab ''c_street_2 VARCHAR(20),'',
       tab ''c_city VARCHAR(20),'',
       tab ''c_state CHAR(2),'',
       tab ''c_zip CHAR(9),'',
       tab ''c_phone CHAR(16),'',
       tab ''c_since TIMESTAMP,'',
       tab ''c_credit CHAR(2),'',
       tab ''c_credit_lim DECIMAL(12, 2),'',
       tab ''c_discount DECIMAL(4,4),'',
       tab ''c_balance DECIMAL(12,2),'',
       tab ''c_ytd_payment DECIMAL(12,2),'',
       tab ''c_payment_cnt INT,'',
       tab ''c_delivery_cnt INT,'',
       tab ''c_data VARCHAR(500),'',
       tab ''PRIMARY KEY(c_w_id, c_d_id, c_id)'',
       '')'']"

definition pg_idx_customer :: string where
  "pg_idx_customer = ''create index idx_customer on customer(c_w_id, c_d_id, c_last, c_first)''"

definition pg_history :: string where
  "pg_history = joined nl
      [[],
       ''CREATE TABLE IF NOT EXISTS history ('',
       tab ''h_c_id INT NOT NULL,'',
       tab ''h_c_d_id INT NOT NULL,'',
       tab ''h_c_w_id INT NOT NULL,'',
       tab ''h_d_id INT NOT NULL,'',
       tab ''h_w_id INT NOT NULL,'',
       tab ''h_date TIMESTAMP,'',
       tab ''h_amount DECIMAL(6, 2),'',
       tab ''h_data VARCHAR(24)'',
       '')'']"

definition pg_idx_h_w_id :: string where
  "pg_idx_h_w_id = ''create index idx_h_w_id on history(h_w_id)''"

definition pg_idx_h_c_w_id :: string where
  "pg_idx_h_c_w_id = ''create index idx_h_c_w_id on history(h_c_w_id)''"

definition pg_new_order :: string where
  "pg_new_order = joined nl
      [[],
       ''CREATE TABLE IF NOT EXISTS new_order ('',
       tab ''no_o_id INT NOT NULL,'',
       tab ''no_d_id INT NOT NULL,'',
       tab ''no_w_id INT NOT NULL,'',
       tab ''PRIMARY KEY(no_w_id, no_d_id, no_o_id)'',
       '')'']"

definition pg_orders :: string where
  "pg_orders = joined nl
      [[],
       ''CREATE TABLE IF NOT EXISTS orders ('',
       tab ''o_id INT NOT NULL,'',
       tab ''o_d_id INT NOT NULL,'',
       tab ''o_w_id INT NOT NULL,'',
       tab ''o_c_id INT,'',
       tab ''o_entry_d TIMESTAMP,'',
       tab ''o_carrier_id INT,'',
       tab ''o_ol_cnt INT,'',
       tab ''o_all_local INT,'',
       tab ''PRIMARY KEY(o_w_id, o_d_id, o_id)'',
       '')'']"

definition pg_idx_order :: string where
  "pg_idx_order = ''create index idx_order on orders(o_w_id, o_d_id, o_c_id, o_id)''"

definition pg_order_line :: string where
  "pg_order_line = joined nl
      [[],
       tab ''CREATE TABLE IF NOT EXISTS order_line ('',
       tab (tab ''ol_o_id INT NOT NULL,''),
       tab (tab ''ol_d_id INT NOT NULL,''),
       tab (tab ''ol_w_id INT NOT NULL,''),
       tab (tab ''ol_number INT NOT NULL,''),
       tab (tab ''ol_i_id INT NOT NULL,''),
       tab (tab ''ol_supply_w_id INT,''),
       tab (tab ''ol_delivery_d TIMESTAMP,''),
       tab (tab ''ol_quantity INT,''),
       tab (tab ''ol_amount DECIMAL(6, 2),''),
       tab (tab ''ol_dist_info CHAR(24),''),
       tab (tab ''PRIMARY KEY(ol_w_id, ol_d_id, ol_o_id, ol_number)''),
       '')'']"

definition pg_stock :: string where
  "pg_stock = joined nl
      [[],
       ''CREATE TABLE IF NOT EXISTS stock ('',
       tab ''s_i_id INT NOT NULL,'',
       tab ''s_w_id INT NOT NULL,'',
       tab ''s_quantity INT,'',
       tab ''s_dist_01 CHAR(24),'',
       tab ''s_dist_02 CHAR(24),'',
       tab ''s_dist_03 CHAR(24),'',
       tab ''s_dist_04 CHAR(24),'',
       tab ''s_dist_05 CHAR(24),'',
       tab ''s_dist_06 CHAR(24),'',
       tab ''s_dist_07 CHAR(24),'',
       tab ''s_dist_08 CHAR(24),'',
       tab ''s_dist_09 CHAR(24),'',
       tab ''s_dist_10 CHAR(24),'',
       tab ''s_ytd INT,'',
       tab ''s_order_cnt INT,'',
       tab ''s_remote_cnt INT,'',
       tab ''s_data VARCHAR(50),'',
       tab ''PRIMARY KEY(s_w_id, s_i_id)'',
       '')'']"

definition pg_item :: string where
  "pg_item = joined nl
      [[],
       ''CREATE TABLE IF NOT EXISTS item ('',
       tab ''i_id INT NOT NULL,'',
       tab ''i_im_id INT,'',
       tab ''i_name VARCHAR(24),'',
       tab ''i_price DECIMAL(5, 2),'',
       tab ''i_data VARCHAR(50),'',
       tab ''PRIMARY KEY(i_id)'',
       '')'']"

subsection \<open>The catalog\<close>

text \<open>A statement is its text and the names in it.\<close>

datatype ddl =
    CreateTable string string
  | CreateIndex string string string
  | AddForeignKey string string string string
  | DropTable string string

text \<open>Tables, named indexes with their table, and foreign keys with their table and the one they refer to.\<close>

record catalog =
  cat_tables :: "string list"
  cat_indexes :: "(string \<times> string) list"
  cat_fkeys :: "(string \<times> string \<times> string) list"

definition empty_catalog :: catalog where
  "empty_catalog = \<lparr>cat_tables = [], cat_indexes = [], cat_fkeys = []\<rparr>"

text \<open>
  What a server does with a statement, \<open>None\<close> if it refuses: tables are created only if they do not
  exist; an index or constraint of the same name is an error, and so is to drop a table to which
  another one refers.
\<close>

fun ddl_exec :: "ddl \<Rightarrow> catalog \<Rightarrow> catalog option" where
  "ddl_exec (CreateTable q t) c =
     Some (if t \<in> set (cat_tables c) then c else c\<lparr>cat_tables := cat_tables c @ [t]\<rparr>)"
| "ddl_exec (CreateIndex q i t) c =
     (if t \<notin> set (cat_tables c) \<or> i \<in> fst ` set (cat_indexes c) then None
      else Some (c\<lparr>cat_indexes := cat_indexes c @ [(i, t)]\<rparr>))"
| "ddl_exec (AddForeignKey q n t r) c =
     (if t \<notin> set (cat_tables c) \<or> r \<notin> set (cat_tables c) \<or> (n, t) \<in> (\<lambda>(n, t, r). (n, t)) ` set (cat_fkeys c) then None
      else Some (c\<lparr>cat_fkeys := cat_fkeys c @ [(n, t, r)]\<rparr>))"
| "ddl_exec (DropTable q t) c =
     (if list_ex (\<lambda>(n, t', r). r = t \<and> t' \<noteq> t) (cat_fkeys c) then None
      else Some \<lparr>cat_tables = filter (\<lambda>t'. t' \<noteq> t) (cat_tables c), cat_indexes = filter (\<lambda>(i, t'). t' \<noteq> t) (cat_indexes c),
        cat_fkeys = filter (\<lambda>(n, t', r). t' \<noteq> t) (cat_fkeys c)\<rparr>)"

text \<open>The calls through the driver; \<open>refuse\<close> is the error the server gives.\<close>

type_synonym ddl_session = "catalog \<times> reply stream"

definition ddl_call :: "(ddl \<Rightarrow> goerr) \<Rightarrow> ddl \<Rightarrow> ddl_session \<Rightarrow> goerr option \<times> ddl_session" where
  "ddl_call refuse d s =
     (let (c, q) = s in
      case shd q of
        Refused e \<Rightarrow> (Some e, (c, stl q))
      | r \<Rightarrow> (case ddl_exec d c of
            None \<Rightarrow> (Some (refuse d), (c, stl q))
          | Some c' \<Rightarrow> ((case r of Lost e \<Rightarrow> Some e | _ \<Rightarrow> None), (c', stl q))))"

text \<open>Statements in order, up to the first error.\<close>

fun run_ddls :: "(ddl \<Rightarrow> goerr) \<Rightarrow> ddl list \<Rightarrow> ddl_session \<Rightarrow> goerr option \<times> ddl_session" where
  "run_ddls refuse [] s = (None, s)"
| "run_ddls refuse (d # ds) s =
     (case ddl_call refuse d s of
        (Some e, s) \<Rightarrow> (Some e, s)
      | (None, s) \<Rightarrow> run_ddls refuse ds s)"

subsection \<open>Creating and dropping\<close>

definition mysql_tables :: "ddlManager \<Rightarrow> ddl list" where
  "mysql_tables m =
     (let cl = (if dm_useClusteredIndex m then ''CLUSTERED'' else ''NONCLUSTERED'') in
      [CreateTable (appendPartition m (my_warehouse cl) ''w_id'') ''warehouse'',
       CreateTable (appendPartition m (my_district cl) ''d_w_id'') ''district'',
       CreateTable (appendPartition m (my_customer cl) ''c_w_id'') ''customer'',
       CreateTable (appendPartition m my_history ''h_w_id'') ''history'',
       CreateTable (appendPartition m (my_new_order cl) ''no_w_id'') ''new_order'',
       CreateTable (appendPartition m (my_orders cl) ''o_w_id'') ''orders'',
       CreateTable (appendPartition m (my_order_line cl) ''ol_w_id'') ''order_line'',
       CreateTable (appendPartition m (my_stock cl) ''s_w_id'') ''stock'',
       CreateTable (my_item cl) ''item''])"

definition foreign_keys :: "ddl list" where
  "foreign_keys =
     [AddForeignKey fk_d_warehouse_fkey ''d_warehouse_fkey'' ''district'' ''warehouse'',
      AddForeignKey fk_c_district_fkey ''c_district_fkey'' ''customer'' ''district'',
      AddForeignKey fk_h_customer_fkey ''h_customer_fkey'' ''history'' ''customer'',
      AddForeignKey fk_h_district_fkey ''h_district_fkey'' ''history'' ''district'',
      AddForeignKey fk_no_order_fkey ''no_order_fkey'' ''new_order'' ''orders'',
      AddForeignKey fk_o_customer_fkey ''o_customer_fkey'' ''orders'' ''customer'',
      AddForeignKey fk_ol_order_fkey ''ol_order_fkey'' ''order_line'' ''orders'',
      AddForeignKey fk_ol_stock_fkey ''ol_stock_fkey'' ''order_line'' ''stock'',
      AddForeignKey fk_s_warehouse_fkey ''s_warehouse_fkey'' ''stock'' ''warehouse'',
      AddForeignKey fk_s_item_fkey ''s_item_fkey'' ''stock'' ''item'']"

definition postgres_tables :: "ddl list" where
  "postgres_tables =
     [CreateTable pg_warehouse ''warehouse'',
      CreateTable pg_district ''district'',
      CreateTable pg_customer ''customer'',
      CreateIndex pg_idx_customer ''idx_customer'' ''customer'',
      CreateTable pg_history ''history'',
      CreateIndex pg_idx_h_w_id ''idx_h_w_id'' ''history'',
      CreateIndex pg_idx_h_c_w_id ''idx_h_c_w_id'' ''history'',
      CreateTable pg_new_order ''new_order'',
      CreateTable pg_orders ''orders'',
      CreateIndex pg_idx_order ''idx_order'' ''orders'',
      CreateTable pg_order_line ''order_line'',
      CreateTable pg_stock ''stock'',
      CreateTable pg_item ''item'']"

definition createTables_ddls :: "ddlManager \<Rightarrow> string \<Rightarrow> ddl list" where
  "createTables_ddls m driver =
     (if driver = ''mysql'' then mysql_tables m @ (if dm_useFK m then foreign_keys else [])
      else if driver = ''postgres'' then postgres_tables @ (if dm_useFK m then foreign_keys else [])
      else [])"

definition createTables :: "(ddl \<Rightarrow> goerr) \<Rightarrow> ddlManager \<Rightarrow> string \<Rightarrow> ddl_session \<Rightarrow> goerr option \<times> ddl_session" where
  "createTables refuse m driver s = run_ddls refuse (createTables_ddls m driver) s"

definition tables :: "string list" where
  "tables = [''item'', ''customer'', ''district'', ''history'', ''new_order'', ''order_line'', ''orders'', ''stock'', ''warehouse'']"

definition dropTable :: "(ddl \<Rightarrow> goerr) \<Rightarrow> ddl_session \<Rightarrow> goerr option \<times> ddl_session" where
  "dropTable refuse s = run_ddls refuse (map (\<lambda>tbl. DropTable (''DROP TABLE IF EXISTS '' @ tbl) tbl) tables) s"

definition Cleanup :: "(ddl \<Rightarrow> goerr) \<Rightarrow> int \<Rightarrow> ddl_session \<Rightarrow> goerr option \<times> ddl_session" where
  "Cleanup refuse threadID s = (if threadID = 0 then dropTable refuse s else (None, s))"

subsection \<open>Successful runs\<close>

text \<open>The statements that succeeded, without the driver.\<close>

fun run_catalog :: "ddl list \<Rightarrow> catalog \<Rightarrow> catalog option" where
  "run_catalog [] c = Some c"
| "run_catalog (d # ds) c = Option.bind (ddl_exec d c) (run_catalog ds)"

lemma run_ddls_success:
  "run_ddls refuse ds (c, q) = (None, (c', q')) \<Longrightarrow> run_catalog ds c = Some c'"
proof (induction ds arbitrary: c q)
  case (Cons d ds)
  then obtain c1 where "ddl_exec d c = Some c1" "run_ddls refuse ds (c1, stl q) = (None, (c', q'))"
    by (auto simp: ddl_call_def Let_def split: reply.splits option.splits)
  then show ?case using Cons.IH by simp
qed simp

lemma run_ddls_good:
  "run_catalog ds c = Some c' \<Longrightarrow> run_ddls refuse ds (c, sconst Done) = (None, (c', sconst Done))"
  by (induction ds arbitrary: c) (auto simp: ddl_call_def bind_eq_Some_conv)

lemma run_catalog_append: "run_catalog (ds @ es) c = Option.bind (run_catalog ds c) (run_catalog es)"
  by (induction ds arbitrary: c) (auto simp: bind_eq_Some_conv split: bind_splits)

text \<open>What a statement has made.\<close>

fun made :: "ddl \<Rightarrow> catalog \<Rightarrow> bool" where
  "made (CreateTable q t) c \<longleftrightarrow> t \<in> set (cat_tables c)"
| "made (CreateIndex q i t) c \<longleftrightarrow> (i, t) \<in> set (cat_indexes c)"
| "made (AddForeignKey q n t r) c \<longleftrightarrow> (n, t, r) \<in> set (cat_fkeys c)"
| "made (DropTable q t) c \<longleftrightarrow> t \<notin> set (cat_tables c)"

fun drops :: "ddl \<Rightarrow> bool" where
  "drops (DropTable q t) \<longleftrightarrow> True"
| "drops d \<longleftrightarrow> False"

definition catalog_le :: "catalog \<Rightarrow> catalog \<Rightarrow> bool" where
  "catalog_le c c' \<longleftrightarrow> set (cat_tables c) \<subseteq> set (cat_tables c') \<and> set (cat_indexes c) \<subseteq> set (cat_indexes c') \<and>
     set (cat_fkeys c) \<subseteq> set (cat_fkeys c')"

lemma catalog_le_trans: "catalog_le a b \<Longrightarrow> catalog_le b c \<Longrightarrow> catalog_le a c"
  unfolding catalog_le_def by blast

lemma ddl_exec_makes: "ddl_exec d c = Some c' \<Longrightarrow> \<not> drops d \<Longrightarrow> made d c' \<and> catalog_le c c'"
  by (cases d) (auto simp: catalog_le_def split: if_splits)

lemma made_mono: "made d c \<Longrightarrow> catalog_le c c' \<Longrightarrow> \<not> drops d \<Longrightarrow> made d c'"
  by (cases d) (auto simp: catalog_le_def)

lemma run_catalog_makes:
  assumes "run_catalog ds c = Some c'" "\<forall>d \<in> set ds. \<not> drops d"
  shows "catalog_le c c' \<and> (\<forall>d \<in> set ds. made d c')"
  using assms
proof (induction ds arbitrary: c)
  case Nil
  then show ?case by (simp add: catalog_le_def)
next
  case (Cons d ds)
  obtain c1 where c1: "ddl_exec d c = Some c1" "run_catalog ds c1 = Some c'"
    using Cons.prems(1) by (auto simp: bind_eq_Some_conv)
  have m: "made d c1" "catalog_le c c1" using ddl_exec_makes [OF c1(1)] Cons.prems(2) by simp_all
  have IH: "catalog_le c1 c'" "\<forall>d \<in> set ds. made d c'" using Cons.IH [OF c1(2)] Cons.prems(2) by simp_all
  then show ?case using m made_mono [OF m(1) IH(1)] catalog_le_trans [OF m(2) IH(1)] Cons.prems(2) by simp
qed

lemma createTables_makes: "\<forall>d \<in> set (createTables_ddls m driver). \<not> drops d"
proof -
  have "list_all (\<lambda>d. \<not> drops d) (createTables_ddls m driver)"
    by (simp add: createTables_ddls_def mysql_tables_def postgres_tables_def foreign_keys_def Let_def)
  then show ?thesis by (simp add: list_all_iff)
qed

text \<open>A statement that some earlier one has made impossible stops the run.\<close>

lemma run_catalog_stops:
  assumes "run_catalog (ds @ d # es) c = Some c'" "\<forall>d \<in> set ds. \<not> drops d"
  shows "\<exists>c1. catalog_le c c1 \<and> ddl_exec d c1 \<noteq> None"
  using assms(1) run_catalog_makes [OF _ assms(2)] by (auto simp: run_catalog_append bind_eq_Some_conv)

subsection \<open>Properties\<close>


text \<open>The catalogs of both drivers.\<close>

definition made_catalog :: "ddlManager \<Rightarrow> string \<Rightarrow> catalog" where
  "made_catalog m driver =
     \<lparr>cat_tables = (if driver = ''mysql'' \<or> driver = ''postgres'' then
        [''warehouse'', ''district'', ''customer'', ''history'', ''new_order'', ''orders'', ''order_line'', ''stock'', ''item''] else []),
      cat_indexes = (if driver = ''postgres'' then
        [(''idx_customer'', ''customer''), (''idx_h_w_id'', ''history''), (''idx_h_c_w_id'', ''history''), (''idx_order'', ''orders'')] else []),
      cat_fkeys = (if (driver = ''mysql'' \<or> driver = ''postgres'') \<and> dm_useFK m then
        map (\<lambda>d. case d of AddForeignKey q n t r \<Rightarrow> (n, t, r)) foreign_keys else [])\<rparr>"

lemma run_create:
  assumes "driver = ''mysql'' \<or> driver = ''postgres''"
  shows "run_catalog (createTables_ddls m driver) empty_catalog = Some (made_catalog m driver)"
  using assms
  by (cases "dm_useFK m")
    (auto simp: createTables_ddls_def mysql_tables_def postgres_tables_def foreign_keys_def made_catalog_def empty_catalog_def Let_def)

lemma run_drop:
  assumes "\<not> dm_useFK m"
  shows "run_catalog (map (\<lambda>tbl. DropTable (''DROP TABLE IF EXISTS '' @ tbl) tbl) tables) (made_catalog m driver) = Some empty_catalog"
  using assms by (auto simp: tables_def made_catalog_def empty_catalog_def)


text \<open>
  C35. Preparing again.  A Postgres database that has been prepared and not cleaned up makes
  \<open>createTables\<close> fail whatever the replies, because \<open>create index\<close> has no \<open>IF NOT EXISTS\<close>, and so do the
  constraints with foreign keys; with more than one thread no other worker then ever loads or ends.
\<close>

theorem prepare_again_hangs:
  assumes "driver = ''postgres'' \<and> ''idx_customer'' \<in> fst ` set (cat_indexes c) \<or>
      (driver = ''mysql'' \<or> driver = ''postgres'') \<and> dm_useFK m \<and> (''d_warehouse_fkey'', ''district'', ''warehouse'') \<in> set (cat_fkeys c)"
    and "createTables refuse m driver (c, q) = (e, s)"
    and "0 < threads" "(barrier_step threads e load)\<^sup>*\<^sup>* (barrier_init threads) b" "k \<in> {1..<threads}"
  shows "e \<noteq> None \<and> \<not> past (br_pc b k)"
proof -
  have "e \<noteq> None"
  proof
    assume "e = None"
    then obtain c' q' where "createTables refuse m driver (c, q) = (None, (c', q'))" using assms(2) by (cases s) simp
    then have r: "run_catalog (createTables_ddls m driver) c = Some c'" using run_ddls_success by (simp add: createTables_def)
    have nd: "\<forall>d \<in> set ds. \<not> drops d" if "createTables_ddls m driver = ds @ x # es" for ds x es
      using createTables_makes [of m driver] unfolding that by simp
    show False using assms(1)
    proof
      assume a: "driver = ''postgres'' \<and> ''idx_customer'' \<in> fst ` set (cat_indexes c)"
      then obtain t where t: "(''idx_customer'', t) \<in> set (cat_indexes c)" by auto
      have s: "createTables_ddls m driver = take 3 postgres_tables @ CreateIndex pg_idx_customer ''idx_customer'' ''customer'' #
          drop 4 postgres_tables @ (if dm_useFK m then foreign_keys else [])"
        using a by (simp add: createTables_ddls_def postgres_tables_def)
      obtain c1 where c1: "catalog_le c c1" "ddl_exec (CreateIndex pg_idx_customer ''idx_customer'' ''customer'') c1 \<noteq> None"
        using run_catalog_stops [OF r [unfolded s] nd [OF s]] by blast
      then have "(''idx_customer'', t) \<in> set (cat_indexes c1)" using t unfolding catalog_le_def by blast
      then have "''idx_customer'' \<in> fst ` set (cat_indexes c1)" by force
      then show False using c1(2) by simp
    next
      assume a: "(driver = ''mysql'' \<or> driver = ''postgres'') \<and> dm_useFK m \<and> (''d_warehouse_fkey'', ''district'', ''warehouse'') \<in> set (cat_fkeys c)"
      have s: "createTables_ddls m driver = (if driver = ''mysql'' then mysql_tables m else postgres_tables) @
          AddForeignKey fk_d_warehouse_fkey ''d_warehouse_fkey'' ''district'' ''warehouse'' # tl foreign_keys"
        using a by (auto simp: createTables_ddls_def foreign_keys_def)
      obtain c1 where c1: "catalog_le c c1"
        "ddl_exec (AddForeignKey fk_d_warehouse_fkey ''d_warehouse_fkey'' ''district'' ''warehouse'') c1 \<noteq> None"
        using run_catalog_stops [OF r [unfolded s] nd [OF s]] by blast
      then have "(''d_warehouse_fkey'', ''district'', ''warehouse'') \<in> set (cat_fkeys c1)" using a unfolding catalog_le_def by blast
      then have "(''d_warehouse_fkey'', ''district'') \<in> (\<lambda>(n, t, r). (n, t)) ` set (cat_fkeys c1)" by force
      then show False using c1(2) by simp
    qed
  qed
  then show ?thesis using barrier_stuck [OF assms(3,4)] assms(5) by blast
qed

definition sample_manager :: ddlManager where
  "sample_manager = newDDLManager 1 False 10 PartitionTypeRange False"



lemma prepare_again_hangs_witness:
  "\<exists>e s. createTables (\<lambda>d. [Plain ''exists'']) sample_manager ''postgres'' (made_catalog sample_manager ''postgres'', sconst Done) = (Some e, s) \<and>
     br_pc (hanging e) 0 = Ended (Some e) \<and> \<not> past (br_pc (hanging e) 1)"
proof -
  obtain e s where r: "createTables (\<lambda>d. [Plain ''exists'']) sample_manager ''postgres'' (made_catalog sample_manager ''postgres'', sconst Done) = (e, s)"
    by (cases "createTables (\<lambda>d. [Plain ''exists'']) sample_manager ''postgres'' (made_catalog sample_manager ''postgres'', sconst Done)")
  have i: "''idx_customer'' \<in> fst ` set (cat_indexes (made_catalog sample_manager ''postgres''))" by (simp add: made_catalog_def)
  have "e \<noteq> None" using prepare_again_hangs [OF _ r, of 2 "\<lambda>k. None" "barrier_init 2" 1] i by simp
  then obtain e' where e': "e = Some e'" by blast
  have "\<not> past (br_pc (hanging e') 1)"
    using prepare_again_hangs [OF _ r, of 2 "\<lambda>k. None" "hanging e'" 1] hanging_run [of e' "\<lambda>k. None"] i by (simp add: e')
  then show ?thesis using r by (simp add: e' hanging_def)
qed

end
