(* ===== verification/TpccNewSpec.thy ===== *)
theory TpccNewSpec
  imports TpccSafe
begin

text \<open>
  What New-Order promises, as one update of the tables, and the proof that its statements, scans
  and loops implement it: a transaction that reports success has placed the order or was the one in
  a hundred that rolls back, and no other outcome changes the data in a different way.
\<close>

subsection \<open>The specification\<close>

definition item_of :: "db \<Rightarrow> int \<Rightarrow> item_row option" where
  "item_of t i = find (\<lambda>r. i_id r = i) (items t)"

definition stock_of :: "db \<Rightarrow> int \<times> int \<Rightarrow> stock_row option" where
  "stock_of t k = find (\<lambda>r. s_key r = k) (stocks t)"

text \<open>The line and the stock for an item \<open>i\<close> of the input.\<close>

definition ordered_line ::
  "World \<Rightarrow> newOrderData \<Rightarrow> int \<Rightarrow> rat \<Rightarrow> rat \<Rightarrow> rat \<Rightarrow> db \<Rightarrow> orderItem \<Rightarrow> order_line_row" where
  "ordered_line Z d oID wTax dTax cDiscount t i =
     (let price = scan_cents (i_price (the (item_of t (olIID i))));
          dists = s_dist (the (stock_of t (olSupplyWID i, olIID i)))
      in \<lparr>ol_o_id = oID, ol_d_id = dID d, ol_w_id = wID d, ol_number = olNumber i, ol_i_id = olIID i,
        ol_supply_w_id = olSupplyWID i, ol_delivery_d = None, ol_quantity = olQuantity i,
        ol_amount = to_cents Z (line_amount (olQuantity i) price wTax dTax cDiscount),
        ol_dist_info = dists ! nat (dID d - 1)\<rparr>)"

definition ordered_stock :: "orderItem list \<Rightarrow> stock_row \<Rightarrow> stock_row" where
  "ordered_stock its r =
     (case find (\<lambda>i. (olSupplyWID i, olIID i) = s_key r) its of
        None \<Rightarrow> r
      | Some i \<Rightarrow> r\<lparr>s_quantity := next_quantity (s_quantity r) (olQuantity i),
          s_ytd := s_ytd r + olQuantity i, s_order_cnt := s_order_cnt r + 1,
          s_remote_cnt := s_remote_cnt r + remoteWarehouse i\<rparr>)"

definition place_order ::
  "World \<Rightarrow> newOrderData \<Rightarrow> int \<Rightarrow> rat \<Rightarrow> rat \<Rightarrow> rat \<Rightarrow> db \<Rightarrow> db" where
  "place_order Z d oID wTax dTax cDiscount t = t\<lparr>
     districts := set_where (\<lambda>r. d_id r = dID d \<and> d_w_id r = wID d) (\<lambda>r. r\<lparr>d_next_o_id := oID + 1\<rparr>) (districts t),
     orders := orders t @ [\<lparr>o_id = oID, o_d_id = dID d, o_w_id = wID d, o_c_id = cID d, o_entry_d = now Z,
       o_carrier_id = None, o_ol_cnt = oOlCnt d, o_all_local = no_allLocal d\<rparr>],
     new_orders := new_orders t @ [\<lparr>no_o_id = oID, no_d_id = dID d, no_w_id = wID d\<rparr>],
     order_lines := order_lines t @ map (ordered_line Z d oID wTax dTax cDiscount t) (no_items d),
     stocks := map (ordered_stock (no_items d)) (stocks t)\<rparr>"

text \<open>The order is placed with the number, the taxes and the discount that the tables hold.\<close>

definition order_placed :: "World \<Rightarrow> newOrderData \<Rightarrow> db \<Rightarrow> db \<Rightarrow> bool" where
  "order_placed Z d t t' \<longleftrightarrow>
     (\<exists>c \<in> set (customers t). \<exists>v \<in> set (warehouses t). \<exists>r \<in> set (districts t).
        c_key c = (wID d, dID d, cID d) \<and> w_id v = wID d \<and> d_key r = (wID d, dID d) \<and>
        (\<forall>i \<in> set (no_items d). item_of t (olIID i) \<noteq> None \<and> stock_of t (olSupplyWID i, olIID i) \<noteq> None) \<and>
        t' = place_order Z d (d_next_o_id r) (scan_rate (w_tax v)) (scan_rate (d_tax r))
          (scan_rate (c_discount c)) t)"

subsection \<open>The scans\<close>

lemma find_filter: "(\<And>x. P x \<Longrightarrow> Q x) \<Longrightarrow> find P (filter Q xs) = find P xs"
  by (induction xs) auto

lemma find_unique:
  "distinct (map key rs) \<Longrightarrow> r \<in> set rs \<Longrightarrow> find (\<lambda>x. key x = key r) rs = Some r"
  by (induction rs) (auto simp: image_iff)

lemma map_single_update:
  assumes "i < length xs" "\<And>j. j < length xs \<Longrightarrow> j \<noteq> i \<Longrightarrow> f (xs ! j) = g (xs ! j)" "f v = g (xs ! i)"
  shows "map f (xs[i := v]) = map g xs"
  using assms by (auto simp: list_eq_iff_nth_eq nth_list_update)

definition fill_item :: "item_row list \<Rightarrow> orderItem \<Rightarrow> orderItem" where
  "fill_item rows i = (case find (\<lambda>r. i_id r = olIID i) rows of
       None \<Rightarrow> i
     | Some r \<Rightarrow> i\<lparr>iPrice := scan_cents (i_price r), iName := i_name r, iData := i_data r, foundInItems := True\<rparr>)"

lemma scan_items_fill:
  "scan_items rows m its = Some its' \<Longrightarrow> map_fits m its \<Longrightarrow> distinct (map olIID its) \<Longrightarrow>
   distinct (map i_id rows) \<Longrightarrow> its' = map (fill_item rows) its"
proof (induction rows arbitrary: its)
  case Nil
  then show ?case by (simp add: fill_item_def)
next
  case (Cons r rows)
  then obtain i where i: "m (i_id r) = Some i" by (auto split: option.splits)
  define v where "v = (its ! i)\<lparr>iPrice := scan_cents (i_price r), iName := i_name r, iData := i_data r,
      foundInItems := True\<rparr>"
  have len: "i < length its" "olIID (its ! i) = i_id r" using Cons.prems(2) i by (auto simp: map_fits_def)
  have same: "same_lines its (its[i := v])"
    by (rule same_lines_update) (simp_all add: len(1) v_def)
  have "map olIID (its[i := v]) = map olIID its"
    by (rule map_single_update) (simp_all add: len v_def)
  then have "its' = map (fill_item rows) (its[i := v])"
    using Cons.prems i by (intro Cons.IH map_fits_same [OF _ same]) (auto simp: v_def)
  also have "\<dots> = map (fill_item (r # rows)) its"
  proof (rule map_single_update [OF len(1)])
    fix j assume j: "j < length its" "j \<noteq> i"
    then have "olIID (its ! j) \<noteq> i_id r"
      using Cons.prems(3) len by (metis distinct_conv_nth length_map nth_map)
    then show "fill_item rows (its ! j) = fill_item (r # rows) (its ! j)" by (simp add: fill_item_def)
  next
    have "find (\<lambda>q. i_id q = i_id r) rows = None" using Cons.prems(4) unfolding find_None_iff by (auto simp: image_iff)
    then show "fill_item rows v = fill_item (r # rows) (its ! i)" by (simp add: fill_item_def len v_def)
  qed
  finally show ?case .
qed

definition fill_stock :: "stock_row list \<Rightarrow> int \<Rightarrow> rat \<Rightarrow> rat \<Rightarrow> rat \<Rightarrow> orderItem \<Rightarrow> orderItem" where
  "fill_stock rows d wTax dTax discount i = (case find (\<lambda>r. s_i_id r = olIID i) rows of
       None \<Rightarrow> i
     | Some r \<Rightarrow> i\<lparr>foundInStock := True, sQuantity := next_quantity (s_quantity r) (olQuantity i),
         sDist := s_dist r ! nat (d - 1),
         olAmount := line_amount (olQuantity i) (iPrice i) wTax dTax discount\<rparr>)"

lemma scan_stock_fill:
  "scan_stock rows d wt dt dc m its = Some its' \<Longrightarrow> map_fits m its \<Longrightarrow> distinct (map olIID its) \<Longrightarrow>
   distinct (map s_i_id rows) \<Longrightarrow> its' = map (fill_stock rows d wt dt dc) its"
proof (induction rows arbitrary: its)
  case Nil
  then show ?case by (simp add: fill_stock_def)
next
  case (Cons r rows)
  then obtain i where i: "m (s_i_id r) = Some i" by (auto split: option.splits)
  then obtain dist where dist: "go_index (s_dist r) (d - 1) = Some dist"
    using Cons.prems(1) by (auto split: bind_splits)
  then have dist': "dist = s_dist r ! nat (d - 1)" by (auto simp: go_index_def split: if_splits)
  define v where "v = (its ! i)\<lparr>foundInStock := True,
            sQuantity := next_quantity (s_quantity r) (olQuantity (its ! i)), sDist := dist,
            olAmount := line_amount (olQuantity (its ! i)) (iPrice (its ! i)) wt dt dc\<rparr>"
  have len: "i < length its" "olIID (its ! i) = s_i_id r" using Cons.prems(2) i by (auto simp: map_fits_def)
  have same: "same_lines its (its[i := v])"
    by (rule same_lines_update) (simp_all add: len(1) v_def)
  have "map olIID (its[i := v]) = map olIID its"
    by (rule map_single_update) (simp_all add: len v_def)
  then have "its' = map (fill_stock rows d wt dt dc) (its[i := v])"
    using Cons.prems i dist by (intro Cons.IH map_fits_same [OF _ same]) (auto simp: v_def Let_def)
  also have "\<dots> = map (fill_stock (r # rows) d wt dt dc) its"
  proof (rule map_single_update [OF len(1)])
    fix j assume j: "j < length its" "j \<noteq> i"
    then have "olIID (its ! j) \<noteq> s_i_id r"
      using Cons.prems(3) len by (metis distinct_conv_nth length_map nth_map)
    then show "fill_stock rows d wt dt dc (its ! j) = fill_stock (r # rows) d wt dt dc (its ! j)"
      by (simp add: fill_stock_def)
  next
    have "find (\<lambda>q. s_i_id q = s_i_id r) rows = None" using Cons.prems(4) unfolding find_None_iff by (auto simp: image_iff)
    then show "fill_stock rows d wt dt dc v = fill_stock (r # rows) d wt dt dc (its ! i)"
      by (simp add: fill_stock_def len v_def dist')
  qed
  finally show ?case .
qed

subsection \<open>The updates of the stock\<close>

definition stock_after :: "orderItem list \<Rightarrow> stock_row \<Rightarrow> stock_row" where
  "stock_after its r = (case find (\<lambda>i. s_i_id r = olIID i \<and> s_w_id r = olSupplyWID i) its of
       None \<Rightarrow> r
     | Some i \<Rightarrow> r\<lparr>s_quantity := sQuantity i, s_ytd := s_ytd r + olQuantity i,
         s_order_cnt := s_order_cnt r + 1, s_remote_cnt := s_remote_cnt r + remoteWarehouse i\<rparr>)"

lemma update_stocks_exact:
  "distinct (map olIID its) \<Longrightarrow>
   (\<forall>i \<in> set its. foundInStock i \<Longrightarrow> ensures k (t\<lparr>stocks := map (stock_after its) (stocks t)\<rparr>) P) \<Longrightarrow>
   ensures (update_stocks its k) t P"
proof (induction its arbitrary: t)
  case Nil
  then show ?case by (simp add: ensures_def stock_after_def)
next
  case (Cons i its)
  show ?case
  proof (cases "foundInStock i \<and> \<not> olIID i < 0")
    case False
    then show ?thesis by (auto simp: ensures_def return_def)
  next
    case True
    let ?u = "\<lambda>r. r\<lparr>s_quantity := sQuantity i, s_ytd := s_ytd r + olQuantity i, s_order_cnt := s_order_cnt r + 1,
          s_remote_cnt := s_remote_cnt r + remoteWarehouse i\<rparr>"
    let ?S = "set_where (\<lambda>r. s_i_id r = olIID i \<and> s_w_id r = olSupplyWID i) ?u (stocks t)"
    have none: "find (\<lambda>j. olIID i = olIID j \<and> w = olSupplyWID j) its = None" for w
      using Cons.prems(1) unfolding find_None_iff by auto
    have "stock_after its (if s_i_id r = olIID i \<and> s_w_id r = olSupplyWID i then ?u r else r) =
        stock_after (i # its) r" for r
      by (auto simp: stock_after_def none)
    then have S: "map (stock_after its) ?S = map (stock_after (i # its)) (stocks t)"
      by (simp add: set_where_def o_def)
    have "ensures (update_stocks its k) (t\<lparr>stocks := ?S\<rparr>) P"
      by (rule Cons.IH) (use Cons.prems S True in \<open>simp_all\<close>)
    then have "ensures (exec newOrderUpdateStock (do_newOrderUpdateStock (sQuantity i) (olQuantity i)
        (remoteWarehouse i) (olIID i) (olSupplyWID i)) (\<lambda>_. update_stocks its k)) t P"
      by (intro ensures_exec) (simp add: do_newOrderUpdateStock_def update_Inr)
    then show ?thesis using True by (simp add: ensures_def)
  qed
qed

text \<open>The rows read are found again by the key of the line that asked for them.\<close>

lemma find_map_option: "find P (map f xs) = map_option f (find (\<lambda>x. P (f x)) xs)"
  by (induction xs) auto

lemma line_unique:
  "distinct (map olIID its) \<Longrightarrow> i \<in> set its \<Longrightarrow> j \<in> set its \<Longrightarrow> olIID i = olIID j \<Longrightarrow> i = j"
  by (metis distinct_map inj_onD)

definition stock_rows :: "orderItem list \<Rightarrow> db \<Rightarrow> stock_row list" where
  "stock_rows its t = filter (\<lambda>r. s_key r \<in> set (map (\<lambda>i. (olSupplyWID i, olIID i)) its)) (stocks t)"

lemma stock_rows_find:
  assumes "distinct (map olIID its)" "i \<in> set its"
  shows "find (\<lambda>r. s_i_id r = olIID i) (stock_rows its t) = stock_of t (olSupplyWID i, olIID i)"
proof -
  have "find (\<lambda>r. s_i_id r = olIID i) (stock_rows its t) =
      find (\<lambda>r. s_key r = (olSupplyWID i, olIID i)) (stock_rows its t)"
  proof (rule find_cong [OF refl])
    fix r assume "r \<in> set (stock_rows its t)"
    then obtain j where j: "j \<in> set its" "s_key r = (olSupplyWID j, olIID j)"
      by (auto simp: stock_rows_def)
    show "(s_i_id r = olIID i) = (s_key r = (olSupplyWID i, olIID i))"
    proof (cases "i = j")
      case True
      then show ?thesis using j(2) by (simp add: s_key_def)
    next
      case False
      then have "olIID j \<noteq> olIID i" using line_unique [OF assms j(1)] by metis
      then show ?thesis using j(2) by (simp add: s_key_def)
    qed
  qed
  also have "\<dots> = stock_of t (olSupplyWID i, olIID i)"
    unfolding stock_rows_def stock_of_def using assms(2) by (intro find_filter) auto
  finally show ?thesis .
qed

lemma stock_rows_distinct:
  assumes "distinct (map s_key (stocks t))" "distinct (map olIID its)"
  shows "distinct (map s_i_id (stock_rows its t))"
proof -
  have "q = r" if h: "q \<in> set (stock_rows its t)" "r \<in> set (stock_rows its t)" "s_i_id q = s_i_id r" for q r
  proof -
    obtain i j where "i \<in> set its" "j \<in> set its" "s_key q = (olSupplyWID i, olIID i)"
      "s_key r = (olSupplyWID j, olIID j)" using h(1,2) by (auto simp: stock_rows_def)
    moreover have "olIID i = olIID j" using h(3) calculation by (simp add: s_key_def)
    ultimately have "s_key q = s_key r" using line_unique [OF assms(2)] by metis
    then show ?thesis using h(1,2) assms(1)
      unfolding stock_rows_def distinct_map by (auto dest: inj_onD)
  qed
  then show ?thesis
    using assms(1) by (simp add: distinct_map inj_on_def stock_rows_def)
qed

lemma fill_stock_same [simp]:
  "olIID (fill_stock rows n wt dt dc i) = olIID i" "olSupplyWID (fill_stock rows n wt dt dc i) = olSupplyWID i"
  "olNumber (fill_stock rows n wt dt dc i) = olNumber i" "olQuantity (fill_stock rows n wt dt dc i) = olQuantity i"
  "remoteWarehouse (fill_stock rows n wt dt dc i) = remoteWarehouse i" "iPrice (fill_stock rows n wt dt dc i) = iPrice i"
  by (simp_all add: fill_stock_def split: option.split)

lemma stock_after_filled:
  assumes keys: "distinct (map s_key (stocks t))" and d: "distinct (map olIID its)"
    and r: "r \<in> set (stocks t)"
  shows "stock_after (map (fill_stock (stock_rows its t) n wt dt dc) its) r = ordered_stock its r"
proof -
  let ?F = "fill_stock (stock_rows its t) n wt dt dc"
  have f: "find (\<lambda>i. s_i_id r = olIID i \<and> s_w_id r = olSupplyWID i) (map ?F its) =
      map_option ?F (find (\<lambda>i. (olSupplyWID i, olIID i) = s_key r) its)"
    unfolding find_map_option by (intro arg_cong [where f = "map_option ?F"] find_cong refl)
      (auto simp: s_key_def)
  show ?thesis
  proof (cases "find (\<lambda>i. (olSupplyWID i, olIID i) = s_key r) its")
    case None
    then show ?thesis by (simp add: stock_after_def f ordered_stock_def)
  next
    case (Some i)
    then have i: "i \<in> set its" "(olSupplyWID i, olIID i) = s_key r" by (auto simp: find_Some_iff)
    then have "find (\<lambda>r. s_i_id r = olIID i) (stock_rows its t) = Some r"
      using stock_rows_find [OF d i(1)] find_unique [OF keys r] by (simp add: stock_of_def)
    then have "sQuantity (?F i) = next_quantity (s_quantity r) (olQuantity i)" by (simp add: fill_stock_def)
    then show ?thesis using Some by (simp add: stock_after_def f ordered_stock_def)
  qed
qed

subsection \<open>The transaction\<close>

lemma newOrder_lines_exact:
  assumes d: "input_ok d" and t: "stock_ok (stocks t)" and keys: "distinct (map s_key (stocks t))"
    and its: "same_lines (no_items d) its" "\<forall>i \<in> set its. olIID i \<noteq> - 1 \<and> \<not> foundInStock i" "lines_ok its"
      "distinct (map olIID its)"
    and P: "(\<forall>i \<in> set its. stock_of t (olSupplyWID i, olIID i) \<noteq> None) \<Longrightarrow>
      P (t\<lparr>stocks := map (ordered_stock its) (stocks t),
        order_lines := order_lines t @ map (\<lambda>i. order_line_of Z oID (dID d) (wID d)
          (fill_stock (stock_rows its t) (dID d) wt dt dc i)) its\<rparr>)"
  shows "ensures (newOrder_lines Z d oID wt dt dc its) t P"
proof -
  have n: "5 \<le> int (length its)" "int (length its) \<le> 15"
    using d same_lines_length [OF its(1)] by (auto simp: input_ok_def)
  obtain sql1 where sql1: "go_index newOrderSelectStockSQLs (int (length its)) = Some sql1"
    using newOrderSQLs_index [OF n] by (simp add: newOrderSelectStockSQLs_def)
  obtain sql2 where sql2: "go_index newOrderInsertOrderLineSQLs (int (length its)) = Some sql2"
    using newOrderSQLs_index [OF n] by (simp add: newOrderInsertOrderLineSQLs_def)
  have fits: "map_fits (no_itemsMap d) its"
    using d by (intro map_fits_same [OF _ its(1)]) (auto simp: input_ok_def map_fits_def)
  have dom: "no_itemsMap d (olIID i) \<noteq> None" if "i \<in> set its" for i
    using d its(2) same_lines_mem [OF its(1) that] that unfolding input_ok_def by metis
  let ?F = "fill_stock (stock_rows its t) (dID d) wt dt dc"
  show ?thesis unfolding newOrder_lines_def
  proof (rule ensures_or_panic [OF sql1], rule ensures_exec, goal_cases)
    case (1 rows t1)
    then have t1: "t1 = t" and rows: "rows = stock_rows its t"
      by (auto simp: do_selectStock_def select_Inr stock_rows_def)
    have "no_itemsMap d (s_i_id r) \<noteq> None" if "r \<in> set rows" for r
      using that dom by (auto simp: rows stock_rows_def s_key_def)
    moreover have "stock_ok rows" using t by (auto simp: rows stock_rows_def stock_ok_def)
    ultimately obtain its' where its': "scan_stock rows (dID d) wt dt dc (no_itemsMap d) its = Some its'"
      using scan_stock_ok [OF fits _ _ its(3), of rows "dID d" wt dt dc] d by (auto simp: input_ok_def)
    have filled: "its' = map ?F its"
      using scan_stock_fill [OF its' fits its(4)] stock_rows_distinct [OF keys its(4)] by (simp add: rows)
    have fin: "ensures (or_panic (go_index newOrderInsertOrderLineSQLs (int (length its'))) (\<lambda>sql.
        exec sql (do_insertOrderLines (map (order_line_of Z oID (dID d) (wID d)) its')) (\<lambda>_. commit)))
        (t\<lparr>stocks := map (stock_after its') (stocks t)\<rparr>) P" if found: "\<forall>i \<in> set its'. foundInStock i"
    proof -
      have "stock_of t (olSupplyWID i, olIID i) \<noteq> None" if i: "i \<in> set its" for i
        using found i its(2) unfolding stock_rows_find [OF its(4) i, symmetric]
        by (auto simp: filled fill_stock_def split: option.splits)
      then have P': "P (t\<lparr>stocks := map (ordered_stock its) (stocks t), order_lines := order_lines t @
          map (\<lambda>i. order_line_of Z oID (dID d) (wID d) (?F i)) its\<rparr>)" by (intro P) blast
      have S: "map (stock_after its') (stocks t) = map (ordered_stock its) (stocks t)"
        unfolding filled by (rule map_cong [OF refl]) (rule stock_after_filled [OF keys its(4)])
      have len: "length its' = length its" by (simp add: filled)
      show ?thesis unfolding S len
        by (rule ensures_or_panic [OF sql2], rule ensures_exec)
          (use P' in \<open>auto simp: do_insertOrderLines_def insert_rows_Inr filled o_def intro!: ensures_commit\<close>)
    qed
    have d': "distinct (map olIID its')" using its(4) by (simp add: filled o_def)
    show ?case unfolding t1
      by (rule ensures_or_panic [OF its'], rule ensures_exec, unfold no_change_Inr)
        (simp add: update_stocks_exact [OF d' fin])
  qed
qed

lemma fill_item_same [simp]:
  "olIID (fill_item rows i) = olIID i" "olSupplyWID (fill_item rows i) = olSupplyWID i"
  "olNumber (fill_item rows i) = olNumber i" "olQuantity (fill_item rows i) = olQuantity i"
  "remoteWarehouse (fill_item rows i) = remoteWarehouse i" "foundInStock (fill_item rows i) = foundInStock i"
  by (simp_all add: fill_item_def split: option.split)

lemma ordered_stock_same: "ordered_stock (map (fill_item rows) its) r = ordered_stock its r"
proof -
  have "find (\<lambda>i. (olSupplyWID i, olIID i) = s_key r) (map (fill_item rows) its) =
      map_option (fill_item rows) (find (\<lambda>i. (olSupplyWID i, olIID i) = s_key r) its)"
    unfolding find_map_option by simp
  then show ?thesis by (simp add: ordered_stock_def split: option.split)
qed

lemma stock_rows_same: "stock_rows (map (fill_item rows) its) t = stock_rows its t"
  by (simp add: stock_rows_def o_def image_image)

lemma line_is_ordered:
  assumes "distinct (map olIID its)" "i \<in> set its"
    "find (\<lambda>r. i_id r = olIID i) rows = item_of t (olIID i)" "item_of t (olIID i) \<noteq> None"
    "stock_of t (olSupplyWID i, olIID i) \<noteq> None"
  shows "order_line_of Z oID (dID d) (wID d) (fill_stock (stock_rows its t) (dID d) wt dt dc (fill_item rows i)) =
    ordered_line Z d oID wt dt dc t i"
proof -
  obtain r s where r: "item_of t (olIID i) = Some r" and s: "stock_of t (olSupplyWID i, olIID i) = Some s"
    using assms(4,5) by blast
  have "find (\<lambda>r. s_i_id r = olIID i) (stock_rows its t) = Some s"
    using stock_rows_find [OF assms(1,2)] s by simp
  then have "sDist (fill_stock (stock_rows its t) (dID d) wt dt dc (fill_item rows i)) = s_dist s ! nat (dID d - 1)"
    "olAmount (fill_stock (stock_rows its t) (dID d) wt dt dc (fill_item rows i)) =
       line_amount (olQuantity i) (scan_cents (i_price r)) wt dt dc"
    using assms(3) r by (simp_all add: fill_stock_def) (simp add: fill_item_def)
  then show ?thesis by (simp add: order_line_of_def ordered_line_def r s)
qed

lemma newOrder_found_exact:
  assumes d: "input_ok d" "distinct (map olIID (no_items d))"
    and t: "stock_ok (stocks t)" "\<forall>r \<in> set (items t). 1 \<le> i_id r"
    and keys: "distinct (map s_key (stocks t))" "distinct (map i_id (items t))"
    and P: "(\<forall>i \<in> set (no_items d). item_of t (olIID i) \<noteq> None \<and> stock_of t (olSupplyWID i, olIID i) \<noteq> None) \<Longrightarrow>
      P (t\<lparr>stocks := map (ordered_stock (no_items d)) (stocks t),
        order_lines := order_lines t @ map (ordered_line Z d oID wt dt dc t) (no_items d)\<rparr>)"
  shows "ensures (newOrder_found Z d oID wt dt dc) t P"
proof -
  have n: "5 \<le> int (length (no_items d))" "int (length (no_items d)) \<le> 15"
    using d by (auto simp: input_ok_def)
  obtain sql where sql: "go_index newOrderSelectItemSQLs (int (length (no_items d))) = Some sql"
    using newOrderSQLs_index [OF n] by (simp add: newOrderSelectItemSQLs_def)
  have fits: "map_fits (no_itemsMap d) (no_items d)" "found_ok (no_items d)" "lines_ok (no_items d)"
    using d by (auto simp: input_ok_def map_fits_def found_ok_def lines_ok_def)
  show ?thesis unfolding newOrder_found_def
  proof (rule ensures_or_panic [OF sql], rule ensures_exec, goal_cases)
    case (1 rows t1)
    then have t1: "t1 = t" and rows: "rows = filter (\<lambda>r. i_id r \<in> set (map olIID (no_items d))) (items t)"
      by (auto simp: do_selectItems_def select_Inr)
    have "no_itemsMap d (i_id r) \<noteq> None" if "r \<in> set rows" for r
    proof -
      have "1 \<le> i_id r" "i_id r \<in> olIID ` set (no_items d)" using that t(2) by (auto simp: rows)
      then show ?thesis using d by (auto simp: input_ok_def)
    qed
    then obtain its where its: "scan_items rows (no_itemsMap d) (no_items d) = Some its"
      "same_lines (no_items d) its" "found_ok its" "lines_ok its"
      using scan_items_ok [OF fits(1) _ fits(2,3), of rows] by blast
    have filled: "its = map (fill_item rows) (no_items d)"
      using scan_items_fill [OF its(1) fits(1) d(2)] keys(2) by (simp add: rows distinct_map_filter)
    have item: "find (\<lambda>r. i_id r = olIID i) rows = item_of t (olIID i)" if "i \<in> set (no_items d)" for i
      unfolding rows item_of_def using that by (intro find_filter) auto
    have "ensures (case find (\<lambda>item. \<not> foundInItems item) its of
       Some item \<Rightarrow> return (if olIID item = - 1 then None else Some [Plain ''item not found''])
     | None \<Rightarrow> newOrder_lines Z d oID wt dt dc its) t P"
    proof (cases "find (\<lambda>item. \<not> foundInItems item) its")
      case None
      then have found: "\<forall>i \<in> set its. foundInItems i" by (auto simp: find_None_iff)
      have items: "item_of t (olIID i) \<noteq> None" if i: "i \<in> set (no_items d)" for i
      proof -
        have "foundInItems (fill_item rows i)" "\<not> foundInItems i"
          using found i d(1) by (auto simp: filled input_ok_def)
        then show ?thesis unfolding item [OF i, symmetric] by (auto simp: fill_item_def split: option.splits)
      qed
      show ?thesis unfolding None option.case
      proof (rule newOrder_lines_exact [OF d(1) t(1) keys(1) its(2) _ its(4)], goal_cases)
        case 1
        show ?case using found its(3) d(1) by (auto simp: found_ok_def filled input_ok_def)
      next
        case 2
        show ?case using d(2) by (simp add: filled o_def)
      next
        case 3
        then have s: "\<forall>i \<in> set (no_items d). stock_of t (olSupplyWID i, olIID i) \<noteq> None"
          by (simp add: filled del: not_None_eq)
        have "map (\<lambda>i. order_line_of Z oID (dID d) (wID d) (fill_stock (stock_rows its t) (dID d) wt dt dc i)) its =
            map (ordered_line Z d oID wt dt dc t) (no_items d)"
          unfolding filled map_map o_def stock_rows_same
          by (rule map_cong [OF refl], rule line_is_ordered [OF d(2)]) (use item items s in auto)
        moreover have "map (ordered_stock its) (stocks t) = map (ordered_stock (no_items d)) (stocks t)"
          by (simp add: filled ordered_stock_same)
        moreover have "P (t\<lparr>stocks := map (ordered_stock (no_items d)) (stocks t),
            order_lines := order_lines t @ map (ordered_line Z d oID wt dt dc t) (no_items d)\<rparr>)"
          using P items s by blast
        ultimately show ?case by (simp only:)
      qed
    qed (simp add: ensures_return)
    then show ?case unfolding t1
      by (intro ensures_or_panic [OF its(1)] ensures_exec, unfold no_change_Inr) simp
  qed
qed

lemma newOrder_exact:
  assumes d: "input_ok d" "distinct (map olIID (no_items d))"
    and t: "consistent t" and keys: "distinct (map s_key (stocks t))" "distinct (map i_id (items t))"
  shows "ensures (newOrder_body Z d) t (order_placed Z d t)"
  unfolding newOrder_body_def
proof (rule ensures_exec, goal_cases)
  case (1 x1 t1)
  obtain dc last credit wt where x1: "x1 = (dc, last, credit, wt)" by (metis prod.exhaust)
  have t1: "t1 = t"
    using 1 by (auto simp: do_newOrderSelectCustomer_def dest!: select_row_Inr)
  obtain c v where c: "c \<in> set (customers t)" "v \<in> set (warehouses t)" "c_key c = (wID d, dID d, cID d)"
    "w_id v = wID d" "dc = scan_rate (c_discount c)" "wt = scan_rate (w_tax v)"
    using 1 x1 by (force simp: do_newOrderSelectCustomer_def c_key_def dest!: select_row_Inr)
  show ?case unfolding t1 x1 prod.case
  proof (rule ensures_exec, goal_cases)
    case (1 x2 t2)
    obtain n dt where x2: "x2 = (n, dt)" by (metis prod.exhaust)
    have t2: "t2 = t" and "\<exists>r \<in> set (districts t). d_key r = (wID d, dID d) \<and> d_next_o_id r = n \<and> dt = scan_rate (d_tax r)"
      using 1 x2 by (auto simp: do_newOrderSelectDistrict_def d_key_def dest!: select_row_Inr)
    then obtain r where r: "r \<in> set (districts t)" "d_key r = (wID d, dID d)" "d_next_o_id r = n"
      "dt = scan_rate (d_tax r)" by blast
    let ?t = "t\<lparr>
        districts := set_where (\<lambda>r. d_id r = dID d \<and> d_w_id r = wID d) (\<lambda>r. r\<lparr>d_next_o_id := n + 1\<rparr>) (districts t),
        orders := orders t @ [\<lparr>o_id = n, o_d_id = dID d, o_w_id = wID d, o_c_id = cID d, o_entry_d = now Z,
          o_carrier_id = None, o_ol_cnt = oOlCnt d, o_all_local = no_allLocal d\<rparr>],
        new_orders := new_orders t @ [\<lparr>no_o_id = n, no_d_id = dID d, no_w_id = wID d\<rparr>]\<rparr>"
    have "ensures (newOrder_found Z d n wt dt dc) ?t (order_placed Z d t)"
    proof (rule newOrder_found_exact [OF d], goal_cases)
      case 5
      have e: "item_of ?t = item_of t" "stock_of ?t = stock_of t"
        "ordered_line Z d n wt dt dc ?t = ordered_line Z d n wt dt dc t"
        by (simp_all add: fun_eq_iff item_of_def stock_of_def ordered_line_def)
      show ?case using 5 c r unfolding order_placed_def e
        by (intro bexI [of _ c] bexI [of _ v] bexI [of _ r])
          (simp_all add: place_order_def del: not_None_eq)
    qed (use t keys in \<open>auto simp: consistent_def cond_values_def stock_ok_def\<close>)
    then show ?case unfolding t2 x2 prod.case
      by (intro ensures_exec)
        (simp add: do_newOrderUpdateDistrict_def update_Inr do_newOrderInsertOrder_def
           do_newOrderInsertNewOrder_def insert_rows_Inr)
  qed
qed

subsection \<open>Success without a commit\<close>

text \<open>A body that returns no error without a commit does so only if \<open>C\<close>.\<close>

definition quits_only_if :: "body \<Rightarrow> bool \<Rightarrow> bool" where
  "quits_only_if b C \<longleftrightarrow> (\<forall>s. fst (b s) = Return None \<longrightarrow> C)"

lemma quits_exec: "(\<And>x. quits_only_if (k x) C) \<Longrightarrow> quits_only_if (exec stm st k) C"
  unfolding quits_only_if_def exec_def by (fastforce split: prod.splits sum.splits)

lemma quits_or_panic: "(\<And>y. x = Some y \<Longrightarrow> quits_only_if (k y) C) \<Longrightarrow> quits_only_if (or_panic x k) C"
  by (cases x) (simp_all add: quits_only_if_def or_panic_def)

lemma quits_return: "(e = None \<Longrightarrow> C) \<Longrightarrow> quits_only_if (return e) C"
  by (simp add: quits_only_if_def return_def)

lemma quits_commit: "quits_only_if commit C"
  by (simp add: quits_only_if_def commit_def)

lemma quits_update_stocks:
  "(\<forall>i \<in> set its. 0 \<le> olIID i) \<Longrightarrow> quits_only_if k C \<Longrightarrow> quits_only_if (update_stocks its k) C"
proof (induction its)
  case (Cons i its)
  then have "quits_only_if (exec newOrderUpdateStock (do_newOrderUpdateStock (sQuantity i) (olQuantity i)
        (remoteWarehouse i) (olIID i) (olSupplyWID i)) (\<lambda>_. update_stocks its k)) C"
    by (intro quits_exec) simp
  then show ?case using Cons.prems by (auto simp: quits_only_if_def return_def)
qed (simp add: quits_only_if_def)

lemma scan_items_same:
  "scan_items rows m its = Some its' \<Longrightarrow> map_fits m its \<Longrightarrow> same_lines its its'"
proof (induction rows arbitrary: its)
  case (Cons r rows)
  obtain i where i: "m (i_id r) = Some i" using Cons.prems(1) by (auto split: option.splits)
  let ?its = "its[i := (its ! i)\<lparr>iPrice := scan_cents (i_price r), iName := i_name r,
    iData := i_data r, foundInItems := True\<rparr>]"
  have same: "same_lines its ?its"
    using Cons.prems(2) i by (intro same_lines_update) (auto simp: map_fits_def)
  then show ?case
    using Cons.IH [of ?its] Cons.prems i map_fits_same [OF Cons.prems(2) same] same_lines_trans by auto
qed simp

lemma scan_stock_same:
  "scan_stock rows d wt dt dc m its = Some its' \<Longrightarrow> map_fits m its \<Longrightarrow> same_lines its its'"
proof (induction rows arbitrary: its)
  case (Cons r rows)
  obtain i where i: "m (s_i_id r) = Some i" using Cons.prems(1) by (auto split: option.splits)
  obtain dist where dist: "go_index (s_dist r) (d - 1) = Some dist"
    using Cons.prems(1) i by (auto split: bind_splits)
  let ?its = "its[i := (its ! i)\<lparr>foundInStock := True,
            sQuantity := next_quantity (s_quantity r) (olQuantity (its ! i)), sDist := dist,
            olAmount := line_amount (olQuantity (its ! i)) (iPrice (its ! i)) wt dt dc\<rparr>]"
  have same: "same_lines its ?its"
    using Cons.prems(2) i by (intro same_lines_update) (auto simp: map_fits_def)
  then show ?case
    using Cons.IH [of ?its] Cons.prems i dist map_fits_same [OF Cons.prems(2) same] same_lines_trans
    by (auto simp: Let_def)
qed simp

lemma newOrder_quits:
  assumes d: "input_ok d" and no: "\<forall>i \<in> set (no_items d). olIID i \<noteq> - 1"
  shows "quits_only_if (newOrder_body Z d) False"
proof -
  have fits: "map_fits (no_itemsMap d) (no_items d)" using d by (auto simp: input_ok_def map_fits_def)
  have pos: "0 \<le> olIID i" if h: "i \<in> set its" "same_lines (no_items d) its" for i its
  proof -
    obtain j where j: "j \<in> set (no_items d)" "olIID j = olIID i" using same_lines_mem h by blast
    then obtain n where "no_itemsMap d (olIID j) = Some n" using d no by (auto simp: input_ok_def)
    then show ?thesis using d j(2) unfolding input_ok_def by force
  qed
  have lines: "quits_only_if (newOrder_lines Z d oID wt dt dc its) False"
    if its: "same_lines (no_items d) its" for oID wt dt dc its
    unfolding newOrder_lines_def
  proof (intro quits_or_panic quits_exec quits_update_stocks quits_commit)
    fix sql rows its' assume "scan_stock rows (dID d) wt dt dc (no_itemsMap d) its = Some its'"
    then have "same_lines its its'" using scan_stock_same map_fits_same [OF fits its] by blast
    then show "\<forall>i \<in> set its'. 0 \<le> olIID i" using pos same_lines_trans [OF its] by blast
  qed
  have "quits_only_if (newOrder_found Z d oID wt dt dc) False" for oID wt dt dc
    unfolding newOrder_found_def
  proof (intro quits_or_panic quits_exec)
    fix sql rows its
    assume "scan_items rows (no_itemsMap d) (no_items d) = Some its"
    then have s: "same_lines (no_items d) its" using scan_items_same fits by blast
    show "quits_only_if (case find (\<lambda>item. \<not> foundInItems item) its of
       Some item \<Rightarrow> return (if olIID item = - 1 then None else Some [Plain ''item not found''])
     | None \<Rightarrow> newOrder_lines Z d oID wt dt dc its) False"
    proof (cases "find (\<lambda>item. \<not> foundInItems item) its")
      case (Some i)
      then have "i \<in> set its" by (auto simp: find_Some_iff)
      then have "0 \<le> olIID i" using pos s by blast
      then have "olIID i \<noteq> - 1" by auto
      then show ?thesis unfolding Some option.case by (intro quits_return) simp
    qed (simp add: lines [OF s])
  qed
  then show ?thesis unfolding newOrder_body_def
    by (intro quits_exec) (auto split: prod.split intro!: quits_exec)
qed


text \<open>The input drawn from \<open>sample_rnd\<close>, and a database that has its customer, items and stock.\<close>

definition sample_item :: "int \<Rightarrow> int \<Rightarrow> int \<Rightarrow> orderItem" where
  "sample_item n iid quantity = zeroItem\<lparr>olNumber := n, olIID := iid, olSupplyWID := 1, olQuantity := quantity\<rparr>"

definition sample_order :: newOrderData where
  "sample_order = \<lparr>wID = 1, dID = 1, cID = 32, oOlCnt = 5,
     no_items = [sample_item 1 120 8, sample_item 2 125 1, sample_item 3 254 4, sample_item 4 191 7, sample_item 5 256 10],
     no_itemsMap = [120 \<mapsto> 0, 125 \<mapsto> 1, 254 \<mapsto> 2, 191 \<mapsto> 3, 256 \<mapsto> 4], no_allLocal = 1\<rparr>"

lemma sample_order_input:
  "newOrder_input sample_vars 1 sample_rnd = Some (sample_order, siterate (\<lambda>x. x + 11) 220)"
  by (simp add: newOrder_input_def sample_randInt sample_rnd_def districtPerWarehouse_def
      randCustomerID_def Intn_def sample_five newOrder_item_def zeroItem_def Let_def
      sample_uniqueItemID go_arith sample_order_def sample_item_def)
    (simp add: sample_vars_def eval_nat_numeral)

definition stocked_db :: db where
  "stocked_db = sample_db
     \<lparr>customers := map (\<lambda>r. r\<lparr>c_id := 32\<rparr>) (customers sample_db),
      items := map (\<lambda>i. \<lparr>i_id = i, i_im_id = 1, i_name = ''I'', i_price = 250, i_data = []\<rparr>) [120, 125, 191, 254, 256],
      stocks := map (\<lambda>i. \<lparr>s_i_id = i, s_w_id = 1, s_quantity = 15, s_dist = replicate 10 ''d'', s_ytd = 0,
        s_order_cnt = 0, s_remote_cnt = 0, s_data = []\<rparr>) [120, 125, 191, 254, 256]\<rparr>"

lemma stocked_consistent: "consistent stocked_db"
  by (simp add: consistent_def stocked_db_def sample_db_def cond_ytd_def cond_ids_def cond_carrier_def
      cond_lines_def cond_delivered_def cond_balance_def cond_keys_def cond_values_def sum_where_def
      count_where_def delivered_def paid_by_def order_ids_def new_order_ids_def d_key_def exI [of _ 1])

lemma sample_order_placed:
  "fst (transaction (newOrder_body sample_world sample_order) (stocked_db, sconst Done)) = Returned None"
  by (simp add: newOrder_body_def sample_steps do_newOrderSelectCustomer_def do_newOrderSelectDistrict_def
      do_newOrderUpdateDistrict_def do_newOrderInsertOrder_def do_newOrderInsertNewOrder_def insert_rows_def
      fresh_rows_def stocked_db_def sample_db_def sample_order_def o_key_def no_key_def)
    (simp add: newOrder_found_def newOrder_lines_def or_panic_def go_index_def newOrderSelectItemSQLs_def
      newOrderSelectStockSQLs_def newOrderInsertOrderLineSQLs_def newOrderSQLs_def sample_steps
      do_selectItems_def do_selectStock_def do_newOrderUpdateStock_def do_insertOrderLines_def insert_rows_def
      fresh_rows_def sample_item_def zeroItem_def s_key_def ol_key_def ol_order_def order_line_of_def
      next_quantity_def eval_nat_numeral)


end
