(* ===== verification/TpccRunInv.thy ===== *)
theory TpccRunInv
  imports TpccRun
begin

text \<open>
  Connections and statements of a worker: what its log says at any time, and that a transaction is
  only ever started on an open connection on which its statements are prepared.
\<close>

subsection \<open>Preparing\<close>

text \<open>The keys a transaction uses are those of its map.\<close>

definition group_keys :: "group \<Rightarrow> string list" where
  "group_keys g = group_literal g @ (if g = NewOrderStmts then newOrder_batches else [])"

text \<open>Only statements were prepared, on one connection, with new handles.\<close>

definition extends :: "nat \<Rightarrow> runWorld \<Rightarrow> runWorld \<Rightarrow> bool" where
  "extends c w w' \<longleftrightarrow> wd_conns w' = wd_conns w \<and> wd_stmts w \<le> wd_stmts w' \<and>
     (\<exists>es. wd_log w' = wd_log w @ es \<and>
       (\<forall>e \<in> set es. \<exists>h t. e = StmtPrepared h t c \<and> wd_stmts w \<le> h \<and> h < wd_stmts w'))"

lemma extends_refl: "extends c w w"
  by (simp add: extends_def)

lemma extends_trans: "extends c w w1 \<Longrightarrow> extends c w1 w2 \<Longrightarrow> extends c w w2"
  unfolding extends_def by (fastforce intro: exI [of _ "_ @ _"])

lemma extends_log: "extends c w w' \<Longrightarrow> e \<in> set (wd_log w) \<Longrightarrow> e \<in> set (wd_log w')"
  unfolding extends_def by auto

lemma extends_new:
  "extends c w w' \<Longrightarrow> e \<in> set (wd_log w') \<Longrightarrow> e \<notin> set (wd_log w) \<Longrightarrow>
   \<exists>h t. e = StmtPrepared h t c \<and> wd_stmts w \<le> h \<and> h < wd_stmts w'"
  unfolding extends_def by auto

lemma extends_closed: "extends c w w' \<Longrightarrow> is_closed w' c' \<longleftrightarrow> is_closed w c'"
  unfolding is_closed_def by (auto dest: extends_log extends_new)

lemma log_event_simps [simp]:
  "wd_log (log_event e w) = wd_log w @ [e]" "wd_conns (log_event e w) = wd_conns w"
  "wd_stmts (log_event e w) = wd_stmts w" "wd_session (log_event e w) = wd_session w"
  by (simp_all add: log_event_def)

definition same_run :: "runWorld \<Rightarrow> runWorld \<Rightarrow> bool" where
  "same_run w w' \<longleftrightarrow> wd_log w' = wd_log w \<and> wd_conns w' = wd_conns w \<and> wd_stmts w' = wd_stmts w"

lemma driver_call_same: "driver_call w = (r, w') \<Longrightarrow> same_run w w'"
  by (auto simp: driver_call_def same_run_def split: prod.splits sum.splits)

lemma conn_call_same:
  "conn_call c w = (r, w') \<Longrightarrow> same_run w w' \<and> (is_closed w c \<longrightarrow> r = Some [ConnDone] \<and> w' = w)"
  using driver_call_same [of w r w'] by (auto simp: conn_call_def same_run_def split: if_splits)

lemma prepareStmt_ok:
  assumes "prepareStmt driver c q w = Some (r, w')"
  shows "extends c w w' \<and> (\<forall>h. r = Inr h \<longrightarrow> h = wd_stmts w \<and> wd_stmts w' = wd_stmts w + 1 \<and> \<not> is_closed w c \<and>
    (\<exists>text. convertToPQ q driver = Some text \<and> StmtPrepared h text c \<in> set (wd_log w')))"
proof -
  obtain tx ce w1 where t: "convertToPQ q driver = Some tx" and c: "conn_call c w = (ce, w1)"
    using assms by (cases "convertToPQ q driver"; cases "conn_call c w") (auto simp: prepareStmt_def)
  have x: "same_run w w1" and cl: "is_closed w c \<Longrightarrow> ce \<noteq> None"
    using conn_call_same [OF c] by auto
  show ?thesis
    using assms t c x cl by (cases ce) (auto simp: prepareStmt_def extends_def same_run_def)
qed

lemma set_update: "set (AList.update k v al) \<subseteq> insert (k, v) (set al)"
  by (induction al) auto

definition has_stmt :: "string \<Rightarrow> nat \<Rightarrow> runWorld \<Rightarrow> (string \<times> nat) list \<Rightarrow> string \<Rightarrow> bool" where
  "has_stmt driver c w m q \<longleftrightarrow> (\<exists>h text. map_of m q = Some h \<and> convertToPQ q driver = Some text \<and>
     StmtPrepared h text c \<in> set (wd_log w))"

lemma has_stmt_mono:
  "has_stmt driver c w m q \<Longrightarrow> extends c' w w' \<Longrightarrow> map_of m' q = map_of m q \<Longrightarrow> has_stmt driver c w' m' q"
  unfolding has_stmt_def by (auto dest: extends_log)

lemma prepare_all_ok:
  assumes "prepare_all driver c qs m w = Some ((r, m'), w')"
  shows "extends c w w' \<and>
    (\<forall>(q, h) \<in> set m'. (q, h) \<in> set m \<or> wd_stmts w \<le> h \<and> h < wd_stmts w') \<and>
    (r = None \<longrightarrow> (qs \<noteq> [] \<longrightarrow> \<not> is_closed w c) \<and> (\<forall>q. q \<in> set qs \<or> has_stmt driver c w m q \<longrightarrow> has_stmt driver c w' m' q))"
  using assms
proof (induction qs arbitrary: m w)
  case Nil
  then show ?case by (auto simp: extends_refl)
next
  case (Cons q qs)
  obtain p w1 where p: "prepareStmt driver c q w = Some (p, w1)"
    using Cons.prems by (cases "prepareStmt driver c q w") auto
  note ok = prepareStmt_ok [OF p]
  show ?case
  proof (cases p)
    case (Inl e)
    then show ?thesis using Cons.prems p ok by (auto simp: split_beta)
  next
    case (Inr h)
    then have rest: "prepare_all driver c qs (AList.update q h m) w1 = Some ((r, m'), w')"
      using Cons.prems p by simp
    have e: "extends c w w1" "h = wd_stmts w" "wd_stmts w1 = wd_stmts w + 1" "\<not> is_closed w c"
      using ok Inr by auto
    have q: "has_stmt driver c w1 (AList.update q h m) q"
      using ok Inr by (auto simp: has_stmt_def update_conv')
    have keep: "has_stmt driver c w1 (AList.update q h m) q'" if "has_stmt driver c w m q'" for q'
      using that q has_stmt_mono [OF that e(1), of "AList.update q h m"]
      by (cases "q' = q") (auto simp: update_conv')
    note IH = Cons.IH [OF rest]
    have x: "extends c w w'" using extends_trans [OF e(1)] IH by blast
    have le: "wd_stmts w1 \<le> wd_stmts w'" using IH unfolding extends_def by blast
    have m: "\<forall>(q, h) \<in> set m'. (q, h) \<in> set m \<or> wd_stmts w \<le> h \<and> h < wd_stmts w'"
      using IH set_update [of q h m] e(2,3) le by fastforce
    show ?thesis using IH x m e(4) q keep by auto
  qed
qed

text \<open>What a step of the preparation ensures, and which statements it may drop.\<close>

abbreviation has :: "string \<Rightarrow> tpccState \<Rightarrow> runWorld \<Rightarrow> group \<times> string \<Rightarrow> bool" where
  "has driver s w x \<equiv> has_stmt driver (ts_conn s) w (ts_stmts s (fst x)) (snd x)"

definition prep_spec :: "string \<Rightarrow> prepStep \<Rightarrow> (group \<times> string) set \<Rightarrow> (group \<times> string) set \<Rightarrow> bool" where
  "prep_spec driver f D L \<longleftrightarrow> (\<forall>s w r s' w'. f s w = Some (r, s', w') \<longrightarrow>
     extends (ts_conn s) w w' \<and> s' = s\<lparr>ts_stmts := ts_stmts s'\<rparr> \<and>
     (\<forall>g. \<forall>(q, h) \<in> set (ts_stmts s' g). (q, h) \<in> set (ts_stmts s g) \<or> wd_stmts w \<le> h \<and> h < wd_stmts w') \<and>
     (r = None \<longrightarrow> (D \<noteq> {} \<longrightarrow> \<not> is_closed w (ts_conn s)) \<and> (\<forall>x \<in> D. has driver s' w' x) \<and>
       (\<forall>x. x \<notin> L \<longrightarrow> has driver s w x \<longrightarrow> has driver s' w' x)))"

lemma prep_specI:
  assumes "\<And>s w r s' w'. f s w = Some (r, s', w') \<Longrightarrow>
     extends (ts_conn s) w w' \<and> s' = s\<lparr>ts_stmts := ts_stmts s'\<rparr> \<and>
     (\<forall>g. \<forall>(q, h) \<in> set (ts_stmts s' g). (q, h) \<in> set (ts_stmts s g) \<or> wd_stmts w \<le> h \<and> h < wd_stmts w') \<and>
     (r = None \<longrightarrow> (D \<noteq> {} \<longrightarrow> \<not> is_closed w (ts_conn s)) \<and> (\<forall>x \<in> D. has driver s' w' x) \<and>
       (\<forall>x. x \<notin> L \<longrightarrow> has driver s w x \<longrightarrow> has driver s' w' x))"
  shows "prep_spec driver f D L"
  using assms unfolding prep_spec_def by blast

lemma prep_specD:
  assumes "prep_spec driver f D L" "f s w = Some (r, s', w')"
  shows "extends (ts_conn s) w w'" "s' = s\<lparr>ts_stmts := ts_stmts s'\<rparr>" "ts_conn s' = ts_conn s"
    "\<forall>g. \<forall>(q, h) \<in> set (ts_stmts s' g). (q, h) \<in> set (ts_stmts s g) \<or> wd_stmts w \<le> h \<and> h < wd_stmts w'"
    "r = None \<Longrightarrow> D \<noteq> {} \<Longrightarrow> \<not> is_closed w (ts_conn s)"
    "r = None \<Longrightarrow> x \<in> D \<Longrightarrow> has driver s' w' x"
    "r = None \<Longrightarrow> x \<notin> L \<Longrightarrow> has driver s w x \<Longrightarrow> has driver s' w' x"
proof -
  have a: "extends (ts_conn s) w w' \<and> s' = s\<lparr>ts_stmts := ts_stmts s'\<rparr> \<and>
     (\<forall>g. \<forall>(q, h) \<in> set (ts_stmts s' g). (q, h) \<in> set (ts_stmts s g) \<or> wd_stmts w \<le> h \<and> h < wd_stmts w') \<and>
     (r = None \<longrightarrow> (D \<noteq> {} \<longrightarrow> \<not> is_closed w (ts_conn s)) \<and> (\<forall>x \<in> D. has driver s' w' x) \<and>
       (\<forall>x. x \<notin> L \<longrightarrow> has driver s w x \<longrightarrow> has driver s' w' x))"
    using assms unfolding prep_spec_def by blast
  show "extends (ts_conn s) w w'" "s' = s\<lparr>ts_stmts := ts_stmts s'\<rparr>"
    "\<forall>g. \<forall>(q, h) \<in> set (ts_stmts s' g). (q, h) \<in> set (ts_stmts s g) \<or> wd_stmts w \<le> h \<and> h < wd_stmts w'"
    "r = None \<Longrightarrow> D \<noteq> {} \<Longrightarrow> \<not> is_closed w (ts_conn s)"
    "r = None \<Longrightarrow> x \<in> D \<Longrightarrow> has driver s' w' x"
    "r = None \<Longrightarrow> x \<notin> L \<Longrightarrow> has driver s w x \<Longrightarrow> has driver s' w' x" using a by blast+
  show "ts_conn s' = ts_conn s"
    using a tpccState.select_convs(1) by (metis tpccState.surjective tpccState.update_convs(5))
qed

lemma prep_literal_spec:
  "group_literal g \<noteq> [] \<Longrightarrow>
   prep_spec driver (prepare_literal driver g) (Pair g ` set (group_literal g)) (range (Pair g))"
proof (rule prep_specI)
  fix s w r s' w'
  assume ne: "group_literal g \<noteq> []" and run: "prepare_literal driver g s w = Some (r, s', w')"
  then obtain m where p: "prepare_all driver (ts_conn s) (group_literal g) [] w = Some ((r, m), w')"
    and s': "s' = (case r of None \<Rightarrow> set_stmts g m s | Some e \<Rightarrow> s)"
    by (auto simp: prepare_literal_def Option.bind_eq_Some_conv)
  note ok = prepare_all_ok [OF p]
  show "extends (ts_conn s) w w' \<and> s' = s\<lparr>ts_stmts := ts_stmts s'\<rparr> \<and>
     (\<forall>g. \<forall>(q, h) \<in> set (ts_stmts s' g). (q, h) \<in> set (ts_stmts s g) \<or> wd_stmts w \<le> h \<and> h < wd_stmts w') \<and>
     (r = None \<longrightarrow> (Pair g ` set (group_literal g) \<noteq> {} \<longrightarrow> \<not> is_closed w (ts_conn s)) \<and>
       (\<forall>x \<in> Pair g ` set (group_literal g). has driver s' w' x) \<and>
       (\<forall>x. x \<notin> range (Pair g) \<longrightarrow> has driver s w x \<longrightarrow> has driver s' w' x))"
  proof (cases r)
    case None
    have "has driver s' w' x" if "x \<notin> range (Pair g)" "has driver s w x" for x
      using that None s' ok has_stmt_mono [OF that(2)] by (cases x) (auto simp: set_stmts_def)
    then show ?thesis using None s' ok ne by (auto simp: set_stmts_def)
  qed (use s' ok in auto)
qed

lemma prep_loop_spec:
  "prep_spec driver (prepare_loop driver) (Pair NewOrderStmts ` set newOrder_batches) {}"
proof (rule prep_specI)
  fix s w r s' w'
  assume run: "prepare_loop driver s w = Some (r, s', w')"
  then obtain m where
    p: "prepare_all driver (ts_conn s) newOrder_batches (ts_stmts s NewOrderStmts) w = Some ((r, m), w')"
    and s': "s' = set_stmts NewOrderStmts m s"
    by (auto simp: prepare_loop_def Option.bind_eq_Some_conv)
  note ok = prepare_all_ok [OF p]
  have ne: "newOrder_batches \<noteq> []" by (simp add: newOrder_batches_def upt_rec)
  have "has driver s' w' x" if "r = None" "has driver s w x" for x
    using that s' ok has_stmt_mono [OF that(2)] by (cases "fst x = NewOrderStmts") (auto simp: set_stmts_def)
  then show "extends (ts_conn s) w w' \<and> s' = s\<lparr>ts_stmts := ts_stmts s'\<rparr> \<and>
     (\<forall>g. \<forall>(q, h) \<in> set (ts_stmts s' g). (q, h) \<in> set (ts_stmts s g) \<or> wd_stmts w \<le> h \<and> h < wd_stmts w') \<and>
     (r = None \<longrightarrow> (Pair NewOrderStmts ` set newOrder_batches \<noteq> {} \<longrightarrow> \<not> is_closed w (ts_conn s)) \<and>
       (\<forall>x \<in> Pair NewOrderStmts ` set newOrder_batches. has driver s' w' x) \<and>
       (\<forall>x. x \<notin> {} \<longrightarrow> has driver s w x \<longrightarrow> has driver s' w' x))"
    using s' ok ne by (auto simp: set_stmts_def)
qed

lemma prep_nil_spec: "prep_spec driver (prepare_steps []) {} {}"
  by (rule prep_specI) (auto simp: extends_refl)

lemma prep_cons_spec:
  assumes f: "prep_spec driver f D L" and fs: "prep_spec driver (prepare_steps fs) D' L'"
  shows "prep_spec driver (prepare_steps (f # fs)) (D' \<union> (D - L')) (L \<union> L')"
proof (rule prep_specI)
  fix s w r s2 w2
  assume run: "prepare_steps (f # fs) s w = Some (r, s2, w2)"
  then obtain r1 s1 w1 where r1: "f s w = Some (r1, s1, w1)"
    and k: "(case r1 of Some e \<Rightarrow> Some (Some e, s1, w1) | None \<Rightarrow> prepare_steps fs s1 w1) = Some (r, s2, w2)"
    by (auto simp: Option.bind_eq_Some_conv)
  note A = prep_specD [OF f r1]
  show "extends (ts_conn s) w w2 \<and> s2 = s\<lparr>ts_stmts := ts_stmts s2\<rparr> \<and>
     (\<forall>g. \<forall>(q, h) \<in> set (ts_stmts s2 g). (q, h) \<in> set (ts_stmts s g) \<or> wd_stmts w \<le> h \<and> h < wd_stmts w2) \<and>
     (r = None \<longrightarrow> (D' \<union> (D - L') \<noteq> {} \<longrightarrow> \<not> is_closed w (ts_conn s)) \<and> (\<forall>x \<in> D' \<union> (D - L'). has driver s2 w2 x) \<and>
       (\<forall>x. x \<notin> L \<union> L' \<longrightarrow> has driver s w x \<longrightarrow> has driver s2 w2 x))"
  proof (cases r1)
    case (Some e)
    then have "r = Some e" "s2 = s1" "w2 = w1" using k by auto
    then show ?thesis using A(1,2,4) by simp
  next
    case None
    then have r2: "prepare_steps fs s1 w1 = Some (r, s2, w2)" using k by simp
    note B = prep_specD [OF fs r2]
    have le: "wd_stmts w \<le> wd_stmts w1" "wd_stmts w1 \<le> wd_stmts w2"
      using A(1) B(1) unfolding extends_def by auto
    have h: "\<forall>g. \<forall>(q, h) \<in> set (ts_stmts s2 g). (q, h) \<in> set (ts_stmts s g) \<or> wd_stmts w \<le> h \<and> h < wd_stmts w2"
      using A(4) B(4) le by fastforce
    have e: "extends (ts_conn s) w w2" using extends_trans A(1) B(1) A(3) by metis
    have s2: "s2 = s\<lparr>ts_stmts := ts_stmts s2\<rparr>"
    proof -
      have "s2 = s1\<lparr>ts_stmts := ts_stmts s2\<rparr>" by (rule B(2))
      also have "\<dots> = s\<lparr>ts_stmts := ts_stmts s1\<rparr>\<lparr>ts_stmts := ts_stmts s2\<rparr>" using A(2) by simp
      finally show ?thesis by simp
    qed
    have "\<not> is_closed w (ts_conn s)" if "r = None" "D' \<union> (D - L') \<noteq> {}"
      using that A(5) [OF None] B(5) A(3) extends_closed [OF A(1)] by (cases "D = {}") auto
    moreover have "has driver s2 w2 x" if "r = None" "x \<in> D' \<union> (D - L')" for x
      using that A(6) [OF None, of x] B(6,7) by blast
    moreover have "has driver s2 w2 x" if "r = None" "x \<notin> L \<union> L'" "has driver s w x" for x
      using that A(7) [OF None, of x] B(7) by blast
    ultimately show ?thesis using e s2 h by blast
  qed
qed

text \<open>After the preparation of a mode every statement of that mode is there.\<close>

definition mode_keys :: "Config \<Rightarrow> (group \<times> string) set" where
  "mode_keys cfg = {(g, q). g \<in> range (mode_stmts cfg) \<and> q \<in> set (group_keys g)}"

lemma range_mode_stmts:
  "range (mode_stmts cfg) =
     (if cf_StoredProcs cfg then {ProcStmts}
      else {NewOrderStmts, PaymentStmts, OrderStatusStmts, DeliveryStmts, StockLevelStmt})"
proof -
  have u: "UNIV = {NewOrder, Payment, OrderStatus, Delivery, StockLevel}"
    using action.exhaust by blast
  show ?thesis by (auto simp: mode_stmts_def u)
qed

lemma prep_weaken: "prep_spec driver f D L \<Longrightarrow> D' \<subseteq> D \<Longrightarrow> prep_spec driver f D' L"
  unfolding prep_spec_def by blast

lemma prep_widen: "prep_spec driver f D L \<Longrightarrow> prep_spec driver f D UNIV"
  unfolding prep_spec_def by blast

lemma prepare_mode_spec:
  "prep_spec (cf_Driver cfg) ((if cf_StoredProcs cfg then prepareProcStmts else prepareTxnStmts) (cf_Driver cfg))
     (mode_keys cfg) UNIV"
proof (cases "cf_StoredProcs cfg")
  case True
  have "prep_spec (cf_Driver cfg) (prepareProcStmts (cf_Driver cfg)) (Pair ProcStmts ` set (group_literal ProcStmts))
      (range (Pair ProcStmts))"
    unfolding prepareProcStmts_def by (rule prep_literal_spec) simp
  then have "prep_spec (cf_Driver cfg) (prepareProcStmts (cf_Driver cfg)) (mode_keys cfg) (range (Pair ProcStmts))"
    by (rule prep_weaken) (auto simp: mode_keys_def range_mode_stmts True group_keys_def)
  then show ?thesis using prep_widen True by simp
next
  case False
  let ?d = "cf_Driver cfg"
  have ne: "group_literal g \<noteq> []" for g by (cases g) simp_all
  note lit = prep_literal_spec [OF ne, where driver = ?d]
  note s1 = prep_cons_spec [OF lit [of StockLevelStmt] prep_nil_spec]
  note s2 = prep_cons_spec [OF lit [of DeliveryStmts] s1]
  note s3 = prep_cons_spec [OF lit [of OrderStatusStmts] s2]
  note s4 = prep_cons_spec [OF lit [of PaymentStmts] s3]
  note s5 = prep_cons_spec [OF prep_loop_spec s4]
  note s6 = prep_cons_spec [OF lit [of NewOrderStmts] s5]
  have "prep_spec ?d (prepareTxnStmts ?d) (mode_keys cfg) UNIV"
  proof -
    have sub: "mode_keys cfg \<subseteq> {(g, q). g \<in> {NewOrderStmts, PaymentStmts, OrderStatusStmts, DeliveryStmts, StockLevelStmt} \<and>
       (q \<in> set (group_literal g) \<or> g = NewOrderStmts \<and> q \<in> set newOrder_batches)}"
      by (auto simp: mode_keys_def range_mode_stmts False group_keys_def)
    show ?thesis
      unfolding prepareTxnStmts_def
      by (rule prep_weaken [OF prep_widen [OF s6]]) (rule subset_trans [OF sub], auto simp del: group_literal.simps)
  qed
  then show ?thesis using False by simp
qed

subsection \<open>What the log says\<close>

text \<open>A transaction may start: its connection is open and its statements are prepared on it.\<close>

definition ready_on :: "Config \<Rightarrow> runEvent list \<Rightarrow> action \<Rightarrow> nat \<Rightarrow> (string \<times> nat) list \<Rightarrow> bool" where
  "ready_on cfg evs a c m \<longleftrightarrow> ConnOpened c \<in> set evs \<and> ConnClosed c \<notin> set evs \<and>
     (\<forall>q \<in> set (group_keys (mode_stmts cfg a)). \<exists>h text. map_of m q = Some h \<and>
       convertToPQ q (cf_Driver cfg) = Some text \<and> StmtPrepared h text c \<in> set evs \<and> StmtClosed h \<notin> set evs)"

fun safe_event :: "Config \<Rightarrow> runEvent list \<Rightarrow> runEvent \<Rightarrow> bool" where
  "safe_event cfg evs (Executes a c m) = ready_on cfg evs a c m"
| "safe_event cfg evs _ = True"

definition safe_log :: "Config \<Rightarrow> runEvent list \<Rightarrow> bool" where
  "safe_log cfg evs \<longleftrightarrow> (\<forall>pre e post. evs = pre @ e # post \<longrightarrow> safe_event cfg pre e)"

lemma safe_log_Nil: "safe_log cfg []"
  by (simp add: safe_log_def)

lemma safe_log_snoc: "safe_log cfg (evs @ [e]) \<longleftrightarrow> safe_log cfg evs \<and> safe_event cfg evs e"
proof
  assume s: "safe_log cfg (evs @ [e])"
  have "safe_event cfg pre x" if "evs = pre @ x # post" for pre x post
    using s that unfolding safe_log_def by (metis append_Cons append_assoc)
  moreover have "safe_event cfg evs e" using s unfolding safe_log_def by blast
  ultimately show "safe_log cfg evs \<and> safe_event cfg evs e" unfolding safe_log_def by blast
next
  assume s: "safe_log cfg evs \<and> safe_event cfg evs e"
  have "safe_event cfg pre x" if d: "evs @ [e] = pre @ x # post" for pre x post
  proof (cases post rule: rev_cases)
    case Nil
    then show ?thesis using s d by simp
  next
    case (snoc p y)
    then have "evs = pre @ x # p" using d by simp
    then show ?thesis using s unfolding safe_log_def by blast
  qed
  then show "safe_log cfg (evs @ [e])" unfolding safe_log_def by blast
qed

definition quiet :: "runEvent \<Rightarrow> bool" where
  "quiet e \<longleftrightarrow> (case e of Executes a c m \<Rightarrow> False | _ \<Rightarrow> True)"

lemma safe_log_quiet: "\<forall>e \<in> set es. quiet e \<Longrightarrow> safe_log cfg (evs @ es) \<longleftrightarrow> safe_log cfg evs"
proof (induction es rule: rev_induct)
  case (snoc e es)
  then have "safe_event cfg (evs @ es) e" by (cases e) (auto simp: quiet_def)
  then show ?case using snoc by (simp add: safe_log_snoc flip: append_assoc)
qed simp

subsection \<open>The invariant\<close>

definition log_ok :: "Config \<Rightarrow> runWorld \<Rightarrow> bool" where
  "log_ok cfg w \<longleftrightarrow> safe_log cfg (wd_log w) \<and>
     (\<forall>c. ConnOpened c \<in> set (wd_log w) \<longrightarrow> c < wd_conns w) \<and>
     (\<forall>c. ConnClosed c \<in> set (wd_log w) \<longrightarrow> ConnOpened c \<in> set (wd_log w)) \<and>
     (\<forall>h. StmtClosed h \<in> set (wd_log w) \<longrightarrow> h < wd_stmts w)"

definition owned :: "tpccState \<Rightarrow> runWorld \<Rightarrow> bool" where
  "owned s w \<longleftrightarrow> ConnOpened (ts_conn s) \<in> set (wd_log w) \<and>
     (\<forall>c. ConnOpened c \<in> set (wd_log w) \<longrightarrow> c \<noteq> ts_conn s \<longrightarrow> ConnClosed c \<in> set (wd_log w)) \<and>
     (\<forall>g q h. (q, h) \<in> set (ts_stmts s g) \<longrightarrow> h < wd_stmts w \<and> StmtClosed h \<notin> set (wd_log w))"

definition ready :: "Config \<Rightarrow> tpccState \<Rightarrow> runWorld \<Rightarrow> bool" where
  "ready cfg s w \<longleftrightarrow> \<not> is_closed w (ts_conn s) \<and> (\<forall>x \<in> mode_keys cfg. has (cf_Driver cfg) s w x)"

definition worker_inv :: "Config \<Rightarrow> tpccState \<Rightarrow> runWorld \<Rightarrow> bool" where
  "worker_inv cfg s w \<longleftrightarrow> log_ok cfg w \<and> owned s w \<and> (ts_stmtsReady s \<longrightarrow> ready cfg s w)"

lemma inv_same:
  "worker_inv cfg s w \<Longrightarrow> same_run w w' \<Longrightarrow> ts_conn s' = ts_conn s \<Longrightarrow> ts_stmts s' = ts_stmts s \<Longrightarrow>
   ts_stmtsReady s' = ts_stmtsReady s \<Longrightarrow> worker_inv cfg s' w'"
  unfolding worker_inv_def log_ok_def owned_def ready_def same_run_def is_closed_def has_stmt_def by simp

lemma same_run_refl: "same_run w w"
  by (simp add: same_run_def)

lemma same_run_trans: "same_run w w1 \<Longrightarrow> same_run w1 w2 \<Longrightarrow> same_run w w2"
  by (simp add: same_run_def)

lemma time_now_same: "time_now w = (t, w') \<Longrightarrow> same_run w w'"
  by (auto simp: time_now_def same_run_def)

lemma closeStmts_log:
  "wd_log (closeStmts m w) = wd_log w @ map (\<lambda>(q, h). StmtClosed h) m \<and>
   wd_conns (closeStmts m w) = wd_conns w \<and> wd_stmts (closeStmts m w) = wd_stmts w"
proof (induction m arbitrary: w)
  case (Cons x m)
  have "closeStmts (x # m) w = closeStmts m (log_event (StmtClosed (snd x)) w)"
    by (simp add: closeStmts_def split_beta)
  then show ?case using Cons by (simp add: split_beta)
qed (simp add: closeStmts_def)

lemma closeAllStmts_inv:
  assumes "worker_inv cfg s w" "closeAllStmts s w = (s', w')"
  shows "worker_inv cfg s' w' \<and> ts_stmts s' = (\<lambda>g. []) \<and> \<not> ts_stmtsReady s' \<and> ts_conn s' = ts_conn s \<and>
    (\<forall>c. is_closed w' c \<longleftrightarrow> is_closed w c)"
proof -
  define es where "es = concat (map (\<lambda>g. map (\<lambda>(q, h). StmtClosed h) (ts_stmts s g))
    [NewOrderStmts, PaymentStmts, OrderStatusStmts, DeliveryStmts, StockLevelStmt, ProcStmts])"
  have s': "s' = s\<lparr>ts_stmts := (\<lambda>g. []), ts_stmtsReady := False\<rparr>" and
    w': "wd_log w' = wd_log w @ es" "wd_conns w' = wd_conns w" "wd_stmts w' = wd_stmts w"
    using assms(2) unfolding closeAllStmts_def es_def by (auto simp: closeStmts_log)
  have es: "\<exists>h. e = StmtClosed h \<and> h < wd_stmts w" if e: "e \<in> set es" for e
  proof -
    obtain g q h where "e = StmtClosed h" "(q, h) \<in> set (ts_stmts s g)"
      using e unfolding es_def by (auto simp del: list.map)
    then show ?thesis using assms(1) unfolding worker_inv_def owned_def by blast
  qed
  then have "\<forall>e \<in> set es. quiet e" by (auto simp: quiet_def split: runEvent.splits dest!: es)
  moreover have "ConnOpened c \<notin> set es" "ConnClosed c \<notin> set es" for c using es by blast+
  moreover have "StmtClosed h \<in> set es \<Longrightarrow> h < wd_stmts w" for h using es by blast
  ultimately show ?thesis
    using assms(1) unfolding worker_inv_def log_ok_def owned_def is_closed_def s' w'
    by (auto simp: safe_log_quiet)
qed

text \<open>Getting another connection.\<close>

lemma DB_Conn_ok:
  assumes "DB_Conn w = (r, w')"
  shows "wd_stmts w' = wd_stmts w \<and>
    (case r of Inl e \<Rightarrow> wd_log w' = wd_log w \<and> wd_conns w' = wd_conns w
     | Inr c \<Rightarrow> c = wd_conns w \<and> wd_log w' = wd_log w @ [ConnOpened c] \<and> wd_conns w' = wd_conns w + 1)"
proof -
  obtain e w1 where d: "driver_call w = (e, w1)" by (cases "driver_call w")
  have "same_run w w1" by (rule driver_call_same [OF d])
  then show ?thesis using assms d by (cases e) (auto simp: DB_Conn_def same_run_def)
qed

lemma Conn_Close_ok:
  "wd_stmts (Conn_Close c w) = wd_stmts w \<and> wd_conns (Conn_Close c w) = wd_conns w \<and>
   (\<exists>es. wd_log (Conn_Close c w) = wd_log w @ es \<and> set es \<subseteq> {ConnClosed c}) \<and> is_closed (Conn_Close c w) c"
  by (auto simp: Conn_Close_def is_closed_def)

lemma RefreshConn_inv:
  assumes inv: "worker_inv cfg s w" and st: "ts_stmts s = (\<lambda>g. [])" "\<not> ts_stmtsReady s"
    and r: "RefreshConn s w = (r, s', w')"
  shows "worker_inv cfg s' w' \<and> \<not> ts_stmtsReady s' \<and> ts_stmts s' = (\<lambda>g. []) \<and>
    (r \<noteq> None \<longrightarrow> s' = s \<and> is_closed w' (ts_conn s'))"
proof -
  let ?w1 = "Conn_Close (ts_conn s) w"
  obtain es where es: "wd_log ?w1 = wd_log w @ es" "set es \<subseteq> {ConnClosed (ts_conn s)}"
    using Conn_Close_ok by blast
  have c1: "wd_stmts ?w1 = wd_stmts w" "wd_conns ?w1 = wd_conns w" "is_closed ?w1 (ts_conn s)"
    using Conn_Close_ok by blast+
  have q: "\<forall>e \<in> set es. quiet e" using es(2) by (auto simp: quiet_def split: runEvent.splits)
  have none: "StmtClosed h \<notin> set es" "ConnOpened c \<notin> set es" for h c using es(2) by auto
  have ok1: "log_ok cfg ?w1"
    using inv es q none unfolding worker_inv_def log_ok_def owned_def c1
    by (auto simp: safe_log_quiet)
  have own1: "owned s ?w1"
    using inv es none st unfolding worker_inv_def owned_def by auto
  obtain d w2 where d: "DB_Conn ?w1 = (d, w2)" by (cases "DB_Conn ?w1")
  note D = DB_Conn_ok [OF d]
  show ?thesis
  proof (cases d)
    case (Inl e)
    then have "s' = s" "w' = w2" "r = Some e" using r d by (auto simp: RefreshConn_def)
    moreover have "same_run ?w1 w2" using D Inl by (simp add: same_run_def)
    ultimately show ?thesis
      using ok1 own1 st c1(3)
      unfolding worker_inv_def log_ok_def owned_def same_run_def is_closed_def by simp
  next
    case (Inr c)
    then have e: "s' = s\<lparr>ts_conn := c\<rparr>" "w' = w2" "r = None" using r d by (auto simp: RefreshConn_def)
    have w2: "wd_log w2 = wd_log ?w1 @ [ConnOpened c]" "wd_conns w2 = wd_conns ?w1 + 1" "wd_stmts w2 = wd_stmts ?w1"
      and c: "c = wd_conns ?w1" using D Inr by auto
    have "safe_log cfg (wd_log w2)" using ok1 w2 by (simp add: safe_log_snoc log_ok_def)
    then have "log_ok cfg w2" using ok1 w2 c unfolding log_ok_def by auto
    moreover have "owned s' w2" using own1 c1(3) w2 st e unfolding owned_def is_closed_def by auto
    ultimately show ?thesis using st e unfolding worker_inv_def by simp
  qed
qed

lemma auto_refresh_inv:
  assumes inv: "worker_inv cfg s w" and r: "auto_refresh cfg s w = (r, s', w')"
  shows "worker_inv cfg s' w' \<and> ts_decks s' = ts_decks s \<and> ts_index s' = ts_index s"
proof -
  obtain t w1 where t: "time_now w = (t, w1)" by (cases "time_now w")
  obtain s2 w2 where c: "closeAllStmts s w1 = (s2, w2)" by (cases "closeAllStmts s w1")
  obtain r3 s3 w3 where f: "RefreshConn s2 w2 = (r3, s3, w3)" by (cases "RefreshConn s2 w2")
  obtain t4 w4 where t4: "time_now w3 = (t4, w4)" by (cases "time_now w3")
  have i1: "worker_inv cfg s w1" using inv_same [OF inv time_now_same [OF t]] by simp
  note i2 = closeAllStmts_inv [OF i1 c]
  have i3: "worker_inv cfg s3 w3" using RefreshConn_inv [OF _ _ _ f] i2 by blast
  have i4: "worker_inv cfg (s3\<lparr>ts_lastConnRefresh := x\<rparr>) w4" for x
    by (rule inv_same [OF i3 time_now_same [OF t4]]) simp_all
  have d2: "ts_decks s2 = ts_decks s" "ts_index s2 = ts_index s"
    using c by (auto simp: closeAllStmts_def)
  have d3: "ts_decks s3 = ts_decks s2" "ts_index s3 = ts_index s2"
    using f by (auto simp: RefreshConn_def split: prod.splits sum.splits)
  show ?thesis
    using r inv i1 i3 i4 d2 d3 t c f t4
    by (auto simp: auto_refresh_def split: if_splits option.splits)
qed

lemma installProcsOnce_same: "installProcsOnce c w = (r, w') \<Longrightarrow> same_run w w'"
proof -
  have i: "installStoredProcsPG n c w = (r, w') \<Longrightarrow> same_run w w'" for n w r w'
  proof (induction n arbitrary: w)
    case (Suc n)
    obtain e w1 where d: "conn_call c w = (e, w1)" by (cases "conn_call c w")
    then show ?case
      using Suc conn_call_same [OF d] same_run_trans by (cases e) auto
  qed (simp add: same_run_refl)
  assume r: "installProcsOnce c w = (r, w')"
  obtain e w1 where d: "installStoredProcsPG allStoredProcs c w = (e, w1)"
    by (cases "installStoredProcsPG allStoredProcs c w")
  show ?thesis
    using r i [OF d] d by (auto simp: installProcsOnce_def same_run_def split: option.splits)
qed

lemma make_ready_inv:
  assumes inv: "worker_inv cfg s w" and r: "make_ready cfg s w = Some (r, s', w')"
  shows "worker_inv cfg s' w' \<and> (r = None \<longrightarrow> ts_stmtsReady s') \<and>
    ts_decks s' = ts_decks s \<and> ts_index s' = ts_index s"
proof (cases "ts_stmtsReady s")
  case True
  then show ?thesis using inv r by (simp add: make_ready_def)
next
  case False
  then obtain r1 s1 where p:
    "(if cf_StoredProcs cfg then prepareProcStmts else prepareTxnStmts) (cf_Driver cfg) s w = Some (r1, s1, w')"
    and e: "s' = (case r1 of None \<Rightarrow> s1\<lparr>ts_stmtsReady := True\<rparr> | Some e \<Rightarrow> s1)" "r = None \<longleftrightarrow> r1 = None"
    using r by (auto simp: make_ready_def Option.bind_eq_Some_conv split: option.splits)
  note P = prep_specD [OF prepare_mode_spec p]
  have s1: "ts_stmtsReady s1 = ts_stmtsReady s" "ts_decks s1 = ts_decks s" "ts_index s1 = ts_index s"
    using P(2) tpccState.select_convs tpccState.surjective tpccState.update_convs(5) by metis+
  obtain es where es: "wd_log w' = wd_log w @ es" "wd_conns w' = wd_conns w" "wd_stmts w \<le> wd_stmts w'"
    "\<forall>e \<in> set es. \<exists>h t. e = StmtPrepared h t (ts_conn s) \<and> wd_stmts w \<le> h \<and> h < wd_stmts w'"
    using P(1) unfolding extends_def by blast
  have q: "\<forall>e \<in> set es. quiet e" using es(4) by (auto simp: quiet_def split: runEvent.splits)
  have none: "StmtClosed h \<notin> set es" "ConnOpened c \<notin> set es" "ConnClosed c \<notin> set es" for h c
    using es(4) by auto
  have ok: "log_ok cfg w'"
    using inv es(1-3) q none unfolding worker_inv_def log_ok_def by (auto simp: safe_log_quiet)
  have own: "owned s1 w'"
    unfolding owned_def
  proof (intro conjI allI impI)
    fix g q h assume "(q, h) \<in> set (ts_stmts s1 g)"
    then have "(q, h) \<in> set (ts_stmts s g) \<or> wd_stmts w \<le> h \<and> h < wd_stmts w'" using P(4) by blast
    moreover have "h < wd_stmts w \<and> StmtClosed h \<notin> set (wd_log w)" if "(q, h) \<in> set (ts_stmts s g)"
      using inv that unfolding worker_inv_def owned_def by blast
    moreover have "StmtClosed h \<notin> set (wd_log w)" if "wd_stmts w \<le> h"
      using inv that unfolding worker_inv_def log_ok_def by (meson linorder_not_less)
    ultimately show "h < wd_stmts w'" "StmtClosed h \<notin> set (wd_log w')"
      using es(1,3) none by auto
  qed (use inv es none P(3) in \<open>auto simp: worker_inv_def owned_def\<close>)
  have rd: "ready cfg s1 w'" if "r1 = None"
  proof -
    have "(if cf_StoredProcs cfg then (ProcStmts, tpccCallNewOrder) else (PaymentStmts, paymentUpdateWarehouse)) \<in> mode_keys cfg"
      by (simp add: mode_keys_def group_keys_def range_mode_stmts)
    then have "mode_keys cfg \<noteq> {}" by blast
    then have "\<not> is_closed w' (ts_conn s1)" using P(1,3,5) that extends_closed by metis
    then show ?thesis using P(6) that unfolding ready_def by blast
  qed
  have "worker_inv cfg s' w'"
  proof (cases r1)
    case None
    then show ?thesis using ok own rd e(1) unfolding worker_inv_def owned_def ready_def by simp
  next
    case (Some x)
    then show ?thesis using ok own e(1) s1(1) False unfolding worker_inv_def by simp
  qed
  then show ?thesis using e s1 by (auto split: option.splits)
qed

subsection \<open>Run\<close>

lemma ready_on_ready:
  assumes "worker_inv cfg s w" "ts_stmtsReady s"
  shows "ready_on cfg (wd_log w) a (ts_conn s) (ts_stmts s (mode_stmts cfg a))"
  unfolding ready_on_def
proof (intro conjI ballI)
  fix q assume "q \<in> set (group_keys (mode_stmts cfg a))"
  then have "(mode_stmts cfg a, q) \<in> mode_keys cfg" by (simp add: mode_keys_def)
  then have "has (cf_Driver cfg) s w (mode_stmts cfg a, q)"
    using assms unfolding worker_inv_def ready_def by blast
  then obtain h tx where h: "map_of (ts_stmts s (mode_stmts cfg a)) q = Some h"
    "convertToPQ q (cf_Driver cfg) = Some tx" "StmtPrepared h tx (ts_conn s) \<in> set (wd_log w)"
    unfolding has_stmt_def by auto
  moreover have "StmtClosed h \<notin> set (wd_log w)"
    using map_of_SomeD [OF h(1)] assms(1) unfolding worker_inv_def owned_def by blast
  ultimately show "\<exists>h text. map_of (ts_stmts s (mode_stmts cfg a)) q = Some h \<and>
      convertToPQ q (cf_Driver cfg) = Some text \<and> StmtPrepared h text (ts_conn s) \<in> set (wd_log w) \<and>
      StmtClosed h \<notin> set (wd_log w)" by blast
qed (use assms in \<open>auto simp: worker_inv_def owned_def ready_def is_closed_def\<close>)

lemma run_txn_inv:
  assumes inv: "worker_inv cfg s w" and rd: "ts_stmtsReady s"
    and r: "run_txn P Z G cfg a s w = Some (r, s', w')"
  shows "worker_inv cfg s' w' \<and> ts_decks s' = ts_decks s \<and> ts_index s' = ts_index s"
proof -
  let ?e = "Executes a (ts_conn s) (ts_stmts s (mode_stmts cfg a))"
  let ?w = "log_event ?e w"
  have w1: "worker_inv cfg s ?w"
    using inv ready_on_ready [OF inv rd, of a]
    unfolding worker_inv_def log_ok_def owned_def ready_def is_closed_def has_stmt_def
    by (simp add: safe_log_snoc)
  obtain R x where "s' = s\<lparr>ts_R := R\<rparr>" "w' = ?w\<lparr>wd_session := x\<rparr>"
    using r by (auto simp: run_txn_def Let_def split_beta Option.bind_eq_Some_conv split: if_splits)
  moreover from this have "same_run ?w w'" by (simp add: same_run_def)
  ultimately show ?thesis using inv_same [OF w1] by simp
qed

lemma after_txn_inv:
  assumes inv: "worker_inv cfg s w" and r: "after_txn alive res s w = (r, s', w')"
  shows "worker_inv cfg s' w' \<and> ts_decks s' = ts_decks s \<and> ts_index s' = ts_index s"
proof -
  obtain s2 w2 where c: "closeAllStmts s w = (s2, w2)" by (cases "closeAllStmts s w")
  obtain r3 s3 w3 where f: "RefreshConn s2 w2 = (r3, s3, w3)" by (cases "RefreshConn s2 w2")
  obtain t4 w4 where t4: "time_now w3 = (t4, w4)" by (cases "time_now w3")
  note i2 = closeAllStmts_inv [OF inv c]
  have i3: "worker_inv cfg s3 w3" using RefreshConn_inv [OF _ _ _ f] i2 by blast
  have i4: "worker_inv cfg (s3\<lparr>ts_lastConnRefresh := x\<rparr>) w4" for x
    by (rule inv_same [OF i3 time_now_same [OF t4]]) simp_all
  have d: "ts_decks s3 = ts_decks s" "ts_index s3 = ts_index s"
    using c f by (auto simp: closeAllStmts_def RefreshConn_def split: prod.splits sum.splits)
  show ?thesis
  proof (cases res)
    case (Returned oe)
    show ?thesis
    proof (cases oe)
      case None
      then show ?thesis using r inv Returned by (simp add: after_txn_def)
    next
      case (Some e)
      then show ?thesis
        using r inv Returned i3 i4 d c f t4
        by (cases "IsTransactionConflict e"; cases "alive \<and> IsConnectionError (Some e)"; cases r3)
          (auto simp: after_txn_def)
    qed
  qed (use r inv in \<open>simp add: after_txn_def\<close>)
qed

lemma Run_inv:
  assumes inv: "worker_inv cfg s w" and ix: "ts_index s \<noteq> int (length (ts_decks s))"
    and r: "Run P Z G cfg txns alive s w = Some (r, s', w')"
  shows "worker_inv cfg s' w' \<and> ts_decks s' = ts_decks s \<and> ts_index s' = ts_index s"
proof -
  obtain r1 s1 w1 where a: "auto_refresh cfg s w = (r1, s1, w1)" by (cases "auto_refresh cfg s w")
  note A = auto_refresh_inv [OF inv a]
  show ?thesis
  proof (cases r1)
    case (Some e)
    then show ?thesis using r a A by (simp add: Run_def)
  next
    case r1: None
    obtain r2 w2 where i: "(if cf_StoredProcs cfg then installProcsOnce (ts_conn s1) w1 else (None, w1)) = (r2, w2)"
      by fastforce
    have "same_run w1 w2"
      using i installProcsOnce_same [of "ts_conn s1" w1 r2 w2] by (auto simp: same_run_refl split: if_splits)
    then have I: "worker_inv cfg s1 w2" using A inv_same by blast
    show ?thesis
    proof (cases r2)
      case (Some e)
      then show ?thesis using r a r1 i I A by (simp add: Run_def)
    next
      case r2: None
      obtain r3 s3 w3 where m: "make_ready cfg s1 w2 = Some (r3, s3, w3)"
        using r a r1 i r2 by (auto simp: Run_def Option.bind_eq_Some_conv)
      note M = make_ready_inv [OF I m]
      show ?thesis
      proof (cases r3)
        case (Some e)
        then show ?thesis using r a r1 i r2 m M A by (auto simp: Run_def)
      next
        case r3: None
        have sh: "maybe_shuffle s3 = Some s3" using ix M A by (simp add: maybe_shuffle_def)
        show ?thesis
        proof (cases "pick_txn txns s3")
          case None
          then show ?thesis using r a r1 i r2 m M A r3 sh by (auto simp: Run_def)
        next
          case (Some p)
          obtain tx s4 where p: "p = (tx, s4)" by (cases p)
          obtain R where s4: "s4 = s3\<lparr>ts_R := R\<rparr>"
            using Some p by (auto simp: pick_txn_def Option.bind_eq_Some_conv)
          obtain r5 s5 w5 where x: "run_txn P Z G cfg (tx_action tx) s4 w3 = Some (r5, s5, w5)"
            and af: "after_txn alive r5 s5 w5 = (r, s', w')"
            using r a r1 i r2 m r3 sh Some p by (auto simp: Run_def Option.bind_eq_Some_conv)
          have "worker_inv cfg s4 w3" "ts_stmtsReady s4" "ts_decks s4 = ts_decks s3" "ts_index s4 = ts_index s3"
            using M r3 s4 inv_same [of cfg s3 w3 w3 s4] by (auto simp: same_run_refl)
          then show ?thesis using run_txn_inv [OF _ _ x] after_txn_inv [OF _ af] M A by auto
        qed
      qed
    qed
  qed
qed

subsection \<open>A worker\<close>

text \<open>
  The states of a worker and its world.  Between its runs the others may change the tables, the
  replies that are to come, the clock and the installed procedures.
\<close>

inductive worker ::
  "(procArgs \<Rightarrow> unit stmt) \<Rightarrow> World \<Rightarrow> RandVars \<Rightarrow> Config \<Rightarrow> txn list \<Rightarrow> tpccState \<Rightarrow> runWorld \<Rightarrow> bool"
  for P Z G cfg txns where
  worker_start: "wd_log w = [] \<Longrightarrow> InitThread txns R w = Some (s, w') \<Longrightarrow> worker P Z G cfg txns s w'"
| worker_others: "worker P Z G cfg txns s w \<Longrightarrow>
    worker P Z G cfg txns s (w\<lparr>wd_session := x, wd_times := t, wd_procs := p\<rparr>)"
| worker_run: "worker P Z G cfg txns s w \<Longrightarrow> Run P Z G cfg txns alive s w = Some (r, s', w') \<Longrightarrow>
    worker P Z G cfg txns s' w'"

lemma InitThread_inv:
  assumes "wd_log w = []" "InitThread txns R w = Some (s, w')"
  shows "worker_inv cfg s w' \<and> ts_decks s = deck_of txns \<and> ts_index s = int (length (ts_decks s)) - 1"
proof -
  obtain d w1 where d: "DB_Conn w = (d, w1)" by (cases "DB_Conn w")
  obtain t w2 where t: "time_now w1 = (t, w2)" by (cases "time_now w1")
  obtain c where c: "d = Inr c" and s: "s = \<lparr>ts_conn = c, ts_R = R, ts_index = int (length (deck_of txns)) - 1,
      ts_decks = deck_of txns, ts_stmts = (\<lambda>g. []), ts_stmtsReady = False, ts_lastConnRefresh = t\<rparr>" "w' = w2"
    using assms(2) d t by (auto simp: InitThread_def Let_def split: sum.splits)
  have l: "wd_log w' = [ConnOpened c]" "c < wd_conns w'"
    using DB_Conn_ok [OF d] time_now_same [OF t] c s(2) assms(1) by (auto simp: same_run_def)
  then have "safe_log cfg (wd_log w')"
    using safe_log_quiet [of "[ConnOpened c]" cfg "[]"] by (simp add: quiet_def safe_log_Nil)
  then show ?thesis using l s unfolding worker_inv_def log_ok_def owned_def by simp
qed

lemma worker_holds:
  "worker P Z G cfg txns s w \<Longrightarrow>
   worker_inv cfg s w \<and> ts_decks s = deck_of txns \<and> ts_index s = int (length (ts_decks s)) - 1"
proof (induction rule: worker.induct)
  case (worker_start w R s w')
  then show ?case using InitThread_inv by blast
next
  case (worker_others s w p t x)
  have "same_run w (w\<lparr>wd_session := x, wd_times := t, wd_procs := p\<rparr>)" by (simp add: same_run_def)
  then show ?case using worker_others.IH inv_same by blast
next
  case (worker_run s w alive r s' w')
  then show ?case using Run_inv [of cfg s w P Z G txns alive r s' w'] by auto
qed

text \<open>
  C6. No transaction without its statements.  Whatever fails in between, and however often the
  worker replaces its connection, whenever it starts a transaction the connection is open and every
  statement of the transaction has been prepared on that very connection, with the text rewritten
  for the driver, and has not been closed.
\<close>

theorem worker_prepared:
  assumes "worker P Z G cfg txns s w" "wd_log w = pre @ Executes a c m # post"
  shows "ConnOpened c \<in> set pre \<and> ConnClosed c \<notin> set pre \<and>
    (\<forall>q \<in> set (group_keys (mode_stmts cfg a)). \<exists>h text. map_of m q = Some h \<and>
       convertToPQ q (cf_Driver cfg) = Some text \<and> StmtPrepared h text c \<in> set pre \<and> StmtClosed h \<notin> set pre)"
proof -
  have "safe_log cfg (wd_log w)" using worker_holds [OF assms(1)] by (simp add: worker_inv_def log_ok_def)
  then have "safe_event cfg pre (Executes a c m)" using assms(2) unfolding safe_log_def by blast
  then show ?thesis by (simp add: ready_on_def)
qed

text \<open>
  C7. No connection is leaked.  At any time the only connection a worker may have open is its
  current one, and when it has cleaned up all it ever opened are closed.
\<close>

theorem worker_no_leak:
  assumes "worker P Z G cfg txns s w"
  shows "{c. ConnOpened c \<in> set (wd_log w) \<and> ConnClosed c \<notin> set (wd_log w)} \<subseteq> {ts_conn s} \<and>
    (\<forall>c. ConnOpened c \<in> set (wd_log (snd (CleanupThread s w))) \<longrightarrow>
       ConnClosed c \<in> set (wd_log (snd (CleanupThread s w))))"
proof -
  have inv: "worker_inv cfg s w" using worker_holds [OF assms] by blast
  obtain s2 w2 where c: "closeAllStmts s w = (s2, w2)" by (cases "closeAllStmts s w")
  note i2 = closeAllStmts_inv [OF inv c]
  have o2: "owned s2 w2" using i2 by (simp add: worker_inv_def)
  have "CleanupThread s w = (s2, Conn_Close (ts_conn s2) w2)" by (simp add: CleanupThread_def c)
  then have "ConnClosed c \<in> set (wd_log (snd (CleanupThread s w)))"
    if "ConnOpened c \<in> set (wd_log (snd (CleanupThread s w)))" for c
    using that o2 unfolding owned_def Conn_Close_def is_closed_def by (auto split: if_splits)
  then show ?thesis using inv unfolding worker_inv_def owned_def by blast
qed

text \<open>
  C9. A worker that is stuck.  When the connection fails during a transaction and no other can be
  had just then, and connections are not refreshed by time, the worker keeps its closed connection:
  every later run fails before it starts a transaction or asks for a connection, whatever the
  database would reply by then, and leaves the worker as it is.
\<close>

theorem failed_refresh_sticks:
  assumes "after_txn True (Returned (Some e)) s w = (Some e', s', w')"
    "IsConnectionError (Some e)" "\<not> IsTransactionConflict e"
    "cf_ConnRefreshInterval cfg \<le> 0" "\<not> cf_StoredProcs cfg" "wd_log w2 = wd_log w'"
  shows "Run P Z G cfg txns alive s' w2 = Some (Some panic_in_Run, s', w2)"
proof -
  obtain sc wc where c: "closeAllStmts s w = (sc, wc)" by (cases "closeAllStmts s w")
  obtain re sr wr where f: "RefreshConn sc wc = (re, sr, wr)" by (cases "RefreshConn sc wc")
  have a: "re \<noteq> None \<and> s' = sr \<and> w' = wr"
    using assms(1-3) c f by (cases re) (auto simp: after_txn_def split: prod.splits)
  obtain d wd where d: "DB_Conn (Conn_Close (ts_conn sc) wc) = (d, wd)"
    by (cases "DB_Conn (Conn_Close (ts_conn sc) wc)")
  obtain e1 where e1: "d = Inl e1" using a f d by (cases d) (auto simp: RefreshConn_def)
  have s: "sr = sc" "wr = wd" using f d e1 by (simp_all add: RefreshConn_def)
  have "wd_log wd = wd_log (Conn_Close (ts_conn sc) wc)" using DB_Conn_ok [OF d] e1 by simp
  then have cl: "is_closed wr (ts_conn sc)"
    using Conn_Close_ok [of "ts_conn sc" wc] s(2) by (simp add: is_closed_def)
  have n: "\<not> ts_stmtsReady sc" using c by (auto simp: closeAllStmts_def)
  have closed: "is_closed w2 (ts_conn s')" using cl s a assms(6) by (simp add: is_closed_def)
  have "prepareStmt d (ts_conn s') q w2 = Some (Inl [ConnDone], w2)" for d q
  proof -
    have "convertToPQ q d = Some (if d = ''postgres'' then numbered 1 q else q)"
      using convertToPQ_loop_numbered [of 1 "[]" q] by (simp add: convertToPQ_def)
    then show ?thesis using closed by (simp add: prepareStmt_def conn_call_def)
  qed
  then have "make_ready cfg s' w2 = Some (Some panic_in_Run, s', w2)"
    using n s a assms(5) by (simp add: make_ready_def prepareTxnStmts_def prepare_literal_def)
  then show ?thesis using assms(4,5) by (simp add: Run_def auto_refresh_def)
qed

subsection \<open>The mix of transactions\<close>

lemma newTxns_deck:
  "deck_of (newTxns ws) = replicate (nat (ws ! 0)) 0 @ replicate (nat (ws ! 1)) 1 @ replicate (nat (ws ! 2)) 2 @
     replicate (nat (ws ! 3)) 3 @ replicate (nat (ws ! 4)) 4"
  by (simp add: deck_of_def newTxns_def)

lemma newTxns_action: "i < 5 \<Longrightarrow> j < 5 \<Longrightarrow> newTxns ws ! i = newTxns ws ! j \<longleftrightarrow> i = j"
  by (auto simp: newTxns_def less_Suc_eq numeral_eq_Suc)

lemma five: "length xs = 5 \<Longrightarrow> \<exists>a b c d e. xs = [a, b, c, d, e]"
  by (auto simp: numeral_eq_Suc length_Suc_conv)

lemma NewWorkloader_weights:
  assumes "NewWorkloader noDb cfg = Some (cfg', txns)"
  shows "txns = newTxns (cf_Weight cfg') \<and> length (cf_Weight cfg') = 5 \<and> sum_list (cf_Weight cfg') = 100 \<and>
    (cf_Weight cfg \<noteq> [] \<longrightarrow> cf_Weight cfg' = cf_Weight cfg) \<and>
    (cf_Weight cfg = [] \<longrightarrow> cf_Weight cfg' = [45, 43, 4, 4, 4])"
proof -
  obtain ws where "checkWeights (cf_Weight cfg) = Some ws" "cfg' = cfg\<lparr>cf_Weight := ws\<rparr>" "txns = newTxns ws"
    using assms by (auto simp: NewWorkloader_def Option.bind_eq_Some_conv split: if_splits)
  then show ?thesis by (auto simp: checkWeights_def split: if_splits)
qed

text \<open>
  C8. The mix.  With weights that are not negative, in any state a worker can reach exactly as
  many of the hundred values the source can give lead to a transaction as its weight says.
\<close>

theorem mix_follows_weights:
  assumes "NewWorkloader noDb cfg = Some (cfg', txns)" "\<forall>x \<in> set (cf_Weight cfg). 0 \<le> x"
    "worker P Z G cfg' txns s w" "i < 5"
  shows "int (card {v. v < 100 \<and> (\<exists>s'. pick_txn txns (s\<lparr>ts_R := v ## R\<rparr>) = Some (txns ! i, s'))}) =
    cf_Weight cfg' ! i"
proof -
  note W = NewWorkloader_weights [OF assms(1)]
  let ?ws = "cf_Weight cfg'" and ?deck = "ts_decks s"
  obtain a b c d e where ws: "?ws = [a, b, c, d, e]" using W five by blast
  have pos: "\<forall>x \<in> set ?ws. 0 \<le> x" using W assms(2) by (cases "cf_Weight cfg = []") auto
  have sum: "a + b + c + d + e = 100" "0 \<le> a" "0 \<le> b" "0 \<le> c" "0 \<le> d" "0 \<le> e"
    using W ws pos by auto
  have deck: "?deck = replicate (nat a) 0 @ replicate (nat b) 1 @ replicate (nat c) 2 @ replicate (nat d) 3 @
      replicate (nat e) 4"
    using worker_holds [OF assms(3)] W ws by (simp add: newTxns_deck)
  have len: "length ?deck = 100" using sum by (simp add: deck)
  have five: "length txns = 5" using W by (simp add: newTxns_def)
  have range: "0 \<le> j \<and> j < 5" if "j \<in> set ?deck" for j using that by (auto simp: deck split: if_splits)
  have "(\<exists>s'. pick_txn txns (s\<lparr>ts_R := v ## R\<rparr>) = Some (txns ! i, s')) \<longleftrightarrow> ?deck ! v = int i" if v: "v < 100" for v
  proof -
    have r: "0 \<le> ?deck ! v" "?deck ! v < 5" using range [of "?deck ! v"] v len by auto
    have "pick_txn txns (s\<lparr>ts_R := v ## R\<rparr>) = Some (txns ! nat (?deck ! v), s\<lparr>ts_R := R\<rparr>)"
      using v len r five by (simp add: pick_txn_def Intn_def go_index_def)
    moreover have "txns ! nat (?deck ! v) = txns ! i \<longleftrightarrow> nat (?deck ! v) = i"
      using newTxns_action [of "nat (?deck ! v)" i ?ws] r assms(4) W by auto
    ultimately show ?thesis using r by auto
  qed
  then have "{v. v < 100 \<and> (\<exists>s'. pick_txn txns (s\<lparr>ts_R := v ## R\<rparr>) = Some (txns ! i, s'))} =
      {v. v < length ?deck \<and> ?deck ! v = int i}"
    using len by auto
  moreover have "card {v. v < length ?deck \<and> ?deck ! v = int i} = length (filter (\<lambda>j. j = int i) ?deck)"
    by (simp add: length_filter_conv_card)
  moreover have "int (length (filter (\<lambda>j. j = int i) ?deck)) = ?ws ! i"
  proof -
    have "i = 0 \<or> i = 1 \<or> i = 2 \<or> i = 3 \<or> i = 4" using assms(4) by auto
    then show ?thesis using sum ws by (auto simp: deck)
  qed
  ultimately show ?thesis by simp
qed

subsection \<open>A run\<close>

definition sample_cfg :: Config where
  "sample_cfg = \<lparr>cf_Driver = ''postgres'', cf_Parts = 1, cf_PartitionType = 1, cf_Warehouses = 1,
     cf_Weight = [0, 0, 0, 0, 100], cf_OutputType = [], cf_StoredProcs = True, cf_ConnRefreshInterval = 0\<rparr>"

definition sample_txns :: "txn list" where
  "sample_txns = newTxns [0, 0, 0, 0, 100]"

definition sample_start :: runWorld where
  "sample_start = \<lparr>wd_session = (sample_db, sconst Done), wd_times = sconst 0, wd_conns = 0, wd_stmts = 0,
     wd_procs = None, wd_log = []\<rparr>"

definition sample_handles :: "(string \<times> nat) list" where
  "sample_handles = zip (group_literal ProcStmts) [0, 1, 2, 3, 4]"

definition sample_state :: "bool \<Rightarrow> tpccState" where
  "sample_state b = \<lparr>ts_conn = 0, ts_R = sconst 60, ts_index = 99, ts_decks = replicate 100 4,
     ts_stmts = (\<lambda>g. if b \<and> g = ProcStmts then sample_handles else []), ts_stmtsReady = b, ts_lastConnRefresh = 0\<rparr>"

lemma sample_NewWorkloader: "NewWorkloader False sample_cfg = Some (sample_cfg, sample_txns)"
  by (simp add: NewWorkloader_def sample_cfg_def sample_txns_def checkWeights_def PartitionTypeHash_def
      PartitionTypeListAsRange_def)

lemma sample_driver_call:
  "driver_call (sample_start\<lparr>wd_conns := n, wd_stmts := h, wd_procs := p, wd_log := l\<rparr>) =
   (None, sample_start\<lparr>wd_conns := n, wd_stmts := h, wd_procs := p, wd_log := l\<rparr>)"
  by (simp add: driver_call_def call_def no_change_def sample_start_def)

definition sample_prepared :: "runEvent list" where
  "sample_prepared = ConnOpened 0 # map (\<lambda>(q, h). StmtPrepared h q 0) sample_handles"

lemma sample_conn_call:
  "ConnClosed c \<notin> set l \<Longrightarrow>
   conn_call c (sample_start\<lparr>wd_conns := n, wd_stmts := h, wd_procs := p, wd_log := l\<rparr>) =
   (None, sample_start\<lparr>wd_conns := n, wd_stmts := h, wd_procs := p, wd_log := l\<rparr>)"
  by (simp add: conn_call_def is_closed_def sample_driver_call)

lemma convertToPQ_no_marks: "CHR ''?'' \<notin> set q \<Longrightarrow> convertToPQ q d = Some q"
  by (simp add: convertToPQ_def convertToPQ_loop.simps replace_first_none)

lemma sample_prepareStmt:
  "ConnClosed c \<notin> set l \<Longrightarrow> CHR ''?'' \<notin> set q \<Longrightarrow>
   prepareStmt d c q (sample_start\<lparr>wd_conns := n, wd_stmts := h, wd_procs := p, wd_log := l\<rparr>) =
   Some (Inr h, sample_start\<lparr>wd_conns := n, wd_stmts := h + 1, wd_procs := p, wd_log := l @ [StmtPrepared h q c]\<rparr>)"
  by (simp add: prepareStmt_def convertToPQ_no_marks sample_conn_call log_event_def)

lemma sample_installs:
  "installStoredProcsPG k 0 (sample_start\<lparr>wd_conns := n, wd_stmts := h, wd_procs := p, wd_log := [ConnOpened 0]\<rparr>) =
   (None, sample_start\<lparr>wd_conns := n, wd_stmts := h, wd_procs := p, wd_log := [ConnOpened 0]\<rparr>)"
  by (induction k) (simp_all add: sample_conn_call)

lemma sample_start_eq:
  "InitThread sample_txns (sconst 60) sample_start =
   Some (sample_state False, sample_start\<lparr>wd_conns := 1, wd_stmts := 0, wd_procs := None, wd_log := [ConnOpened 0]\<rparr>)"
  using sample_driver_call [where n = 0 and h = 0 and p = None and l = "[]"]
  by (simp add: InitThread_def DB_Conn_def time_now_def log_event_def sample_start_def sample_state_def
      sample_txns_def newTxns_deck)

lemmas sample_calls = tpccCallNewOrder_def tpccCallPayment_def tpccCallOrderStatus_def
  tpccCallDelivery_def tpccCallStockLevel_def

lemma sample_prepare_all:
  "prepare_all d 0 (group_literal ProcStmts) []
     (sample_start\<lparr>wd_conns := 1, wd_stmts := 0, wd_procs := Some None, wd_log := [ConnOpened 0]\<rparr>) =
   Some ((None, sample_handles),
     sample_start\<lparr>wd_conns := 1, wd_stmts := 5, wd_procs := Some None, wd_log := sample_prepared\<rparr>)"
  by (simp add: sample_prepareStmt sample_calls sample_handles_def sample_prepared_def)

lemma sample_make_ready:
  "make_ready sample_cfg (sample_state False)
     (sample_start\<lparr>wd_conns := 1, wd_stmts := 0, wd_procs := Some None, wd_log := [ConnOpened 0]\<rparr>) =
   Some (None, sample_state True,
     sample_start\<lparr>wd_conns := 1, wd_stmts := 5, wd_procs := Some None, wd_log := sample_prepared\<rparr>)"
  by (simp add: make_ready_def sample_cfg_def prepareProcStmts_def prepare_literal_def sample_prepare_all
      sample_state_def set_stmts_def fun_eq_iff del: group_literal.simps One_nat_def)

lemma sample_pick: "pick_txn sample_txns (sample_state True) = Some (sample_txns ! 4, sample_state True)"
  by (simp add: pick_txn_def Intn_def go_index_def sample_state_def sample_txns_def newTxns_def nth_replicate)

lemma sample_run_txn:
  "run_txn (\<lambda>args. no_change) sample_world sample_vars sample_cfg StockLevel (sample_state True)
     (sample_start\<lparr>wd_conns := 1, wd_stmts := 5, wd_procs := Some None, wd_log := sample_prepared\<rparr>) =
   Some (Returned None, sample_state True,
     sample_start\<lparr>wd_conns := 1, wd_stmts := 5, wd_procs := Some None,
       wd_log := sample_prepared @ [Executes StockLevel 0 sample_handles]\<rparr>)"
proof -
  have "\<not> is_closed (sample_start\<lparr>wd_conns := 1, wd_stmts := 5, wd_procs := Some None,
      wd_log := sample_prepared @ [Executes StockLevel 0 sample_handles]\<rparr>) 0"
    by (auto simp: is_closed_def sample_prepared_def)
  then show ?thesis
    by (simp add: run_txn_def Let_def log_event_def mode_stmts_def sample_cfg_def sample_state_def
        run_proc_def procInput_def stockLevelProc_input_def randInt_def Intn_def call_def no_change_def
        sample_start_def split_beta)
qed

lemma sample_Run:
  "Run (\<lambda>args. no_change) sample_world sample_vars sample_cfg sample_txns True (sample_state False)
     (sample_start\<lparr>wd_conns := 1, wd_stmts := 0, wd_procs := None, wd_log := [ConnOpened 0]\<rparr>) =
   Some (None, sample_state True,
     sample_start\<lparr>wd_conns := 1, wd_stmts := 5, wd_procs := Some None,
       wd_log := sample_prepared @ [Executes StockLevel 0 sample_handles]\<rparr>)"
proof -
  have i: "installProcsOnce (ts_conn (sample_state False))
      (sample_start\<lparr>wd_conns := 1, wd_stmts := 0, wd_procs := None, wd_log := [ConnOpened 0]\<rparr>) =
    (None, sample_start\<lparr>wd_conns := 1, wd_stmts := 0, wd_procs := Some None, wd_log := [ConnOpened 0]\<rparr>)"
    by (simp add: installProcsOnce_def sample_installs sample_state_def)
  have "cf_StoredProcs sample_cfg" "cf_ConnRefreshInterval sample_cfg = 0" by (simp_all add: sample_cfg_def)
  moreover have "maybe_shuffle (sample_state True) = Some (sample_state True)"
    by (simp add: maybe_shuffle_def sample_state_def)
  moreover have "tx_action (sample_txns ! 4) = StockLevel" by (simp add: sample_txns_def newTxns_def)
  ultimately show ?thesis
    by (simp add: Run_def auto_refresh_def i sample_make_ready sample_pick sample_run_txn after_txn_def del: One_nat_def)
qed

lemma sample_worker:
  "worker (\<lambda>args. no_change) sample_world sample_vars sample_cfg sample_txns (sample_state True)
     (sample_start\<lparr>wd_conns := 1, wd_stmts := 5, wd_procs := Some None,
       wd_log := sample_prepared @ [Executes StockLevel 0 sample_handles]\<rparr>)"
  by (rule worker_run [OF worker_start [OF _ sample_start_eq] sample_Run]) (simp add: sample_start_def)

lemma worker_prepared_witness:
  "\<exists>h. map_of sample_handles tpccCallStockLevel = Some h \<and>
     StmtPrepared h tpccCallStockLevel 0 \<in> set sample_prepared"
proof -
  have "convertToPQ tpccCallStockLevel ''postgres'' = Some tpccCallStockLevel"
    by (simp add: sample_calls convertToPQ_no_marks)
  then show ?thesis
    using worker_prepared [OF sample_worker, of sample_prepared StockLevel 0 sample_handles "[]"]
    by (auto simp: mode_stmts_def sample_cfg_def group_keys_def)
qed

lemma worker_no_leak_witness:
  "{c. ConnOpened c \<in> set (sample_prepared @ [Executes StockLevel 0 sample_handles]) \<and>
     ConnClosed c \<notin> set (sample_prepared @ [Executes StockLevel 0 sample_handles])} \<subseteq> {0}"
  using worker_no_leak [OF sample_worker] by (simp add: sample_state_def)

lemma mix_follows_weights_witness:
  "int (card {v. v < 100 \<and> (\<exists>s'. pick_txn sample_txns (sample_state True\<lparr>ts_R := v ## sconst 60\<rparr>) =
     Some (sample_txns ! 4, s'))}) = 100"
  using mix_follows_weights [OF sample_NewWorkloader _ sample_worker, of 4 "sconst 60"]
  by (simp add: sample_cfg_def)

lemma failed_refresh_sticks_witness:
  "\<exists>s w. Run (\<lambda>args. no_change) sample_world sample_vars (sample_cfg\<lparr>cf_StoredProcs := False\<rparr>) sample_txns True s w =
     Some (Some panic_in_Run, s, w)"
proof -
  let ?s = "(sample_state False)\<lparr>ts_stmtsReady := True\<rparr>"
  let ?w = "sample_start\<lparr>wd_session := (sample_db, Refused [BadConn] ## sconst Done), wd_conns := 1, wd_log := [ConnOpened 0]\<rparr>"
  let ?x = "after_txn True (Returned (Some [BadConn])) ?s ?w"
  have x: "\<exists>e'. fst ?x = Some e'"
    by (simp add: after_txn_def IsTransactionConflict_def SQLState_def IsConnectionError_def closeAllStmts_def
        closeStmts_def sample_state_def RefreshConn_def Conn_Close_def is_closed_def DB_Conn_def driver_call_def
        call_def no_change_def sample_start_def log_event_def)
  obtain e' s' w' where r: "?x = (Some e', s', w')" using x by (cases ?x) auto
  have "Run (\<lambda>args. no_change) sample_world sample_vars (sample_cfg\<lparr>cf_StoredProcs := False\<rparr>) sample_txns True s' w' =
      Some (Some panic_in_Run, s', w')"
    by (rule failed_refresh_sticks [OF r _ _ _ _ refl])
      (simp_all add: IsConnectionError_def IsTransactionConflict_def SQLState_def sample_cfg_def)
  then show ?thesis by blast
qed

end
