(* ===== verification/ConnAdmit.thy ===== *)
theory ConnAdmit
  imports SqlErr "HOL-Library.Stream"
begin

text \<open>
  The admission of connections, \<open>pkg/connadmit/connadmit.go\<close>.  The driver is a parameter: what
  opening the next connection gives, and for a connection what the predicate returns on it.  The
  log records every connection opened and closed, by its number.
\<close>

subsection \<open>The driver\<close>

datatype driverValue = VNil | VBool bool | VBytes string | VOther string

text \<open>What \<open>Rows.Next\<close> gives: a row, the end, or an error.\<close>

datatype driverNext = Row "driverValue list" | EOF | NextError goerr

record driverRows =
  dr_columns :: nat
  dr_next :: "driverNext list"
  dr_more :: bool \<comment> \<open>\<open>HasNextResultSet\<close>\<close>

record driverConn =
  dc_queryer :: bool
  dc_query :: "goerr + driverRows"

type_synonym driver = "(goerr + driverConn) stream"

fun next_row :: "driverNext list \<Rightarrow> driverNext \<times> driverNext list" where
  "next_row [] = (EOF, [])"
| "next_row (n # ns) = (n, ns)"

subsection \<open>The predicate\<close>

definition bad_shape :: "string \<Rightarrow> bool \<times> string \<times> goerr option" where
  "bad_shape msg = (False, [], Some [Plain msg])"

fun label_of :: "driverValue \<Rightarrow> string" where
  "label_of VNil = []"
| "label_of (VBytes s) = s"
| "label_of (VOther s) = s"
| "label_of (VBool b) = (if b then ''true'' else ''false'')"

text \<open>The driver fills a slice of \<open>n\<close> values that are \<open>nil\<close> at first.\<close>

definition dest_of :: "nat \<Rightarrow> driverValue list \<Rightarrow> driverValue list" where
  "dest_of n r = take n (r @ replicate n VNil)"

definition admit_end :: "bool \<Rightarrow> bool \<Rightarrow> string \<Rightarrow> driverNext list \<Rightarrow> bool \<times> string \<times> goerr option" where
  "admit_end hasMore keep label ns =
     (case fst (next_row ns) of
        Row r \<Rightarrow> bad_shape ''returned more than one row, want exactly one''
      | NextError e \<Rightarrow> (False, [], Some e)
      | EOF \<Rightarrow> if hasMore then bad_shape ''returned more than one result set, want exactly one''
               else (keep, label, None))"

definition admit :: "driverConn \<Rightarrow> bool \<times> string \<times> goerr option" where
  "admit conn =
     (if \<not> dc_queryer conn then bad_shape ''driver connection does not implement driver.QueryerContext''
      else case dc_query conn of
        Inl e \<Rightarrow> (False, [], Some e)
      | Inr rows \<Rightarrow>
          (let n = dr_columns rows in
           if n < 1 \<or> n > 2 then bad_shape ''returned the wrong number of columns''
           else (case next_row (dr_next rows) of
               (EOF, ns) \<Rightarrow> bad_shape ''returned no rows, want exactly one''
             | (NextError e, ns) \<Rightarrow> (False, [], Some e)
             | (Row r, ns) \<Rightarrow>
                 (let dest = dest_of n r in
                  case dest ! 0 of
                    VBool keep \<Rightarrow>
                      admit_end (dr_more rows) keep (if n = 2 then label_of (dest ! 1) else []) ns
                  | v \<Rightarrow> bad_shape ''first column is not boolean''))))"

subsection \<open>Connecting\<close>

record Connection =
  Label :: string
  Rejections :: int

record Stats =
  st_Accepted :: int
  st_Rejections :: int
  st_Connections :: "Connection list"

definition record_outcome :: "int \<Rightarrow> bool \<Rightarrow> string \<Rightarrow> Stats \<Rightarrow> Stats" where
  "record_outcome rejections accepted label st =
     (let st = st\<lparr>st_Rejections := st_Rejections st + rejections\<rparr> in
      if accepted then st\<lparr>st_Accepted := st_Accepted st + 1,
        st_Connections := st_Connections st @ [\<lparr>Label = label, Rejections = rejections\<rparr>]\<rparr>
      else st)"

datatype connEvent = Open nat | Close nat

text \<open>The state: the record, the driver, the number of connections opened so far and the log.\<close>

record admitState =
  as_stats :: Stats
  as_driver :: driver
  as_opened :: nat
  as_log :: "connEvent list"

definition admit_failed :: "string \<Rightarrow> goerr \<Rightarrow> goerr" where
  "admit_failed sql e = Plain (''--conn-admit-sql '' @ sql) # e"

text \<open>The loop, with the attempts left, the rejections so far and the last label.\<close>

fun Connect_loop ::
  "nat \<Rightarrow> string \<Rightarrow> int \<Rightarrow> int \<Rightarrow> string \<Rightarrow> admitState \<Rightarrow> (goerr + nat) \<times> admitState" where
  "Connect_loop 0 sql maxRejections rejections label s =
     (Inl (admit_failed sql [Plain (''rejected all attempts, last label '' @ label)]),
      s\<lparr>as_stats := record_outcome maxRejections False [] (as_stats s)\<rparr>)"
| "Connect_loop (Suc k) sql maxRejections rejections label s =
     (case shd (as_driver s) of
        Inl e \<Rightarrow>
          (Inl (if 0 < rejections then admit_failed sql e else e),
           s\<lparr>as_driver := stl (as_driver s), as_stats := record_outcome rejections False [] (as_stats s)\<rparr>)
      | Inr conn \<Rightarrow>
          (let c = as_opened s;
               s = s\<lparr>as_driver := stl (as_driver s), as_opened := c + 1, as_log := as_log s @ [Open c]\<rparr>;
               (keep, label, err) = admit conn
           in if err = None \<and> keep
              then (Inr c, s\<lparr>as_stats := record_outcome rejections True label (as_stats s)\<rparr>)
              else
                let s = s\<lparr>as_log := as_log s @ [Close c]\<rparr> in
                case err of
                  Some e \<Rightarrow> (Inl (admit_failed sql e),
                    s\<lparr>as_stats := record_outcome rejections False [] (as_stats s)\<rparr>)
                | None \<Rightarrow> Connect_loop k sql maxRejections (rejections + 1) label s))"

definition Connect :: "string \<Rightarrow> int \<Rightarrow> admitState \<Rightarrow> (goerr + nat) \<times> admitState" where
  "Connect sql maxRejections s = Connect_loop (nat maxRejections) sql maxRejections 0 [] s"

subsection \<open>What a Connect does\<close>

text \<open>The connections that are open after a log.\<close>

fun open_after :: "connEvent list \<Rightarrow> nat set \<Rightarrow> nat set" where
  "open_after [] X = X"
| "open_after (Open c # es) X = open_after es (insert c X)"
| "open_after (Close c # es) X = open_after es (X - {c})"

lemma open_after_append: "open_after (xs @ ys) X = open_after ys (open_after xs X)"
  by (induction xs X rule: open_after.induct) auto

text \<open>Rejected attempts: each connection is closed before the next is opened.\<close>

definition attempts :: "nat \<Rightarrow> nat \<Rightarrow> connEvent list" where
  "attempts c n = concat (map (\<lambda>i. [Open i, Close i]) [c..<c + n])"

lemma attempts_Suc: "attempts c (Suc n) = [Open c, Close c] @ attempts (Suc c) n"
  unfolding attempts_def by (subst upt_conv_Cons) simp_all

lemma open_after_attempts: "X \<inter> {c..} = {} \<Longrightarrow> open_after (attempts c n) X = X"
proof (induction n arbitrary: c)
  case 0
  then show ?case by (simp add: attempts_def)
next
  case (Suc n)
  then have "X \<inter> {Suc c..} = {}" by auto
  moreover have "insert c X - {c} = X" using Suc.prems by auto
  ultimately show ?case using Suc.IH by (simp add: attempts_Suc)
qed

text \<open>The rejections of a Connect, the verdict on the connection that ends it, and its log.\<close>

lemma Connect_loop_cases:
  "Connect_loop k sql M n label s = (r, s') \<Longrightarrow>
   \<exists>j. j \<le> k \<and>
     (\<forall>i < j. \<exists>conn l. as_driver s !! i = Inr conn \<and> admit conn = (False, l, None)) \<and>
     (case r of
        Inr c \<Rightarrow> j < k \<and> c = as_opened s + j \<and>
          (\<exists>conn l. as_driver s !! j = Inr conn \<and> admit conn = (True, l, None) \<and>
             as_stats s' = record_outcome (n + int j) True l (as_stats s)) \<and>
          as_log s' = as_log s @ attempts (as_opened s) j @ [Open c]
      | Inl e \<Rightarrow> \<exists>m. j \<le> m \<and> m \<le> j + 1 \<and> m \<le> k \<and> as_log s' = as_log s @ attempts (as_opened s) m)"
proof (induction k arbitrary: n label s)
  case 0
  then show ?case by (auto simp: attempts_def)
next
  case (Suc k)
  show ?case
  proof (cases "shd (as_driver s)")
    case (Inl e)
    then show ?thesis using Suc.prems by (auto simp: attempts_def intro!: exI [of _ 0])
  next
    case (Inr conn)
    obtain keep l err where a: "admit conn = (keep, l, err)" by (metis prod.exhaust)
    consider "err = None \<and> keep" | e where "err = Some e" | "err = None \<and> \<not> keep"
      by (cases err; cases keep) auto
    then show ?thesis
    proof cases
      case 1
      then show ?thesis using Suc.prems Inr a
        by (auto simp: Let_def attempts_def intro!: exI [of _ 0])
    next
      case 2
      then show ?thesis using Suc.prems Inr a
        by (intro exI [of _ 0]) (auto simp: Let_def attempts_def intro!: exI [of _ "Suc 0"])
    next
      case 3
      let ?s = "s\<lparr>as_driver := stl (as_driver s), as_opened := as_opened s + 1,
        as_log := as_log s @ [Open (as_opened s), Close (as_opened s)]\<rparr>"
      have "Connect_loop k sql M (n + 1) l ?s = (r, s')"
        using Suc.prems Inr a 3 by (simp add: Let_def)
      from Suc.IH [OF this] obtain j where j: "j \<le> k"
        "\<forall>i < j. \<exists>conn l. stl (as_driver s) !! i = Inr conn \<and> admit conn = (False, l, None)"
        and r: "case r of
          Inr c \<Rightarrow> j < k \<and> c = as_opened ?s + j \<and>
            (\<exists>conn l. as_driver ?s !! j = Inr conn \<and> admit conn = (True, l, None) \<and>
               as_stats s' = record_outcome (n + 1 + int j) True l (as_stats ?s)) \<and>
            as_log s' = as_log ?s @ attempts (as_opened ?s) j @ [Open c]
        | Inl e \<Rightarrow> \<exists>m. j \<le> m \<and> m \<le> j + 1 \<and> m \<le> k \<and> as_log s' = as_log ?s @ attempts (as_opened ?s) m"
        by auto
      have rej: "\<forall>i < Suc j. \<exists>conn l. as_driver s !! i = Inr conn \<and> admit conn = (False, l, None)"
        using j(2) Inr a 3 by (auto simp: less_Suc_eq_0_disj)
      show ?thesis
      proof (cases r)
        case (Inl e)
        then obtain m where "j \<le> m" "m \<le> j + 1" "m \<le> k"
          "as_log s' = as_log ?s @ attempts (as_opened ?s) m" using r by auto
        then show ?thesis using Inl j(1) rej
          by (intro exI [of _ "Suc j"]) (auto simp: attempts_Suc intro!: exI [of _ "Suc m"])
      next
        case (Inr c)
        then show ?thesis using r j(1) rej
          by (intro exI [of _ "Suc j"]) (auto simp: attempts_Suc algebra_simps)
      qed
    qed
  qed
qed

text \<open>The record is consistent when it counts its connections and covers their rejections.\<close>

definition stats_ok :: "Stats \<Rightarrow> bool" where
  "stats_ok st \<longleftrightarrow> st_Accepted st = int (length (st_Connections st)) \<and>
     (\<forall>c \<in> set (st_Connections st). 0 \<le> Rejections c) \<and>
     sum_list (map Rejections (st_Connections st)) \<le> st_Rejections st"

lemma stats_ok_record: "stats_ok st \<Longrightarrow> 0 \<le> n \<Longrightarrow> stats_ok (record_outcome n acc l st)"
  by (auto simp: stats_ok_def record_outcome_def Let_def)

lemma Connect_loop_stats:
  "stats_ok (as_stats s) \<Longrightarrow> 0 \<le> n \<Longrightarrow> 0 \<le> M \<Longrightarrow> stats_ok (as_stats (snd (Connect_loop k sql M n l s)))"
proof (induction k arbitrary: n l s)
  case (Suc k)
  show ?case
  proof (cases "shd (as_driver s)")
    case (Inl e)
    then show ?thesis using Suc.prems by (simp add: stats_ok_record)
  next
    case (Inr conn)
    obtain keep l' err where a: "admit conn = (keep, l', err)" by (metis prod.exhaust)
    show ?thesis
      using Suc.prems Suc.IH [of _ "n + 1"] Inr a
      by (cases err; cases keep) (simp_all add: Let_def stats_ok_record)
  qed
qed (simp add: stats_ok_record)

definition opens :: "connEvent list \<Rightarrow> nat" where
  "opens es = length (filter (\<lambda>e. \<exists>c. e = Open c) es)"

lemma opens_attempts: "opens (attempts c n) = n"
proof (induction n arbitrary: c)
  case 0
  then show ?case by (simp add: attempts_def opens_def)
next
  case (Suc n)
  then show ?case unfolding attempts_Suc by (simp add: opens_def)
qed

text \<open>
  C16. Connecting keeps exactly what was admitted.  A Connect opens at most as many connections as it
  may reject; when it returns, the only connection it leaves open is the one it returns, which the
  predicate admitted after rejecting all those before it, and on an error it leaves none; the record
  still counts the connections and covers their rejections.
\<close>

theorem Connect_admits:
  assumes "Connect sql M s = (r, s')" "0 \<le> M" "stats_ok (as_stats s)"
    and "open_after (as_log s) {} \<inter> {as_opened s..} = {}"
  defines "new \<equiv> drop (length (as_log s)) (as_log s')"
  shows "open_after (as_log s') {} = open_after (as_log s) {} \<union> (case r of Inr c \<Rightarrow> {c} | Inl e \<Rightarrow> {}) \<and>
    int (opens new) \<le> M \<and> stats_ok (as_stats s') \<and>
    (case r of
       Inl e \<Rightarrow> True
     | Inr c \<Rightarrow> (\<exists>j conn l. c = as_opened s + j \<and> as_driver s !! j = Inr conn \<and> admit conn = (True, l, None) \<and>
         (\<forall>i < j. \<exists>conn l. as_driver s !! i = Inr conn \<and> admit conn = (False, l, None)) \<and>
         as_stats s' = record_outcome (int j) True l (as_stats s)))"
proof -
  let ?X = "open_after (as_log s) {}"
  have ok: "stats_ok (as_stats s')"
    using Connect_loop_stats [OF assms(3) _ assms(2), of 0 "nat M" sql "[]"] assms(1)
    by (simp add: Connect_def)
  obtain j where j: "j \<le> nat M"
    "\<forall>i < j. \<exists>conn l. as_driver s !! i = Inr conn \<and> admit conn = (False, l, None)"
    and r: "case r of
        Inr c \<Rightarrow> j < nat M \<and> c = as_opened s + j \<and>
          (\<exists>conn l. as_driver s !! j = Inr conn \<and> admit conn = (True, l, None) \<and>
             as_stats s' = record_outcome (0 + int j) True l (as_stats s)) \<and>
          as_log s' = as_log s @ attempts (as_opened s) j @ [Open c]
      | Inl e \<Rightarrow> \<exists>m. j \<le> m \<and> m \<le> j + 1 \<and> m \<le> nat M \<and> as_log s' = as_log s @ attempts (as_opened s) m"
    using Connect_loop_cases [of "nat M" sql M 0 "[]" s r s'] assms(1) by (auto simp: Connect_def)
  note att = open_after_attempts [OF assms(4)]
  show ?thesis
  proof (cases r)
    case (Inl e)
    then obtain m where m: "m \<le> nat M" "as_log s' = as_log s @ attempts (as_opened s) m" using r by auto
    then show ?thesis using Inl ok assms(2) by (simp add: open_after_append att new_def opens_attempts)
  next
    case (Inr c)
    then have c: "j < nat M" "as_log s' = as_log s @ attempts (as_opened s) j @ [Open c]" using r by auto
    have "opens (attempts (as_opened s) j @ [Open c]) = j + 1"
      using opens_attempts [of "as_opened s" j] by (simp add: opens_def)
    then show ?thesis using Inr ok c r j(2)
      by (auto simp: open_after_append att new_def)
  qed
qed

text \<open>A driver whose first connection is rejected and whose second is admitted.\<close>

definition sample_admit :: admitState where
  "sample_admit =
     (let conn = \<lambda>keep. \<lparr>dc_queryer = True, dc_query = Inr \<lparr>dr_columns = 2,
        dr_next = [Row [VBool keep, VBytes ''primary''], EOF], dr_more = False\<rparr>\<rparr>
      in \<lparr>as_stats = \<lparr>st_Accepted = 0, st_Rejections = 0, st_Connections = []\<rparr>,
        as_driver = Inr (conn False) ## sconst (Inr (conn True)), as_opened = 0, as_log = []\<rparr>)"

lemma sample_Connect:
  "fst (Connect ''q'' 2 sample_admit) = Inr 1"
  by (simp add: Connect_def sample_admit_def Let_def admit_def dest_of_def admit_end_def eval_nat_numeral)

lemma Connect_admits_witness:
  "fst (Connect ''q'' 2 sample_admit) = Inr 1 \<and> open_after (as_log (snd (Connect ''q'' 2 sample_admit))) {} = {1}"
proof -
  obtain s' where s': "Connect ''q'' 2 sample_admit = (Inr 1, s')"
    using sample_Connect by (metis prod.collapse)
  have "stats_ok (as_stats sample_admit)" "open_after (as_log sample_admit) {} \<inter> {as_opened sample_admit..} = {}"
    "open_after (as_log sample_admit) {} = {}"
    by (simp_all add: sample_admit_def stats_ok_def Let_def)
  then show ?thesis using Connect_admits [OF s'] s' by simp
qed

end
