(* ===== verification/Measurement.thy ===== *)
theory Measurement
  imports GoFloat Prelude "HOL-Library.Multiset" "HOL-Library.Char_ord" "HOL-Library.List_Lexorder"
begin

text \<open>
  Latencies and their reports: \<open>pkg/measurement\<close>.  A measurement has two maps from operations to
  histograms, one for the interval that is open and one for the whole run.  The histograms are
  objects that several goroutines share, so the model has a store of them and the maps hold
  addresses.  The buckets of a histogram are those of a library, which is a parameter.
\<close>

subsection \<open>Histograms\<close>

text \<open>The library: \<open>RecordValue\<close> may report an error, which is \<open>None\<close>.\<close>

record 'h hdr =
  hdr_New :: "int \<Rightarrow> int \<Rightarrow> int \<Rightarrow> 'h"
  hdr_RecordValue :: "int \<Rightarrow> 'h \<Rightarrow> 'h option"
  hdr_TotalCount :: "'h \<Rightarrow> int"
  hdr_LowestTrackableValue :: "'h \<Rightarrow> int"
  hdr_HighestTrackableValue :: "'h \<Rightarrow> int"
  hdr_ValueAtQuantile :: "'h \<Rightarrow> rat \<Rightarrow> int"

text \<open>
  What its documentation promises: a new histogram is empty and tracks the values of its range, and
  recording a value of the range counts one more.
\<close>

definition hdr_laws :: "'h hdr \<Rightarrow> bool" where
  "hdr_laws H \<longleftrightarrow>
     (\<forall>lo hi sf. 1 \<le> lo \<and> 2 * lo \<le> hi \<and> sf \<in> {1..5} \<longrightarrow>
        hdr_TotalCount H (hdr_New H lo hi sf) = 0 \<and>
        hdr_LowestTrackableValue H (hdr_New H lo hi sf) = lo \<and> hdr_HighestTrackableValue H (hdr_New H lo hi sf) = hi) \<and>
     (\<forall>v h. hdr_LowestTrackableValue H h \<le> v \<and> v \<le> hdr_HighestTrackableValue H h \<longrightarrow>
        (\<exists>h'. hdr_RecordValue H v h = Some h' \<and> hdr_TotalCount H h' = hdr_TotalCount H h + 1 \<and>
           hdr_LowestTrackableValue H h' = hdr_LowestTrackableValue H h \<and>
           hdr_HighestTrackableValue H h' = hdr_HighestTrackableValue H h))"

text \<open>Times and durations are nanoseconds; \<open>None\<close> is the zero time.\<close>

record 'h Histogram =
  hg_hdr :: 'h
  hg_sum :: int
  hg_startTime :: int
  hg_frozenAt :: "int option"

definition NewHistogram :: "'h hdr \<Rightarrow> int \<Rightarrow> int \<Rightarrow> int \<Rightarrow> int \<Rightarrow> 'h Histogram" where
  "NewHistogram H minLat maxLat sf now =
     \<lparr>hg_hdr = hdr_New H minLat maxLat sf, hg_sum = 0, hg_startTime = now, hg_frozenAt = None\<rparr>"

text \<open>\<open>None\<close> is the panic of a value that cannot be recorded.\<close>

definition Histogram_Measure :: "'h hdr \<Rightarrow> int \<Rightarrow> 'h Histogram \<Rightarrow> 'h Histogram option" where
  "Histogram_Measure H rawLatency h =
     (let latency =
        (if rawLatency < hdr_LowestTrackableValue H (hg_hdr h) then hdr_LowestTrackableValue H (hg_hdr h)
         else if rawLatency > hdr_HighestTrackableValue H (hg_hdr h) then hdr_HighestTrackableValue H (hg_hdr h)
         else rawLatency)
      in do {
        x \<leftarrow> hdr_RecordValue H latency (hg_hdr h);
        Some (h\<lparr>hg_hdr := x, hg_sum := wrap64 (hg_sum h + rawLatency)\<rparr>)
      })"

definition Histogram_Freeze :: "int \<Rightarrow> 'h Histogram \<Rightarrow> 'h Histogram option" where
  "Histogram_Freeze now h = (if hg_frozenAt h \<noteq> None then None else Some (h\<lparr>hg_frozenAt := Some now\<rparr>))"

definition SetWindow :: "int \<Rightarrow> int \<Rightarrow> 'h Histogram \<Rightarrow> 'h Histogram" where
  "SetWindow start stop h = h\<lparr>hg_startTime := start, hg_frozenAt := Some stop\<rparr>"

definition Histogram_Empty :: "'h hdr \<Rightarrow> 'h Histogram \<Rightarrow> bool" where
  "Histogram_Empty H h \<longleftrightarrow> hdr_TotalCount H (hg_hdr h) = 0"

text \<open>\<open>Duration.Seconds\<close>, \<open>math.Round\<close> and the figures of a histogram.\<close>

definition Seconds :: "int \<Rightarrow> rat" where
  "Seconds d = rnd64 (f64 (d sdiv 10 ^ 9) + fdiv (f64 (d smod 10 ^ 9)) (10 ^ 9))"

definition math_Round :: "rat \<Rightarrow> rat" where
  "math_Round x = (if x < 0 then - of_int \<lfloor>- x + 1 / 2\<rfloor> else of_int \<lfloor>x + 1 / 2\<rfloor>)"

definition roundMs :: "rat \<Rightarrow> rat" where
  "roundMs v = fdiv (math_Round (fmul v 100)) 100"

record HistInfo =
  hi_Elapsed :: rat
  hi_Sum :: rat
  hi_Count :: int
  hi_Ops :: rat
  hi_Avg :: rat
  hi_P50 :: rat
  hi_P90 :: rat
  hi_P95 :: rat
  hi_P99 :: rat
  hi_P999 :: rat
  hi_Max :: rat

definition GetInfo :: "'h hdr \<Rightarrow> int \<Rightarrow> 'h Histogram \<Rightarrow> HistInfo" where
  "GetInfo H now h =
     (let now = (case hg_frozenAt h of Some t \<Rightarrow> t | None \<Rightarrow> now);
          elapsed = Seconds (now - hg_startTime h);
          count = hdr_TotalCount H (hg_hdr h);
          ops = (if elapsed > 0 then fdiv (f64 count) elapsed else 0);
          avg = (if count > 0 then fdiv (fdiv (f64 (hg_sum h)) (f64 count)) (10 ^ 6) else 0);
          quantile = (\<lambda>q. roundMs (fmul (Seconds (hdr_ValueAtQuantile H (hg_hdr h) q)) 1000))
      in \<lparr>hi_Elapsed = elapsed, hi_Sum = roundMs (fmul (Seconds (hg_sum h)) 1000), hi_Count = count, hi_Ops = ops,
        hi_Avg = roundMs avg, hi_P50 = quantile 50, hi_P90 = quantile 90, hi_P95 = quantile 95,
        hi_P99 = quantile 99, hi_P999 = quantile (rnd64 (999 / 10)), hi_Max = quantile 100\<rparr>)"

subsection \<open>Measurements\<close>

text \<open>A map is the list of its keys with their addresses, the latest first.\<close>

type_synonym hist_map = "(string \<times> nat) list"

record 'h Measurement =
  ms_warmUp :: bool
  ms_MinLatency :: int
  ms_MaxLatency :: int
  ms_SigFigs :: int
  ms_Cur :: hist_map
  ms_Sum :: hist_map
  ms_curStartTime :: int
  ms_store :: "'h Histogram list"

definition NewMeasurement :: "int \<Rightarrow> int \<Rightarrow> 'h Measurement" where
  "NewMeasurement maxLatency now = \<lparr>ms_warmUp = False, ms_MinLatency = 10 ^ 6, ms_MaxLatency = maxLatency,
     ms_SigFigs = 3, ms_Cur = [], ms_Sum = [], ms_curStartTime = now, ms_store = []\<rparr>"

text \<open>\<open>new(Histogram)\<close> for a key of a map.\<close>

definition add_hist :: "'h hdr \<Rightarrow> int \<Rightarrow> string \<Rightarrow> hist_map \<Rightarrow> 'h Measurement \<Rightarrow> hist_map \<times> 'h Measurement" where
  "add_hist H now op M m = ((op, length (ms_store m)) # M,
     m\<lparr>ms_store := ms_store m @ [NewHistogram H (ms_MinLatency m) (ms_MaxLatency m) (ms_SigFigs m) now]\<rparr>)"

definition EnableWarmUp :: "bool \<Rightarrow> 'h Measurement \<Rightarrow> 'h Measurement" where
  [simp]: "EnableWarmUp b m = m\<lparr>ms_warmUp := b\<rparr>"

definition IsWarmUpFinished :: "'h Measurement \<Rightarrow> bool" where
  [simp]: "IsWarmUpFinished m \<longleftrightarrow> \<not> ms_warmUp m"

definition op_key :: "string \<Rightarrow> bool \<Rightarrow> string" where
  "op_key op failed = (if failed then op @ ''_ERR'' else op)"

text \<open>
  \<open>getHist\<close>.  A look-up under the read lock that fails is repeated under the lock, so the operation
  takes effect at once.
\<close>

definition getHist ::
  "'h hdr \<Rightarrow> string \<Rightarrow> bool \<Rightarrow> bool \<Rightarrow> int \<Rightarrow> 'h Measurement \<Rightarrow> nat \<times> 'h Measurement" where
  "getHist H op failed current now m =
     (let M = (if current then ms_Cur m else ms_Sum m);
          key = op_key op failed; paired = op_key op (\<not> failed) in
      case map_of M key of
        Some a \<Rightarrow> (a, m)
      | None \<Rightarrow>
          let (M, m) = add_hist H now key M m;
              (M, m) = (if map_of M paired = None then add_hist H now paired M m else (M, m))
          in (the (map_of M key), if current then m\<lparr>ms_Cur := M\<rparr> else m\<lparr>ms_Sum := M\<rparr>))"

text \<open>
  \<open>takeCurMeasurement\<close>: a fresh histogram for every operation of the run, and the windows of the old
  ones.  The windows are set after the lock is released, but only the goroutine that reports looks at
  them, so that this is one step.
\<close>

definition seed :: "'h hdr \<Rightarrow> int \<Rightarrow> hist_map \<Rightarrow> 'h Measurement \<Rightarrow> hist_map \<times> 'h Measurement" where
  "seed H now M m = foldr (\<lambda>(op, a) (M', m). add_hist H now op M' m) M ([], m)"

definition set_windows :: "int \<Rightarrow> int \<Rightarrow> hist_map \<Rightarrow> 'h Histogram list \<Rightarrow> 'h Histogram list" where
  "set_windows start stop tick hs = foldr (\<lambda>(op, a) hs. hs[a := SetWindow start stop (hs ! a)]) tick hs"

definition takeCurMeasurement :: "'h hdr \<Rightarrow> int \<Rightarrow> 'h Measurement \<Rightarrow> hist_map \<times> 'h Measurement" where
  "takeCurMeasurement H now m =
     (let tick = ms_Cur m; start = ms_curStartTime m;
          (nxt, m) = seed H now (ms_Sum m) (m\<lparr>ms_curStartTime := now\<rparr>)
      in (tick, m\<lparr>ms_Cur := nxt, ms_store := set_windows start now tick (ms_store m)\<rparr>))"

text \<open>\<open>Freeze\<close> of all histograms of the run; \<open>None\<close> is its panic.\<close>

fun freeze_all :: "int \<Rightarrow> hist_map \<Rightarrow> 'h Histogram list \<Rightarrow> 'h Histogram list option" where
  "freeze_all now [] hs = Some hs"
| "freeze_all now ((op, a) # M) hs = Option.bind (Histogram_Freeze now (hs ! a)) (\<lambda>h. freeze_all now M (hs[a := h]))"

definition Measurement_Freeze :: "int \<Rightarrow> 'h Measurement \<Rightarrow> 'h Measurement option" where
  "Measurement_Freeze now m = map_option (\<lambda>hs. m\<lparr>ms_store := hs\<rparr>) (freeze_all now (ms_Sum m) (ms_store m))"

definition splitOpStatus :: "string \<Rightarrow> string \<times> string" where
  "splitOpStatus op =
     (if 4 \<le> length op \<and> drop (length op - 4) op = ''_ERR'' then (take (length op - 4) op, ''error'') else (op, ''ok''))"

text \<open>\<open>strings.ToUpper\<close> on ASCII.\<close>

definition ToUpper :: "string \<Rightarrow> string" where
  "ToUpper s = map (\<lambda>c. if of_char c \<in> {97..122 :: nat} then char_of (of_char c - 32 :: nat) else c) s"

text \<open>
  The rows of a tick, one for each key in order (\<open>appendRawSamples\<close>): the name, the status and the
  figures, before they are written as text; the column with the time of the tick is left out.
\<close>

definition tick_rows :: "'h hdr \<Rightarrow> int \<Rightarrow> hist_map \<Rightarrow> 'h Measurement \<Rightarrow> (string \<times> string \<times> HistInfo) list" where
  "tick_rows H now tick m =
     map (\<lambda>op. let info = GetInfo H now (ms_store m ! the (map_of tick op)); (name, status) = splitOpStatus op
            in (ToUpper name, status, info))
       (sort (map fst tick))"

text \<open>The summary: the operations with a sample, in order.\<close>

record OpSummary =
  os_Transaction :: string
  os_Status :: string
  os_Count :: int
  os_TPM :: rat
  os_TakesSeconds :: rat
  os_AvgLatencyMs :: rat
  os_P50LatencyMs :: rat
  os_P90LatencyMs :: rat
  os_P95LatencyMs :: rat
  os_P99LatencyMs :: rat
  os_P999LatencyMs :: rat
  os_MaxLatencyMs :: rat

definition op_summary :: "string \<Rightarrow> HistInfo \<Rightarrow> OpSummary" where
  "op_summary op info =
     (let (name, status) = splitOpStatus op in
      \<lparr>os_Transaction = ToUpper name, os_Status = status, os_Count = hi_Count info, os_TPM = fmul (hi_Ops info) 60,
       os_TakesSeconds = hi_Elapsed info, os_AvgLatencyMs = hi_Avg info, os_P50LatencyMs = hi_P50 info,
       os_P90LatencyMs = hi_P90 info, os_P95LatencyMs = hi_P95 info, os_P99LatencyMs = hi_P99 info,
       os_P999LatencyMs = hi_P999 info, os_MaxLatencyMs = hi_Max info\<rparr>)"

definition Measurement_Summary :: "'h hdr \<Rightarrow> int \<Rightarrow> 'h Measurement \<Rightarrow> OpSummary list" where
  "Measurement_Summary H now m =
     (let hist = (\<lambda>op. ms_store m ! the (map_of (ms_Sum m) op)) in
      map (\<lambda>op. op_summary op (GetInfo H now (hist op)))
        (filter (\<lambda>op. \<not> Histogram_Empty H (hist op)) (sort (map fst (ms_Sum m)))))"

subsection \<open>Goroutines\<close>

text \<open>
  Workers that measure and the goroutine that reports.  A worker is idle, about to look up its
  interval histogram, holds one, is done with it, or holds the histogram of the run.
\<close>

datatype measure_pc =
    Idle
  | Measuring string bool int
  | HasCur string bool int nat
  | CurDone string bool int
  | HasSum string bool int nat

record 'h reporting =
  rp_m :: "'h Measurement"
  rp_pcs :: "measure_pc list"
  rp_ticks :: "hist_map list"
  rp_rows :: "(string \<times> string \<times> HistInfo) list list"
  rp_done :: "string list"

definition reporting_init :: "nat \<Rightarrow> int \<Rightarrow> int \<Rightarrow> 'h reporting" where
  "reporting_init workers maxLatency now = \<lparr>rp_m = NewMeasurement maxLatency now,
     rp_pcs = replicate workers Idle, rp_ticks = [], rp_rows = [], rp_done = []\<rparr>"

text \<open>
  \<open>measure\<close> in four steps, \<open>EnableWarmUp\<close>, and \<open>Output\<close> in two: the interval is detached, and its
  rows are written afterwards.  \<open>rp_done\<close> has the keys of the finished measurements.
\<close>

inductive report_step :: "'h hdr \<Rightarrow> 'h reporting \<Rightarrow> 'h reporting \<Rightarrow> bool" for H :: "'h hdr" where
  warmUp: "report_step H s (s\<lparr>rp_m := EnableWarmUp b (rp_m s)\<rparr>)"
| begin_measure:
    "i < length (rp_pcs s) \<Longrightarrow> rp_pcs s ! i = Idle \<Longrightarrow> IsWarmUpFinished (rp_m s) \<Longrightarrow>
     report_step H s (s\<lparr>rp_pcs := (rp_pcs s)[i := Measuring op failed lan]\<rparr>)"
| get_cur:
    "i < length (rp_pcs s) \<Longrightarrow> rp_pcs s ! i = Measuring op failed lan \<Longrightarrow>
     getHist H op failed True now (rp_m s) = (a, m) \<Longrightarrow>
     report_step H s (s\<lparr>rp_m := m, rp_pcs := (rp_pcs s)[i := HasCur op failed lan a]\<rparr>)"
| record_cur:
    "i < length (rp_pcs s) \<Longrightarrow> rp_pcs s ! i = HasCur op failed lan a \<Longrightarrow>
     Histogram_Measure H lan (ms_store (rp_m s) ! a) = Some h \<Longrightarrow>
     report_step H s (s\<lparr>rp_m := (rp_m s)\<lparr>ms_store := (ms_store (rp_m s))[a := h]\<rparr>,
       rp_pcs := (rp_pcs s)[i := CurDone op failed lan]\<rparr>)"
| get_sum:
    "i < length (rp_pcs s) \<Longrightarrow> rp_pcs s ! i = CurDone op failed lan \<Longrightarrow>
     getHist H op failed False now (rp_m s) = (a, m) \<Longrightarrow>
     report_step H s (s\<lparr>rp_m := m, rp_pcs := (rp_pcs s)[i := HasSum op failed lan a]\<rparr>)"
| record_sum:
    "i < length (rp_pcs s) \<Longrightarrow> rp_pcs s ! i = HasSum op failed lan a \<Longrightarrow>
     Histogram_Measure H lan (ms_store (rp_m s) ! a) = Some h \<Longrightarrow>
     report_step H s (s\<lparr>rp_m := (rp_m s)\<lparr>ms_store := (ms_store (rp_m s))[a := h]\<rparr>,
       rp_pcs := (rp_pcs s)[i := Idle], rp_done := rp_done s @ [op_key op failed]\<rparr>)"
| take_tick:
    "length (rp_rows s) = length (rp_ticks s) \<Longrightarrow> takeCurMeasurement H now (rp_m s) = (tick, m) \<Longrightarrow>
     report_step H s (s\<lparr>rp_m := m, rp_ticks := rp_ticks s @ [tick]\<rparr>)"
| write_rows:
    "length (rp_rows s) < length (rp_ticks s) \<Longrightarrow>
     report_step H s (s\<lparr>rp_rows := rp_rows s @
       [tick_rows H now (rp_ticks s ! length (rp_rows s)) (rp_m s)]\<rparr>)"

inductive_cases report_stepE: "report_step H s s'"

subsection \<open>Counting samples\<close>

text \<open>The samples of a key in the histograms of a list of keys with addresses.\<close>

definition samples :: "'h hdr \<Rightarrow> 'h Histogram list \<Rightarrow> hist_map \<Rightarrow> string \<Rightarrow> int" where
  "samples H hs L key = sum_list (map (\<lambda>(k, a). hdr_TotalCount H (hg_hdr (hs ! a))) (filter (\<lambda>(k, a). k = key) L))"

text \<open>The intervals of a run, and the workers between their two recordings of a key.\<close>

definition intervals :: "'h reporting \<Rightarrow> hist_map" where
  "intervals s = concat (rp_ticks s) @ ms_Cur (rp_m s)"

fun half_done :: "string \<Rightarrow> measure_pc \<Rightarrow> bool" where
  "half_done key (CurDone op failed lan) \<longleftrightarrow> op_key op failed = key"
| "half_done key (HasSum op failed lan a) \<longleftrightarrow> op_key op failed = key"
| "half_done key pc \<longleftrightarrow> False"

definition pending :: "measure_pc list \<Rightarrow> string \<Rightarrow> int" where
  "pending pcs key = int (length (filter (half_done key) pcs))"

fun pc_ok :: "hist_map \<Rightarrow> hist_map \<Rightarrow> measure_pc \<Rightarrow> bool" where
  "pc_ok I S (HasCur op failed lan a) \<longleftrightarrow> (op_key op failed, a) \<in> set I"
| "pc_ok I S (HasSum op failed lan a) \<longleftrightarrow> (op_key op failed, a) \<in> set S"
| "pc_ok I S pc \<longleftrightarrow> True"

text \<open>A range of latencies the library takes, and a histogram with the range of its measurement.\<close>

definition latency_ok :: "'h Measurement \<Rightarrow> bool" where
  "latency_ok m \<longleftrightarrow> 1 \<le> ms_MinLatency m \<and> 2 * ms_MinLatency m \<le> ms_MaxLatency m \<and> ms_SigFigs m \<in> {1..5}"

definition tracks :: "'h hdr \<Rightarrow> 'h Measurement \<Rightarrow> 'h Histogram \<Rightarrow> bool" where
  "tracks H m h \<longleftrightarrow> hdr_LowestTrackableValue H (hg_hdr h) = ms_MinLatency m \<and>
     hdr_HighestTrackableValue H (hg_hdr h) = ms_MaxLatency m"

definition report_inv :: "'h hdr \<Rightarrow> 'h reporting \<Rightarrow> bool" where
  "report_inv H s \<longleftrightarrow>
     (let m = rp_m s; I = intervals s; S = ms_Sum m; hs = ms_store m in
      distinct (map snd (I @ S)) \<and> (\<forall>a \<in> snd ` set (I @ S). a < length hs) \<and>
      distinct (map fst S) \<and> distinct (map fst (ms_Cur m)) \<and>
      latency_ok m \<and> (\<forall>h \<in> set hs. tracks H m h) \<and>
      (\<forall>pc \<in> set (rp_pcs s). pc_ok I S pc) \<and>
      (\<forall>key. samples H hs S key = int (count_list (rp_done s) key)) \<and>
      (\<forall>key. samples H hs I key = int (count_list (rp_done s) key) + pending (rp_pcs s) key))"

lemma samples_append: "samples H hs (L @ L') key = samples H hs L key + samples H hs L' key"
  by (simp add: samples_def)

lemma samples_Cons: "samples H hs ((k, a) # L) key = (if k = key then hdr_TotalCount H (hg_hdr (hs ! a)) else 0) + samples H hs L key"
  by (simp add: samples_def)

lemma samples_store: "(\<And>k a. (k, a) \<in> set L \<Longrightarrow> hg_hdr (hs' ! a) = hg_hdr (hs ! a)) \<Longrightarrow> samples H hs' L key = samples H hs L key"
proof (induction L)
  case (Cons x L)
  obtain k a where x: "x = (k, a)" by (cases x)
  have "hg_hdr (hs' ! a) = hg_hdr (hs ! a)" using Cons.prems [of k a] x by simp
  moreover have "samples H hs' L key = samples H hs L key"
    by (rule Cons.IH) (rule Cons.prems, rule list.set_intros(2))
  ultimately show ?case unfolding x samples_Cons by simp
qed (simp add: samples_def)

lemma samples_record:
  assumes "distinct (map snd L)" "(k, a) \<in> set L" "a < length hs"
    "hdr_TotalCount H (hg_hdr h) = hdr_TotalCount H (hg_hdr (hs ! a)) + 1"
  shows "samples H (hs[a := h]) L key = samples H hs L key + (if k = key then 1 else 0)"
  using assms(1,2)
proof (induction L)
  case (Cons x L)
  obtain j b where x: "x = (j, b)" by (cases x)
  show ?case
  proof (cases "b = a")
    case True
    then have j: "j = k" using Cons.prems x by (auto simp: image_iff)
    have "(i, a) \<notin> set L" for i using Cons.prems(1) x True by (auto simp: image_iff)
    then have "samples H (hs[a := h]) L key = samples H hs L key" by (intro samples_store) (metis nth_list_update_neq)
    then show ?thesis unfolding x samples_Cons using True j assms(3,4) by simp
  next
    case False
    then have "samples H (hs[a := h]) L key = samples H hs L key + (if k = key then 1 else 0)"
      using Cons x by auto
    then show ?thesis unfolding x samples_Cons using False by simp
  qed
qed simp

lemma Histogram_Measure_ok:
  assumes "hdr_laws H" "tracks H m h" "latency_ok m"
  shows "\<exists>h'. Histogram_Measure H lan h = Some h' \<and> tracks H m h' \<and>
    hdr_TotalCount H (hg_hdr h') = hdr_TotalCount H (hg_hdr h) + 1"
proof -
  let ?lo = "hdr_LowestTrackableValue H (hg_hdr h)" and ?hi = "hdr_HighestTrackableValue H (hg_hdr h)"
  let ?v = "if lan < ?lo then ?lo else if lan > ?hi then ?hi else lan"
  have "?lo \<le> ?v \<and> ?v \<le> ?hi" using assms(2,3) by (auto simp: tracks_def latency_ok_def)
  then obtain x where x: "hdr_RecordValue H ?v (hg_hdr h) = Some x" "hdr_TotalCount H x = hdr_TotalCount H (hg_hdr h) + 1"
    "hdr_LowestTrackableValue H x = ?lo" "hdr_HighestTrackableValue H x = ?hi"
    using assms(1) unfolding hdr_laws_def by blast
  show ?thesis
    by (rule exI [of _ "h\<lparr>hg_hdr := x, hg_sum := wrap64 (hg_sum h + lan)\<rparr>"])
      (use x assms(2) in \<open>simp add: Histogram_Measure_def Let_def tracks_def\<close>)
qed

text \<open>New entries of a map, with the histograms that go with them.\<close>

definition grown :: "'h hdr \<Rightarrow> hist_map \<Rightarrow> 'h Measurement \<Rightarrow> 'h Measurement \<Rightarrow> bool" where
  "grown H new m m' \<longleftrightarrow>
     length (ms_store m') = length (ms_store m) + length new \<and>
     map snd new = rev [length (ms_store m)..<length (ms_store m')] \<and>
     (\<forall>a < length (ms_store m). hg_hdr (ms_store m' ! a) = hg_hdr (ms_store m ! a)) \<and>
     (\<forall>a \<in> {length (ms_store m)..<length (ms_store m')}. tracks H m (ms_store m' ! a) \<and>
        hdr_TotalCount H (hg_hdr (ms_store m' ! a)) = 0) \<and>
     ms_MinLatency m' = ms_MinLatency m \<and> ms_MaxLatency m' = ms_MaxLatency m \<and> ms_SigFigs m' = ms_SigFigs m"

lemma grown_refl: "grown H [] m m"
  by (simp add: grown_def)

lemma grown_maps: "grown H new m (m'\<lparr>ms_Cur := M\<rparr>) \<longleftrightarrow> grown H new m m'"
  "grown H new m (m'\<lparr>ms_Sum := M\<rparr>) \<longleftrightarrow> grown H new m m'"
  by (simp_all add: grown_def)

lemma grown_windows:
  assumes "grown H new m m'" "length hs = length (ms_store m')" "\<forall>a. hg_hdr (hs ! a) = hg_hdr (ms_store m' ! a)"
  shows "grown H new m (m'\<lparr>ms_store := hs\<rparr>)"
  using assms by (simp add: grown_def tracks_def)

lemma grown_add:
  assumes "hdr_laws H" "grown H new m m1" "add_hist H now op M m1 = (M', m')" "latency_ok m"
  shows "grown H ((op, length (ms_store m1)) # new) m m' \<and> M' = (op, length (ms_store m1)) # M \<and>
    ms_Cur m' = ms_Cur m1 \<and> ms_Sum m' = ms_Sum m1"
proof -
  have M': "M' = (op, length (ms_store m1)) # M"
    and m': "m' = m1\<lparr>ms_store := ms_store m1 @ [NewHistogram H (ms_MinLatency m1) (ms_MaxLatency m1) (ms_SigFigs m1) now]\<rparr>"
    using assms(3) by (simp_all add: add_hist_def)
  have new: "tracks H m (NewHistogram H (ms_MinLatency m1) (ms_MaxLatency m1) (ms_SigFigs m1) now)"
    "hdr_TotalCount H (hg_hdr (NewHistogram H (ms_MinLatency m1) (ms_MaxLatency m1) (ms_SigFigs m1) now)) = 0"
    using assms(1,2,4) by (simp_all add: tracks_def NewHistogram_def hdr_laws_def grown_def latency_ok_def)
  have len: "length (ms_store m) \<le> length (ms_store m1)" using assms(2) by (simp add: grown_def)
  have old: "ms_store m' ! a = ms_store m1 ! a" if "a < length (ms_store m1)" for a using that by (simp add: m' nth_append)
  have last: "ms_store m' ! length (ms_store m1) = NewHistogram H (ms_MinLatency m1) (ms_MaxLatency m1) (ms_SigFigs m1) now"
    by (simp add: m')
  have "tracks H m (ms_store m' ! a) \<and> hdr_TotalCount H (hg_hdr (ms_store m' ! a)) = 0"
    if a: "a \<in> {length (ms_store m)..<length (ms_store m')}" for a
  proof (cases "a < length (ms_store m1)")
    case True
    then show ?thesis using assms(2) a old [OF True] by (simp add: grown_def)
  next
    case False
    then have "a = length (ms_store m1)" using a by (simp add: m')
    then show ?thesis using last new by simp
  qed
  moreover have "\<forall>a < length (ms_store m). hg_hdr (ms_store m' ! a) = hg_hdr (ms_store m ! a)"
    using assms(2) old len by (simp add: grown_def)
  moreover have "map snd ((op, length (ms_store m1)) # new) = rev [length (ms_store m)..<length (ms_store m')]"
    using assms(2) len by (simp add: grown_def m')
  moreover have "length (ms_store m') = length (ms_store m) + length ((op, length (ms_store m1)) # new)"
    "ms_MinLatency m' = ms_MinLatency m" "ms_MaxLatency m' = ms_MaxLatency m" "ms_SigFigs m' = ms_SigFigs m"
    using assms(2) by (simp_all add: grown_def m')
  ultimately show ?thesis using M' unfolding grown_def by (simp add: m')
qed

text \<open>\<open>getHist\<close> adds entries for keys that were not there.\<close>

lemma getHist_grown:
  assumes "hdr_laws H" "getHist H op failed current now m = (a, m')"
    and M: "M = (if current then ms_Cur m else ms_Sum m)" and M': "M' = (if current then ms_Cur m' else ms_Sum m')"
    and d: "distinct (map fst M)" and ok: "latency_ok m"
  shows "\<exists>new. grown H new m m' \<and> M' = new @ M \<and> (if current then ms_Sum m' = ms_Sum m else ms_Cur m' = ms_Cur m) \<and>
    distinct (map fst M') \<and> (op_key op failed, a) \<in> set M'"
proof -
  let ?key = "op_key op failed" and ?paired = "op_key op (\<not> failed)"
  have ne: "?paired \<noteq> ?key" by (simp add: op_key_def)
  show ?thesis
  proof (cases "map_of M ?key")
    case (Some x)
    then have "a = x" "m' = m" using assms(2) M by (simp_all add: getHist_def Let_def)
    then show ?thesis using Some M M' d grown_refl [of H m] by (intro exI [of _ "[]"]) (auto dest: map_of_SomeD)
  next
    case None
    then have k: "?key \<notin> fst ` set M" by (simp add: map_of_eq_None_iff)
    obtain M1 m1 where a1: "add_hist H now ?key M m = (M1, m1)" by (cases "add_hist H now ?key M m")
    have g1: "grown H [(?key, length (ms_store m))] m m1" "M1 = (?key, length (ms_store m)) # M"
      "ms_Cur m1 = ms_Cur m" "ms_Sum m1 = ms_Sum m"
      using grown_add [OF assms(1) grown_refl a1 ok] by simp_all
    show ?thesis
    proof (cases "map_of M1 ?paired = None")
      case True
      obtain M2 m2 where a2: "add_hist H now ?paired M1 m1 = (M2, m2)" by (cases "add_hist H now ?paired M1 m1")
      have g2: "grown H [(?paired, length (ms_store m1)), (?key, length (ms_store m))] m m2"
        "M2 = (?paired, length (ms_store m1)) # M1" "ms_Cur m2 = ms_Cur m1" "ms_Sum m2 = ms_Sum m1"
        using grown_add [OF assms(1) g1(1) a2 ok] by simp_all
      have r: "a = the (map_of M2 ?key)" "m' = (if current then m2\<lparr>ms_Cur := M2\<rparr> else m2\<lparr>ms_Sum := M2\<rparr>)"
        using assms(2) None True a1 a2 M by (simp_all add: getHist_def Let_def)
      have p: "?paired \<notin> fst ` set M1" using True by (simp add: map_of_eq_None_iff)
      have M2': "M' = M2" using r(2) M' by (cases current) simp_all
      have "grown H [(?paired, length (ms_store m1)), (?key, length (ms_store m))] m m'"
        unfolding r(2) using g2(1) by (simp add: grown_maps)
      moreover have "distinct (map fst M')" using M2' g2(2) g1(2) p k d by (simp add: ne)
      moreover have "(?key, a) \<in> set M'" using M2' r(1) g2(2) g1(2) ne by simp
      moreover have "if current then ms_Sum m' = ms_Sum m else ms_Cur m' = ms_Cur m"
        using r(2) g2(3,4) g1(3,4) by simp
      ultimately show ?thesis using M2' g2(2) g1(2)
        by (intro exI [of _ "[(?paired, length (ms_store m1)), (?key, length (ms_store m))]"]) simp
    next
      case False
      then obtain y where y: "map_of M1 ?paired = Some y" by blast
      have r: "a = the (map_of M1 ?key)" "m' = (if current then m1\<lparr>ms_Cur := M1\<rparr> else m1\<lparr>ms_Sum := M1\<rparr>)"
        using assms(2) None y a1 M by (simp_all add: getHist_def Let_def)
      have M1': "M' = M1" using r(2) M' by (cases current) simp_all
      have "grown H [(?key, length (ms_store m))] m m'"
        unfolding r(2) using g1(1) by (simp add: grown_maps)
      moreover have "distinct (map fst M')" using M1' g1(2) k d by simp
      moreover have "(?key, a) \<in> set M'" using M1' r(1) g1(2) by simp
      moreover have "if current then ms_Sum m' = ms_Sum m else ms_Cur m' = ms_Cur m" using r(2) g1(3,4) by simp
      ultimately show ?thesis using M1' g1(2) by (intro exI [of _ "[(?key, length (ms_store m))]"]) simp
    qed
  qed
qed

lemma seed_grown:
  assumes "hdr_laws H" "seed H now M m = (M', m')" "latency_ok m"
  shows "grown H M' m m' \<and> map fst M' = map fst M \<and> ms_Cur m' = ms_Cur m \<and> ms_Sum m' = ms_Sum m"
  using assms(2)
proof (induction M arbitrary: M' m')
  case Nil
  then show ?case by (simp add: seed_def grown_refl)
next
  case (Cons x M)
  obtain k a where x: "x = (k, a)" by (cases x)
  obtain M1 m1 where s: "seed H now M m = (M1, m1)" by (cases "seed H now M m")
  then have a: "add_hist H now k M1 m1 = (M', m')" using Cons.prems x by (simp add: seed_def)
  note IH = Cons.IH [OF s]
  show ?case using grown_add [OF assms(1) conjunct1 [OF IH] a assms(3)] IH x by simp
qed

lemma set_windows_same:
  "length (set_windows start stop tick hs) = length hs \<and> (\<forall>a. hg_hdr (set_windows start stop tick hs ! a) = hg_hdr (hs ! a))"
proof (induction tick)
  case Nil
  then show ?case by (simp add: set_windows_def)
next
  case (Cons x tick)
  obtain k b where x: "x = (k, b)" by (cases x)
  let ?hs = "set_windows start stop tick hs"
  have e: "set_windows start stop (x # tick) hs = ?hs[b := SetWindow start stop (?hs ! b)]" by (simp add: set_windows_def x)
  have "hg_hdr (?hs[b := SetWindow start stop (?hs ! b)] ! a) = hg_hdr (?hs ! a)" for a
    by (cases "a = b"; cases "b < length ?hs") (simp_all add: SetWindow_def list_update_beyond)
  then show ?case using Cons unfolding e by simp
qed

end
