(* ===== verification/MeasureInv.thy ===== *)
theory MeasureInv
  imports Measurement
begin

text \<open>
  No measurement is lost: the invariant of the goroutines of \<open>Measurement\<close>, and what the rows of the
  ticks can miss all the same.
\<close>

lemma report_invI:
  assumes "distinct (map snd (intervals s @ ms_Sum (rp_m s)))"
    "\<forall>a \<in> snd ` set (intervals s @ ms_Sum (rp_m s)). a < length (ms_store (rp_m s))"
    "distinct (map fst (ms_Sum (rp_m s)))" "distinct (map fst (ms_Cur (rp_m s)))"
    "latency_ok (rp_m s)" "\<forall>h \<in> set (ms_store (rp_m s)). tracks H (rp_m s) h"
    "\<forall>pc \<in> set (rp_pcs s). pc_ok (intervals s) (ms_Sum (rp_m s)) pc"
    "\<And>key. samples H (ms_store (rp_m s)) (ms_Sum (rp_m s)) key = int (count_list (rp_done s) key)"
    "\<And>key. samples H (ms_store (rp_m s)) (intervals s) key = int (count_list (rp_done s) key) + pending (rp_pcs s) key"
  shows "report_inv H s"
  using assms unfolding report_inv_def Let_def by blast

lemma report_invD:
  assumes "report_inv H s"
  shows "distinct (map snd (intervals s @ ms_Sum (rp_m s)))"
    "\<forall>a \<in> snd ` set (intervals s @ ms_Sum (rp_m s)). a < length (ms_store (rp_m s))"
    "distinct (map fst (ms_Sum (rp_m s)))" "distinct (map fst (ms_Cur (rp_m s)))"
    "latency_ok (rp_m s)" "\<forall>h \<in> set (ms_store (rp_m s)). tracks H (rp_m s) h"
    "\<forall>pc \<in> set (rp_pcs s). pc_ok (intervals s) (ms_Sum (rp_m s)) pc"
    "samples H (ms_store (rp_m s)) (ms_Sum (rp_m s)) key = int (count_list (rp_done s) key)"
    "samples H (ms_store (rp_m s)) (intervals s) key = int (count_list (rp_done s) key) + pending (rp_pcs s) key"
  using assms unfolding report_inv_def Let_def by blast+

text \<open>Growing a map keeps what there is and adds nothing to the counts.\<close>

lemma samples_zero: "(\<And>k a. (k, a) \<in> set N \<Longrightarrow> hdr_TotalCount H (hg_hdr (hs ! a)) = 0) \<Longrightarrow> samples H hs N key = 0"
proof (induction N)
  case (Cons x N)
  obtain k a where x: "x = (k, a)" by (cases x)
  have "hdr_TotalCount H (hg_hdr (hs ! a)) = 0" using Cons.prems [of k a] x by simp
  moreover have "samples H hs N key = 0" by (rule Cons.IH) (rule Cons.prems, rule list.set_intros(2))
  ultimately show ?case unfolding x samples_Cons by simp
qed (simp add: samples_def)

lemma grown_addresses:
  assumes "grown H new m m'"
  shows "snd ` set new = {length (ms_store m)..<length (ms_store m')}" "distinct (map snd new)"
proof -
  have s: "map snd new = rev [length (ms_store m)..<length (ms_store m')]" using assms by (simp add: grown_def)
  show "distinct (map snd new)" unfolding s by simp
  have "set (map snd new) = {length (ms_store m)..<length (ms_store m')}" unfolding s by simp
  then show "snd ` set new = {length (ms_store m)..<length (ms_store m')}" by simp
qed

lemma grown_keeps:
  assumes "grown H new m m'" "\<forall>a \<in> snd ` set L. a < length (ms_store m)" "distinct (map snd L)"
    "\<forall>h \<in> set (ms_store m). tracks H m h"
  shows "distinct (map snd (new @ L))" "\<forall>a \<in> snd ` set (new @ L). a < length (ms_store m')"
    "\<forall>h \<in> set (ms_store m'). tracks H m' h" "samples H (ms_store m') new key = 0"
    "set K \<subseteq> set L \<Longrightarrow> samples H (ms_store m') K key = samples H (ms_store m) K key"
proof -
  note snds = grown_addresses [OF assms(1)]
  have len: "length (ms_store m) \<le> length (ms_store m')" using assms(1) by (simp add: grown_def)
  have "snd ` set new \<inter> snd ` set L = {}" using assms(2) unfolding snds(1) by fastforce
  then show "distinct (map snd (new @ L))" using snds(2) assms(3) by simp
  show "\<forall>a \<in> snd ` set (new @ L). a < length (ms_store m')"
  proof
    fix a assume "a \<in> snd ` set (new @ L)"
    then have "a \<in> snd ` set new \<or> a \<in> snd ` set L" by (simp add: image_Un)
    then show "a < length (ms_store m')"
    proof
      assume "a \<in> snd ` set new"
      then show ?thesis unfolding snds(1) by simp
    next
      assume "a \<in> snd ` set L"
      then show ?thesis using assms(2) len by (meson less_le_trans)
    qed
  qed
  show "\<forall>h \<in> set (ms_store m'). tracks H m' h"
  proof
    fix h assume "h \<in> set (ms_store m')"
    then obtain a where a: "a < length (ms_store m')" "h = ms_store m' ! a" by (metis in_set_conv_nth)
    show "tracks H m' h"
    proof (cases "a < length (ms_store m)")
      case True
      then have "tracks H m (ms_store m ! a)" using assms(4) by simp
      moreover have "hg_hdr (ms_store m' ! a) = hg_hdr (ms_store m ! a)" using assms(1) True by (simp add: grown_def)
      ultimately show ?thesis using assms(1) a by (simp add: grown_def tracks_def)
    next
      case False
      then have "tracks H m (ms_store m' ! a)" using assms(1) a by (simp add: grown_def)
      then show ?thesis using assms(1) a by (simp add: grown_def tracks_def)
    qed
  qed
  show "samples H (ms_store m') new key = 0"
  proof (rule samples_zero)
    fix k a assume "(k, a) \<in> set new"
    then have "snd (k, a) \<in> snd ` set new" by (rule imageI)
    then have "a \<in> {length (ms_store m)..<length (ms_store m')}" unfolding snds(1) by simp
    then show "hdr_TotalCount H (hg_hdr (ms_store m' ! a)) = 0" using assms(1) by (simp add: grown_def)
  qed
  show "samples H (ms_store m') K key = samples H (ms_store m) K key" if "set K \<subseteq> set L"
  proof (rule samples_store)
    fix k a assume "(k, a) \<in> set K"
    then have "snd (k, a) \<in> snd ` set L" using that by blast
    then have "a < length (ms_store m)" using bspec [OF assms(2), of a] by simp
    then show "hg_hdr (ms_store m' ! a) = hg_hdr (ms_store m ! a)" using assms(1) by (simp add: grown_def)
  qed
qed

text \<open>A worker that moves on without being half done before or after.\<close>

lemma pending_update:
  assumes "i < length pcs"
  shows "pending (pcs[i := pc]) key = pending pcs key + (if half_done key pc then 1 else 0) - (if half_done key (pcs ! i) then 1 else 0)"
proof -
  have "pcs = take i pcs @ pcs ! i # drop (Suc i) pcs" using assms by (rule id_take_nth_drop)
  then have "pending pcs key = pending (take i pcs @ pcs ! i # drop (Suc i) pcs) key" by (rule arg_cong)
  then show ?thesis using assms by (simp add: pending_def upd_conv_take_nth_drop)
qed

lemma report_inv_init:
  assumes "2 * 10 ^ 6 \<le> maxLatency"
  shows "report_inv H (reporting_init workers maxLatency now)"
proof -
  have p: "pending (replicate workers Idle) key = 0" for key by (simp add: pending_def filter_empty_conv)
  define s :: "'a reporting" where "s = reporting_init workers maxLatency now"
  have i: "intervals s = []" "ms_Sum (rp_m s) = []" "rp_pcs s = replicate workers Idle" "rp_done s = []"
    "ms_store (rp_m s) = []" "ms_Cur (rp_m s) = []"
    by (simp_all add: s_def reporting_init_def NewMeasurement_def intervals_def)
  have "(1 :: int) \<le> 10 ^ 6" by simp
  then have o: "latency_ok (rp_m s)"
    using assms by (simp only: s_def reporting_init_def NewMeasurement_def latency_ok_def) simp
  have "report_inv H s"
    by (rule report_invI) (simp_all only: i o p, simp_all add: samples_def)
  then show ?thesis unfolding s_def .
qed

lemma samples_mset:
  assumes "mset L = mset L'"
  shows "samples H hs L key = samples H hs L' key"
proof -
  let ?f = "\<lambda>(k, a). hdr_TotalCount H (hg_hdr (hs ! a))"
  have "mset (map ?f (filter (\<lambda>(k, a). k = key) L)) = mset (map ?f (filter (\<lambda>(k, a). k = key) L'))"
    by (simp only: mset_map mset_filter assms)
  then show ?thesis unfolding samples_def by (metis sum_mset_sum_list)
qed

text \<open>A new interval, and entries added to the open one or to those of the run.\<close>

lemma grown_step:
  assumes inv: "report_inv H s" and g: "grown H new (rp_m s) m"
    and s': "rp_m s' = m'" "ms_store m' = ms_store m" "ms_MinLatency m' = ms_MinLatency m" "ms_MaxLatency m' = ms_MaxLatency m"
      "ms_SigFigs m' = ms_SigFigs m" "rp_done s' = rp_done s"
    and e: "mset (intervals s') = mset (newI @ intervals s)" "ms_Sum m' = newS @ ms_Sum (rp_m s)" "mset new = mset (newI @ newS)"
    and d: "distinct (map fst (ms_Sum m'))" "distinct (map fst (ms_Cur m'))"
    and pcs: "\<forall>pc \<in> set (rp_pcs s'). pc_ok (intervals s') (ms_Sum m') pc" "\<And>key. pending (rp_pcs s') key = pending (rp_pcs s) key"
  shows "report_inv H s'"
proof -
  note D = report_invD [OF inv]
  note keep = grown_keeps [OF g D(2,1,6)]
  have set_new: "set newI \<subseteq> set new" "set newS \<subseteq> set new" using mset_eq_setD [OF e(3)] by auto
  have all: "mset (intervals s' @ ms_Sum m') = mset (new @ intervals s @ ms_Sum (rp_m s))"
    using e by simp
  have zero: "samples H (ms_store m') N key = 0" if "set N \<subseteq> set new" for N key
  proof (rule samples_zero)
    fix k a assume "(k, a) \<in> set N"
    then have "snd (k, a) \<in> snd ` set new" using that by blast
    then show "hdr_TotalCount H (hg_hdr (ms_store m' ! a)) = 0"
      using g grown_addresses(1) [OF g] unfolding s'(2) by (simp add: grown_def)
  qed
  have lat: "latency_ok m'" "tracks H m' h = tracks H m h" for h
    using D(5) g s'(3-5) by (simp_all add: latency_ok_def grown_def tracks_def)
  show ?thesis
  proof (rule report_invI; (unfold s'(1,6))?)
    show "distinct (map snd (intervals s' @ ms_Sum m'))"
      using keep(1) arg_cong [OF all, of "image_mset snd"] by (metis mset_eq_imp_distinct_iff mset_map)
    show "\<forall>a \<in> snd ` set (intervals s' @ ms_Sum m'). a < length (ms_store m')"
      using keep(2) mset_eq_setD [OF all] unfolding s'(2) by metis
    show "\<forall>h \<in> set (ms_store m'). tracks H m' h" using keep(3) unfolding s'(2) lat(2) .
    fix key
    have "samples H (ms_store m') (ms_Sum (rp_m s)) key = samples H (ms_store (rp_m s)) (ms_Sum (rp_m s)) key"
      unfolding s'(2) by (rule keep(5)) simp
    then show "samples H (ms_store m') (ms_Sum m') key = int (count_list (rp_done s) key)"
      using zero [OF set_new(2), of key] D(8) [of key] by (simp add: e(2) samples_append)
    have "samples H (ms_store m') (intervals s) key = samples H (ms_store (rp_m s)) (intervals s) key"
      unfolding s'(2) by (rule keep(5)) simp
    then show "samples H (ms_store m') (intervals s') key = int (count_list (rp_done s) key) + pending (rp_pcs s') key"
      using samples_mset [OF e(1), of H "ms_store m'" key] zero [OF set_new(1), of key] D(9) [of key]
      by (simp add: samples_append pcs(2))
  qed (use d pcs lat(1) in simp_all)
qed

lemma pc_ok_mono: "pc_ok I S pc \<Longrightarrow> set I \<subseteq> set I' \<Longrightarrow> set S \<subseteq> set S' \<Longrightarrow> pc_ok I' S' pc"
  by (cases pc) auto

lemma pcs_update:
  assumes "\<forall>pc \<in> set pcs. pc_ok I S pc" "set I \<subseteq> set I'" "set S \<subseteq> set S'" "pc_ok I' S' pc"
  shows "\<forall>pc \<in> set (pcs[i := pc]). pc_ok I' S' pc"
  using assms pc_ok_mono set_update_subset_insert [of pcs i pc] by blast

lemma intervals_cur: "intervals (s\<lparr>rp_m := m, rp_pcs := pcs\<rparr>) = concat (rp_ticks s) @ ms_Cur m"
  by (simp add: intervals_def)

lemma report_inv_getHist:
  assumes "hdr_laws H" "report_inv H s" "getHist H op failed current now (rp_m s) = (a, m)" "i < length (rp_pcs s)"
    and half: "\<And>key. half_done key pc = half_done key (rp_pcs s ! i)"
    and ok: "\<And>I S. (op_key op failed, a) \<in> set (if current then I else S) \<Longrightarrow> pc_ok I S pc"
  shows "report_inv H (s\<lparr>rp_m := m, rp_pcs := (rp_pcs s)[i := pc]\<rparr>)"
proof -
  let ?s' = "s\<lparr>rp_m := m, rp_pcs := (rp_pcs s)[i := pc]\<rparr>"
  note D = report_invD [OF assms(2)]
  define M where "M = (if current then ms_Cur (rp_m s) else ms_Sum (rp_m s))"
  define M' where "M' = (if current then ms_Cur m else ms_Sum m)"
  have dM: "distinct (map fst M)" using D(3,4) by (simp add: M_def)
  obtain new where g: "grown H new (rp_m s) m" and M': "M' = new @ M"
    and other: "if current then ms_Sum m = ms_Sum (rp_m s) else ms_Cur m = ms_Cur (rp_m s)"
    and d: "distinct (map fst M')" and mem: "(op_key op failed, a) \<in> set M'"
    using getHist_grown [OF assms(1,3) M_def M'_def dM D(5)] by blast
  have cur: "ms_Cur m = (if current then new else []) @ ms_Cur (rp_m s)"
    and sum: "ms_Sum m = (if current then [] else new) @ ms_Sum (rp_m s)"
    using M' other by (simp_all add: M_def M'_def split: if_splits)
  have I: "intervals ?s' = concat (rp_ticks s) @ (if current then new else []) @ ms_Cur (rp_m s)"
    unfolding intervals_cur cur ..
  have sub: "set (intervals s) \<subseteq> set (intervals ?s')" "set (ms_Sum (rp_m s)) \<subseteq> set (ms_Sum m)"
    unfolding I sum by (auto simp: intervals_def)
  have pend: "pending ((rp_pcs s)[i := pc]) key = pending (rp_pcs s) key" for key
    by (simp add: pending_update [OF assms(4)] half)
  show ?thesis
  proof (rule grown_step [OF assms(2) g, where m' = m and newI = "if current then new else []" and newS = "if current then [] else new"])
    show "mset (intervals ?s') = mset ((if current then new else []) @ intervals s)"
      unfolding I by (simp add: intervals_def)
    show "ms_Sum m = (if current then [] else new) @ ms_Sum (rp_m s)" by (rule sum)
    show "distinct (map fst (ms_Sum m))" "distinct (map fst (ms_Cur m))"
      using D(3,4) d M' other by (simp_all add: M_def M'_def split: if_splits)
    have "(op_key op failed, a) \<in> set (if current then intervals ?s' else ms_Sum m)"
      using mem M' unfolding I sum by (auto simp: M_def split: if_splits)
    then have "pc_ok (intervals ?s') (ms_Sum m) pc" by (rule ok)
    then show "\<forall>pc \<in> set (rp_pcs ?s'). pc_ok (intervals ?s') (ms_Sum m) pc"
      using pcs_update [OF D(7) sub] by simp
  qed (simp_all add: pend)
qed

text \<open>Recording a value in one of the histograms.\<close>

lemma report_inv_record:
  assumes "hdr_laws H" "report_inv H s" "Histogram_Measure H lan (ms_store (rp_m s) ! a) = Some h" "i < length (rp_pcs s)"
    and a: "(k, a) \<in> set (intervals s @ ms_Sum (rp_m s))" and pc: "\<And>I S. pc_ok I S pc"
    and fin: "\<And>key. int (count_list D key) = int (count_list (rp_done s) key) +
        (if k = key \<and> (k, a) \<in> set (ms_Sum (rp_m s)) then 1 else 0)"
    and half: "\<And>key. pending ((rp_pcs s)[i := pc]) key = pending (rp_pcs s) key +
        (if k = key then if (k, a) \<in> set (ms_Sum (rp_m s)) then -1 else 1 else 0)"
  shows "report_inv H (s\<lparr>rp_m := (rp_m s)\<lparr>ms_store := (ms_store (rp_m s))[a := h]\<rparr>, rp_pcs := (rp_pcs s)[i := pc], rp_done := D\<rparr>)"
proof -
  let ?s' = "s\<lparr>rp_m := (rp_m s)\<lparr>ms_store := (ms_store (rp_m s))[a := h]\<rparr>, rp_pcs := (rp_pcs s)[i := pc], rp_done := D\<rparr>"
  note D = report_invD [OF assms(2)]
  let ?I = "intervals s" and ?S = "ms_Sum (rp_m s)" and ?hs = "ms_store (rp_m s)"
  have lt: "a < length ?hs" using bspec [OF D(2), of a] imageI [OF a, of snd] by simp
  have tr: "tracks H (rp_m s) (?hs ! a)" using D(6) lt by simp
  obtain h' where h': "Histogram_Measure H lan (?hs ! a) = Some h'" "tracks H (rp_m s) h'"
    "hdr_TotalCount H (hg_hdr h') = hdr_TotalCount H (hg_hdr (?hs ! a)) + 1"
    using Histogram_Measure_ok [OF assms(1) tr D(5)] by blast
  have h: "tracks H (rp_m s) h" "hdr_TotalCount H (hg_hdr h) = hdr_TotalCount H (hg_hdr (?hs ! a)) + 1"
    using h' assms(3) by simp_all
  have dist: "distinct (map snd ?I)" "distinct (map snd ?S)" "snd ` set ?I \<inter> snd ` set ?S = {}" using D(1) by simp_all
  have other: "samples H (?hs[a := h]) L key = samples H ?hs L key" if "a \<notin> snd ` set L" for L key
  proof (rule samples_store)
    fix k' b assume "(k', b) \<in> set L"
    then have "b \<noteq> a" using that by force
    then show "hg_hdr (?hs[a := h] ! b) = hg_hdr (?hs ! b)" by simp
  qed
  have inI: "a \<in> snd ` set ?I \<Longrightarrow> a \<notin> snd ` set ?S" "a \<in> snd ` set ?S \<Longrightarrow> a \<notin> snd ` set ?I" using dist(3) by blast+
  have a_in: "a \<in> snd ` set L" if "(k, a) \<in> set L" for L using imageI [OF that, of snd] by simp
  have which: "(k, a) \<in> set ?S \<and> a \<notin> snd ` set ?I \<or> (k, a) \<in> set ?I \<and> (k, a) \<notin> set ?S \<and> a \<notin> snd ` set ?S"
    using a a_in inI by (metis Un_iff set_append)
  have S: "samples H (?hs[a := h]) ?S key = samples H ?hs ?S key + (if k = key \<and> (k, a) \<in> set ?S then 1 else 0)" for key
    using which samples_record [where H = H, OF dist(2) _ lt h(2), of k key] other [of ?S key] by auto
  have I: "samples H (?hs[a := h]) ?I key = samples H ?hs ?I key + (if k = key \<and> (k, a) \<notin> set ?S then 1 else 0)" for key
    using which samples_record [where H = H, OF dist(1) _ lt h(2), of k key] other [of ?I key] by auto
  have ivs: "intervals ?s' = ?I" by (simp add: intervals_def)
  have tracks_eq: "tracks H ((rp_m s)\<lparr>ms_store := x\<rparr>) y = tracks H (rp_m s) y" for x y by (simp add: tracks_def)
  have lat: "latency_ok (rp_m ?s')" using D(5) by (simp add: latency_ok_def)
  have trs: "\<forall>y \<in> set (?hs[a := h]). tracks H (rp_m s) y" using D(6) h(1) set_update_subset_insert [of ?hs a h] by blast
  have pcs: "\<forall>pc \<in> set ((rp_pcs s)[i := pc]). pc_ok ?I ?S pc" by (rule pcs_update [OF D(7) order_refl order_refl pc])
  show ?thesis
  proof (rule report_invI; (unfold ivs)?)
    fix key
    show "samples H (ms_store (rp_m ?s')) (ms_Sum (rp_m ?s')) key = int (count_list (rp_done ?s') key)"
      using S [of key] D(8) [of key] fin [of key] by simp
    show "samples H (ms_store (rp_m ?s')) ?I key = int (count_list (rp_done ?s') key) + pending (rp_pcs ?s') key"
      using I [of key] D(9) [of key] fin [of key] half [of key] by auto
  qed (use D lat trs pcs in \<open>simp_all add: tracks_eq\<close>)
qed

lemma report_inv_idle:
  assumes "report_inv H s" "rp_m s' = (rp_m s)\<lparr>ms_warmUp := b\<rparr>" "rp_done s' = rp_done s" "rp_ticks s' = rp_ticks s"
    and "\<forall>pc \<in> set (rp_pcs s'). pc_ok (intervals s) (ms_Sum (rp_m s)) pc" "\<And>key. pending (rp_pcs s') key = pending (rp_pcs s) key"
  shows "report_inv H s'"
proof -
  have i: "intervals s' = intervals s" using assms(2,4) by (simp add: intervals_def)
  show ?thesis
    by (rule grown_step [OF assms(1) grown_refl assms(2), where newI = "[]" and newS = "[]"])
      (use report_invD(3,4) [OF assms(1)] assms(3,5,6) i in simp_all)
qed

lemma report_inv_tick:
  assumes "hdr_laws H" "report_inv H s" "takeCurMeasurement H now (rp_m s) = (tick, m)"
  shows "report_inv H (s\<lparr>rp_m := m, rp_ticks := rp_ticks s @ [tick]\<rparr>)"
proof -
  let ?m = "(rp_m s)\<lparr>ms_curStartTime := now\<rparr>"
  note D = report_invD [OF assms(2)]
  obtain nxt m1 where s: "seed H now (ms_Sum (rp_m s)) ?m = (nxt, m1)" by (cases "seed H now (ms_Sum (rp_m s)) ?m")
  have "latency_ok ?m" using D(5) by (simp add: latency_ok_def)
  from seed_grown [OF assms(1) s this]
  have g: "grown H nxt ?m m1" "map fst nxt = map fst (ms_Sum (rp_m s))" "ms_Cur m1 = ms_Cur (rp_m s)" "ms_Sum m1 = ms_Sum (rp_m s)"
    by simp_all
  have tick: "tick = ms_Cur (rp_m s)"
    and m: "m = m1\<lparr>ms_Cur := nxt, ms_store := set_windows (ms_curStartTime (rp_m s)) now tick (ms_store m1)\<rparr>"
    using assms(3) s by (auto simp: takeCurMeasurement_def Let_def)
  have "grown H nxt (rp_m s) m1" using g(1) by (simp add: grown_def tracks_def)
  then have "grown H nxt (rp_m s) (m1\<lparr>ms_Cur := nxt\<rparr>)" by (simp add: grown_maps)
  then have gm: "grown H nxt (rp_m s) m"
    unfolding m using grown_windows [where m' = "m1\<lparr>ms_Cur := nxt\<rparr>"] set_windows_same by fastforce
  show ?thesis
  proof (rule grown_step [OF assms(2) gm, where m' = m and newI = nxt and newS = "[]"])
    have "pc_ok (intervals (s\<lparr>rp_m := m, rp_ticks := rp_ticks s @ [tick]\<rparr>)) (ms_Sum m) pc" if "pc \<in> set (rp_pcs s)" for pc
      using bspec [OF D(7) that] by (rule pc_ok_mono) (auto simp: intervals_def tick m g(4))
    then show "\<forall>pc \<in> set (rp_pcs (s\<lparr>rp_m := m, rp_ticks := rp_ticks s @ [tick]\<rparr>)).
        pc_ok (intervals (s\<lparr>rp_m := m, rp_ticks := rp_ticks s @ [tick]\<rparr>)) (ms_Sum m) pc" by simp
  qed (use D(3) g in \<open>simp_all add: m tick intervals_def\<close>)
qed

lemma report_inv_step:
  assumes "hdr_laws H" "report_step H s s'" "report_inv H s"
  shows "report_inv H s'"
  using assms(2)
proof cases
  case (warmUp b)
  then show ?thesis using report_inv_idle [OF assms(3), of s' b] report_invD(7) [OF assms(3)] by simp
next
  case (begin_measure i op failed lan)
  have "rp_m s = (rp_m s)\<lparr>ms_warmUp := ms_warmUp (rp_m s)\<rparr>" by simp
  moreover have "pending ((rp_pcs s)[i := Measuring op failed lan]) key = pending (rp_pcs s) key" for key
    using begin_measure by (simp add: pending_update)
  ultimately show ?thesis
    using begin_measure report_inv_idle [OF assms(3), of s' "ms_warmUp (rp_m s)"]
      pcs_update [OF report_invD(7) [OF assms(3)] order_refl order_refl, of "Measuring op failed lan" i] by simp
next
  case (get_cur i op failed lan now a m)
  show ?thesis unfolding get_cur(1)
    by (rule report_inv_getHist [OF assms(1,3) get_cur(4,2)]) (use get_cur(3) in simp_all)
next
  case (get_sum i op failed lan now a m)
  show ?thesis unfolding get_sum(1)
    by (rule report_inv_getHist [OF assms(1,3) get_sum(4,2)]) (use get_sum(3) in simp_all)
next
  case (record_cur i op failed lan a h)
  have in_i: "(op_key op failed, a) \<in> set (intervals s)"
    using bspec [OF report_invD(7) [OF assms(3)], of "rp_pcs s ! i"] nth_mem [OF record_cur(2)] record_cur(3) by simp
  then have out: "(op_key op failed, a) \<notin> set (ms_Sum (rp_m s))"
    using report_invD(1) [OF assms(3)] by (auto simp: image_iff)
  have "report_inv H (s\<lparr>rp_m := (rp_m s)\<lparr>ms_store := (ms_store (rp_m s))[a := h]\<rparr>,
      rp_pcs := (rp_pcs s)[i := CurDone op failed lan], rp_done := rp_done s\<rparr>)"
    by (rule report_inv_record [OF assms(1,3) record_cur(4,2), where k = "op_key op failed"])
      (use in_i out record_cur(2,3) in \<open>auto simp: pending_update\<close>)
  then show ?thesis using record_cur(1) by simp
next
  case (record_sum i op failed lan a h)
  have in_s: "(op_key op failed, a) \<in> set (ms_Sum (rp_m s))"
    using bspec [OF report_invD(7) [OF assms(3)], of "rp_pcs s ! i"] nth_mem [OF record_sum(2)] record_sum(3) by simp
  show ?thesis unfolding record_sum(1)
    by (rule report_inv_record [OF assms(1,3) record_sum(4,2), where k = "op_key op failed"])
      (use in_s record_sum(2,3) in \<open>auto simp: pending_update\<close>)
next
  case (take_tick now tick m)
  then show ?thesis using report_inv_tick [OF assms(1,3)] by simp
next
  case (write_rows now)
  have "rp_m s = (rp_m s)\<lparr>ms_warmUp := ms_warmUp (rp_m s)\<rparr>" by simp
  then show ?thesis
    using write_rows report_inv_idle [OF assms(3), of s' "ms_warmUp (rp_m s)"] report_invD(7) [OF assms(3)] by simp
qed

lemma report_reach_inv:
  "(report_step H)\<^sup>*\<^sup>* (reporting_init workers maxLatency now) s \<Longrightarrow> hdr_laws H \<Longrightarrow> 2 * 10 ^ 6 \<le> maxLatency \<Longrightarrow> report_inv H s"
  by (induction rule: rtranclp_induct) (auto intro: report_inv_init report_inv_step)

text \<open>Only the histograms of intervals that are over have a window.\<close>

definition windows_inv :: "'h reporting \<Rightarrow> bool" where
  "windows_inv s \<longleftrightarrow> (\<forall>a < length (ms_store (rp_m s)). hg_frozenAt (ms_store (rp_m s) ! a) \<noteq> None \<longrightarrow>
     a \<in> snd ` set (concat (rp_ticks s)))"

definition appended :: "'h Measurement \<Rightarrow> 'h Measurement \<Rightarrow> bool" where
  "appended m m' \<longleftrightarrow> (\<exists>xs. ms_store m' = ms_store m @ xs \<and> (\<forall>h \<in> set xs. hg_frozenAt h = None))"

lemma appended_refl: "appended m m"
  by (simp add: appended_def)

lemma appended_add: "appended m m1 \<Longrightarrow> add_hist H now op M m1 = (M', m') \<Longrightarrow> appended m m'"
  unfolding appended_def add_hist_def NewHistogram_def by auto

lemma appended_getHist:
  assumes "getHist H op failed current now m = (a, m')"
  shows "appended m m'"
proof -
  let ?M = "if current then ms_Cur m else ms_Sum m"
  show ?thesis
  proof (cases "map_of ?M (op_key op failed)")
    case (Some x)
    then show ?thesis using assms by (simp add: getHist_def Let_def appended_refl)
  next
    case None
    obtain M1 m1 where 1: "add_hist H now (op_key op failed) ?M m = (M1, m1)" by (cases "add_hist H now (op_key op failed) ?M m")
    obtain M2 m2 where 2: "add_hist H now (op_key op (\<not> failed)) M1 m1 = (M2, m2)" by (cases "add_hist H now (op_key op (\<not> failed)) M1 m1")
    have a: "appended m m1" "appended m m2" using appended_add [OF appended_refl 1] appended_add [OF _ 2] by simp_all
    have "ms_store m' = ms_store m1 \<or> ms_store m' = ms_store m2"
      using assms None 1 2 by (auto simp: getHist_def Let_def split: if_splits)
    then show ?thesis using a unfolding appended_def by auto
  qed
qed

lemma appended_seed: "seed H now M m = (M', m') \<Longrightarrow> appended m m'"
proof (induction M arbitrary: M' m')
  case Nil
  then show ?case by (simp add: seed_def appended_refl)
next
  case (Cons x M)
  obtain k a where x: "x = (k, a)" by (cases x)
  obtain M1 m1 where s: "seed H now M m = (M1, m1)" by (cases "seed H now M m")
  then have "add_hist H now k M1 m1 = (M', m')" using Cons.prems x by (simp add: seed_def)
  then show ?case by (rule appended_add [OF Cons.IH [OF s]])
qed

lemma set_windows_frozen:
  "hg_frozenAt (set_windows start stop tick hs ! a) \<noteq> None \<Longrightarrow> hg_frozenAt (hs ! a) \<noteq> None \<or> a \<in> snd ` set tick"
proof (induction tick)
  case Nil
  then show ?case by (simp add: set_windows_def)
next
  case (Cons x tick)
  obtain k b where x: "x = (k, b)" by (cases x)
  let ?hs = "set_windows start stop tick hs"
  have e: "set_windows start stop (x # tick) hs = ?hs[b := SetWindow start stop (?hs ! b)]" by (simp add: set_windows_def x)
  show ?case
  proof (cases "b = a")
    case False
    then have "hg_frozenAt (?hs ! a) \<noteq> None" using Cons.prems unfolding e by simp
    then show ?thesis using Cons.IH by auto
  qed (simp add: x)
qed

lemma windows_appended:
  assumes "windows_inv s" "appended (rp_m s) m" "rp_m s' = m" "rp_ticks s' = rp_ticks s"
  shows "windows_inv s'"
proof -
  obtain xs where xs: "ms_store m = ms_store (rp_m s) @ xs" "\<And>h. h \<in> set xs \<Longrightarrow> hg_frozenAt h = None"
    using assms(2) unfolding appended_def by blast
  show ?thesis unfolding windows_inv_def assms(3,4)
  proof (intro allI impI)
    fix a assume a: "a < length (ms_store m)" "hg_frozenAt (ms_store m ! a) \<noteq> None"
    have "a < length (ms_store (rp_m s))"
    proof (rule ccontr)
      assume "\<not> a < length (ms_store (rp_m s))"
      then have "ms_store m ! a \<in> set xs" using a(1) by (simp add: xs(1) nth_append)
      then show False using xs(2) a(2) by simp
    qed
    then show "a \<in> snd ` set (concat (rp_ticks s))" using assms(1) a(2) by (simp add: windows_inv_def xs(1) nth_append)
  qed
qed

lemma windows_record:
  assumes "windows_inv s" "Histogram_Measure H lan (ms_store (rp_m s) ! a) = Some h"
    "ms_store (rp_m s') = (ms_store (rp_m s))[a := h]" "rp_ticks s' = rp_ticks s"
  shows "windows_inv s'"
proof -
  have f: "hg_frozenAt h = hg_frozenAt (ms_store (rp_m s) ! a)"
    using assms(2) by (auto simp: Histogram_Measure_def Let_def bind_eq_Some_conv)
  then have "hg_frozenAt ((ms_store (rp_m s))[a := h] ! b) = hg_frozenAt (ms_store (rp_m s) ! b)" if "b < length (ms_store (rp_m s))" for b
    using that by (cases "b = a") simp_all
  then show ?thesis using assms(1) unfolding windows_inv_def assms(3,4) by simp
qed

lemma windows_tick:
  assumes "windows_inv s" "takeCurMeasurement H now (rp_m s) = (tick, m)"
  shows "windows_inv (s\<lparr>rp_m := m, rp_ticks := rp_ticks s @ [tick]\<rparr>)"
proof -
  let ?m = "(rp_m s)\<lparr>ms_curStartTime := now\<rparr>"
  obtain nxt m1 where s: "seed H now (ms_Sum (rp_m s)) ?m = (nxt, m1)" by (cases "seed H now (ms_Sum (rp_m s)) ?m")
  have m: "m = m1\<lparr>ms_Cur := nxt, ms_store := set_windows (ms_curStartTime (rp_m s)) now tick (ms_store m1)\<rparr>"
    using assms(2) s by (auto simp: takeCurMeasurement_def Let_def)
  have "windows_inv (s\<lparr>rp_m := m1\<rparr>)"
    by (rule windows_appended [OF assms(1), of m1]) (use appended_seed [OF s] in \<open>simp_all add: appended_def\<close>)
  then have w: "a \<in> snd ` set (concat (rp_ticks s))" if "a < length (ms_store m1)" "hg_frozenAt (ms_store m1 ! a) \<noteq> None" for a
    using that unfolding windows_inv_def by simp
  show ?thesis
    unfolding windows_inv_def
  proof (intro allI impI)
    fix a
    assume "a < length (ms_store (rp_m (s\<lparr>rp_m := m, rp_ticks := rp_ticks s @ [tick]\<rparr>)))"
      "hg_frozenAt (ms_store (rp_m (s\<lparr>rp_m := m, rp_ticks := rp_ticks s @ [tick]\<rparr>)) ! a) \<noteq> None"
    then have a: "a < length (ms_store m1)" "hg_frozenAt (set_windows (ms_curStartTime (rp_m s)) now tick (ms_store m1) ! a) \<noteq> None"
      by (simp_all add: m set_windows_same)
    from set_windows_frozen [OF a(2)] show "a \<in> snd ` set (concat (rp_ticks (s\<lparr>rp_m := m, rp_ticks := rp_ticks s @ [tick]\<rparr>)))"
    proof
      assume "hg_frozenAt (ms_store m1 ! a) \<noteq> None"
      from w [OF a(1) this] show ?thesis by (simp add: image_Un)
    next
      assume "a \<in> snd ` set tick"
      then show ?thesis by (simp add: image_Un)
    qed
  qed
qed

lemma windows_inv_step:
  assumes "report_step H s s'" "windows_inv s"
  shows "windows_inv s'"
  using assms(1)
proof cases
  case (get_cur i op failed lan now a m)
  then show ?thesis using windows_appended [OF assms(2) appended_getHist [OF get_cur(4)]] by simp
next
  case (get_sum i op failed lan now a m)
  then show ?thesis using windows_appended [OF assms(2) appended_getHist [OF get_sum(4)]] by simp
next
  case (record_cur i op failed lan a h)
  then show ?thesis using windows_record [OF assms(2) record_cur(4)] by simp
next
  case (record_sum i op failed lan a h)
  then show ?thesis using windows_record [OF assms(2) record_sum(4)] by simp
next
  case (take_tick now tick m)
  then show ?thesis using windows_tick [OF assms(2) take_tick(3)] by simp
qed (use assms(2) in \<open>simp_all add: windows_inv_def\<close>)

lemma windows_reach:
  "(report_step H)\<^sup>*\<^sup>* (reporting_init workers maxLatency now) s \<Longrightarrow> windows_inv s"
proof (induction rule: rtranclp_induct)
  case base
  show ?case by (simp add: windows_inv_def reporting_init_def NewMeasurement_def)
next
  case (step s s')
  then show ?case using windows_inv_step by blast
qed

end
