(* ===== verification/MeasureSpec.thy ===== *)
theory MeasureSpec
  imports MeasureInv
begin

text \<open>What the reports of a run say: the final summary, and the rows of the intervals.\<close>

subsection \<open>A library of histograms\<close>

text \<open>A histogram that keeps its values, to see the laws hold and to run examples.\<close>

type_synonym value_hist = "int \<times> int \<times> int list"

definition list_hdr :: "value_hist hdr" where
  "list_hdr = \<lparr>hdr_New = (\<lambda>lo hi sf. (lo, hi, [])),
     hdr_RecordValue = (\<lambda>v (lo, hi, vs). if lo \<le> v \<and> v \<le> hi then Some (lo, hi, v # vs) else None),
     hdr_TotalCount = (\<lambda>(lo, hi, vs). int (length vs)),
     hdr_LowestTrackableValue = (\<lambda>(lo, hi, vs). lo),
     hdr_HighestTrackableValue = (\<lambda>(lo, hi, vs). hi),
     hdr_ValueAtQuantile = (\<lambda>(lo, hi, vs) q. if vs = [] then 0 else sort vs ! min (length vs - 1) (nat \<lfloor>q * of_nat (length vs) / 100\<rfloor>))\<rparr>"

lemma list_hdr_laws: "hdr_laws list_hdr"
  by (auto simp: hdr_laws_def list_hdr_def)

subsection \<open>No sample is lost\<close>

text \<open>
  C29. Samples.  However the workers and the reporting goroutine interleave, the histograms of the run
  hold exactly the finished measurements, and those of all intervals together, the open one and those
  already reported, the same and one more for each worker between its two recordings; and no
  recording panics, whatever the latency.
\<close>

theorem samples_conserved:
  assumes "hdr_laws H" "2 * 10 ^ 6 \<le> maxLatency" "(report_step H)\<^sup>*\<^sup>* (reporting_init workers maxLatency t0) s"
  shows "samples H (ms_store (rp_m s)) (ms_Sum (rp_m s)) key = int (count_list (rp_done s) key) \<and>
    samples H (ms_store (rp_m s)) (concat (rp_ticks s) @ ms_Cur (rp_m s)) key =
      int (count_list (rp_done s) key) + int (length (filter (half_done key) (rp_pcs s))) \<and>
    (\<forall>op failed lan a. HasCur op failed lan a \<in> set (rp_pcs s) \<or> HasSum op failed lan a \<in> set (rp_pcs s) \<longrightarrow>
       Histogram_Measure H lan (ms_store (rp_m s) ! a) \<noteq> None)"
proof -
  have inv: "report_inv H s" by (rule report_reach_inv [OF assms(3,1,2)])
  note D = report_invD [OF inv]
  have "Histogram_Measure H lan (ms_store (rp_m s) ! a) \<noteq> None"
    if pc: "HasCur op failed lan a \<in> set (rp_pcs s) \<or> HasSum op failed lan a \<in> set (rp_pcs s)" for op failed lan a
  proof -
    have "(op_key op failed, a) \<in> set (intervals s @ ms_Sum (rp_m s))" using D(7) pc by auto
    from imageI [OF this, of snd] have "a < length (ms_store (rp_m s))" using D(2) by (metis snd_conv)
    then have "tracks H (rp_m s) (ms_store (rp_m s) ! a)" using D(6) by simp
    from Histogram_Measure_ok [OF assms(1) this D(5), of lan] show ?thesis by auto
  qed
  then show ?thesis using D(8) [of key] D(9) [of key] unfolding intervals_def pending_def by blast
qed

subsection \<open>The summary\<close>

lemma freeze_all_ok:
  assumes "distinct (map snd M)" "\<And>a. a \<in> snd ` set M \<Longrightarrow> a < length hs \<and> hg_frozenAt (hs ! a) = None"
  shows "\<exists>hs'. freeze_all now M hs = Some hs' \<and> (\<forall>a. hg_hdr (hs' ! a) = hg_hdr (hs ! a)) \<and>
    (\<forall>a \<in> snd ` set M. hg_frozenAt (hs' ! a) = Some now)"
  using assms
proof (induction M arbitrary: hs)
  case (Cons x M)
  obtain k b where x: "x = (k, b)" by (cases x)
  have b: "b < length hs" "hg_frozenAt (hs ! b) = None" "b \<notin> snd ` set M" using Cons.prems(1) Cons.prems(2) [of b] by (simp_all add: x)
  let ?h = "(hs ! b)\<lparr>hg_frozenAt := Some now\<rparr>"
  have f: "Histogram_Freeze now (hs ! b) = Some ?h" using b(2) by (simp add: Histogram_Freeze_def)
  have "\<exists>hs'. freeze_all now M (hs[b := ?h]) = Some hs' \<and> (\<forall>a. hg_hdr (hs' ! a) = hg_hdr (hs[b := ?h] ! a)) \<and>
      (\<forall>a \<in> snd ` set M. hg_frozenAt (hs' ! a) = Some now) \<and> hs' ! b = hs[b := ?h] ! b"
  proof -
    have "\<And>a. a \<in> snd ` set M \<Longrightarrow> a < length (hs[b := ?h]) \<and> hg_frozenAt (hs[b := ?h] ! a) = None"
      using Cons.prems(2) b(3) by (metis image_insert insertCI length_list_update list.set(2) nth_list_update_neq)
    moreover have "freeze_all now M hs1 = Some hs' \<Longrightarrow> b \<notin> snd ` set M \<Longrightarrow> hs' ! b = hs1 ! b" for hs1 hs'
    proof (induction M arbitrary: hs1)
      case (Cons y M)
      obtain j c where y: "y = (j, c)" by (cases y)
      obtain h where h: "freeze_all now M (hs1[c := h]) = Some hs'"
        using Cons.prems(1) by (auto simp: y bind_eq_Some_conv)
      have "c \<noteq> b" "b \<notin> snd ` set M" using Cons.prems(2) by (auto simp: y)
      then show ?case using Cons.IH [OF h] by simp
    qed simp
    ultimately show ?thesis using Cons.IH [of "hs[b := ?h]"] Cons.prems(1) b(3) by (auto simp: x)
  qed
  then obtain hs' where hs': "freeze_all now M (hs[b := ?h]) = Some hs'" "\<forall>a. hg_hdr (hs' ! a) = hg_hdr (hs[b := ?h] ! a)"
    "\<forall>a \<in> snd ` set M. hg_frozenAt (hs' ! a) = Some now" "hs' ! b = hs[b := ?h] ! b" by blast
  have "hg_hdr (hs[b := ?h] ! a) = hg_hdr (hs ! a)" for a using b(1) by (cases "a = b") simp_all
  then have "freeze_all now (x # M) hs = Some hs'" "\<forall>a. hg_hdr (hs' ! a) = hg_hdr (hs ! a)"
    "\<forall>a \<in> snd ` set (x # M). hg_frozenAt (hs' ! a) = Some now"
    using hs' b(1) f by (simp_all add: x)
  then show ?case by blast
qed simp

lemma samples_absent: "key \<notin> fst ` set L \<Longrightarrow> samples H hs L key = 0"
proof (induction L)
  case (Cons x L)
  obtain k b where x: "x = (k, b)" by (cases x)
  have "k \<noteq> key" "samples H hs L key = 0" using Cons by (auto simp: x)
  then show ?case by (simp add: x samples_Cons)
qed (simp add: samples_def)

text \<open>With one histogram for a key, its samples are those of the histogram.\<close>

lemma samples_unique:
  assumes "distinct (map fst L)" "map_of L key = Some a"
  shows "samples H hs L key = hdr_TotalCount H (hg_hdr (hs ! a))"
  using assms
proof (induction L)
  case (Cons x L)
  obtain k b where x: "x = (k, b)" by (cases x)
  show ?case
  proof (cases "k = key")
    case True
    then have "key \<notin> fst ` set L" using Cons.prems(1) by (simp add: x)
    then have "samples H hs L key = 0" by (rule samples_absent)
    then show ?thesis using Cons.prems(2) True by (simp add: x samples_Cons)
  next
    case False
    then show ?thesis using Cons by (simp add: x samples_Cons)
  qed
qed simp

lemma map_of_known:
  assumes "op \<in> fst ` set S"
  obtains a where "map_of S op = Some a" "a \<in> snd ` set S"
proof (cases "map_of S op")
  case None
  then show ?thesis using assms by (simp add: map_of_eq_None_iff)
next
  case (Some a)
  then show ?thesis using imageI [OF map_of_SomeD [OF Some], of snd] that by simp
qed

text \<open>The keys of the run that are not empty are those of the finished measurements.\<close>

lemma summary_keys:
  assumes inv: "report_inv H s" and hs: "\<And>a. hg_hdr (hs ! a) = hg_hdr (ms_store (rp_m s) ! a)"
  defines "S \<equiv> ms_Sum (rp_m s)"
  shows "filter (\<lambda>op. \<not> Histogram_Empty H (hs ! the (map_of S op))) (sort (map fst S)) = sorted_list_of_set (set (rp_done s))"
    "op \<in> set (rp_done s) \<Longrightarrow> hdr_TotalCount H (hg_hdr (hs ! the (map_of S op))) = int (count_list (rp_done s) op)"
proof -
  note D = report_invD [OF inv, folded S_def]
  have count: "hdr_TotalCount H (hg_hdr (hs ! the (map_of S op))) = int (count_list (rp_done s) op)" if "op \<in> fst ` set S" for op
  proof -
    from that obtain a where a: "map_of S op = Some a" by (rule map_of_known)
    then show ?thesis using samples_unique [OF D(3) a, of H "ms_store (rp_m s)"] D(8) [of op] by (simp add: hs)
  qed
  have known: "op \<in> fst ` set S" if "op \<in> set (rp_done s)" for op
  proof (rule ccontr)
    assume "op \<notin> fst ` set S"
    then have "count_list (rp_done s) op = 0" using samples_absent [of op S H "ms_store (rp_m s)"] D(8) [of op] by simp
    then show False using that by (simp add: count_list_0_iff)
  qed
  show "hdr_TotalCount H (hg_hdr (hs ! the (map_of S op))) = int (count_list (rp_done s) op)" if "op \<in> set (rp_done s)"
    using count [OF known [OF that]] .
  let ?L = "filter (\<lambda>op. \<not> Histogram_Empty H (hs ! the (map_of S op))) (sort (map fst S))"
  have "set ?L = set (rp_done s)"
  proof (intro equalityI subsetI)
    fix op assume "op \<in> set ?L"
    then have "op \<in> fst ` set S" "hdr_TotalCount H (hg_hdr (hs ! the (map_of S op))) \<noteq> 0" by (simp_all add: Histogram_Empty_def)
    then have "count_list (rp_done s) op \<noteq> 0" using count by simp
    then show "op \<in> set (rp_done s)" by (simp add: count_list_0_iff)
  next
    fix op assume op: "op \<in> set (rp_done s)"
    then have "int (count_list (rp_done s) op) \<noteq> 0" by (simp add: count_list_0_iff)
    then show "op \<in> set ?L" using known [OF op] count [OF known [OF op]] by (simp add: Histogram_Empty_def)
  qed
  moreover have "sorted ?L" "distinct ?L" using D(3) by (simp_all add: sorted_wrt_filter)
  ultimately show "?L = sorted_list_of_set (set (rp_done s))"
    by (metis sorted_list_of_set.idem_if_sorted_distinct)
qed

text \<open>
  C30. The summary.  At any point of a run, freezing for the first time does not panic, and the summary
  then has one line for each kind of measurement that was finished, in order, with their exact number,
  whatever was reported in between; it no longer depends on the clock.
\<close>

theorem summary_exact:
  assumes "hdr_laws H" "2 * 10 ^ 6 \<le> maxLatency" "(report_step H)\<^sup>*\<^sup>* (reporting_init workers maxLatency t0) s"
  shows "\<exists>m. Measurement_Freeze stop (rp_m s) = Some m \<and>
    (\<forall>now. map (\<lambda>o'. (os_Transaction o', os_Status o', os_Count o')) (Measurement_Summary H now m) =
       map (\<lambda>key. (ToUpper (fst (splitOpStatus key)), snd (splitOpStatus key), int (count_list (rp_done s) key)))
         (sorted_list_of_set (set (rp_done s)))) \<and>
    (\<forall>now now'. Measurement_Summary H now m = Measurement_Summary H now' m)"
proof -
  let ?S = "ms_Sum (rp_m s)" and ?hs = "ms_store (rp_m s)"
  have inv: "report_inv H s" by (rule report_reach_inv [OF assms(3,1,2)])
  have w: "windows_inv s" by (rule windows_reach [OF assms(3)])
  note D = report_invD [OF inv]
  have S: "distinct (map snd ?S)" using D(1) by simp
  have "a < length ?hs \<and> hg_frozenAt (?hs ! a) = None" if a: "a \<in> snd ` set ?S" for a
  proof
    show l: "a < length ?hs" using D(2) a by (metis Un_iff image_Un set_append)
    have "snd ` set (intervals s) \<inter> snd ` set ?S = {}" using D(1) by simp
    moreover have "snd ` set (concat (rp_ticks s)) \<subseteq> snd ` set (intervals s)" by (intro image_mono) (simp add: intervals_def)
    ultimately have "a \<notin> snd ` set (concat (rp_ticks s))" using a by blast
    then show "hg_frozenAt (?hs ! a) = None" using w l unfolding windows_inv_def by blast
  qed
  from freeze_all_ok [OF S this, of stop] obtain hs where hs: "freeze_all stop ?S ?hs = Some hs"
    "\<And>a. hg_hdr (hs ! a) = hg_hdr (?hs ! a)" "\<And>a. a \<in> snd ` set ?S \<Longrightarrow> hg_frozenAt (hs ! a) = Some stop" by blast
  define m where "m = (rp_m s)\<lparr>ms_store := hs\<rparr>"
  have m: "Measurement_Freeze stop (rp_m s) = Some m" using hs(1) by (simp add: Measurement_Freeze_def m_def)
  have sum: "Measurement_Summary H now m =
      map (\<lambda>op. op_summary op (GetInfo H now (hs ! the (map_of ?S op)))) (sorted_list_of_set (set (rp_done s)))" for now
    using summary_keys(1) [OF inv hs(2)] by (simp add: Measurement_Summary_def Let_def m_def)
  have frozen: "hg_frozenAt (hs ! the (map_of ?S op)) = Some stop" if "op \<in> set (rp_done s)" for op
  proof -
    have "op \<in> set (filter (\<lambda>op. \<not> Histogram_Empty H (hs ! the (map_of ?S op))) (sort (map fst ?S)))"
      using summary_keys(1) [OF inv hs(2)] that by simp
    then have "op \<in> fst ` set ?S" by simp
    then obtain a where "map_of ?S op = Some a" "a \<in> snd ` set ?S" by (rule map_of_known)
    then show ?thesis using hs(3) by simp
  qed
  have "GetInfo H now (hs ! the (map_of ?S op)) = GetInfo H now' (hs ! the (map_of ?S op))" if "op \<in> set (rp_done s)" for op now now'
    using frozen [OF that] by (simp add: GetInfo_def Let_def)
  then have clock: "Measurement_Summary H now m = Measurement_Summary H now' m" for now now'
    unfolding sum by (intro map_cong refl) (simp, metis)
  have "(os_Transaction o', os_Status o', os_Count o') = (ToUpper (fst (splitOpStatus op)), snd (splitOpStatus op), int (count_list (rp_done s) op))"
    if "op \<in> set (rp_done s)" "o' = op_summary op (GetInfo H now (hs ! the (map_of ?S op)))" for op o' now
    using that(2) summary_keys(2) [OF inv hs(2) that(1)]
    by (simp add: op_summary_def GetInfo_def Let_def split_beta)
  then have "map (\<lambda>o'. (os_Transaction o', os_Status o', os_Count o')) (Measurement_Summary H now m) =
      map (\<lambda>key. (ToUpper (fst (splitOpStatus key)), snd (splitOpStatus key), int (count_list (rp_done s) key)))
        (sorted_list_of_set (set (rp_done s)))" for now
    unfolding sum map_map by (intro map_cong refl) (simp add: comp_def)
  then show ?thesis using m clock by blast
qed

subsection \<open>The rows of the intervals\<close>

definition op_keys :: "hist_map \<Rightarrow> string set" where
  "op_keys M = fst ` set M"

lemma add_hist_keys: "add_hist H now op M m = (M', m') \<Longrightarrow> op_keys M' = insert op (op_keys M) \<and> ms_Cur m' = ms_Cur m \<and> ms_Sum m' = ms_Sum m"
  by (auto simp: add_hist_def op_keys_def)

lemma getHist_keys:
  assumes "getHist H op failed current now m = (a, m')"
  shows "op_keys (ms_Cur m) \<subseteq> op_keys (ms_Cur m')" "op_keys (ms_Sum m) \<subseteq> op_keys (ms_Sum m')"
proof -
  let ?M = "if current then ms_Cur m else ms_Sum m"
  obtain M1 m1 where 1: "add_hist H now (op_key op failed) ?M m = (M1, m1)" by (cases "add_hist H now (op_key op failed) ?M m")
  obtain M2 m2 where 2: "add_hist H now (op_key op (\<not> failed)) M1 m1 = (M2, m2)" by (cases "add_hist H now (op_key op (\<not> failed)) M1 m1")
  note keys = add_hist_keys [OF 1] add_hist_keys [OF 2]
  show "op_keys (ms_Cur m) \<subseteq> op_keys (ms_Cur m')" "op_keys (ms_Sum m) \<subseteq> op_keys (ms_Sum m')"
    using assms keys by (auto simp: getHist_def Let_def 1 2 split: option.splits if_splits)
qed

lemma seed_keys: "seed H now M m = (M', m') \<Longrightarrow> op_keys M' = op_keys M \<and> ms_Sum m' = ms_Sum m"
proof (induction M arbitrary: M' m')
  case (Cons x M)
  obtain k a where x: "x = (k, a)" by (cases x)
  obtain M1 m1 where s: "seed H now M m = (M1, m1)" by (cases "seed H now M m")
  then have "add_hist H now k M1 m1 = (M', m')" using Cons.prems x by (simp add: seed_def)
  from add_hist_keys [OF this] Cons.IH [OF s] show ?case by (simp add: x op_keys_def)
qed (simp add: seed_def)

lemma take_keys:
  assumes "takeCurMeasurement H now m = (tick, m')"
  shows "tick = ms_Cur m" "op_keys (ms_Cur m') = op_keys (ms_Sum m)" "ms_Sum m' = ms_Sum m"
proof -
  let ?m = "m\<lparr>ms_curStartTime := now\<rparr>"
  obtain nxt m1 where s: "seed H now (ms_Sum m) ?m = (nxt, m1)" by (cases "seed H now (ms_Sum m) ?m")
  have r: "tick = ms_Cur m" "m' = m1\<lparr>ms_Cur := nxt, ms_store := set_windows (ms_curStartTime m) now (ms_Cur m) (ms_store m1)\<rparr>"
    using assms unfolding takeCurMeasurement_def Let_def s by auto
  show "tick = ms_Cur m" "op_keys (ms_Cur m') = op_keys (ms_Sum m)" "ms_Sum m' = ms_Sum m"
    using r seed_keys [OF s] by (simp_all add: op_keys_def)
qed

text \<open>A key of the run stays, and every interval after the next one has it.\<close>

definition key_kept :: "string \<Rightarrow> nat \<Rightarrow> 'h reporting \<Rightarrow> bool" where
  "key_kept key n s \<longleftrightarrow> key \<in> op_keys (ms_Sum (rp_m s)) \<and> n \<le> length (rp_ticks s) \<and>
     (n < length (rp_ticks s) \<longrightarrow> key \<in> op_keys (ms_Cur (rp_m s))) \<and>
     (\<forall>j \<in> {n<..<length (rp_ticks s)}. key \<in> op_keys (rp_ticks s ! j))"

lemma key_kept_step:
  assumes "report_step H s s'" "key_kept key n s"
  shows "key_kept key n s'"
  using assms(1)
proof cases
  case (get_cur i op failed lan now a m)
  then show ?thesis using assms(2) getHist_keys [OF get_cur(4)] unfolding key_kept_def by auto
next
  case (get_sum i op failed lan now a m)
  then show ?thesis using assms(2) getHist_keys [OF get_sum(4)] unfolding key_kept_def by auto
next
  case (take_tick now tick m)
  have "key \<in> op_keys ((rp_ticks s @ [tick]) ! j)" if "j \<in> {n<..<Suc (length (rp_ticks s))}" for j
    using assms(2) that take_keys(1) [OF take_tick(3)] unfolding key_kept_def
    by (cases "j = length (rp_ticks s)") (auto simp: nth_append)
  then show ?thesis using assms(2) take_keys(2,3) [OF take_tick(3)] take_tick(1) unfolding key_kept_def by simp
qed (use assms(2) in \<open>simp_all add: key_kept_def\<close>)

text \<open>What a row is about.\<close>

definition row_name :: "string \<Rightarrow> string \<times> string" where
  "row_name key = (ToUpper (fst (splitOpStatus key)), snd (splitOpStatus key))"

definition names :: "(string \<times> string \<times> HistInfo) list \<Rightarrow> (string \<times> string) list" where
  "names rows = map (\<lambda>(name, status, info). (name, status)) rows"

definition rows_inv :: "'h reporting \<Rightarrow> bool" where
  "rows_inv s \<longleftrightarrow> length (rp_rows s) \<le> length (rp_ticks s) \<and>
     (\<forall>j < length (rp_rows s). names (rp_rows s ! j) = map row_name (sort (map fst (rp_ticks s ! j))))"

lemma names_tick: "names (tick_rows H now tick m) = map row_name (sort (map fst tick))"
  by (simp add: names_def tick_rows_def row_name_def Let_def split_beta comp_def)

lemma rows_inv_step:
  assumes "report_step H s s'" "rows_inv s"
  shows "rows_inv s'"
  using assms(1)
proof cases
  case (take_tick now tick m)
  then show ?thesis using assms(2) by (simp add: rows_inv_def nth_append)
next
  case (write_rows now)
  then show ?thesis using assms(2) by (auto simp: rows_inv_def nth_append names_tick less_Suc_eq)
qed (use assms(2) in \<open>simp_all add: rows_inv_def\<close>)

lemma rows_reach:
  "(report_step H)\<^sup>*\<^sup>* (reporting_init workers maxLatency t0) s \<Longrightarrow> rows_inv s"
proof (induction rule: rtranclp_induct)
  case base
  show ?case by (simp add: rows_inv_def reporting_init_def)
next
  case (step s s')
  then show ?case using rows_inv_step by blast
qed

text \<open>
  C31. Rows.  When a kind of measurement has been recorded for the run, it has a row in every tick
  after the next one, idle or not.
\<close>

theorem rows_from_then_on:
  assumes "(report_step H)\<^sup>*\<^sup>* (reporting_init workers maxLatency t0) s" "(report_step H)\<^sup>*\<^sup>* s s'"
    and "key \<in> fst ` set (ms_Sum (rp_m s))" "length (rp_ticks s) < j" "j < length (rp_rows s')"
  shows "\<exists>info. (ToUpper (fst (splitOpStatus key)), snd (splitOpStatus key), info) \<in> set (rp_rows s' ! j)"
proof -
  have "key_kept key (length (rp_ticks s)) s" using assms(3) by (simp add: key_kept_def op_keys_def)
  with assms(2) have k: "key_kept key (length (rp_ticks s)) s'"
  proof (induction rule: rtranclp_induct)
    case (step y z)
    then show ?case using key_kept_step by blast
  qed simp
  have r: "rows_inv s'" by (rule rows_reach [OF rtranclp_trans [OF assms(1,2)]])
  then have "j < length (rp_ticks s')" using assms(5) by (simp add: rows_inv_def)
  then have "key \<in> op_keys (rp_ticks s' ! j)" using k assms(4) by (simp add: key_kept_def)
  then have "row_name key \<in> set (names (rp_rows s' ! j))" using r assms(5) by (simp add: rows_inv_def op_keys_def)
  then show ?thesis by (auto simp: names_def row_name_def image_iff)
qed

lemma hi_Count_GetInfo: "hi_Count (GetInfo H now h) = hdr_TotalCount H (hg_hdr h)"
  by (simp add: GetInfo_def Let_def)

text \<open>A worker that is overtaken by the ticks: the states of its run.\<close>

definition hst :: "int list \<Rightarrow> int \<Rightarrow> int option \<Rightarrow> value_hist Histogram" where
  "hst vs start fr = \<lparr>hg_hdr = (10 ^ 6, 300 * 10 ^ 9, vs), hg_sum = sum_list vs, hg_startTime = start, hg_frozenAt = fr\<rparr>"

definition msr :: "hist_map \<Rightarrow> hist_map \<Rightarrow> int \<Rightarrow> value_hist Histogram list \<Rightarrow> value_hist Measurement" where
  "msr cur S start store = \<lparr>ms_warmUp = False, ms_MinLatency = 10 ^ 6, ms_MaxLatency = 300 * 10 ^ 9, ms_SigFigs = 3,
     ms_Cur = cur, ms_Sum = S, ms_curStartTime = start, ms_store = store\<rparr>"

definition rep :: "value_hist Measurement \<Rightarrow> measure_pc \<Rightarrow> hist_map list \<Rightarrow> (string \<times> string \<times> HistInfo) list list \<Rightarrow> string list \<Rightarrow>
    value_hist reporting" where
  "rep m pc ticks rows fin = \<lparr>rp_m = m, rp_pcs = [pc], rp_ticks = ticks, rp_rows = rows, rp_done = fin\<rparr>"

definition q_map :: "nat \<Rightarrow> hist_map" where
  "q_map a = [(''q_ERR'', Suc a), (''q'', a)]"

definition late :: "(string \<times> string \<times> HistInfo) list \<Rightarrow> value_hist reporting" where
  "late rows = rep (msr [] (q_map 2) 20 [hst [5 * 10 ^ 6] 0 (Some 10), hst [] 0 (Some 10), hst [5 * 10 ^ 6] 21 None, hst [] 21 None])
     Idle [q_map 0, []] [rows, []] [''q'']"

lemmas run_simps = hst_def msr_def rep_def q_map_def getHist_def add_hist_def op_key_def NewHistogram_def Let_def
  Histogram_Measure_def takeCurMeasurement_def seed_def set_windows_def SetWindow_def list_hdr_def

lemma late_run:
  "\<exists>rows. (report_step list_hdr)\<^sup>*\<^sup>* (reporting_init 1 (300 * 10 ^ 9) 0) (late rows) \<and>
     map (\<lambda>(name, status, info). (name, status, hi_Count info)) rows = [(''Q'', ''ok'', 0), (''Q'', ''error'', 0)]"
proof -
  let ?s = "report_step list_hdr" and ?q = "\<lambda>f. f ''q'' False (5 * 10 ^ 6)"
  define m1 where "m1 = msr (q_map 0) [] 0 [hst [] 1 None, hst [] 1 None]"
  define m2 where "m2 = msr [] [] 10 [hst [] 0 (Some 10), hst [] 0 (Some 10)]"
  define m3 where "m3 = msr [] [] 10 [hst [5 * 10 ^ 6] 0 (Some 10), hst [] 0 (Some 10)]"
  define m4 where "m4 = msr [] [] 20 [hst [5 * 10 ^ 6] 0 (Some 10), hst [] 0 (Some 10)]"
  define m5 where "m5 = msr [] (q_map 2) 20 [hst [5 * 10 ^ 6] 0 (Some 10), hst [] 0 (Some 10), hst [] 21 None, hst [] 21 None]"
  define R where "R = tick_rows list_hdr 10 (q_map 0) m2"
  have i: "reporting_init 1 (300 * 10 ^ 9) 0 = rep (msr [] [] 0 []) Idle [] [] []"
    by (simp add: reporting_init_def NewMeasurement_def run_simps)
  have "?s (rep (msr [] [] 0 []) Idle [] [] []) (rep (msr [] [] 0 []) (Measuring ''q'' False (5 * 10 ^ 6)) [] [] [])"
    using begin_measure [of 0 "rep (msr [] [] 0 []) Idle [] [] []" list_hdr "''q''" False "5 * 10 ^ 6"] by (simp add: rep_def msr_def)
  moreover have "?s (rep (msr [] [] 0 []) (Measuring ''q'' False (5 * 10 ^ 6)) [] [] []) (rep m1 (HasCur ''q'' False (5 * 10 ^ 6) 0) [] [] [])"
    using get_cur [of 0 "rep (msr [] [] 0 []) (Measuring ''q'' False (5 * 10 ^ 6)) [] [] []" "''q''" False "5 * 10 ^ 6" list_hdr 1 0 m1]
    by (simp add: m1_def run_simps)
  moreover have "?s (rep m1 (HasCur ''q'' False (5 * 10 ^ 6) 0) [] [] []) (rep m2 (HasCur ''q'' False (5 * 10 ^ 6) 0) [q_map 0] [] [])"
    using take_tick [of "rep m1 (HasCur ''q'' False (5 * 10 ^ 6) 0) [] [] []" list_hdr 10 "q_map 0" m2]
    by (simp add: m1_def m2_def run_simps)
  moreover have "?s (rep m2 (HasCur ''q'' False (5 * 10 ^ 6) 0) [q_map 0] [] []) (rep m2 (HasCur ''q'' False (5 * 10 ^ 6) 0) [q_map 0] [R] [])"
    using write_rows [of "rep m2 (HasCur ''q'' False (5 * 10 ^ 6) 0) [q_map 0] [] []" list_hdr 10] by (simp add: rep_def R_def)
  moreover have "?s (rep m2 (HasCur ''q'' False (5 * 10 ^ 6) 0) [q_map 0] [R] []) (rep m3 (CurDone ''q'' False (5 * 10 ^ 6)) [q_map 0] [R] [])"
    using record_cur [of 0 "rep m2 (HasCur ''q'' False (5 * 10 ^ 6) 0) [q_map 0] [R] []" "''q''" False "5 * 10 ^ 6" 0 list_hdr "hst [5 * 10 ^ 6] 0 (Some 10)"]
    by (simp add: m2_def m3_def run_simps wrap64_id)
  moreover have "?s (rep m3 (CurDone ''q'' False (5 * 10 ^ 6)) [q_map 0] [R] []) (rep m4 (CurDone ''q'' False (5 * 10 ^ 6)) [q_map 0, []] [R] [])"
    using take_tick [of "rep m3 (CurDone ''q'' False (5 * 10 ^ 6)) [q_map 0] [R] []" list_hdr 20 "[]" m4]
    by (simp add: m3_def m4_def run_simps)
  moreover have "?s (rep m4 (CurDone ''q'' False (5 * 10 ^ 6)) [q_map 0, []] [R] []) (rep m4 (CurDone ''q'' False (5 * 10 ^ 6)) [q_map 0, []] [R, []] [])"
    using write_rows [of "rep m4 (CurDone ''q'' False (5 * 10 ^ 6)) [q_map 0, []] [R] []" list_hdr 20] by (simp add: rep_def tick_rows_def)
  moreover have "?s (rep m4 (CurDone ''q'' False (5 * 10 ^ 6)) [q_map 0, []] [R, []] []) (rep m5 (HasSum ''q'' False (5 * 10 ^ 6) 2) [q_map 0, []] [R, []] [])"
    using get_sum [of 0 "rep m4 (CurDone ''q'' False (5 * 10 ^ 6)) [q_map 0, []] [R, []] []" "''q''" False "5 * 10 ^ 6" list_hdr 21 2 m5]
    by (simp add: m4_def m5_def run_simps)
  moreover have "?s (rep m5 (HasSum ''q'' False (5 * 10 ^ 6) 2) [q_map 0, []] [R, []] []) (late R)"
    using record_sum [of 0 "rep m5 (HasSum ''q'' False (5 * 10 ^ 6) 2) [q_map 0, []] [R, []] []" "''q''" False "5 * 10 ^ 6" 2 list_hdr "hst [5 * 10 ^ 6] 21 None"]
    by (simp add: m5_def late_def run_simps wrap64_id)
  ultimately have "?s\<^sup>*\<^sup>* (reporting_init 1 (300 * 10 ^ 9) 0) (late R)"
    unfolding i by (meson converse_rtranclp_into_rtranclp rtranclp.rtrancl_refl)
  moreover have "map (\<lambda>(name, status, info). (name, status, hi_Count info)) R = [(''Q'', ''ok'', 0), (''Q'', ''error'', 0)]"
  proof -
    have "sort (map fst (q_map 0)) = [''q'', ''q_ERR'']" by code_simp
    moreover have "splitOpStatus ''q'' = (''q'', ''ok'')" "splitOpStatus ''q_ERR'' = (''q'', ''error'')" "ToUpper ''q'' = ''Q''" by code_simp+
    ultimately show ?thesis by (simp add: R_def tick_rows_def Let_def hi_Count_GetInfo) (simp add: q_map_def m2_def run_simps)
  qed
  ultimately show ?thesis by (intro exI [of _ R] conjI)
qed


lemma samples_conserved_witness:
  "\<exists>rows. samples list_hdr (ms_store (rp_m (late rows))) (ms_Sum (rp_m (late rows))) ''q'' = 1 \<and>
     samples list_hdr (ms_store (rp_m (late rows))) (concat (rp_ticks (late rows)) @ ms_Cur (rp_m (late rows))) ''q'' = 1"
proof -
  obtain rows where r: "(report_step list_hdr)\<^sup>*\<^sup>* (reporting_init 1 (300 * 10 ^ 9) 0) (late rows)" using late_run by blast
  have "rp_done (late rows) = [''q'']" "rp_pcs (late rows) = [Idle]" by (simp_all add: late_def rep_def)
  then show ?thesis using samples_conserved [OF list_hdr_laws _ r, of "''q''"] by (intro exI [of _ rows]) simp
qed

lemma summary_exact_witness:
  "\<exists>rows m. Measurement_Freeze 50 (rp_m (late rows)) = Some m \<and>
     map (\<lambda>o'. (os_Transaction o', os_Status o', os_Count o')) (Measurement_Summary list_hdr 60 m) = [(''Q'', ''ok'', 1)]"
proof -
  obtain rows where r: "(report_step list_hdr)\<^sup>*\<^sup>* (reporting_init 1 (300 * 10 ^ 9) 0) (late rows)" using late_run by blast
  have d: "rp_done (late rows) = [''q'']" by (simp add: late_def rep_def)
  have s: "splitOpStatus ''q'' = (''q'', ''ok'')" "ToUpper ''q'' = ''Q''" by code_simp+
  obtain m where "Measurement_Freeze 50 (rp_m (late rows)) = Some m"
    "map (\<lambda>o'. (os_Transaction o', os_Status o', os_Count o')) (Measurement_Summary list_hdr 60 m) =
      map (\<lambda>key. (ToUpper (fst (splitOpStatus key)), snd (splitOpStatus key), int (count_list (rp_done (late rows)) key)))
        (sorted_list_of_set (set (rp_done (late rows))))"
    using summary_exact [OF list_hdr_laws _ r, of 50] by auto
  then show ?thesis by (intro exI [of _ rows] exI [of _ m]) (simp add: d s)
qed

text \<open>The run goes on for two ticks.\<close>

lemma rows_from_then_on_witness:
  "\<exists>rows s. (report_step list_hdr)\<^sup>*\<^sup>* (late rows) s \<and> length (rp_rows s) = 4 \<and>
     (\<exists>info. (''Q'', ''ok'', info) \<in> set (rp_rows s ! 3))"
proof -
  let ?s = "report_step list_hdr"
  obtain rows where r: "?s\<^sup>*\<^sup>* (reporting_init 1 (300 * 10 ^ 9) 0) (late rows)" using late_run by blast
  have tick: "?s s (s\<lparr>rp_m := snd (takeCurMeasurement list_hdr now (rp_m s)), rp_ticks := rp_ticks s @ [fst (takeCurMeasurement list_hdr now (rp_m s))]\<rparr>)"
    if "length (rp_rows s) = length (rp_ticks s)" for s now
    by (rule take_tick [OF that]) simp
  have one: "\<exists>s'. ?s\<^sup>*\<^sup>* s s' \<and> length (rp_rows s') = Suc (length (rp_rows s)) \<and> length (rp_ticks s') = Suc (length (rp_ticks s))"
    if "length (rp_rows s) = length (rp_ticks s)" for s
  proof -
    note 1 = tick [OF that, of 0]
    define t where "t = s\<lparr>rp_m := snd (takeCurMeasurement list_hdr 0 (rp_m s)), rp_ticks := rp_ticks s @ [fst (takeCurMeasurement list_hdr 0 (rp_m s))]\<rparr>"
    define u where "u = t\<lparr>rp_rows := rp_rows t @ [tick_rows list_hdr 0 (rp_ticks t ! length (rp_rows t)) (rp_m t)]\<rparr>"
    have 2: "?s t u" unfolding u_def by (rule write_rows) (simp add: t_def that)
    have "?s\<^sup>*\<^sup>* s t" using 1 unfolding t_def by (rule r_into_rtranclp)
    then have "?s\<^sup>*\<^sup>* s u" using 2 by (rule rtranclp.rtrancl_into_rtrancl)
    moreover have "length (rp_rows u) = Suc (length (rp_rows s))" "length (rp_ticks u) = Suc (length (rp_ticks s))"
      by (simp_all add: u_def t_def)
    ultimately show ?thesis by blast
  qed
  have "length (rp_rows (late rows)) = length (rp_ticks (late rows))" by (simp add: late_def rep_def)
  from one [OF this] obtain s1 where s1: "?s\<^sup>*\<^sup>* (late rows) s1" "length (rp_rows s1) = 3" "length (rp_ticks s1) = 3"
    by (auto simp: late_def rep_def)
  from one [of s1] s1(2,3) obtain s2 where s2: "?s\<^sup>*\<^sup>* s1 s2" "length (rp_rows s2) = 4" by auto
  have run: "?s\<^sup>*\<^sup>* (late rows) s2" by (rule rtranclp_trans [OF s1(1) s2(1)])
  have "splitOpStatus ''q'' = (''q'', ''ok'')" "ToUpper ''q'' = ''Q''" by code_simp+
  moreover have "''q'' \<in> fst ` set (ms_Sum (rp_m (late rows)))" "length (rp_ticks (late rows)) < 3"
    by (simp_all add: late_def rep_def msr_def q_map_def)
  ultimately have "\<exists>info. (''Q'', ''ok'', info) \<in> set (rp_rows s2 ! 3)"
    using rows_from_then_on [OF r run, of "''q''" 3] s2(2) by simp
  then show ?thesis using run s2(2) by blast
qed

end
