(* ===== verification/TpccPlpgsql.thy ===== *)
theory TpccPlpgsql
  imports TpccProc TpccDelInv
begin

text \<open>
  The PL/pgSQL procedures of \<open>tpcc/procs_pg.go\<close> on the tables.  A variable that may be \<open>NULL\<close> is an
  option; \<open>SELECT INTO\<close> takes the first row, or \<open>NULL\<close>s.  A procedure ends, raises an exception, which
  undoes everything, or writes a \<open>NULL\<close> where the rows of the model hold none.
\<close>

datatype stop = Raises goerr | StoresNull

type_synonym proc = "db \<Rightarrow> stop + db"

text \<open>
  What the server does with values: the text of a \<open>NUMERIC\<close> amount of cents and of a timestamp.
\<close>

record Pg =
  pg_numeric :: "int \<Rightarrow> string"
  pg_timestamp :: "string \<Rightarrow> string"

definition raise :: "string \<Rightarrow> stop + 'a" where
  "raise msg = Inl (Raises [PqError ''P0001'' msg])"

definition head_of :: "'a list \<Rightarrow> 'a option" where
  "head_of rs = (case rs of [] \<Rightarrow> None | r # _ \<Rightarrow> Some r)"

definition after_proc :: "stop + 'a \<Rightarrow> ('a \<Rightarrow> stop + 'b) \<Rightarrow> stop + 'b" where
  "after_proc r k = (case r of Inl e \<Rightarrow> Inl e | Inr x \<Rightarrow> k x)"

text \<open>A statement of the model inside a procedure.\<close>

definition perform :: "'a stmt \<Rightarrow> db \<Rightarrow> ('a \<Rightarrow> proc) \<Rightarrow> stop + db" where
  "perform st t k = (case st t of Inl e \<Rightarrow> Inl (Raises e) | Inr (x, t) \<Rightarrow> k x t)"

text \<open>Rounding to the two decimals of a column, halves away from zero, and a value in cents.\<close>

definition numeric_cents :: "rat \<Rightarrow> int" where
  "numeric_cents x = (if x < 0 then - \<lfloor>- x * 100 + 1 / 2\<rfloor> else \<lfloor>x * 100 + 1 / 2\<rfloor>)"

subsection \<open>New-Order\<close>

text \<open>The first pass: the prices, and whether some item is -1.\<close>

fun procNewOrder_prices :: "int list \<Rightarrow> db \<Rightarrow> rat list \<Rightarrow> bool \<Rightarrow> stop + rat list \<times> bool" where
  "procNewOrder_prices [] t prices rollback = Inr (prices, rollback)"
| "procNewOrder_prices (iid # ids) t prices rollback =
     (if iid = - 1 then procNewOrder_prices ids t (prices @ [0]) True
      else (case filter (\<lambda>r. i_id r = iid) (items t) of
          [] \<Rightarrow> raise ''item not found''
        | r # _ \<Rightarrow> procNewOrder_prices ids t (prices @ [of_int (i_price r) / 100]) rollback))"

text \<open>\<open>p_ol_quantity[i]::NUMERIC * v_prices[i] * (1 + v_w_tax + v_d_tax) * (1 - v_c_discount)\<close>.\<close>

definition proc_amount :: "int \<Rightarrow> rat \<Rightarrow> int \<Rightarrow> int \<Rightarrow> int \<Rightarrow> rat" where
  "proc_amount quantity price wTax dTax discount =
     of_int quantity * price * (1 + of_int wTax / 10000 + of_int dTax / 10000) * (1 - of_int discount / 10000)"

text \<open>One line of the second pass; \<open>rates\<close> are the discount and the tax of the warehouse, if found.\<close>

definition procNewOrder_line ::
  "int \<Rightarrow> int \<Rightarrow> int \<Rightarrow> int \<Rightarrow> (int \<times> int) option \<Rightarrow> int \<Rightarrow> int \<Rightarrow> int \<Rightarrow> int \<Rightarrow> rat \<Rightarrow> proc" where
  "procNewOrder_line w d oid dTax rates i supply iid quantity price t =
     (let row = head_of (filter (\<lambda>r. s_w_id r = supply \<and> s_i_id r = iid) (stocks t));
          t = (case row of
                 None \<Rightarrow> t
               | Some r \<Rightarrow>
                   let q = s_quantity r - quantity;
                       q = (if q < 10 then q + 91 else q);
                       remote = (if supply \<noteq> w then 1 else 0)
                   in t\<lparr>stocks := set_where (\<lambda>r. s_i_id r = iid \<and> s_w_id r = supply)
                        (\<lambda>r. r\<lparr>s_quantity := q, s_ytd := s_ytd r + quantity, s_order_cnt := s_order_cnt r + 1,
                           s_remote_cnt := s_remote_cnt r + remote\<rparr>) (stocks t)\<rparr>);
          info = Option.bind row (\<lambda>r. go_index (s_dist r) (d - 1))
      in case (rates, info) of
           (Some (discount, wTax), Some di) \<Rightarrow>
             perform (insert_rows ol_key order_lines (\<lambda>rs t. t\<lparr>order_lines := rs\<rparr>)
               [\<lparr>ol_o_id = oid, ol_d_id = d, ol_w_id = w, ol_number = i, ol_i_id = iid, ol_supply_w_id = supply,
                 ol_delivery_d = None, ol_quantity = quantity,
                 ol_amount = numeric_cents (proc_amount quantity price wTax dTax discount), ol_dist_info = di\<rparr>])
               t (\<lambda>_ t. Inr t)
         | _ \<Rightarrow> Inl StoresNull)"

fun procNewOrder_lines ::
  "int \<Rightarrow> int \<Rightarrow> int \<Rightarrow> int \<Rightarrow> (int \<times> int) option \<Rightarrow> int \<Rightarrow> (int \<times> int \<times> int \<times> rat) list \<Rightarrow> proc" where
  "procNewOrder_lines w d oid dTax rates i [] t = Inr t"
| "procNewOrder_lines w d oid dTax rates i ((supply, iid, quantity, price) # ls) t =
     after_proc (procNewOrder_line w d oid dTax rates i supply iid quantity price t)
       (procNewOrder_lines w d oid dTax rates (i + 1) ls)"

text \<open>
  A district that does not exist makes \<open>o_id\<close> \<open>NULL\<close>, which its constraint refuses.  A rollback gives
  the tables of the start back and ends without an exception.
\<close>

definition procNewOrder ::
  "int \<Rightarrow> int \<Rightarrow> int \<Rightarrow> int \<Rightarrow> int list \<Rightarrow> int list \<Rightarrow> int list \<Rightarrow> string \<Rightarrow> int \<Rightarrow> proc" where
  "procNewOrder w d c olCnt supplies ids quantities entry allLocal t0 =
     (let t = t0;
          rates = head_of [(c_discount r, w_tax v). r \<leftarrow> customers t, v \<leftarrow> warehouses t,
            w_id v = w \<and> c_w_id r = w_id v \<and> c_d_id r = d \<and> c_id r = c] in
      case filter (\<lambda>r. d_id r = d \<and> d_w_id r = w) (districts t) of
        [] \<Rightarrow> Inl (Raises [PqError ''23502'' ''null value in column \"o_id\"''])
      | r # _ \<Rightarrow>
          let oid = d_next_o_id r in
          perform (do_newOrderUpdateDistrict oid d w) t (\<lambda>_ t.
          perform (do_newOrderInsertOrder oid d w c entry olCnt allLocal) t (\<lambda>_ t.
          perform (do_newOrderInsertNewOrder oid d w) t (\<lambda>_ t.
          after_proc (procNewOrder_prices (take (nat olCnt) ids) t [] False) (\<lambda>(prices, rollback).
            if rollback then Inr t0
            else procNewOrder_lines w d oid (d_tax r) rates 1
              (zip (take (nat olCnt) supplies) (zip ids (zip quantities prices))) t)))))"

subsection \<open>Payment\<close>

text \<open>The row in the middle, rounded up, of the customers with a name.\<close>

definition middle_customer :: "int \<Rightarrow> int \<Rightarrow> string \<Rightarrow> db \<Rightarrow> customer_row option" where
  "middle_customer w d l t =
     (let namecnt = int (length (by_last w d l t));
          namecnt = (if namecnt mod 2 = 1 then namecnt + 1 else namecnt);
          pos = namecnt div 2
      in if namecnt = 0 then None else Some (order_by_first (by_last w d l t) ! nat (pos - 1)))"

definition procPayment_data :: "Pg \<Rightarrow> int \<Rightarrow> int \<Rightarrow> int \<Rightarrow> int \<Rightarrow> int \<Rightarrow> int \<Rightarrow> string \<Rightarrow> string \<Rightarrow> string" where
  "procPayment_data P c cd cw d w amount date cData =
     (let new = ''| '' @ fmt_d c @ '' '' @ fmt_d cd @ '' '' @ fmt_d cw @ '' '' @ fmt_d d @ '' '' @ fmt_d w @ '' $'' @
            pg_numeric P amount @ '' '' @ pg_timestamp P date @ '' '' @ cData
      in if length new > 500 then take 500 new else new)"

definition procPayment ::
  "Pg \<Rightarrow> int \<Rightarrow> int \<Rightarrow> int \<Rightarrow> int \<Rightarrow> int \<Rightarrow> int option \<Rightarrow> string option \<Rightarrow> string \<Rightarrow> proc" where
  "procPayment P w d cw cd amount cid cLast date t =
     perform (do_paymentUpdateDistrict amount w d) t (\<lambda>_ t.
     let dName = head_of (map d_name (filter (\<lambda>r. d_w_id r = w \<and> d_id r = d) (districts t))) in
     perform (do_paymentUpdateWarehouse amount w) t (\<lambda>_ t.
     let wName = head_of (map w_name (filter (\<lambda>r. w_id r = w) (warehouses t))) in
     case (case cid of
             Some c \<Rightarrow> Inr c
           | None \<Rightarrow> (case Option.bind cLast (\<lambda>l. middle_customer cw cd l t) of
               None \<Rightarrow> raise ''customer not found''
             | Some r \<Rightarrow> Inr (c_id r))) of
       Inl e \<Rightarrow> Inl e
     | Inr c \<Rightarrow>
         let row = head_of (filter (customer_is cw cd c) (customers t)) in
         perform (case row of
             None \<Rightarrow> do_paymentUpdateCustomer amount cw cd c
           | Some r \<Rightarrow>
               if c_credit r = ''BC'' then
                 do_paymentUpdateCustomerWithData amount (procPayment_data P c cd cw d w amount date (c_data r)) cw cd c
               else do_paymentUpdateCustomer amount cw cd c) t (\<lambda>_ t.
         case (wName, dName) of
           (Some wn, Some dn) \<Rightarrow>
             perform (do_paymentInsertHistory
               \<lparr>h_c_id = c, h_c_d_id = cd, h_c_w_id = cw, h_d_id = d, h_w_id = w, h_date = date, h_amount = amount,
                h_data = take 24 (wn @ ''    '' @ dn)\<rparr>) t (\<lambda>_ t. Inr t)
         | _ \<Rightarrow> Inl StoresNull)))"

subsection \<open>Order-Status\<close>

text \<open>The latest order of the customer and its lines are read and thrown away.\<close>

definition procOrderStatus :: "int \<Rightarrow> int \<Rightarrow> int option \<Rightarrow> string option \<Rightarrow> proc" where
  "procOrderStatus w d cid cLast t =
     (case (case cid of
             Some c \<Rightarrow> Inr c
           | None \<Rightarrow> (case Option.bind cLast (\<lambda>l. middle_customer w d l t) of
               None \<Rightarrow> raise ''customer not found''
             | Some r \<Rightarrow> Inr (c_id r))) of
        Inl e \<Rightarrow> Inl e
      | Inr c \<Rightarrow>
          (case head_of (rev (sort (map o_id (filter (\<lambda>r. o_w_id r = w \<and> o_d_id r = d \<and> o_c_id r = c) (orders t))))) of
             None \<Rightarrow> Inr t
           | Some oid \<Rightarrow> perform (do_orderStatusSelectOrderLine w d oid) t (\<lambda>rows t. Inr t)))"

subsection \<open>Delivery\<close>

text \<open>
  One district.  \<open>RETURNING ... INTO\<close> gives the customer of the order; the sum of no lines is \<open>NULL\<close>.
\<close>

definition procDelivery_district :: "int \<Rightarrow> int \<Rightarrow> string \<Rightarrow> int \<Rightarrow> proc" where
  "procDelivery_district w carrier date d t =
     (case sort (map no_o_id (filter (\<lambda>r. no_w_id r = w \<and> no_d_id r = d) (new_orders t))) of
        [] \<Rightarrow> Inr t
      | oid # _ \<Rightarrow>
          perform (do_deliveryDeleteNewOrder [(w, d, oid)]) t (\<lambda>_ t.
          let cid = head_of (map o_c_id (filter (\<lambda>r. o_key r = (w, d, oid)) (orders t))) in
          perform (do_deliveryUpdateOrder carrier [(w, d, oid)]) t (\<lambda>_ t.
          perform (do_deliveryUpdateOrderLine date [(w, d, oid)]) t (\<lambda>_ t.
          let amounts = map ol_amount (filter (\<lambda>r. ol_order r = (w, d, oid)) (order_lines t)) in
          case cid of
            None \<Rightarrow> Inr t
          | Some c \<Rightarrow>
              if amounts = [] then
                (if filter (customer_is w d c) (customers t) = [] then Inr t else Inl StoresNull)
              else perform (do_deliveryUpdateCustomer (sum_list amounts) w d c) t (\<lambda>_ t. Inr t)))))"

fun procDelivery_from :: "int list \<Rightarrow> int \<Rightarrow> int \<Rightarrow> string \<Rightarrow> proc" where
  "procDelivery_from [] w carrier date t = Inr t"
| "procDelivery_from (d # ds) w carrier date t =
     after_proc (procDelivery_district w carrier date d t) (procDelivery_from ds w carrier date)"

definition procDelivery :: "int \<Rightarrow> int \<Rightarrow> string \<Rightarrow> proc" where
  "procDelivery w carrier date = procDelivery_from [1, 2, 3, 4, 5, 6, 7, 8, 9, 10] w carrier date"

subsection \<open>Stock-Level\<close>

definition procStockLevel :: "int \<Rightarrow> int \<Rightarrow> int \<Rightarrow> proc" where
  "procStockLevel w d threshold t =
     (case head_of (map d_next_o_id (filter (\<lambda>r. d_w_id r = w \<and> d_id r = d) (districts t))) of
        None \<Rightarrow> Inr t
      | Some oid \<Rightarrow> perform (do_stockLevelCount w d oid threshold) t (\<lambda>cnt t. Inr t))"

subsection \<open>The calls\<close>

fun procedure :: "Pg \<Rightarrow> procArgs \<Rightarrow> proc" where
  "procedure P (NewOrderArgs w d c n supplies ids quantities entry allLocal) =
     procNewOrder w d c n supplies ids quantities entry allLocal"
| "procedure P (PaymentArgs w d cw cd amount cid cLast date) = procPayment P w d cw cd amount cid cLast date"
| "procedure P (OrderStatusArgs w d cid cLast) = procOrderStatus w d cid cLast"
| "procedure P (DeliveryArgs w carrier date) = procDelivery w carrier date"
| "procedure P (StockLevelArgs w d threshold) = procStockLevel w d threshold"

text \<open>As a statement, which stops at a \<open>NULL\<close> that the rows cannot hold.\<close>

definition call_procedure :: "Pg \<Rightarrow> procArgs \<Rightarrow> unit stmt" where
  "call_procedure P args t =
     (case procedure P args t of
        Inr t \<Rightarrow> Inr ((), t)
      | Inl (Raises e) \<Rightarrow> Inl e
      | Inl StoresNull \<Rightarrow> Inl [Plain ''null''])"

end
