(* ===== verification/TpccPlpgsqlInv.thy ===== *)
theory TpccPlpgsqlInv
  imports TpccPlpgsql TpccPayInv TpccNewSpec
begin

text \<open>
  The procedures keep the tables consistent and complete, and on complete tables none of them stores a
  \<open>NULL\<close>; New-Order does what its specification says.
\<close>

subsection \<open>Complete tables\<close>

text \<open>Every row that an input may ask for exists, and every order has a line.\<close>

definition complete :: "int \<Rightarrow> db \<Rightarrow> bool" where
  "complete W t \<longleftrightarrow>
     {1..W} \<subseteq> w_id ` set (warehouses t) \<and> {1..W} \<times> {1..10} \<subseteq> d_key ` set (districts t) \<and>
     {1..W} \<times> {1..10} \<times> {1..3000} \<subseteq> c_key ` set (customers t) \<and> {1..100000} \<subseteq> i_id ` set (items t) \<and>
     {1..W} \<times> {1..100000} \<subseteq> s_key ` set (stocks t) \<and> distinct (map s_key (stocks t)) \<and> distinct (map i_id (items t)) \<and>
     (\<forall>r \<in> set (orders t). 1 \<le> o_ol_cnt r)"

lemma completeD:
  assumes "complete W t" "w \<in> {1..W}"
  shows "\<exists>v \<in> set (warehouses t). w_id v = w"
    "d \<in> {1..10} \<Longrightarrow> \<exists>r \<in> set (districts t). d_key r = (w, d)"
    "d \<in> {1..10} \<Longrightarrow> c \<in> {1..3000} \<Longrightarrow> \<exists>r \<in> set (customers t). c_key r = (w, d, c)"
    "i \<in> {1..100000} \<Longrightarrow> \<exists>r \<in> set (items t). i_id r = i"
    "i \<in> {1..100000} \<Longrightarrow> \<exists>r \<in> set (stocks t). s_key r = (w, i)"
proof -
  note c = assms(1) [unfolded complete_def]
  have "w \<in> w_id ` set (warehouses t)" using c assms(2) by blast
  then show "\<exists>v \<in> set (warehouses t). w_id v = w" by (elim imageE) blast
  show "\<exists>r \<in> set (districts t). d_key r = (w, d)" if "d \<in> {1..10}"
  proof -
    have "(w, d) \<in> {1..W} \<times> {1..10}" using that assms(2) by (rule SigmaI [rotated])
    then have "(w, d) \<in> d_key ` set (districts t)" using c by blast
    then show ?thesis by (elim imageE) (intro bexI, erule sym)
  qed
  show "\<exists>r \<in> set (customers t). c_key r = (w, d, c)" if "d \<in> {1..10}" "c \<in> {1..3000}"
  proof -
    have "(w, d, c) \<in> {1..W} \<times> {1..10} \<times> {1..3000}" using that assms(2) by (intro SigmaI)
    then have "(w, d, c) \<in> c_key ` set (customers t)" using c by blast
    then show ?thesis by (elim imageE) (intro bexI, erule sym)
  qed
  show "\<exists>r \<in> set (items t). i_id r = i" if "i \<in> {1..100000}"
  proof -
    have "i \<in> i_id ` set (items t)" using c that by blast
    then show ?thesis by (elim imageE) (intro bexI, erule sym)
  qed
  show "\<exists>r \<in> set (stocks t). s_key r = (w, i)" if "i \<in> {1..100000}"
  proof -
    have "(w, i) \<in> {1..W} \<times> {1..100000}" using that assms(2) by (rule SigmaI [rotated])
    then have "(w, i) \<in> s_key ` set (stocks t)" using c by blast
    then show ?thesis by (elim imageE) (intro bexI, erule sym)
  qed
qed

definition safe_end :: "int \<Rightarrow> stop + db \<Rightarrow> bool" where
  "safe_end W r \<longleftrightarrow> (case r of Inr t \<Rightarrow> consistent t \<and> complete W t | Inl (Raises e) \<Rightarrow> True | Inl StoresNull \<Rightarrow> False)"

lemma safe_end_simps [simp]:
  "safe_end W (Inr t) \<longleftrightarrow> consistent t \<and> complete W t" "safe_end W (Inl (Raises e))" "\<not> safe_end W (Inl StoresNull)"
  "safe_end W (raise msg)"
  by (simp_all add: safe_end_def raise_def)

lemma perform_simps [simp]:
  "perform (update f) t k = k () (f t)" "perform (select g) t k' = k' (g t) t"
  by (simp_all add: perform_def update_def select_def)

lemma after_proc_simps [simp]: "after_proc (Inl e) k = Inl e" "after_proc (Inr x) k = k x"
  by (simp_all add: after_proc_def)

lemma head_of_Some: "x \<in> set rs \<Longrightarrow> \<exists>y. head_of rs = Some y"
  by (cases rs) (simp_all add: head_of_def)

lemma head_of_map: "x \<in> set rs \<Longrightarrow> \<exists>y. head_of (map f rs) = Some y"
  by (cases rs) (simp_all add: head_of_def)

lemma head_of_mem: "head_of rs = Some y \<Longrightarrow> y \<in> set rs"
  by (cases rs) (simp_all add: head_of_def)

subsection \<open>Payment\<close>

lemma payment_complete:
  assumes "\<And>r. c_key (u r) = c_key r"
  shows "complete W (payment_effect a w d k u h t) = complete W t"
proof -
  have "w_id ` set (set_where (\<lambda>r. w_id r = w) (\<lambda>r. r\<lparr>w_ytd := w_ytd r + a\<rparr>) (warehouses t)) = w_id ` set (warehouses t)"
    "d_key ` set (set_where (\<lambda>r. d_w_id r = w \<and> d_id r = d) (\<lambda>r. r\<lparr>d_ytd := d_ytd r + a\<rparr>) (districts t)) = d_key ` set (districts t)"
    "c_key ` set (set_where (\<lambda>r. c_key r = k) u (customers t)) = c_key ` set (customers t)"
    by (rule image_set_where; simp add: assms d_key_def)+
  then show ?thesis by (simp add: complete_def payment_effect_def)
qed

lemma procPayment_data_length:
  assumes "300 \<le> length cData"
  shows "300 \<le> length (procPayment_data P c cd cw d w a date cData) \<and> length (procPayment_data P c cd cw d w a date cData) \<le> 500"
  using assms by (auto simp: procPayment_data_def Let_def)

lemma procPayment_safe:
  assumes t: "consistent t" "complete W t" and w: "w \<in> {1..W}" "d \<in> {1..10}"
  shows "safe_end W (procPayment P w d cw cd a cid cLast date t)"
proof -
  obtain r0 where r0: "r0 \<in> set (districts t)" "d_key r0 = (w, d)"
    using completeD(2) [OF t(2) w] by blast
  obtain v0 where v0: "v0 \<in> set (warehouses t)" "w_id v0 = w"
    using completeD(1) [OF t(2) w(1)] by blast
  let ?ds = "set_where (\<lambda>r. d_w_id r = w \<and> d_id r = d) (\<lambda>r. r\<lparr>d_ytd := d_ytd r + a\<rparr>) (districts t)"
  let ?ws = "set_where (\<lambda>r. w_id r = w) (\<lambda>r. r\<lparr>w_ytd := w_ytd r + a\<rparr>) (warehouses t)"
  have "r0\<lparr>d_ytd := d_ytd r0 + a\<rparr> \<in> set (filter (\<lambda>r. d_w_id r = w \<and> d_id r = d) ?ds)"
    using r0 by (auto simp: set_set_where d_key_def)
  from head_of_map [OF this, of d_name]
  obtain dn where dn: "head_of (map d_name (filter (\<lambda>r. d_w_id r = w \<and> d_id r = d) ?ds)) = Some dn" ..
  have "v0\<lparr>w_ytd := w_ytd v0 + a\<rparr> \<in> set (filter (\<lambda>r. w_id r = w) ?ws)" using v0 by (auto simp: set_set_where)
  from head_of_map [OF this, of w_name]
  obtain wn where wn: "head_of (map w_name (filter (\<lambda>r. w_id r = w) ?ws)) = Some wn" ..
  have len: "300 \<le> length (c_data r) \<and> length (c_data r) \<le> 500" if "r \<in> set (customers t)" for r
    using t(1) that by (simp add: consistent_def cond_values_def)
  have fin: "safe_end W (Inr (t\<lparr>districts := ?ds, warehouses := ?ws,
        customers := set_where (customer_is cw cd c) u (customers t), histories := histories t @ [h]\<rparr>))"
    if u: "\<And>r. c_key (u r) = c_key r" "\<And>r. c_balance (u r) = c_balance r - a" "\<And>r. c_ytd_payment (u r) = c_ytd_payment r + a"
      "\<And>r. r \<in> set (customers t) \<Longrightarrow> 300 \<le> length (c_data (u r)) \<and> length (c_data (u r)) \<le> 500"
      and h: "h_w_id h = w" "h_d_id h = d" "h_amount h = a" "(h_c_w_id h, h_c_d_id h, h_c_id h) = (cw, cd, c)" for u h c
    using payment_effect_consistent [OF t(1) r0 u h] payment_complete [of u W a w d "(cw, cd, c)" h t, OF u(1)] t(2)
    by (simp add: payment_effect_def customer_is_key [abs_def])
  have cust: "safe_end W (let row = head_of (filter (customer_is cw cd c) (customers t)) in
         perform (case row of
             None \<Rightarrow> do_paymentUpdateCustomer a cw cd c
           | Some r \<Rightarrow>
               if c_credit r = ''BC'' then
                 do_paymentUpdateCustomerWithData a (procPayment_data P c cd cw d w a date (c_data r)) cw cd c
               else do_paymentUpdateCustomer a cw cd c) (t\<lparr>districts := ?ds, warehouses := ?ws\<rparr>) (\<lambda>_ t.
         case (Some wn, Some dn) of
           (Some wn, Some dn) \<Rightarrow>
             perform (do_paymentInsertHistory
               \<lparr>h_c_id = c, h_c_d_id = cd, h_c_w_id = cw, h_d_id = d, h_w_id = w, h_date = date, h_amount = a,
                h_data = take 24 (wn @ ''    '' @ dn)\<rparr>) t (\<lambda>_ t. Inr t)
         | _ \<Rightarrow> Inl StoresNull))" for c
  proof -
    have plain: "safe_end W (Inr (t\<lparr>districts := ?ds, warehouses := ?ws,
        customers := set_where (customer_is cw cd c) (paid a) (customers t), histories := histories t @
          [\<lparr>h_c_id = c, h_c_d_id = cd, h_c_w_id = cw, h_d_id = d, h_w_id = w, h_date = date, h_amount = a,
            h_data = take 24 (wn @ ''    '' @ dn)\<rparr>]\<rparr>))"
      by (rule fin) (use len in \<open>auto simp: paid_def c_key_def\<close>)
    have data: "safe_end W (Inr (t\<lparr>districts := ?ds, warehouses := ?ws,
        customers := set_where (customer_is cw cd c) (\<lambda>r. (paid a r)\<lparr>c_data := new\<rparr>) (customers t), histories := histories t @
          [\<lparr>h_c_id = c, h_c_d_id = cd, h_c_w_id = cw, h_d_id = d, h_w_id = w, h_date = date, h_amount = a,
            h_data = take 24 (wn @ ''    '' @ dn)\<rparr>]\<rparr>))" if "300 \<le> length new \<and> length new \<le> 500" for new
      by (rule fin) (use that in \<open>auto simp: paid_def c_key_def\<close>)
    show ?thesis
    proof (cases "head_of (filter (customer_is cw cd c) (customers t))")
      case None
      then show ?thesis using plain by (simp add: do_paymentUpdateCustomer_def do_paymentInsertHistory_def)
    next
      case (Some r)
      then have "r \<in> set (customers t)" using head_of_mem by fastforce
      then have "300 \<le> length (procPayment_data P c cd cw d w a date (c_data r)) \<and> length (procPayment_data P c cd cw d w a date (c_data r)) \<le> 500"
        using procPayment_data_length len by blast
      then show ?thesis
        using Some plain data by (simp add: do_paymentUpdateCustomer_def do_paymentUpdateCustomerWithData_def do_paymentInsertHistory_def)
    qed
  qed
  show ?thesis
  proof (cases cid)
    case (Some c)
    then show ?thesis using cust [of c]
      by (simp add: procPayment_def do_paymentUpdateDistrict_def do_paymentUpdateWarehouse_def Let_def wn dn)
  next
    case None
    show ?thesis
    proof (cases "Option.bind cLast (\<lambda>l. middle_customer cw cd l (t\<lparr>districts := ?ds, warehouses := ?ws\<rparr>))")
      case None
      then show ?thesis using \<open>cid = None\<close>
        by (simp add: procPayment_def do_paymentUpdateDistrict_def do_paymentUpdateWarehouse_def Let_def raise_def)
    next
      case (Some r)
      then show ?thesis using \<open>cid = None\<close> cust [of "c_id r"]
        by (simp add: procPayment_def do_paymentUpdateDistrict_def do_paymentUpdateWarehouse_def Let_def wn dn)
    qed
  qed
qed

end
