(* ===== verification/Spec2Isabelle.thy ===== *)
theory Spec2Isabelle
  imports DbgenDriver SqlSink TpccSchema TpccNewSpec TpccRunInv ConnAdmit MeasureSpec TpccPlpgsqlInv
begin

text \<open>
  go-tpc runs the benchmarks TPC-C, TPC-H and CH-benCHmark against a SQL database.  This development
  models the parts of it that carry logic of their own and proves what makes them correct.

  \<^bold>\<open>The program.\<close>  A command (\<open>cmd/go-tpc\<close>) starts a number of workers.  For TPC-C each worker
  (\<open>tpcc/workload.go\<close>) owns a connection and prepared statements on it, draws one of five
  transactions, draws its input (\<open>tpcc/rand.go\<close>) and runs it (\<open>tpcc/new_order.go\<close> and so on), either
  statement by statement or as a call of a stored procedure (\<open>tpcc/procs_pg.go\<close>).  \<open>tpcc/check.go\<close>
  checks the consistency conditions of clause 3.3.2 afterwards.  New connections may have to pass a
  predicate (\<open>pkg/connadmit\<close>).  For TPC-H the rows of the tables are generated by a translation of
  the C program dbgen (\<open>tpch/dbgen\<close>) and written in batches by the sinks (\<open>pkg/sink\<close>).

  \<^bold>\<open>Foundations.\<close>  \<open>Prelude\<close>: wrap-around of 32 and 64 bits, Go's slices and indexing as partial
  functions (\<open>None\<close> is a panic), decimal texts, and the collections of rewrite rules.  \<open>GoFloat\<close>:
  \<open>float64\<close> as exact rationals rounded to nearest even.  Loops that may not end are partial functions,
  so that \<open>None\<close> also stands for not returning; that a loop ends is always proved.

  \<^bold>\<open>dbgen\<close> (\<open>tpch/dbgen\<close>).  \<open>DbgenRand\<close> and \<open>DbgenStream\<close>: the generators of \<open>rand.go\<close>, jumping ahead,
  the streams of the tables and their boundaries.  \<open>Dists\<close>: the data of \<open>dist/loaddist.go\<close>.
  \<open>DbgenDist\<close>, \<open>DbgenText\<close>, \<open>DbgenMisc\<close>: \<open>dist.go\<close> and \<open>misc.go\<close>.  \<open>DbgenVars\<close>: the package variables
  and their initialisation.  \<open>DbgenPart\<close>, \<open>DbgenSupp\<close>, \<open>DbgenOrder\<close>: the makers of rows.
  \<open>DbgenDriver\<close>: \<open>driver.go\<close>.  The lemmas show that jumping ahead equals stepping, that draws are in
  range and proportional to the weights of the distributions, that no maker panics for the keys of
  its scale and which fields its rows have, that each row takes no more of each stream than its
  boundary, and from this that skipping rows leaves every stream where generating them would, so
  that tables can be generated in pieces.

  \<^bold>\<open>SQL sink\<close> (\<open>pkg/sink\<close>).  \<open>SqlErr\<close>: chains of errors and their classification.  \<open>SqlSink\<close>: texts of
  rows, batches, retries and the report.  Executing a statement is a parameter; on an honest
  database retrying stores each batch at most once.

  \<^bold>\<open>TPC-C.\<close>  \<open>TpccRand\<close>: \<open>rand.go\<close> over an arbitrary source of numbers.  \<open>TpccSql\<close>: the texts of all
  statements.  \<open>TpccDb\<close>: tables as lists of rows, statements as functions on them, and the replies of
  the driver: each call goes through, is refused, or takes effect with its reply lost.
  \<open>TpccNewOrder\<close> and \<open>TpccTxn\<close>: the five transactions, every early return and the rollback included.
  \<open>TpccInv\<close> states the consistency of the tables; \<open>TpccPayInv\<close>, \<open>TpccNewInv\<close> and \<open>TpccDelInv\<close> show
  that each transaction keeps it; \<open>TpccSafe\<close> lifts this to any history of transactions with any
  inputs drawn and any replies.  \<open>TpccNewSpec\<close> specifies New-Order as one step on the tables and
  shows that the loops over items and stock implement it.  \<open>TpccCheck\<close>: the queries of \<open>check.go\<close>
  evaluated on the tables, with outer joins and \<open>NULL\<close>; they raise no false alarm after any history,
  and what they miss is shown.  \<open>TpccLoad\<close>: \<open>load.go\<close> and \<open>prepare.go\<close>, thread by thread.
  \<open>TpccLoadInv\<close> shows which rows each thread hands over, that the threads together make one item
  part, one part for each warehouse and one for each district, and that a thread returns and reports
  the errors of its sinks; \<open>TpccPopulated\<close> that these rows are consistent, so that the theorem on
  histories applies to what \<open>prepare\<close> leaves behind.  \<open>TpccProc\<close>: the mode with stored procedures.  \<open>TpccRun\<close> and
  \<open>TpccRunInv\<close>: the worker, with a log of connections, statements and transactions; \<open>worker\<close> is the
  relation of the states it can reach, between which other workers may change everything shared.

  \<open>TpccPrepare\<close>: the workers meeting between creating and loading the tables (\<open>Prepare\<close>), every
  interleaving of them; \<open>TpccDdl\<close>: the partition clauses of \<open>ddl.go\<close>; \<open>TpccSchema\<close>: all its
  statements, run in order on a catalog of tables, indexes and foreign keys, and what happens when a
  database is prepared twice or cleaned up.

  \<^bold>\<open>Workers\<close> (\<open>cmd/go-tpc/misc.go\<close>).  \<open>RunLoop\<close>: the loop of a worker over an arbitrary workload, its
  waits after failures, the dispatch on the action, and which error a command reports.

  \<^bold>\<open>Connection admission\<close> (\<open>pkg/connadmit\<close>).  \<open>ConnAdmit\<close>: the loop of \<open>Connect\<close> over an arbitrary
  driver.

  \<^bold>\<open>Measurement\<close> (\<open>pkg/measurement\<close>).  \<open>Measurement\<close>: histograms over the library of buckets, a
  parameter, the maps of an interval and of the run as addresses in a store, and a step relation of
  workers that measure while a goroutine takes ticks.  \<open>MeasureInv\<close>: the invariant that counts samples.
  \<open>MeasureSpec\<close>: no sample is lost, the summary is exact, and what the rows of the ticks can miss.

  \<^bold>\<open>Choices.\<close>  Random sources, clocks and replies are streams; theorems hold for all of them.
  Amounts of money are numbers of cents, rates are exact rationals of the \<open>DECIMAL\<close> columns.  Statements
  are atomic and transactions run one after another, as under serializable isolation.  Loops over a
  Go map take an arbitrary order where the order can be seen.

  \<^bold>\<open>Not modelled.\<close>  Concurrency inside the database; mutexes; printing, logging and progress; flags;
  waiting; the buckets of the histogram library; the texts of the
  analytical queries with their expected answers (data for a server); the bodies of the stored
  procedures, which run in the server; allocation of buffers.
\<close>

end
